(* ===== verification/Prelude.thy ===== *)
theory Prelude
  imports Complex_Main "HOL-Library.Word"
begin

text \<open>
  Shared vocabulary of the development: Rust's \<open>Result\<close> as a sum type with the
  combinators the code uses, checked and saturating arithmetic of the fixed-width unsigned
  integers, little-endian conversions, \<open>chunks\<close>, and the generic interfaces
  (a bounded permit pool, a chunked stream, an invariant of a transition system) that several
  components implement.
\<close>

section \<open>Lemma collections\<close>

named_theorems res_simps \<open>inversion rules for the Result combinators\<close>
named_theorems num_defs \<open>definitions of the checked arithmetic\<close>

section \<open>Results\<close>

text \<open>\<open>Result<A, E>\<close> is \<open>'e + 'a\<close>: \<open>Inl\<close> is \<open>Err\<close>, \<open>Inr\<close> is \<open>Ok\<close>.\<close>

definition and_then :: "'e + 'a \<Rightarrow> ('a \<Rightarrow> 'e + 'b) \<Rightarrow> 'e + 'b" where
  "and_then r f = (case r of Inl e \<Rightarrow> Inl e | Inr a \<Rightarrow> f a)"

definition map_err :: "('e \<Rightarrow> 'f) \<Rightarrow> 'e + 'a \<Rightarrow> 'f + 'a" where
  "map_err f r = (case r of Inl e \<Rightarrow> Inl (f e) | Inr a \<Rightarrow> Inr a)"

definition map_ok :: "('a \<Rightarrow> 'b) \<Rightarrow> 'e + 'a \<Rightarrow> 'e + 'b" where
  "map_ok f r = (case r of Inl e \<Rightarrow> Inl e | Inr a \<Rightarrow> Inr (f a))"

definition ok_or :: "'e \<Rightarrow> 'a option \<Rightarrow> 'e + 'a" where
  "ok_or e x = (case x of None \<Rightarrow> Inl e | Some a \<Rightarrow> Inr a)"

definition ensure :: "bool \<Rightarrow> 'e \<Rightarrow> 'e + unit" where
  "ensure b e = (if b then Inr () else Inl e)"

definition is_ok :: "'e + 'a \<Rightarrow> bool" where
  "is_ok r = (case r of Inl _ \<Rightarrow> False | Inr _ \<Rightarrow> True)"

lemma and_then_simps [simp]:
  "and_then (Inl e) f = Inl e" "and_then (Inr a) f = f a"
  by (simp_all add: and_then_def)

lemma map_err_simps [simp]:
  "map_err g (Inl e) = Inl (g e)" "map_err g (Inr a) = Inr a"
  by (simp_all add: map_err_def)

lemma map_ok_simps [simp]:
  "map_ok g (Inl e) = Inl e" "map_ok g (Inr a) = Inr (g a)"
  by (simp_all add: map_ok_def)

lemma ok_or_simps [simp]: "ok_or e None = Inl e" "ok_or e (Some a) = Inr a"
  by (simp_all add: ok_or_def)

lemma ensure_simps [simp]: "ensure True e = Inr ()" "ensure False e = Inl e"
  by (simp_all add: ensure_def)

lemma is_ok_simps [simp]: "\<not> is_ok (Inl e)" "is_ok (Inr a)"
  by (simp_all add: is_ok_def)

lemma is_ok_iff: "is_ok r \<longleftrightarrow> (\<exists>a. r = Inr a)"
  by (cases r) auto

lemma and_then_Inr_iff [res_simps]:
  "and_then r f = Inr b \<longleftrightarrow> (\<exists>a. r = Inr a \<and> f a = Inr b)"
  by (cases r) auto

lemma and_then_Inl_iff [res_simps]:
  "and_then r f = Inl e \<longleftrightarrow> r = Inl e \<or> (\<exists>a. r = Inr a \<and> f a = Inl e)"
  by (cases r) auto

lemma map_err_Inr_iff [res_simps]: "map_err g r = Inr b \<longleftrightarrow> r = Inr b"
  by (cases r) auto

lemma map_err_Inl_iff [res_simps]: "map_err g r = Inl e \<longleftrightarrow> (\<exists>x. r = Inl x \<and> g x = e)"
  by (cases r) auto

lemma map_ok_Inr_iff [res_simps]: "map_ok g r = Inr b \<longleftrightarrow> (\<exists>a. r = Inr a \<and> g a = b)"
  by (cases r) auto

lemma map_ok_Inl_iff [res_simps]: "map_ok g r = Inl e \<longleftrightarrow> r = Inl e"
  by (cases r) auto

lemma ok_or_Inr_iff [res_simps]: "ok_or e x = Inr a \<longleftrightarrow> x = Some a"
  by (cases x) auto

lemma ok_or_Inl_iff [res_simps]: "ok_or e x = Inl d \<longleftrightarrow> x = None \<and> d = e"
  by (cases x) auto

lemma ensure_Inr_iff [res_simps]: "ensure b e = Inr u \<longleftrightarrow> b"
  by (cases b) auto

lemma ensure_Inl_iff [res_simps]: "ensure b e = Inl d \<longleftrightarrow> \<not> b \<and> d = e"
  by (cases b) auto

lemma and_then_cong [fundef_cong]:
  assumes "r = r'" and "\<And>a. r' = Inr a \<Longrightarrow> f a = g a"
  shows "and_then r f = and_then r' g"
  using assms by (cases r') auto

section \<open>Fixed-width unsigned arithmetic\<close>

text \<open>
  \<open>u16\<close>, \<open>u32\<close>, \<open>u64\<close> and \<open>usize\<close> values are natural
  numbers; every operation of the code that could leave the width is written with its check. The
  supported targets are x86-64, so \<open>usize\<close> is 64 bits wide.
\<close>

definition u16_max :: nat where "u16_max = 65535"
definition u32_max :: nat where "u32_max = 4294967295"
definition u64_max :: nat where "u64_max = 18446744073709551615"

definition checked_add64 :: "nat \<Rightarrow> nat \<Rightarrow> nat option" where
  [num_defs]: "checked_add64 a b = (if a + b \<le> u64_max then Some (a + b) else None)"

definition checked_mul64 :: "nat \<Rightarrow> nat \<Rightarrow> nat option" where
  [num_defs]: "checked_mul64 a b = (if a * b \<le> u64_max then Some (a * b) else None)"

definition checked_div64 :: "nat \<Rightarrow> nat \<Rightarrow> nat option" where
  [num_defs]: "checked_div64 a b = (if b = 0 then None else Some (a div b))"

definition checked_add32 :: "nat \<Rightarrow> nat \<Rightarrow> nat option" where
  [num_defs]: "checked_add32 a b = (if a + b \<le> u32_max then Some (a + b) else None)"

definition checked_mul32 :: "nat \<Rightarrow> nat \<Rightarrow> nat option" where
  [num_defs]: "checked_mul32 a b = (if a * b \<le> u32_max then Some (a * b) else None)"

definition saturating_mul32 :: "nat \<Rightarrow> nat \<Rightarrow> nat" where
  [num_defs]: "saturating_mul32 a b = min (a * b) u32_max"

definition saturating_add64 :: "nat \<Rightarrow> nat \<Rightarrow> nat" where
  [num_defs]: "saturating_add64 a b = min (a + b) u64_max"

definition saturating_mul64 :: "nat \<Rightarrow> nat \<Rightarrow> nat" where
  [num_defs]: "saturating_mul64 a b = min (a * b) u64_max"

definition try_u16 :: "nat \<Rightarrow> nat option" where
  [num_defs]: "try_u16 n = (if n \<le> u16_max then Some n else None)"

definition try_u32 :: "nat \<Rightarrow> nat option" where
  [num_defs]: "try_u32 n = (if n \<le> u32_max then Some n else None)"

definition try_u64 :: "nat \<Rightarrow> nat option" where
  [num_defs]: "try_u64 n = (if n \<le> u64_max then Some n else None)"

lemma checked_add64_Some [simp]:
  "checked_add64 a b = Some c \<longleftrightarrow> a + b \<le> u64_max \<and> c = a + b"
  by (auto simp: checked_add64_def)

lemma checked_mul64_Some [simp]:
  "checked_mul64 a b = Some c \<longleftrightarrow> a * b \<le> u64_max \<and> c = a * b"
  by (auto simp: checked_mul64_def)

section \<open>Bytes\<close>

type_synonym u8 = "8 word"
type_synonym i16 = "16 word"

text \<open>\<open>i16::from_le_bytes\<close>, \<open>u16::from_le_bytes\<close>, \<open>u32::from_le_bytes\<close> and their inverses.\<close>

definition u16_from_le :: "u8 \<Rightarrow> u8 \<Rightarrow> nat" where
  "u16_from_le b0 b1 = unat b0 + 256 * unat b1"

definition u32_from_le :: "u8 \<Rightarrow> u8 \<Rightarrow> u8 \<Rightarrow> u8 \<Rightarrow> nat" where
  "u32_from_le b0 b1 b2 b3 =
     unat b0 + 256 * unat b1 + 65536 * unat b2 + 16777216 * unat b3"

definition i16_from_le :: "u8 \<Rightarrow> u8 \<Rightarrow> i16" where
  "i16_from_le lo hi = word_of_nat (u16_from_le lo hi)"

definition u16_to_le :: "nat \<Rightarrow> u8 list" where
  "u16_to_le n = [word_of_nat n, word_of_nat (n div 256)]"

definition u32_to_le :: "nat \<Rightarrow> u8 list" where
  "u32_to_le n = [word_of_nat n, word_of_nat (n div 256), word_of_nat (n div 65536),
     word_of_nat (n div 16777216)]"

definition i16_to_le :: "i16 \<Rightarrow> u8 list" where
  "i16_to_le w = u16_to_le (unat w)"

lemma unat_u8_of_nat: "unat (word_of_nat n :: u8) = n mod 256"
  by (simp add: unat_of_nat)

lemma unat_u8_less [simp]: "unat (b :: u8) < 256"
  using unsigned_less [of b] by simp

lemma unat_i16_less [simp]: "unat (w :: i16) < 65536"
  using unsigned_less [of w] by simp

lemma word_u8_of_nat_add_mult:
  "(word_of_nat (unat b + 256 * m) :: u8) = b"
  by (metis mod_less mod_mult_self2 unat_u8_less unat_u8_of_nat word_unat_eq_iff)

lemma length_to_le [simp]:
  "length (u16_to_le n) = 2" "length (u32_to_le n) = 4" "length (i16_to_le w) = 2"
  by (simp_all add: u16_to_le_def u32_to_le_def i16_to_le_def)

lemma u16_from_le_less: "u16_from_le a b < 65536"
  using unat_u8_less [of a] unat_u8_less [of b] unfolding u16_from_le_def by linarith

lemma u32_from_le_le: "u32_from_le a b c d \<le> u32_max"
  using unat_u8_less [of a] unat_u8_less [of b] unat_u8_less [of c] unat_u8_less [of d]
  unfolding u32_from_le_def u32_max_def by linarith

lemma u16_le_roundtrip: "n \<le> u16_max \<Longrightarrow> u16_to_le n = [a, b] \<Longrightarrow> u16_from_le a b = n"
  by (auto simp: u16_to_le_def u16_from_le_def unat_u8_of_nat u16_max_def)

lemma base256_digits:
  fixes n :: nat
  assumes "n div 256 div 256 div 256 < 256"
  shows "n mod 256 + 256 * (n div 256 mod 256) + 65536 * (n div 256 div 256 mod 256) +
    16777216 * (n div 256 div 256 div 256 mod 256) = n"
proof -
  define x y z where "x = n div 256" and "y = x div 256" and "z = y div 256"
  have "n = 256 * x + n mod 256" "x = 256 * y + x mod 256" "y = 256 * z + y mod 256"
    unfolding x_def y_def z_def by simp_all
  moreover have "z mod 256 = z" using assms by (simp add: x_def y_def z_def)
  ultimately show ?thesis
    unfolding x_def [symmetric] y_def [symmetric] z_def [symmetric] by linarith
qed

lemma u32_le_roundtrip:
  assumes n: "n \<le> u32_max" and l: "u32_to_le n = [a, b, c, d]"
  shows "u32_from_le a b c d = n"
proof -
  have d2: "n div 65536 = n div 256 div 256" and d3: "n div 16777216 = n div 256 div 256 div 256"
    by (simp_all add: div_mult2_eq [symmetric])
  have "n div 256 div 256 div 256 < 256"
    using n by (simp add: u32_max_def div_mult2_eq [symmetric])
  from base256_digits [OF this] l show ?thesis
    by (auto simp only: u32_to_le_def u32_from_le_def unat_u8_of_nat d2 d3 list.inject)
qed

lemma i16_from_to_le: "i16_to_le w = [a, b] \<Longrightarrow> i16_from_le a b = w"
proof -
  assume "i16_to_le w = [a, b]"
  then have "u16_from_le a b = unat w"
    using u16_le_roundtrip [of "unat w" a b] unat_i16_less [of w]
    by (simp add: i16_to_le_def u16_max_def)
  then show ?thesis by (simp add: i16_from_le_def)
qed

lemma i16_to_from_le: "i16_to_le (i16_from_le a b) = [a, b]"
proof -
  have 1: "unat (i16_from_le a b) = unat a + 256 * unat b"
    using u16_from_le_less [of a b] unfolding i16_from_le_def u16_from_le_def
    by (simp only: unat_of_nat) simp
  have 2: "(unat a + 256 * unat b) div 256 = unat b"
    using unat_u8_less [of a] by simp
  show ?thesis
    unfolding i16_to_le_def u16_to_le_def 1 2 by (simp only: word_u8_of_nat_add_mult) simp
qed

section \<open>Loops with an early return\<close>

text \<open>\<open>for x in xs { out.push(f(x)?); }\<close>\<close>

fun collect_ok :: "('a \<Rightarrow> 'e + 'b) \<Rightarrow> 'a list \<Rightarrow> 'e + 'b list" where
  "collect_ok f [] = Inr []"
| "collect_ok f (x # xs) = and_then (f x) (\<lambda>b. map_ok ((#) b) (collect_ok f xs))"

lemma collect_ok_map: "(\<And>x. x \<in> set xs \<Longrightarrow> f x = Inr (g x)) \<Longrightarrow> collect_ok f xs = Inr (map g xs)"
  by (induction xs) auto

lemma collect_ok_Inr_iff:
  "collect_ok f xs = Inr ys \<longleftrightarrow> list_all2 (\<lambda>x y. f x = Inr y) xs ys"
proof (induction xs arbitrary: ys)
  case (Cons x xs)
  show ?case by (cases ys) (auto simp: res_simps Cons.IH)
qed auto

section \<open>Chunked streams\<close>

text \<open>
  A stateful object that is fed chunks and answers each with newly available output, or with
  an error; the driver stops at the first error, as every caller of the code does.
\<close>

fun run_chunks ::
  "('s \<Rightarrow> 'a list \<Rightarrow> ('e + 'b list) \<times> 's) \<Rightarrow> 's \<Rightarrow> 'a list list \<Rightarrow> ('e + 'b list) \<times> 's"
where
  "run_chunks push s [] = (Inr [], s)"
| "run_chunks push s (c # cs) =
     (case push s c of
        (Inl e, s') \<Rightarrow> (Inl e, s')
      | (Inr out, s') \<Rightarrow>
          (case run_chunks push s' cs of
             (Inl e, s'') \<Rightarrow> (Inl e, s'')
           | (Inr outs, s'') \<Rightarrow> (Inr (out @ outs), s'')))"

text \<open>
  The contract: the state represents the input consumed so far, and the output produced so far
  is a function \<open>spec\<close> of that input alone. Then how the input is cut into chunks cannot be
  observed.
\<close>

locale chunked =
  fixes push :: "'s \<Rightarrow> 'a list \<Rightarrow> ('e + 'b list) \<times> 's"
    and rep :: "'a list \<Rightarrow> 's \<Rightarrow> bool"
    and good :: "'a list \<Rightarrow> bool"
    and admissible :: "'a list \<Rightarrow> bool"
    and spec :: "'a list \<Rightarrow> 'b list"
  assumes push_spec: "rep xs s \<Longrightarrow> good ys \<Longrightarrow> admissible (xs @ ys) \<Longrightarrow>
      \<exists>out s'. push s ys = (Inr out, s') \<and> rep (xs @ ys) s' \<and> spec (xs @ ys) = spec xs @ out"
    and admissible_prefix: "admissible (xs @ ys) \<Longrightarrow> admissible xs"
begin

lemma run_chunks_from:
  assumes "rep xs s" and "\<forall>c\<in>set cs. good c" and "admissible (xs @ concat cs)"
  shows "\<exists>out s'. run_chunks push s cs = (Inr out, s') \<and> rep (xs @ concat cs) s'
    \<and> spec (xs @ concat cs) = spec xs @ out"
  using assms
proof (induction cs arbitrary: xs s)
  case (Cons c cs)
  have adm: "admissible ((xs @ c) @ concat cs)" using Cons.prems(3) by simp
  from push_spec [OF Cons.prems(1), of c] Cons.prems(2) admissible_prefix [OF adm]
  obtain out s' where 1: "push s c = (Inr out, s')" "rep (xs @ c) s'" "spec (xs @ c) = spec xs @ out"
    by auto
  from Cons.IH [OF 1(2) _ adm] Cons.prems(2) obtain outs s'' where
    "run_chunks push s' cs = (Inr outs, s'')" "rep ((xs @ c) @ concat cs) s''"
    "spec ((xs @ c) @ concat cs) = spec (xs @ c) @ outs"
    by auto
  with 1 show ?case by simp
qed auto

text \<open>Started on nothing, the chunks produce exactly the output of their concatenation.\<close>

lemma run_chunks_spec:
  assumes "rep [] s" and "spec [] = []" and "\<forall>c\<in>set cs. good c" and "admissible (concat cs)"
  shows "\<exists>s'. run_chunks push s cs = (Inr (spec (concat cs)), s') \<and> rep (concat cs) s'"
  using run_chunks_from [of "[]" s cs] assms by auto

end

section \<open>Transition systems\<close>

text \<open>The contract of an inductive invariant; used for every interleaved step relation.\<close>

locale step_invariant =
  fixes start :: "'s \<Rightarrow> bool"
    and step :: "'s \<Rightarrow> 's \<Rightarrow> bool"
    and inv :: "'s \<Rightarrow> bool"
  assumes start_inv: "start s \<Longrightarrow> inv s"
    and step_inv: "inv s \<Longrightarrow> step s t \<Longrightarrow> inv t"
begin

lemma steps_inv: "step\<^sup>*\<^sup>* s t \<Longrightarrow> inv s \<Longrightarrow> inv t"
  by (induction rule: rtranclp_induct) (auto intro: step_inv)

lemma reachable_inv: "start s \<Longrightarrow> step\<^sup>*\<^sup>* s t \<Longrightarrow> inv t"
  using steps_inv start_inv by blast

end

section \<open>Methods that may fail and keep their effects\<close>

text \<open>
  A \<open>&mut self\<close> method returning \<open>Result\<close>: an error does not undo what was
  done before it.
\<close>

type_synonym ('s, 'e, 'a) action = "'s \<Rightarrow> ('e + 'a) \<times> 's"

definition ret :: "'a \<Rightarrow> ('s, 'e, 'a) action" where
  "ret a s = (Inr a, s)"

definition fail :: "'e \<Rightarrow> ('s, 'e, 'a) action" where
  "fail e s = (Inl e, s)"

definition lift_res :: "'e + 'a \<Rightarrow> ('s, 'e, 'a) action" where
  "lift_res r s = (r, s)"

definition update_st :: "('s \<Rightarrow> 's) \<Rightarrow> ('s, 'e, unit) action" where
  "update_st f s = (Inr (), f s)"

definition bind_st ::
  "('s, 'e, 'a) action \<Rightarrow> ('a \<Rightarrow> ('s, 'e, 'b) action) \<Rightarrow> ('s, 'e, 'b) action"
where
  "bind_st m f s = (case m s of (Inl e, s') \<Rightarrow> (Inl e, s') | (Inr a, s') \<Rightarrow> f a s')"

lemma action_simps [simp]:
  "ret a s = (Inr a, s)" "fail e s = (Inl e, s)" "lift_res r s = (r, s)"
  "update_st f s = (Inr (), f s)"
  by (simp_all add: ret_def fail_def lift_res_def update_st_def)

lemma bind_st_Inr_iff [res_simps]:
  "bind_st m f s = (Inr b, t) \<longleftrightarrow> (\<exists>a u. m s = (Inr a, u) \<and> f a u = (Inr b, t))"
  by (auto simp: bind_st_def split: prod.split sum.split)

lemma bind_st_Inl_iff [res_simps]:
  "bind_st m f s = (Inl e, t) \<longleftrightarrow>
     m s = (Inl e, t) \<or> (\<exists>a u. m s = (Inr a, u) \<and> f a u = (Inl e, t))"
  by (auto simp: bind_st_def split: prod.split sum.split)

lemma bind_st_eq [simp]:
  "m s = (Inr a, u) \<Longrightarrow> bind_st m f s = f a u" "m s = (Inl e, u) \<Longrightarrow> bind_st m f s = (Inl e, u)"
  by (simp_all add: bind_st_def)

text \<open>A property of the state kept by every part is kept by the whole, error or not.\<close>

lemma bind_st_keeps:
  assumes "P (snd (m s))" and "\<And>a t. m s = (Inr a, t) \<Longrightarrow> P t \<Longrightarrow> P (snd (f a t))"
  shows "P (snd (bind_st m f s))"
  using assms by (auto simp: bind_st_def split: prod.split sum.split)

text \<open>
  The weakest precondition of an outcome: \<open>Q\<close> of a result and its state, \<open>E\<close>
  of an error and its state. The equations collected in \<open>wp_simps\<close> compute it through a
  method's body.
\<close>

named_theorems wp_simps \<open>weakest preconditions of actions\<close>

definition wp :: "('a \<Rightarrow> 's \<Rightarrow> bool) \<Rightarrow> ('e \<Rightarrow> 's \<Rightarrow> bool) \<Rightarrow> ('e + 'a) \<times> 's \<Rightarrow> bool" where
  "wp Q E r = (case r of (Inr a, s) \<Rightarrow> Q a s | (Inl e, s) \<Rightarrow> E e s)"

lemma wp_outcome [wp_simps]: "wp Q E (Inr a, s) \<longleftrightarrow> Q a s" "wp Q E (Inl e, s) \<longleftrightarrow> E e s"
  by (simp_all add: wp_def)

lemma wp_bind [wp_simps]: "wp Q E (bind_st m f s) \<longleftrightarrow> wp (\<lambda>a t. wp Q E (f a t)) E (m s)"
  by (auto simp: wp_def bind_st_def split: prod.split sum.split)

lemma wp_mono:
  assumes "wp Q E r" and "\<And>a s. Q a s \<Longrightarrow> Q' a s" and "\<And>e s. E e s \<Longrightarrow> E' e s"
  shows "wp Q' E' r"
  using assms by (auto simp: wp_def split: prod.splits sum.splits)

lemma wpD:
  "wp Q E r \<Longrightarrow> r = (Inr a, s) \<Longrightarrow> Q a s"
  "wp Q E r \<Longrightarrow> r = (Inl e, s) \<Longrightarrow> E e s"
  by (simp_all add: wp_def)

section \<open>Chunks of a slice\<close>

text \<open>\<open>chunks_exact(n)\<close> drops an incomplete last chunk; \<open>chunks(n)\<close> keeps it.\<close>

function chunks_exact :: "nat \<Rightarrow> 'a list \<Rightarrow> 'a list list" where
  "chunks_exact n xs =
     (if n = 0 \<or> length xs < n then [] else take n xs # chunks_exact n (drop n xs))"
  by pat_completeness auto
termination
  by (relation "measure (\<lambda>(n, xs). length xs)") auto

function chunks :: "nat \<Rightarrow> 'a list \<Rightarrow> 'a list list" where
  "chunks n xs = (if n = 0 \<or> xs = [] then [] else take n xs # chunks n (drop n xs))"
  by pat_completeness auto
termination
  by (relation "measure (\<lambda>(n, xs). length xs)") auto

declare chunks_exact.simps [simp del] chunks.simps [simp del]

lemma concat_chunks_exact:
  "0 < n \<Longrightarrow> concat (chunks_exact n xs) = take (length xs div n * n) xs"
proof (induction n xs rule: chunks_exact.induct)
  case (1 n xs)
  show ?case
  proof (cases "length xs < n")
    case False
    then have d: "length xs div n = Suc ((length xs - n) div n)"
      using 1(2) by (simp add: le_div_geq)
    from False 1 have "concat (chunks_exact n (drop n xs)) = take ((length xs - n) div n * n) (drop n xs)"
      by simp
    with False 1(2) show ?thesis
      by (simp add: chunks_exact.simps [of n xs] d take_add)
  qed (simp add: chunks_exact.simps [of n xs])
qed

lemma chunks_exact_length: "c \<in> set (chunks_exact n xs) \<Longrightarrow> length c = n"
  by (induction n xs rule: chunks_exact.induct)
    (subst (asm) chunks_exact.simps, auto split: if_splits)

lemma concat_chunks: "0 < n \<Longrightarrow> concat (chunks n xs) = xs"
  by (induction n xs rule: chunks.induct) (subst chunks.simps, simp)

lemma chunks_length: "c \<in> set (chunks n xs) \<Longrightarrow> c \<noteq> [] \<and> length c \<le> n"
  by (induction n xs rule: chunks.induct) (subst (asm) chunks.simps, auto split: if_splits)

lemma length_chunks: "0 < n \<Longrightarrow> length (chunks n xs) = (length xs + n - 1) div n"
proof (induction n xs rule: chunks.induct)
  case (1 n xs)
  show ?case
  proof (cases "xs = []")
    case False
    have "length (chunks n (drop n xs)) = (length (drop n xs) + n - 1) div n"
      using 1 False by simp
    then have l: "length (chunks n xs) = Suc ((length xs - n + n - 1) div n)"
      using False 1(2) by (simp add: chunks.simps [of n xs])
    show ?thesis
    proof (cases "length xs < n")
      case True
      then have "(length xs + n - 1) div n = 1"
        using \<open>xs \<noteq> []\<close> by (cases xs) (auto intro!: div_nat_eqI)
      with True l 1(2) show ?thesis by simp
    next
      case False
      then have "(length xs + n - 1) div n = Suc ((length xs - 1) div n)"
        using 1(2) \<open>xs \<noteq> []\<close> div_add_self2 [of n "length xs - 1"]
        by (cases xs) simp_all
      with False l show ?thesis by simp
    qed
  qed (use 1(2) in \<open>simp add: chunks.simps [of n]\<close>)
qed

end
