(* ===== verification/Ieee.thy ===== *)
theory Ieee
  imports Prelude "HOL-Library.Log_Nat"
begin

text \<open>
  The IEEE-754 arithmetic of \<open>f32\<close> and \<open>f64\<close>, executable. A float is NaN, an
  infinity or the rational number it denotes; the two zeros are one value, as Rust's
  \<open>==\<close> on floats has it, so equality of model values is \<open>==\<close> of the code's
  finite values. Every operation is the exact rational operation followed by
  round-to-nearest, ties to even, on the format's grid, gradual underflow and overflow to
  infinity included. The locale \<open>ieee_format\<close> proves what the clients need of a
  rounding once, for any precision; it is interpreted for binary32 and binary64.
\<close>

section \<open>Rounding\<close>

datatype ieee = NaN | Infinity bool | Fin rat

text \<open>The exponent \<open>e\<close> with \<open>2 powi e \<le> \<bar>q\<bar> < 2 powi (e + 1)\<close>.\<close>

definition rat_exp :: "rat \<Rightarrow> int" where
  "rat_exp q =
     (let (a, b) = quotient_of \<bar>q\<bar>; e = bitlen a - bitlen b
      in if 2 powi e \<le> \<bar>q\<bar> then e else e - 1)"

definition round_even :: "rat \<Rightarrow> int" where
  "round_even q =
     (let f = \<lfloor>q\<rfloor>; d = q - of_int f
      in if d < 1 / 2 then f else if 1 / 2 < d then f + 1 else if even f then f else f + 1)"

definition ulp_exp :: "nat \<Rightarrow> int \<Rightarrow> rat \<Rightarrow> int" where
  "ulp_exp p emin q = max (rat_exp q - (int p - 1)) emin"

definition grid_round :: "nat \<Rightarrow> int \<Rightarrow> rat \<Rightarrow> rat" where
  "grid_round p emin q =
     (if q = 0 then 0
      else let u = 2 powi ulp_exp p emin q in of_int (round_even (q / u)) * u)"

definition ieee_round :: "nat \<Rightarrow> int \<Rightarrow> nat \<Rightarrow> rat \<Rightarrow> ieee" where
  "ieee_round p emin emax q =
     (let r = grid_round p emin q in if 2 ^ emax \<le> \<bar>r\<bar> then Infinity (r < 0) else Fin r)"

text \<open>binary32 and binary64: precision, exponent of the least quantum, overflow exponent.\<close>

definition f32_round :: "rat \<Rightarrow> ieee" where "f32_round = ieee_round 24 (-149) 128"
definition f64_round :: "rat \<Rightarrow> ieee" where "f64_round = ieee_round 53 (-1074) 1024"

section \<open>Operations\<close>

fun is_finite :: "ieee \<Rightarrow> bool" where
  "is_finite (Fin q) = True"
| "is_finite _ = False"

fun ieee_neg :: "ieee \<Rightarrow> ieee" where
  "ieee_neg NaN = NaN"
| "ieee_neg (Infinity s) = Infinity (\<not> s)"
| "ieee_neg (Fin q) = Fin (- q)"

fun ieee_add :: "(rat \<Rightarrow> ieee) \<Rightarrow> ieee \<Rightarrow> ieee \<Rightarrow> ieee" where
  "ieee_add rnd (Fin a) (Fin b) = rnd (a + b)"
| "ieee_add rnd (Infinity s) (Infinity t) = (if s = t then Infinity s else NaN)"
| "ieee_add rnd (Infinity s) (Fin b) = Infinity s"
| "ieee_add rnd (Fin a) (Infinity t) = Infinity t"
| "ieee_add rnd _ _ = NaN"

definition ieee_sub :: "(rat \<Rightarrow> ieee) \<Rightarrow> ieee \<Rightarrow> ieee \<Rightarrow> ieee" where
  "ieee_sub rnd x y = ieee_add rnd x (ieee_neg y)"

fun ieee_mul :: "(rat \<Rightarrow> ieee) \<Rightarrow> ieee \<Rightarrow> ieee \<Rightarrow> ieee" where
  "ieee_mul rnd (Fin a) (Fin b) = rnd (a * b)"
| "ieee_mul rnd (Infinity s) (Infinity t) = Infinity (s \<noteq> t)"
| "ieee_mul rnd (Infinity s) (Fin b) = (if b = 0 then NaN else Infinity (s \<noteq> (b < 0)))"
| "ieee_mul rnd (Fin a) (Infinity t) = (if a = 0 then NaN else Infinity (t \<noteq> (a < 0)))"
| "ieee_mul rnd _ _ = NaN"

text \<open>The code divides only by positive numbers; a zero divisor is taken as \<open>+0\<close>.\<close>

fun ieee_div :: "(rat \<Rightarrow> ieee) \<Rightarrow> ieee \<Rightarrow> ieee \<Rightarrow> ieee" where
  "ieee_div rnd (Fin a) (Fin b) =
     (if b = 0 then (if a = 0 then NaN else Infinity (a < 0)) else rnd (a / b))"
| "ieee_div rnd (Infinity s) (Fin b) = Infinity (s \<noteq> (b < 0))"
| "ieee_div rnd (Fin a) (Infinity t) = Fin 0"
| "ieee_div rnd _ _ = NaN"

text \<open>\<open><=\<close>, \<open>>=\<close> and \<open>==\<close> of the language: false when an operand is NaN.\<close>

fun ieee_le :: "ieee \<Rightarrow> ieee \<Rightarrow> bool" where
  "ieee_le (Fin a) (Fin b) = (a \<le> b)"
| "ieee_le (Infinity s) (Infinity t) = (s \<or> \<not> t)"
| "ieee_le (Infinity s) (Fin b) = s"
| "ieee_le (Fin a) (Infinity t) = (\<not> t)"
| "ieee_le _ _ = False"

fun ieee_eq :: "ieee \<Rightarrow> ieee \<Rightarrow> bool" where
  "ieee_eq NaN _ = False"
| "ieee_eq _ NaN = False"
| "ieee_eq x y = (x = y)"

text \<open>\<open>(lo..=hi).contains(&x)\<close>\<close>

definition in_range :: "rat \<Rightarrow> rat \<Rightarrow> ieee \<Rightarrow> bool" where
  "in_range lo hi x \<longleftrightarrow> ieee_le (Fin lo) x \<and> ieee_le x (Fin hi)"

text \<open>Correctly rounded square root (binary64), through the integer square root.\<close>

function isqrt :: "int \<Rightarrow> int" where
  "isqrt n =
     (if n \<le> 0 then 0
      else let r = 2 * isqrt (n div 4) in if (r + 1) * (r + 1) \<le> n then r + 1 else r)"
  by pat_completeness auto
termination
  by (relation "measure nat") auto

declare isqrt.simps [simp del]

fun f64_sqrt :: "ieee \<Rightarrow> ieee" where
  "f64_sqrt NaN = NaN"
| "f64_sqrt (Infinity s) = (if s then NaN else Infinity False)"
| "f64_sqrt (Fin q) =
     (if q < 0 then NaN
      else if q = 0 then Fin 0
      else let u = 2 powi (rat_exp q div 2 - 52);
               n = q / (u * u);
               r = isqrt \<lfloor>n\<rfloor>;
               mid = (of_int r + 1 / 2) * (of_int r + 1 / 2);
               k = (if n < mid then r else if mid < n then r + 1
                    else if even r then r else r + 1)
           in f64_round (of_int k * u))"

section \<open>Facts about the exponent and integer rounding\<close>

lemma pow2_pos [simp]: "(0::rat) < 2 powi e"
  by simp

lemma rat_exp_bounds:
  assumes "q \<noteq> 0"
  shows "2 powi rat_exp q \<le> \<bar>q\<bar>" and "\<bar>q\<bar> < 2 powi (rat_exp q + 1)"
proof -
  obtain a b where ab: "quotient_of \<bar>q\<bar> = (a, b)" by fastforce
  have b: "0 < b" using ab by (rule quotient_of_denom_pos)
  have q: "\<bar>q\<bar> = of_int a / of_int b" using ab by (rule quotient_of_div)
  have "0 < \<bar>q\<bar>" using assms by simp
  then have a: "0 < a" using b unfolding q by (simp add: zero_less_divide_iff)
  define la lb where "la = bitlen a" and "lb = bitlen b"
  have pa: "0 < la" and pb: "0 < lb"
    using a b by (simp_all add: la_def lb_def bitlen_alt_def)
  have powi_nat: "(2::rat) powi k = 2 ^ nat k" if "0 \<le> k" for k
    using that by (simp add: power_int_def)
  have A: "2 powi (la - 1) \<le> (of_int a :: rat)" "(of_int a :: rat) < 2 powi la"
    using bitlen_bounds [OF a] pa
    by (simp_all add: powi_nat la_def flip: of_int_power_le_of_int_cancel_iff [where ?'a = rat]
        of_int_less_of_int_power_cancel_iff [where ?'a = rat])
  have B: "2 powi (lb - 1) \<le> (of_int b :: rat)" "(of_int b :: rat) < 2 powi lb"
    using bitlen_bounds [OF b] pb
    by (simp_all add: powi_nat lb_def flip: of_int_power_le_of_int_cancel_iff [where ?'a = rat]
        of_int_less_of_int_power_cancel_iff [where ?'a = rat])
  have bp: "(0::rat) < of_int b" using b by simp
  have up: "\<bar>q\<bar> < 2 powi (la - lb + 1)"
  proof -
    have "(2::rat) powi la = 2 powi (la - lb + 1) * 2 powi (lb - 1)"
      by (simp flip: power_int_add)
    also have "\<dots> \<le> 2 powi (la - lb + 1) * of_int b"
      using B(1) by (intro mult_left_mono) auto
    finally show ?thesis using A(2) bp by (simp add: q divide_less_eq)
  qed
  have low: "2 powi (la - lb - 1) \<le> \<bar>q\<bar>"
  proof -
    have "2 powi (la - lb - 1) * of_int b \<le> 2 powi (la - lb - 1) * (2::rat) powi lb"
      using B(2) by (intro mult_left_mono) auto
    also have "\<dots> = 2 powi (la - 1)" by (simp flip: power_int_add)
    finally show ?thesis using A(1) bp by (simp add: q le_divide_eq)
  qed
  have e: "rat_exp q = (if 2 powi (la - lb) \<le> \<bar>q\<bar> then la - lb else la - lb - 1)"
    by (simp add: rat_exp_def ab la_def lb_def)
  show "2 powi rat_exp q \<le> \<bar>q\<bar>" "\<bar>q\<bar> < 2 powi (rat_exp q + 1)"
    using up low by (auto simp: e)
qed

lemma round_even_of_int [simp]: "round_even (of_int n) = n"
  by (simp add: round_even_def)

lemma round_even_err: "\<bar>of_int (round_even q) - q\<bar> \<le> 1 / 2"
proof -
  have "of_int \<lfloor>q\<rfloor> \<le> q" "q < of_int \<lfloor>q\<rfloor> + 1" by linarith+
  then show ?thesis by (auto simp: round_even_def Let_def abs_le_iff)
qed

lemma round_even_mono:
  assumes "q \<le> r" shows "round_even q \<le> round_even r"
proof (rule ccontr)
  assume "\<not> ?thesis"
  then have g: "round_even r + 1 \<le> round_even q" by simp
  then have "(of_int (round_even r) :: rat) + 1 \<le> of_int (round_even q)"
    by (metis of_int_1 of_int_add of_int_le_iff)
  with round_even_err [of q] round_even_err [of r] assms have "q = r"
    unfolding abs_le_iff by linarith
  with g show False by simp
qed

lemma powi_of_int_multiple:
  assumes "j \<le> k"
  shows "\<exists>m::int. (2::rat) powi k = of_int m * 2 powi j"
proof -
  have "(2::rat) powi k = 2 powi (k - j) * 2 powi j" by (simp flip: power_int_add)
  moreover have "(2::rat) powi (k - j) = of_int (2 ^ nat (k - j))"
    using assms by (simp add: power_int_def)
  ultimately show ?thesis by metis
qed


lemma round_even_minus: "round_even (- q) = - round_even q"
proof (cases "q = of_int \<lfloor>q\<rfloor>")
  case True
  then show ?thesis by (metis of_int_minus round_even_of_int)
next
  case False
  define f where "f = \<lfloor>q\<rfloor>"
  have f: "\<lfloor>- q\<rfloor> = - f - 1"
  proof (rule floor_unique)
    show "of_int (- f - 1) \<le> - q" unfolding f_def by simp linarith
    show "- q < of_int (- f - 1) + 1" using False of_int_floor_le [of q] unfolding f_def
      by (simp add: order_less_le)
  qed
  show ?thesis
    unfolding round_even_def f by (auto simp: Let_def f_def [symmetric])
qed

section \<open>What every format's rounding satisfies\<close>

locale ieee_format =
  fixes p :: nat and emin :: int
  assumes p_pos: "0 < p"
begin

lemma round_0 [simp]: "grid_round p emin 0 = 0"
  by (simp add: grid_round_def)

lemma round_minus: "grid_round p emin (- q) = - grid_round p emin q"
  by (simp add: grid_round_def ulp_exp_def rat_exp_def round_even_minus Let_def)

lemma round_upper:
  assumes "q \<le> of_int m * 2 powi ulp_exp p emin q"
  shows "grid_round p emin q \<le> of_int m * 2 powi ulp_exp p emin q"
proof (cases "q = 0")
  case False
  have "q / 2 powi ulp_exp p emin q \<le> of_int m" using assms by (simp add: divide_le_eq)
  from round_even_mono [OF this] show ?thesis
    using False by (simp add: grid_round_def Let_def)
qed (use assms in simp)

lemma round_lower:
  assumes "of_int m * 2 powi ulp_exp p emin q \<le> q"
  shows "of_int m * 2 powi ulp_exp p emin q \<le> grid_round p emin q"
proof (cases "q = 0")
  case False
  have "of_int m \<le> q / 2 powi ulp_exp p emin q" using assms by (simp add: le_divide_eq)
  from round_even_mono [OF this] show ?thesis
    using False by (simp add: grid_round_def Let_def)
qed (use assms in simp)

lemma round_nonneg: "0 \<le> q \<Longrightarrow> 0 \<le> grid_round p emin q"
  using round_lower [of 0 q] by simp

lemma round_nonpos: "q \<le> 0 \<Longrightarrow> grid_round p emin q \<le> 0"
  using round_upper [of q 0] by simp

lemma round_exact:
  assumes "q = of_int m * 2 powi k" and "ulp_exp p emin q \<le> k"
  shows "grid_round p emin q = q"
proof -
  obtain n :: int where "(2::rat) powi k = of_int n * 2 powi ulp_exp p emin q"
    using powi_of_int_multiple [OF assms(2)] by blast
  with assms(1) have q: "q = of_int (m * n) * 2 powi ulp_exp p emin q" by simp
  from q have "grid_round p emin q \<le> of_int (m * n) * 2 powi ulp_exp p emin q"
    by (intro round_upper) simp
  moreover from q have "of_int (m * n) * 2 powi ulp_exp p emin q \<le> grid_round p emin q"
    by (intro round_lower) simp
  ultimately show ?thesis using q by simp
qed

lemma powi_less_cancel: "(2::rat) powi a < 2 powi b \<Longrightarrow> a < b"
  by (metis linorder_not_less one_le_numeral power_int_increasing)

lemma exp_less:
  assumes "q \<noteq> 0" and "\<bar>q\<bar> < 2 powi k"
  shows "rat_exp q < k"
  using rat_exp_bounds(1) [OF assms(1)] assms(2) by (intro powi_less_cancel) simp

lemma exp_ge:
  assumes "2 powi k \<le> \<bar>q\<bar>"
  shows "k \<le> rat_exp q"
proof -
  have "q \<noteq> 0" using assms by (metis abs_zero linorder_not_less pow2_pos)
  from rat_exp_bounds(2) [OF this] assms have "(2::rat) powi k < 2 powi (rat_exp q + 1)" by simp
  then show ?thesis using powi_less_cancel by fastforce
qed

lemma round_exact_small:
  assumes q: "q = of_int m * 2 powi k" and m: "\<bar>m\<bar> < 2 ^ p" and k: "emin \<le> k"
  shows "grid_round p emin q = q"
proof (cases "q = 0")
  case False
  have "of_int \<bar>m\<bar> < (2::rat) ^ p" using m by (metis of_int_less_iff of_int_numeral of_int_power)
  then have "\<bar>q\<bar> < 2 powi (int p + k)"
    by (simp add: q abs_mult power_int_add)
  from exp_less [OF False this] k have "ulp_exp p emin q \<le> k" by (simp add: ulp_exp_def)
  with q show ?thesis by (rule round_exact)
qed simp

lemma round_err: "\<bar>grid_round p emin q - q\<bar> \<le> 2 powi ulp_exp p emin q / 2"
proof (cases "q = 0")
  case False
  define u :: rat where "u = 2 powi ulp_exp p emin q"
  have u: "0 < u" by (simp add: u_def)
  have "grid_round p emin q - q = (of_int (round_even (q / u)) - q / u) * u"
    using False u by (simp add: grid_round_def u_def [symmetric] field_simps)
  then have "\<bar>grid_round p emin q - q\<bar> = \<bar>of_int (round_even (q / u)) - q / u\<bar> * u"
    using u by (simp add: abs_mult)
  also have "\<dots> \<le> 1 / 2 * u" using u round_even_err by (intro mult_right_mono) auto
  finally show ?thesis by (simp add: u_def)
qed simp

lemma round_rel_err:
  assumes "emin \<le> rat_exp q - (int p - 1)"
  shows "\<bar>grid_round p emin q - q\<bar> \<le> 2 powi (- int p) * \<bar>q\<bar>"
proof (cases "q = 0")
  case False
  have u: "ulp_exp p emin q = rat_exp q + (1 - int p)" using assms by (simp add: ulp_exp_def)
  have "\<bar>grid_round p emin q - q\<bar> \<le> 2 powi (rat_exp q + (1 - int p)) / 2"
    using round_err [of q] by (simp add: u)
  also have "\<dots> = 2 powi (- int p) * 2 powi rat_exp q"
    by (simp add: power_int_add power_int_diff power_int_minus field_simps)
  also have "\<dots> \<le> 2 powi (- int p) * \<bar>q\<bar>"
    using rat_exp_bounds(1) [OF False] by (intro mult_left_mono) auto
  finally show ?thesis .
qed simp

lemma round_rel_err_on_grid:
  assumes "q = of_int m * 2 powi emin"
  shows "\<bar>grid_round p emin q - q\<bar> \<le> 2 powi (- int p) * \<bar>q\<bar>"
proof (cases "emin \<le> rat_exp q - (int p - 1)")
  case False
  then have "ulp_exp p emin q \<le> emin" by (simp add: ulp_exp_def)
  with assms have "grid_round p emin q = q" by (rule round_exact)
  then show ?thesis by simp
qed (rule round_rel_err)

lemma round_grid: "\<exists>m::int. grid_round p emin q = of_int m * 2 powi emin"
proof (cases "q = 0")
  case False
  obtain n :: int where "(2::rat) powi ulp_exp p emin q = of_int n * 2 powi emin"
    using powi_of_int_multiple [of emin "ulp_exp p emin q"] by (auto simp: ulp_exp_def)
  with False have "grid_round p emin q = of_int (round_even (q / 2 powi ulp_exp p emin q) * n) * 2 powi emin"
    by (simp add: grid_round_def Let_def)
  then show ?thesis by blast
qed (auto intro: exI [of _ 0])

lemma round_mono_pos:
  assumes x: "0 < x" and xy: "x \<le> y"
  shows "grid_round p emin x \<le> grid_round p emin y"
proof -
  have y: "0 < y" using assms by simp
  have "2 powi rat_exp x \<le> \<bar>y\<bar>" using rat_exp_bounds(1) [of x] x xy by simp
  then have e: "rat_exp x \<le> rat_exp y" by (rule exp_ge)
  show ?thesis
  proof (cases "ulp_exp p emin x = ulp_exp p emin y")
    case True
    have "x / 2 powi ulp_exp p emin x \<le> y / 2 powi ulp_exp p emin x"
      using xy by (simp add: divide_right_mono)
    from round_even_mono [OF this] True x y show ?thesis
      by (simp add: grid_round_def Let_def)
  next
    case False
    then have ux: "ulp_exp p emin x < rat_exp y" and uy: "ulp_exp p emin y \<le> rat_exp y"
      using e p_pos by (auto simp: ulp_exp_def max_def split: if_splits)
    have "rat_exp x < rat_exp y" using False e by (auto simp: ulp_exp_def)
    then have "(2::rat) powi (rat_exp x + 1) \<le> 2 powi rat_exp y"
      by (intro power_int_increasing) auto
    then have xC: "x \<le> 2 powi rat_exp y" using rat_exp_bounds(2) [of x] x by simp
    have Cy: "2 powi rat_exp y \<le> y" using rat_exp_bounds(1) [of y] y by simp
    obtain m where m: "(2::rat) powi rat_exp y = of_int m * 2 powi ulp_exp p emin x"
      using powi_of_int_multiple [of "ulp_exp p emin x" "rat_exp y"] ux by auto
    obtain n where n: "(2::rat) powi rat_exp y = of_int n * 2 powi ulp_exp p emin y"
      using powi_of_int_multiple [OF uy] by blast
    have "grid_round p emin x \<le> 2 powi rat_exp y" using round_upper [of x m] xC m by simp
    also have "\<dots> \<le> grid_round p emin y" using round_lower [of n y] Cy n by simp
    finally show ?thesis .
  qed
qed

lemma round_mono:
  assumes "x \<le> y"
  shows "grid_round p emin x \<le> grid_round p emin y"
proof (cases "0 < x")
  case True
  then show ?thesis using assms by (rule round_mono_pos)
next
  case x: False
  show ?thesis
  proof (cases "y < 0")
    case True
    then show ?thesis using round_mono_pos [of "- y" "- x"] assms by (simp add: round_minus)
  next
    case False
    have "grid_round p emin x \<le> 0" using x by (intro round_nonpos) simp
    also have "0 \<le> grid_round p emin y" using False by (intro round_nonneg) simp
    finally show ?thesis .
  qed
qed

lemma round_idem: "grid_round p emin (grid_round p emin q) = grid_round p emin q"
proof (cases "q = 0")
  case False
  define e where "e = ulp_exp p emin q"
  define m where "m = round_even (q / 2 powi e)"
  have r: "grid_round p emin q = of_int m * 2 powi e"
    using False by (simp add: grid_round_def m_def e_def Let_def)
  have e: "emin \<le> e" by (simp add: e_def ulp_exp_def)
  have "\<bar>q\<bar> < 2 powi (rat_exp q + 1)" using False by (rule rat_exp_bounds)
  also have "\<dots> \<le> (2::rat) powi (int p + e)"
    by (intro power_int_increasing) (simp_all add: e_def ulp_exp_def)
  finally have "\<bar>q\<bar> / 2 powi e \<le> of_int (2 ^ p)"
    by (simp add: divide_le_eq power_int_add)
  then have "q / 2 powi e \<le> of_int (2 ^ p)" "of_int (- (2 ^ p)) \<le> q / 2 powi e"
    by (simp_all add: divide_le_eq le_divide_eq abs_le_iff)
  then have "m \<le> 2 ^ p" "- (2 ^ p) \<le> m"
    unfolding m_def using round_even_mono round_even_of_int by metis+
  then consider "\<bar>m\<bar> < 2 ^ p" | "m = 2 ^ p" | "m = - (2 ^ p)" by linarith
  then show ?thesis
  proof cases
    case 1
    then show ?thesis using round_exact_small [OF r 1 e] by simp
  next
    case 2
    have "of_int m * 2 powi e = (of_int 1 :: rat) * 2 powi (int p + e)"
      by (simp add: 2 power_int_add)
    from round_exact_small [OF this] p_pos e show ?thesis by (simp add: r)
  next
    case 3
    have "of_int m * 2 powi e = (of_int (- 1) :: rat) * 2 powi (int p + e)"
      by (simp add: 3 power_int_add)
    from round_exact_small [OF this] p_pos e show ?thesis by (simp add: r)
  qed
qed simp

text \<open>Scaling up by a power of two is exact, short of overflow.\<close>

lemma round_scale:
  assumes "grid_round p emin q = q"
  shows "grid_round p emin (q * 2 ^ n) = q * 2 ^ n"
proof (cases "q = 0")
  case False
  define e where "e = ulp_exp p emin q"
  from False assms obtain m where m: "q = of_int m * 2 powi e"
    unfolding grid_round_def e_def Let_def by metis
  have q: "q * 2 ^ n = of_int m * 2 powi (e + int n)" by (simp add: m power_int_add)
  have "\<bar>q * 2 ^ n\<bar> < 2 powi (rat_exp q + 1) * 2 ^ n"
    using rat_exp_bounds(2) [OF False] by (simp add: abs_mult)
  then have "\<bar>q * 2 ^ n\<bar> < 2 powi (rat_exp q + 1 + int n)" by (simp add: power_int_add)
  then have "rat_exp (q * 2 ^ n) < rat_exp q + 1 + int n"
    using False by (intro exp_less) simp_all
  then have "ulp_exp p emin (q * 2 ^ n) \<le> e + int n" unfolding ulp_exp_def e_def by linarith
  with q show ?thesis by (rule round_exact)
qed simp

text \<open>A rational is representable when rounding leaves it alone.\<close>

lemma round_between:
  assumes "grid_round p emin lo = lo" and "grid_round p emin hi = hi" and "lo \<le> q" and "q \<le> hi"
  shows "lo \<le> grid_round p emin q" and "grid_round p emin q \<le> hi"
  using round_mono [OF assms(3)] round_mono [OF assms(4)] assms(1,2) by simp_all

end

interpretation binary32: ieee_format 24 "- 149"
  by unfold_locales simp

interpretation binary64: ieee_format 53 "- 1074"
  by unfold_locales simp

section \<open>Representable binary32 values\<close>

definition is_f32 :: "ieee \<Rightarrow> bool" where
  "is_f32 x = (case x of Fin q \<Rightarrow> f32_round q = Fin q | _ \<Rightarrow> True)"

abbreviation rnd32 :: "rat \<Rightarrow> rat" where
  "rnd32 \<equiv> grid_round 24 (- 149)"

lemma rnd32_powi: "- 149 \<le> k \<Longrightarrow> rnd32 (2 powi k) = 2 powi k"
  using binary32.round_exact_small [of "2 powi k" 1 k] by simp

lemma rnd32_bound:
  assumes "\<bar>q\<bar> \<le> 2 powi k" and "- 149 \<le> k"
  shows "\<bar>rnd32 q\<bar> \<le> 2 powi k"
proof -
  have 1: "rnd32 (2 powi k) = 2 powi k" "rnd32 (- (2 powi k)) = - (2 powi k)"
    using assms(2) by (simp_all add: rnd32_powi binary32.round_minus)
  have "- (2 powi k) \<le> q" "q \<le> 2 powi k" using assms(1) by linarith+
  from binary32.round_between [OF 1(2,1) this] show ?thesis by (simp add: abs_le_iff)
qed

lemma f32_round_Fin:
  assumes "\<bar>q\<bar> \<le> 2 powi k" and "- 149 \<le> k" and "k < 128"
  shows "f32_round q = Fin (rnd32 q)"
proof -
  have "\<bar>rnd32 q\<bar> \<le> 2 powi k" using assms(1,2) by (rule rnd32_bound)
  also have "\<dots> < (2::rat) powi 128" using assms(3) by (intro power_int_strict_increasing) simp_all
  finally show ?thesis by (simp add: f32_round_def ieee_round_def power_int_def)
qed

lemma is_f32_rnd32: "is_f32 (Fin q) \<Longrightarrow> rnd32 q = q"
  by (auto simp: is_f32_def f32_round_def ieee_round_def Let_def split: if_splits)

lemma is_f32_round: "is_f32 (f32_round q)"
  by (auto simp: is_f32_def f32_round_def ieee_round_def Let_def binary32.round_idem)

end
