(* ===== verification/Audio_Core.thy ===== *)
theory Audio_Core
  imports Ieee
begin

text \<open>
  \<open>crates/impossible-voice-audio/src/lib.rs\<close>, first part: the admission limits, validated
  mono PCM, and the conversions between PCM16 bytes and normalised samples. The lemmas show
  that every 16-bit sample is decoded exactly and encoded back to itself, and that encoding an
  arbitrary admitted sample is off by at most half a quantum, or by one at full scale.
\<close>

section \<open>Errors, rates and limits\<close>

datatype audio_error = AudioError string

definition supported_sample_rates :: "nat list" where
  "supported_sample_rates = [8000, 16000, 22050, 24000, 32000, 44100, 48000]"

definition validate_rate :: "nat \<Rightarrow> audio_error + unit" where
  "validate_rate sample_rate =
     (if sample_rate \<in> set supported_sample_rates then Inr ()
      else Inl (AudioError ''audio sample rate is unsupported''))"

record audio_limits =
  max_encoded_bytes :: nat
  max_duration_ms :: nat

definition audio_limits_new :: "nat \<Rightarrow> nat \<Rightarrow> audio_error + audio_limits" where
  "audio_limits_new max_bytes max_ms =
     (if max_bytes = 0 \<or> max_ms = 0 then Inl (AudioError ''audio limits must be non-zero'')
      else Inr \<lparr>max_encoded_bytes = max_bytes, max_duration_ms = max_ms\<rparr>)"

definition audio_limits_default :: audio_limits where
  "audio_limits_default =
     \<lparr>max_encoded_bytes = 32 * 1024 * 1024, max_duration_ms = 5 * 60 * 1000\<rparr>"

definition byte_limit_error :: audio_error where
  "byte_limit_error = AudioError ''encoded audio exceeds its byte limit''"

definition duration_error :: audio_error where
  "duration_error = AudioError ''audio duration exceeds its limit''"

definition admit :: "audio_limits \<Rightarrow> nat \<Rightarrow> nat \<Rightarrow> nat \<Rightarrow> audio_error + unit" where
  "admit limits encoded_bytes sample_rate sample_count =
     (if encoded_bytes > max_encoded_bytes limits then Inl byte_limit_error
      else and_then
        (ok_or duration_error
           (Option.bind (try_u64 sample_count) (\<lambda>count. checked_mul64 count 1000)))
        (\<lambda>duration_numerator. and_then
           (ok_or duration_error (checked_mul64 sample_rate (max_duration_ms limits)))
           (\<lambda>duration_limit.
              if duration_numerator > duration_limit then Inl duration_error else Inr ())))"

section \<open>Validated mono PCM\<close>

type_synonym f32 = ieee

record mono_pcm =
  pcm_rate :: nat
  pcm_samples :: "f32 list"

definition valid_sample :: "f32 \<Rightarrow> bool" where
  "valid_sample s \<longleftrightarrow> is_finite s \<and> in_range (- 1) 1 s"

definition mono_pcm_new :: "nat \<Rightarrow> f32 list \<Rightarrow> audio_error + mono_pcm" where
  "mono_pcm_new rate xs =
     and_then (validate_rate rate) (\<lambda>_.
       if xs = [] then Inl (AudioError ''audio must contain samples'')
       else if list_ex (\<lambda>s. \<not> is_finite s \<or> \<not> in_range (- 1) 1 s) xs
       then Inl (AudioError ''audio samples are invalid'')
       else Inr \<lparr>pcm_rate = rate, pcm_samples = xs\<rparr>)"

definition validate_pcm :: "audio_limits \<Rightarrow> mono_pcm \<Rightarrow> audio_error + unit" where
  "validate_pcm limits audio =
     and_then (ok_or byte_limit_error (checked_mul64 (length (pcm_samples audio)) 2))
       (\<lambda>encoded_bytes.
          admit limits encoded_bytes (pcm_rate audio) (length (pcm_samples audio)))"

section \<open>PCM16 decoding\<close>

text \<open>\<open>f32::from(i16::from_le_bytes([lo, hi])) / 32_768.0\<close>; the conversion is exact.\<close>

definition decode_sample :: "u8 \<Rightarrow> u8 \<Rightarrow> f32" where
  "decode_sample lo hi =
     ieee_div f32_round (Fin (of_int (sint (i16_from_le lo hi)))) (Fin 32768)"

text \<open>\<open>bytes.chunks_exact(2).map(..)\<close>\<close>

fun decode_pairs :: "u8 list \<Rightarrow> f32 list" where
  "decode_pairs (lo # hi # rest) = decode_sample lo hi # decode_pairs rest"
| "decode_pairs _ = []"

definition from_pcm16_le ::
  "u8 list \<Rightarrow> nat \<Rightarrow> audio_limits \<Rightarrow> audio_error + mono_pcm" where
  "from_pcm16_le bytes sample_rate limits =
     and_then (validate_rate sample_rate) (\<lambda>_.
       if bytes = [] \<or> length bytes mod 2 \<noteq> 0
       then Inl (AudioError ''PCM16 audio has an invalid byte length'')
       else and_then (admit limits (length bytes) sample_rate (length bytes div 2)) (\<lambda>_.
         mono_pcm_new sample_rate (decode_pairs bytes)))"

section \<open>PCM16 encoding\<close>

fun ieee_clamp :: "rat \<Rightarrow> rat \<Rightarrow> ieee \<Rightarrow> ieee" where
  "ieee_clamp lo hi NaN = NaN"
| "ieee_clamp lo hi (Infinity neg) = (if neg then Fin lo else Fin hi)"
| "ieee_clamp lo hi (Fin q) = (if q < lo then Fin lo else if hi < q then Fin hi else Fin q)"

text \<open>\<open>f32::round\<close>: to the nearest integer, halves away from zero.\<close>

definition round_away :: "rat \<Rightarrow> int" where
  "round_away q = (if 0 \<le> q then \<lfloor>q + 1 / 2\<rfloor> else - \<lfloor>1 / 2 - q\<rfloor>)"

fun f32_round_away :: "f32 \<Rightarrow> f32" where
  "f32_round_away (Fin q) = Fin (of_int (round_away q))"
| "f32_round_away x = x"

text \<open>The cast \<open>as i16\<close>: truncates towards zero, saturates, and maps NaN to 0.\<close>

fun f32_as_i16 :: "f32 \<Rightarrow> i16" where
  "f32_as_i16 NaN = 0"
| "f32_as_i16 (Infinity neg) = (if neg then word_of_int (- 32768) else word_of_int 32767)"
| "f32_as_i16 (Fin q) =
     word_of_int (max (- 32768) (min 32767 (if 0 \<le> q then \<lfloor>q\<rfloor> else - \<lfloor>- q\<rfloor>)))"

definition float_to_i16 :: "f32 \<Rightarrow> i16" where
  "float_to_i16 sample =
     (if ieee_le sample (Fin (- 1)) then word_of_int (- 32768)
      else f32_as_i16 (ieee_clamp (- 32768) 32767
             (f32_round_away (ieee_mul f32_round (ieee_clamp (- 1) 1 sample) (Fin 32768)))))"

definition encode_samples :: "f32 list \<Rightarrow> u8 list" where
  "encode_samples xs = concat (map (\<lambda>s. i16_to_le (float_to_i16 s)) xs)"

definition to_pcm16_le :: "mono_pcm \<Rightarrow> u8 list" where
  "to_pcm16_le audio = encode_samples (pcm_samples audio)"

section \<open>Rates, limits and construction\<close>

lemma supported_bounds:
  "r \<in> set supported_sample_rates \<Longrightarrow> 8000 \<le> r \<and> r \<le> 48000"
  by (auto simp: supported_sample_rates_def)

lemma validate_rate_Inr [res_simps]:
  "validate_rate r = Inr u \<longleftrightarrow> r \<in> set supported_sample_rates"
  by (simp add: validate_rate_def)

lemma validate_rate_ok: "r \<in> set supported_sample_rates \<Longrightarrow> validate_rate r = Inr ()"
  by (simp add: validate_rate_def)

lemma admit_Inr_iff:
  "admit l b r n = Inr u \<longleftrightarrow>
     b \<le> max_encoded_bytes l \<and> n * 1000 \<le> u64_max \<and> r * max_duration_ms l \<le> u64_max
     \<and> n * 1000 \<le> r * max_duration_ms l"
  by (auto simp: admit_def res_simps bind_eq_Some_conv try_u64_def u64_max_def not_less)

lemma admit_mono:
  "admit l b r n = Inr u \<Longrightarrow> b' \<le> b \<Longrightarrow> n' \<le> n \<Longrightarrow> admit l b' r n' = Inr ()"
  by (simp add: admit_Inr_iff)

lemma valid_sample_iff: "valid_sample s \<longleftrightarrow> (\<exists>q. s = Fin q \<and> - 1 \<le> q \<and> q \<le> 1)"
  by (cases s) (auto simp: valid_sample_def in_range_def)

lemma mono_pcm_new_Inr_iff:
  "mono_pcm_new r xs = Inr a \<longleftrightarrow>
     r \<in> set supported_sample_rates \<and> xs \<noteq> [] \<and> (\<forall>s\<in>set xs. valid_sample s)
     \<and> a = \<lparr>pcm_rate = r, pcm_samples = xs\<rparr>"
  by (auto simp: mono_pcm_new_def res_simps list_ex_iff valid_sample_def)

text \<open>The type invariant of \<open>MonoPcm\<close>.\<close>

definition wf_pcm :: "mono_pcm \<Rightarrow> bool" where
  "wf_pcm a \<longleftrightarrow> pcm_rate a \<in> set supported_sample_rates \<and> pcm_samples a \<noteq> []
     \<and> (\<forall>s\<in>set (pcm_samples a). valid_sample s)"

lemma mono_pcm_new_wf: "mono_pcm_new r xs = Inr a \<Longrightarrow> wf_pcm a"
  by (simp add: mono_pcm_new_Inr_iff wf_pcm_def)

lemma wf_pcm_new: "wf_pcm a \<Longrightarrow> mono_pcm_new (pcm_rate a) (pcm_samples a) = Inr a"
  by (simp add: mono_pcm_new_Inr_iff wf_pcm_def)

section \<open>Samples are decoded exactly\<close>

lemma sint_i16_bounds: "- 32768 \<le> sint (w :: i16) \<and> sint w < 32768"
  using sint_greater_eq [of w] sint_less [of w] by simp

lemma f32_exact:
  assumes "\<bar>m\<bar> < 2 ^ 24" and "- 149 \<le> k" and "\<bar>of_int m * 2 powi k\<bar> < (2::rat) ^ 128"
  shows "f32_round (of_int m * 2 powi k) = Fin (of_int m * 2 powi k)"
  using binary32.round_exact_small [OF refl assms(1,2)] assms(3)
  by (simp add: f32_round_def ieee_round_def)

lemma f32_round_i16_scaled:
  assumes "\<bar>n\<bar> \<le> 32768"
  shows "f32_round (of_int n / 32768) = Fin (of_int n / 32768)"
proof -
  have "(2::rat) powi (- 15) = 1 / 32768" by (simp add: power_int_def power_one_over)
  then have k: "of_int n / 32768 = of_int n * (2::rat) powi (- 15)" by simp
  have "\<bar>of_int n :: rat\<bar> \<le> 32768" using assms by linarith
  then have "\<bar>of_int n / 32768 :: rat\<bar> \<le> 1" by simp
  also have "(1::rat) < 2 ^ 128" by simp
  finally show ?thesis unfolding k using assms by (intro f32_exact) auto
qed

lemma f32_round_i16:
  assumes "\<bar>n\<bar> \<le> 32768"
  shows "f32_round (of_int n) = Fin (of_int n)"
proof -
  have "\<bar>of_int n :: rat\<bar> \<le> 32768" using assms by linarith
  also have "(32768::rat) < 2 ^ 128" by simp
  finally show ?thesis using f32_exact [of n 0] assms by simp
qed

lemma decode_sample_eq: "decode_sample lo hi = Fin (of_int (sint (i16_from_le lo hi)) / 32768)"
proof -
  define n where "n = sint (i16_from_le lo hi)"
  have "\<bar>n\<bar> \<le> 32768" using sint_i16_bounds [of "i16_from_le lo hi"] by (auto simp: n_def)
  from f32_round_i16_scaled [OF this] show ?thesis
    by (simp add: decode_sample_def n_def [symmetric] del: of_int_sint)
qed

lemma valid_decode_sample: "valid_sample (decode_sample lo hi)"
proof -
  define n where "n = sint (i16_from_le lo hi)"
  have "(of_int (- 32768) :: rat) \<le> of_int n" "(of_int n :: rat) \<le> of_int 32768"
    using sint_i16_bounds [of "i16_from_le lo hi"] unfolding n_def of_int_le_iff by auto
  then show ?thesis
    by (simp add: decode_sample_eq valid_sample_def in_range_def n_def [symmetric]
        le_divide_eq divide_le_eq del: of_int_sint)
qed

lemma length_decode_pairs: "length (decode_pairs bs) = length bs div 2"
  by (induction bs rule: decode_pairs.induct) auto

lemma valid_decode_pairs: "s \<in> set (decode_pairs bs) \<Longrightarrow> valid_sample s"
  by (induction bs rule: decode_pairs.induct) (auto simp: valid_decode_sample)

lemma decode_pairs_append:
  "even (length xs) \<Longrightarrow> decode_pairs (xs @ ys) = decode_pairs xs @ decode_pairs ys"
  by (induction xs rule: decode_pairs.induct) auto

lemma from_pcm16_le_Inr_iff:
  "from_pcm16_le bs r l = Inr a \<longleftrightarrow>
     r \<in> set supported_sample_rates \<and> bs \<noteq> [] \<and> even (length bs)
     \<and> admit l (length bs) r (length bs div 2) = Inr ()
     \<and> a = \<lparr>pcm_rate = r, pcm_samples = decode_pairs bs\<rparr>"
proof -
  have "decode_pairs bs \<noteq> []" if "bs \<noteq> []" "even (length bs)"
    using that by (cases bs rule: decode_pairs.cases) auto
  then show ?thesis
    by (auto simp: from_pcm16_le_def res_simps mono_pcm_new_Inr_iff
        intro: valid_decode_pairs even_iff_mod_2_eq_zero [THEN iffD1])
qed

section \<open>Encoding inverts decoding\<close>

lemma round_away_of_int [simp]: "round_away (of_int n) = n"
proof -
  have "\<lfloor>(of_int n :: rat) + 1 / 2\<rfloor> = n" "\<lfloor>1 / 2 - (of_int n :: rat)\<rfloor> = - n"
    by (simp_all add: floor_eq_iff)
  then show ?thesis by (simp add: round_away_def)
qed

lemma float_to_i16_exact: "float_to_i16 (Fin (of_int (sint w) / 32768)) = w"
proof -
  define n where "n = sint w"
  have w: "word_of_int n = w" by (simp add: n_def)
  have n: "- 32768 \<le> n" "n \<le> 32767" using sint_i16_bounds [of w] by (auto simp: n_def)
  have q: "- 32768 \<le> (of_int n :: rat)" "(of_int n :: rat) \<le> 32767"
    using n by (metis of_int_le_iff of_int_minus of_int_numeral)+
  have mul: "f32_round (of_int n / 32768 * 32768) = Fin (of_int n)"
    using f32_round_i16 [of n] n by simp
  have "float_to_i16 (Fin (of_int n / 32768)) = word_of_int n"
  proof (cases "n = - 32768")
    case False
    with q have "- 32768 < (of_int n :: rat)"
      by (metis n(1) of_int_less_iff of_int_minus of_int_numeral order_less_le)
    with q n mul show ?thesis by (simp add: float_to_i16_def flip: of_int_minus)
  qed (simp add: float_to_i16_def)
  with w show ?thesis by (simp add: n_def [symmetric] del: of_int_sint)
qed

lemma encode_decode_pairs: "even (length bs) \<Longrightarrow> encode_samples (decode_pairs bs) = bs"
  by (induction bs rule: decode_pairs.induct)
    (simp_all add: encode_samples_def decode_sample_eq float_to_i16_exact i16_to_from_le
      del: of_int_sint)

lemma length_encode_samples [simp]: "length (encode_samples xs) = 2 * length xs"
  by (induction xs) (simp_all add: encode_samples_def)

section \<open>Quantisation\<close>

lemma round_away_err: "\<bar>of_int (round_away q) - q\<bar> \<le> 1 / 2"
proof -
  have "of_int \<lfloor>q + 1 / 2\<rfloor> \<le> q + 1 / 2" "q + 1 / 2 < of_int \<lfloor>q + 1 / 2\<rfloor> + 1"
    "of_int \<lfloor>1 / 2 - q\<rfloor> \<le> 1 / 2 - q" "1 / 2 - q < of_int \<lfloor>1 / 2 - q\<rfloor> + 1" by linarith+
  then show ?thesis by (cases "0 \<le> q") (simp_all only: round_away_def if_True if_False abs_le_iff of_int_minus, linarith+)
qed

lemma round_away_mono: "0 \<le> q \<Longrightarrow> q \<le> r \<Longrightarrow> round_away q \<le> round_away r"
  by (simp add: round_away_def floor_mono)

lemma sint_i16_of_int: "- 32768 \<le> n \<Longrightarrow> n \<le> 32767 \<Longrightarrow> sint (word_of_int n :: i16) = n"
  by (simp add: int_word_sint)

lemma float_to_i16_value:
  assumes q: "- 1 \<le> q" "q \<le> 1" and r: "is_f32 (Fin q)"
  shows "sint (float_to_i16 (Fin q)) = min 32767 (round_away (q * 32768))"
proof (cases "q = - 1")
  case True
  have "round_away (- 32768 :: rat) = - 32768" using round_away_of_int [of "- 32768"] by simp
  with True show ?thesis by (simp add: float_to_i16_def sint_i16_of_int)
next
  case False
  define n where "n = round_away (q * 32768)"
  have "rnd32 (q * 2 ^ 15) = q * 2 ^ 15" using is_f32_rnd32 [OF r] by (rule binary32.round_scale)
  moreover have "\<bar>q * 2 ^ 15\<bar> \<le> 2 powi 15" using q by (simp add: power_int_def abs_le_iff)
  ultimately have mul: "f32_round (q * 32768) = Fin (q * 32768)"
    using f32_round_Fin [of "q * 2 ^ 15" 15] by simp
  have "- 32768 - 1 / 2 < (of_int n :: rat)"
    using round_away_err [of "q * 32768"] False q unfolding n_def abs_le_iff by auto
  then have "(of_int (- 32769) :: rat) < of_int n" by simp
  then have n: "- 32768 \<le> n" unfolding of_int_less_iff by simp
  have c: "(of_int n < (- 32768 :: rat)) = False" "((32767 :: rat) < of_int n) = (32767 < n)"
    using n by (metis not_less of_int_le_iff of_int_minus of_int_numeral)
      (metis of_int_less_iff of_int_numeral)
  have "float_to_i16 (Fin q) = word_of_int (min 32767 n)"
    using q False n
    by (auto simp: float_to_i16_def mul n_def [symmetric] c min_def max_def not_le not_less
        of_int_0_le_iff [where 'a = rat, symmetric] simp del: of_int_0_le_iff)
  with n show ?thesis by (simp add: n_def [symmetric] sint_i16_of_int)
qed

section \<open>Properties\<close>

text \<open>
  C15: PCM16 survives the round trip. Whatever bytes \<open>from_pcm16_le\<close> admits, encoding the
  decoded recording gives the same bytes back.
\<close>

theorem pcm16_roundtrip:
  "from_pcm16_le bytes rate limits = Inr a \<Longrightarrow> to_pcm16_le a = bytes"
  by (auto simp: from_pcm16_le_Inr_iff to_pcm16_le_def encode_decode_pairs)

theorem pcm16_roundtrip_witness: "to_pcm16_le \<lparr>pcm_rate = 8000, pcm_samples = decode_pairs [1, 2, 255, 128]\<rparr> = [1, 2, 255, 128]"
  by (rule pcm16_roundtrip [of _ 8000 audio_limits_default])
    (simp add: from_pcm16_le_Inr_iff admit_Inr_iff audio_limits_default_def
      supported_sample_rates_def u64_max_def)

text \<open>
  Quantisation. A valid \<open>f32\<close> sample \<open>q\<close> is encoded as the nearest of the 65536
  levels, so the level is off by at most half a quantum, except that samples above
  \<open>32767/32768\<close> saturate at the largest level.
\<close>

theorem quantisation_error:
  assumes "valid_sample (Fin q)" and "is_f32 (Fin q)"
  shows "\<bar>of_int (sint (float_to_i16 (Fin q))) / 32768 - q\<bar>
    \<le> (if q \<le> 32767 / 32768 then 1 / 65536 else 1 - 32767 / 32768)"
proof -
  have q: "- 1 \<le> q" "q \<le> 1" using assms(1) by (simp_all add: valid_sample_def in_range_def)
  define n where "n = round_away (q * 32768)"
  have v: "sint (float_to_i16 (Fin q)) = min 32767 n"
    using float_to_i16_value [OF q assms(2)] by (simp add: n_def)
  have err: "\<bar>of_int n - q * 32768\<bar> \<le> 1 / 2" unfolding n_def by (rule round_away_err)
  show ?thesis
  proof (cases "q \<le> 32767 / 32768")
    case True
    have "(of_int n :: rat) < 32768" using err True unfolding abs_le_iff by auto
    then have "n \<le> 32767" by simp
    then have "sint (float_to_i16 (Fin q)) = n" using v by simp
    moreover have "\<bar>of_int n / 32768 - q\<bar> \<le> 1 / 65536" using err unfolding abs_le_iff by auto
    ultimately show ?thesis using True by (simp del: of_int_sint)
  next
    case False
    have "32767 \<le> n" unfolding n_def
      using round_away_mono [of "of_int 32767" "q * 32768"] False round_away_of_int [of 32767]
      by simp
    then have "sint (float_to_i16 (Fin q)) = 32767" using v by simp
    with False q show ?thesis by (simp add: abs_le_iff del: of_int_sint)
  qed
qed

theorem quantisation_error_witness:
  "\<bar>of_int (sint (float_to_i16 (Fin (1 / 2)))) / 32768 - 1 / 2\<bar> \<le> (1 / 65536 :: rat)"
proof -
  have "is_f32 (Fin (1 / 2))"
    using f32_round_Fin [of "1 / 2" 0] rnd32_powi [of "- 1"]
    by (simp add: is_f32_def power_int_def)
  from quantisation_error [OF _ this] show ?thesis
    by (simp add: valid_sample_def in_range_def del: of_int_sint)
qed

end
