(* ===== verification/Wav.thy ===== *)
theory Wav
  imports Audio_Core
begin

text \<open>
  \<open>crates/impossible-voice-audio/src/lib.rs\<close>: the RIFF/WAVE decoder
  \<open>MonoPcm::from_wav\<close> with its chunk walk, and the encoder
  \<open>MonoPcm::to_wav_pcm16\<close>. The chunk walk is proved to implement an abstract specification
  over the list of chunks of a well-formed file (the first \<open>fmt\<close> and the first
  \<open>data\<close> chunk count, every other chunk is skipped with its padding byte), and the
  encoder's output is decoded to the PCM it was made from.
\<close>

section \<open>Reading\<close>

definition chunk_error :: audio_error where
  "chunk_error = AudioError ''WAV chunk is malformed''"

definition container_error :: audio_error where
  "container_error = AudioError ''WAV container is malformed''"

text \<open>\<open>&bytes[a..b]\<close>, for \<open>a \<le> b \<le> bytes.len()\<close>.\<close>

definition slice :: "'a list \<Rightarrow> nat \<Rightarrow> nat \<Rightarrow> 'a list" where
  "slice bytes a b = take (b - a) (drop a bytes)"

text \<open>\<open>bytes.get(offset..offset + 4)\<close>: \<open>None\<close> when the range leaves the slice.\<close>

definition read_u32 :: "u8 list \<Rightarrow> nat \<Rightarrow> audio_error + nat" where
  "read_u32 bytes offset =
     (if offset + 4 \<le> length bytes
      then Inr (u32_from_le (bytes ! offset) (bytes ! (offset + 1)) (bytes ! (offset + 2))
                  (bytes ! (offset + 3)))
      else Inl container_error)"

definition parse_wave_format :: "u8 list \<Rightarrow> audio_error + nat" where
  "parse_wave_format bytes =
     (if length bytes < 16 then Inl (AudioError ''WAV format chunk is malformed'')
      else
        let format = u16_from_le (bytes ! 0) (bytes ! 1);
            channels = u16_from_le (bytes ! 2) (bytes ! 3);
            sample_rate = u32_from_le (bytes ! 4) (bytes ! 5) (bytes ! 6) (bytes ! 7);
            byte_rate = u32_from_le (bytes ! 8) (bytes ! 9) (bytes ! 10) (bytes ! 11);
            block_align = u16_from_le (bytes ! 12) (bytes ! 13);
            bits = u16_from_le (bytes ! 14) (bytes ! 15)
        in and_then (validate_rate sample_rate) (\<lambda>_.
             if format \<noteq> 1 \<or> channels \<noteq> 1 \<or> bits \<noteq> 16 \<or> block_align \<noteq> 2
                \<or> byte_rate \<noteq> saturating_mul32 sample_rate 2
             then Inl (AudioError ''WAV encoding must be mono PCM16'')
             else Inr sample_rate))"

text \<open>The four-byte tags \<open>RIFF\<close>, \<open>WAVE\<close>, \<open>fmt \<close> and \<open>data\<close>.\<close>

definition riff_tag :: "u8 list" where "riff_tag = [82, 73, 70, 70]"
definition wave_tag :: "u8 list" where "wave_tag = [87, 65, 86, 69]"
definition fmt_tag :: "u8 list" where "fmt_tag = [102, 109, 116, 32]"
definition data_tag :: "u8 list" where "data_tag = [100, 97, 116, 97]"

text \<open>The \<open>match\<close> on a chunk's tag inside the loop of \<open>from_wav\<close>.\<close>

definition take_chunk ::
  "u8 list \<Rightarrow> u8 list \<Rightarrow> nat option \<Rightarrow> u8 list option \<Rightarrow> audio_error + nat option \<times> u8 list option"
where
  "take_chunk tag payload format data =
     (if tag = fmt_tag \<and> format = None
      then map_ok (\<lambda>rate. (Some rate, data)) (parse_wave_format payload)
      else if tag = data_tag \<and> data = None then Inr (format, Some payload)
      else Inr (format, data))"

text \<open>The loop \<open>while offset < bytes.len()\<close>; every round advances by at least eight bytes.\<close>

function wav_chunks ::
  "u8 list \<Rightarrow> nat \<Rightarrow> nat option \<Rightarrow> u8 list option \<Rightarrow> audio_error + nat option \<times> u8 list option"
where
  "wav_chunks bytes offset format data =
     (if offset < length bytes then
        (case checked_add64 offset 8 of
           None \<Rightarrow> Inl chunk_error
         | Some header_end \<Rightarrow>
             if header_end > length bytes then Inl chunk_error
             else
               (case read_u32 bytes (offset + 4) of
                  Inl e \<Rightarrow> Inl e
                | Inr bytes_len \<Rightarrow>
                    (case checked_add64 header_end bytes_len of
                       None \<Rightarrow> Inl chunk_error
                     | Some stop \<Rightarrow>
                         if stop > length bytes then Inl chunk_error
                         else
                           (case take_chunk (slice bytes offset (offset + 4))
                                   (slice bytes header_end stop) format data of
                              Inl e \<Rightarrow> Inl e
                            | Inr (format', data') \<Rightarrow>
                                (case checked_add64 stop (bytes_len mod 2) of
                                   None \<Rightarrow> Inl chunk_error
                                 | Some next \<Rightarrow> wav_chunks bytes next format' data')))))
      else Inr (format, data))"
  by pat_completeness auto
termination
  by (relation "measure (\<lambda>(bytes, offset, _). length bytes - offset)") (auto split: if_splits)

declare wav_chunks.simps [simp del]

definition from_wav :: "u8 list \<Rightarrow> audio_limits \<Rightarrow> audio_error + mono_pcm" where
  "from_wav bytes limits =
     (if length bytes < 12 \<or> slice bytes 0 4 \<noteq> riff_tag \<or> slice bytes 8 12 \<noteq> wave_tag
      then Inl container_error
      else and_then (admit limits (length bytes) 48000 0) (\<lambda>_.
        and_then (read_u32 bytes 4) (\<lambda>riff_size.
        and_then (ok_or container_error (checked_add64 riff_size 8)) (\<lambda>declared.
          if declared \<noteq> length bytes
          then Inl (AudioError ''WAV container length is invalid'')
          else and_then (wav_chunks bytes 12 None None) (\<lambda>(format, data).
            and_then (ok_or (AudioError ''WAV format chunk is missing'') format) (\<lambda>sample_rate.
            and_then (ok_or (AudioError ''WAV data chunk is missing'') data) (\<lambda>pcm.
              from_pcm16_le pcm sample_rate limits)))))))"

section \<open>Writing\<close>

definition wav_too_large :: audio_error where
  "wav_too_large = AudioError ''WAV output is too large''"

definition to_wav_pcm16 :: "mono_pcm \<Rightarrow> audio_error + u8 list" where
  "to_wav_pcm16 audio =
     (let pcm = to_pcm16_le audio in
      and_then (ok_or wav_too_large (try_u32 (length pcm))) (\<lambda>data_len.
      and_then (ok_or wav_too_large (checked_add32 data_len 36)) (\<lambda>riff_len.
      and_then (ok_or wav_too_large (checked_mul32 (pcm_rate audio) 2)) (\<lambda>byte_rate.
        Inr (riff_tag @ u32_to_le riff_len @ wave_tag @ fmt_tag @ u32_to_le 16
             @ u16_to_le 1 @ u16_to_le 1 @ u32_to_le (pcm_rate audio) @ u32_to_le byte_rate
             @ u16_to_le 2 @ u16_to_le 16 @ data_tag @ u32_to_le data_len @ pcm)))))"

section \<open>The chunk walk against its specification\<close>

text \<open>A chunk as the RIFF format has it: tag, payload, and a padding byte after an odd payload.\<close>

type_synonym chunk = "u8 list \<times> u8 list"

definition chunk_bytes :: "chunk \<Rightarrow> u8 list" where
  "chunk_bytes c =
     fst c @ u32_to_le (length (snd c)) @ snd c @ (if odd (length (snd c)) then [0] else [])"

definition wf_chunk :: "chunk \<Rightarrow> bool" where
  "wf_chunk c \<longleftrightarrow> length (fst c) = 4 \<and> length (snd c) \<le> u32_max"

text \<open>What the walk has to compute: fold the chunks, oldest first.\<close>

fun scan_chunks ::
  "chunk list \<Rightarrow> nat option \<Rightarrow> u8 list option \<Rightarrow> audio_error + nat option \<times> u8 list option"
where
  "scan_chunks [] format data = Inr (format, data)"
| "scan_chunks (c # cs) format data =
     (case take_chunk (fst c) (snd c) format data of
        Inl e \<Rightarrow> Inl e
      | Inr (format', data') \<Rightarrow> scan_chunks cs format' data')"

lemma slice_append: "length pre = a \<Longrightarrow> a \<le> b \<Longrightarrow> slice (pre @ xs) a b = take (b - a) xs"
  by (simp add: slice_def)

lemma u32_to_le_conv:
  obtains a b c d where "u32_to_le n = [a, b, c, d]"
  by (simp add: u32_to_le_def)

lemma read_u32_append:
  assumes "length pre = a" and "n \<le> u32_max"
  shows "read_u32 (pre @ u32_to_le n @ rest) a = Inr n"
proof -
  obtain b0 b1 b2 b3 where b: "u32_to_le n = [b0, b1, b2, b3]" by (rule u32_to_le_conv)
  from u32_le_roundtrip [OF assms(2) b] show ?thesis
    using assms(1) by (simp add: read_u32_def b nth_append)
qed

lemma length_chunk_bytes:
  "wf_chunk c \<Longrightarrow> length (chunk_bytes c) = 8 + length (snd c) + length (snd c) mod 2"
  by (auto simp: chunk_bytes_def wf_chunk_def odd_iff_mod_2_eq_one even_iff_mod_2_eq_zero)

lemma wav_chunks_scan:
  assumes "\<forall>c\<in>set cs. wf_chunk c" and "length pre = offset"
    and "length (pre @ concat (map chunk_bytes cs)) \<le> u64_max"
  shows "wav_chunks (pre @ concat (map chunk_bytes cs)) offset format data
    = scan_chunks cs format data"
  using assms
proof (induction cs arbitrary: pre offset format data)
  case Nil
  then show ?case by (simp add: wav_chunks.simps)
next
  case (Cons c cs)
  obtain tag payload where c: "c = (tag, payload)" by force
  from Cons.prems(1) have tag: "length tag = 4" and pl: "length payload \<le> u32_max"
    by (simp_all add: c wf_chunk_def)
  define pad :: "u8 list" where "pad = (if odd (length payload) then [0] else [])"
  define rest where "rest = concat (map chunk_bytes cs)"
  define bytes where "bytes = pre @ concat (map chunk_bytes (c # cs))"
  have bytes: "bytes = (pre @ tag) @ u32_to_le (length payload) @ payload @ pad @ rest"
    by (simp add: bytes_def c chunk_bytes_def pad_def rest_def)
  have pad: "length pad = length payload mod 2" by (simp add: pad_def mod2_eq_if)
  have len: "length bytes = offset + 8 + length payload + length payload mod 2 + length rest"
    using Cons.prems(2) tag pad by (simp add: bytes)
  have big: "length bytes \<le> u64_max" using Cons.prems(3) by (simp add: bytes_def)
  have r: "read_u32 bytes (offset + 4) = Inr (length payload)"
    unfolding bytes using Cons.prems(2) tag pl by (intro read_u32_append) auto
  have s1: "slice bytes offset (offset + 4) = tag"
    using Cons.prems(2) tag by (simp add: bytes slice_def)
  have s2: "slice bytes (offset + 8) (offset + 8 + length payload) = payload"
    using Cons.prems(2) tag by (simp add: bytes slice_def)
  have IH: "wav_chunks bytes (offset + 8 + length payload + length payload mod 2) f d
    = scan_chunks cs f d" for f d
    using Cons.IH [of "pre @ chunk_bytes c" "offset + 8 + length payload + length payload mod 2" f d]
      Cons.prems length_chunk_bytes [of c]
    by (simp add: bytes_def c)
  have "wav_chunks bytes offset format data =
    (case take_chunk tag payload format data of
       Inl e \<Rightarrow> Inl e | Inr (f, d) \<Rightarrow> scan_chunks cs f d)"
    using len big
    by (subst wav_chunks.simps)
      (simp add: checked_add64_def r s1 s2 IH split: sum.split)
  then show ?case by (simp add: bytes_def c)
qed

section \<open>Files against their chunks\<close>

text \<open>A RIFF/WAVE file with the given chunks, and what decoding it has to give.\<close>

definition wav_file :: "chunk list \<Rightarrow> u8 list" where
  "wav_file cs =
     (let body = concat (map chunk_bytes cs)
      in riff_tag @ u32_to_le (length body + 4) @ wave_tag @ body)"

definition from_chunks :: "chunk list \<Rightarrow> audio_limits \<Rightarrow> audio_error + mono_pcm" where
  "from_chunks cs limits =
     and_then (scan_chunks cs None None) (\<lambda>(format, data).
       and_then (ok_or (AudioError ''WAV format chunk is missing'') format) (\<lambda>rate.
       and_then (ok_or (AudioError ''WAV data chunk is missing'') data) (\<lambda>pcm.
         from_pcm16_le pcm rate limits)))"

lemma length_tags [simp]:
  "length riff_tag = 4" "length wave_tag = 4" "length fmt_tag = 4" "length data_tag = 4"
  by (simp_all add: riff_tag_def wave_tag_def fmt_tag_def data_tag_def)

lemma length_wav_file: "length (wav_file cs) = 12 + length (concat (map chunk_bytes cs))"
  by (simp add: wav_file_def Let_def)

lemma from_wav_file:
  assumes cs: "\<forall>c\<in>set cs. wf_chunk c" and len: "length (wav_file cs) \<le> u32_max + 8"
    and adm: "admit limits (length (wav_file cs)) 48000 0 = Inr ()"
  shows "from_wav (wav_file cs) limits = from_chunks cs limits"
proof -
  define body where "body = concat (map chunk_bytes cs)"
  define n where "n = length body + 4"
  have f: "wav_file cs = riff_tag @ u32_to_le n @ wave_tag @ body"
    by (simp add: wav_file_def body_def n_def Let_def)
  have n: "n \<le> u32_max" "n + 8 = length (wav_file cs)"
    using len by (simp_all add: f n_def)
  have s: "slice (wav_file cs) 0 4 = riff_tag" "slice (wav_file cs) 8 12 = wave_tag"
    by (simp_all add: f slice_def)
  have r: "read_u32 (wav_file cs) 4 = Inr n"
    unfolding f using n(1) by (intro read_u32_append) simp_all
  have big: "length (wav_file cs) \<le> u64_max" using len by (simp add: u32_max_def u64_max_def)
  have w: "wav_chunks (wav_file cs) 12 None None = scan_chunks cs None None"
    using wav_chunks_scan [OF cs, of "riff_tag @ u32_to_le n @ wave_tag" 12] big
    by (simp add: f body_def)
  have c: "checked_add64 n 8 = Some (length (wav_file cs))"
    using n(2) big by (simp add: checked_add64_def)
  have "12 \<le> length (wav_file cs)" by (simp add: f)
  then show ?thesis
    by (simp add: from_wav_def from_chunks_def s r w c adm)
qed

text \<open>A chunk with another tag does not change what a file decodes to.\<close>

definition ignored :: "chunk \<Rightarrow> bool" where
  "ignored c \<longleftrightarrow> fst c \<noteq> fmt_tag \<and> fst c \<noteq> data_tag"

lemma scan_ignored:
  "scan_chunks cs format data = scan_chunks (filter (\<lambda>c. \<not> ignored c) cs) format data"
  by (induction cs arbitrary: format data)
    (auto simp: ignored_def take_chunk_def split: sum.split)

section \<open>Encoding and decoding a file\<close>

definition wave_format :: "nat \<Rightarrow> u8 list" where
  "wave_format rate =
     u16_to_le 1 @ u16_to_le 1 @ u32_to_le rate @ u32_to_le (rate * 2) @ u16_to_le 2 @ u16_to_le 16"

lemma parse_wave_format_roundtrip:
  assumes "rate \<in> set supported_sample_rates"
  shows "parse_wave_format (wave_format rate) = Inr rate"
proof -
  have r: "rate \<le> u32_max" "rate * 2 \<le> u32_max" "validate_rate rate = Inr ()"
    using assms supported_bounds [of rate] by (simp_all add: validate_rate_def u32_max_def)
  obtain a b c d where l: "u32_to_le rate = [a, b, c, d]" by (rule u32_to_le_conv)
  obtain e f g h where m: "u32_to_le (rate * 2) = [e, f, g, h]" by (rule u32_to_le_conv)
  from u32_le_roundtrip [OF r(1) l] u32_le_roundtrip [OF r(2) m] r show ?thesis
    by (simp add: parse_wave_format_def wave_format_def l m u16_to_le_def u16_from_le_def
        saturating_mul32_def)
qed

lemma length_wave_format [simp]: "length (wave_format rate) = 16"
  by (simp add: wave_format_def)

lemma to_wav_pcm16_file:
  assumes "to_wav_pcm16 audio = Inr bytes"
  shows "bytes = wav_file [(fmt_tag, wave_format (pcm_rate audio)), (data_tag, to_pcm16_le audio)]"
    and "length (to_pcm16_le audio) + 36 \<le> u32_max"
  using assms
  by (auto simp: to_wav_pcm16_def wav_file_def chunk_bytes_def wave_format_def res_simps num_defs
      Let_def to_pcm16_le_def add.commute split: if_splits)

lemma from_chunks_wave:
  assumes "rate \<in> set supported_sample_rates"
  shows "from_chunks [(fmt_tag, wave_format rate), (data_tag, pcm)] limits
    = from_pcm16_le pcm rate limits"
proof -
  have "data_tag \<noteq> fmt_tag" by (simp add: data_tag_def fmt_tag_def)
  with assms show ?thesis
    by (simp add: from_chunks_def take_chunk_def parse_wave_format_roundtrip)
qed

lemma from_wav_to_wav:
  assumes "to_wav_pcm16 audio = Inr bytes" and "wf_pcm audio"
    and "admit limits (length bytes) 48000 0 = Inr ()"
  shows "from_wav bytes limits = from_pcm16_le (to_pcm16_le audio) (pcm_rate audio) limits"
proof -
  let ?cs = "[(fmt_tag, wave_format (pcm_rate audio)), (data_tag, to_pcm16_le audio)]"
  note w = to_wav_pcm16_file [OF assms(1)]
  have "\<forall>c\<in>set ?cs. wf_chunk c" using w(2) by (simp add: wf_chunk_def u32_max_def)
  moreover have "length (wav_file ?cs) \<le> u32_max + 8"
    using w(2) by (simp add: length_wav_file chunk_bytes_def to_pcm16_le_def)
  ultimately have "from_wav (wav_file ?cs) limits = from_chunks ?cs limits"
    using assms(3) w(1) by (intro from_wav_file) simp_all
  moreover have "pcm_rate audio \<in> set supported_sample_rates"
    using assms(2) by (simp add: wf_pcm_def)
  ultimately show ?thesis using w(1) by (simp add: from_chunks_wave)
qed

section \<open>Properties\<close>

text \<open>
  C13: the WAV decoder implements the RIFF format. On a file assembled from well-formed chunks,
  in any order and with any others between them, the byte-offset walk of \<open>from_wav\<close> decodes
  what the list of chunks says: the first format chunk and the first data chunk decide, every
  other chunk is skipped with its padding.
\<close>

theorem from_wav_refines_chunks:
  assumes "\<forall>c\<in>set cs. wf_chunk c" and "length (wav_file cs) \<le> u32_max + 8"
    and "admit limits (length (wav_file cs)) 48000 0 = Inr ()"
  shows "from_wav (wav_file cs) limits = from_chunks (filter (\<lambda>c. \<not> ignored c) cs) limits"
  using from_wav_file [OF assms] scan_ignored [of cs None None] by (simp add: from_chunks_def)

theorem from_wav_refines_chunks_witness:
  "from_wav (wav_file [([76, 73, 83, 84], [1, 2, 3]), (data_tag, [0, 64])]) audio_limits_default
    = Inl (AudioError ''WAV format chunk is missing'')"
proof -
  let ?cs = "[([76, 73, 83, 84], [1, 2, 3]), (data_tag, [0, 64])] :: chunk list"
  have "from_wav (wav_file ?cs) audio_limits_default
    = from_chunks (filter (\<lambda>c. \<not> ignored c) ?cs) audio_limits_default"
    by (rule from_wav_refines_chunks)
      (simp_all add: wf_chunk_def length_wav_file chunk_bytes_def admit_Inr_iff
        audio_limits_default_def u32_max_def u64_max_def)
  then show ?thesis
    by (simp add: ignored_def from_chunks_def take_chunk_def fmt_tag_def data_tag_def)
qed

text \<open>
  C14: \<open>from_wav\<close> reads back what \<open>to_wav_pcm16\<close> writes: a recording that came
  from PCM16 is recovered exactly, sample rate and every sample, under limits that admit the file.
\<close>

theorem wav_roundtrip:
  assumes "from_pcm16_le pcm rate limits = Inr a" and "to_wav_pcm16 a = Inr bytes"
    and "admit limits (length bytes) 48000 0 = Inr ()"
  shows "from_wav bytes limits = Inr a"
proof -
  have "mono_pcm_new rate (decode_pairs pcm) = Inr a"
    using assms(1) by (auto simp: from_pcm16_le_def res_simps split: if_splits)
  moreover have "to_pcm16_le a = pcm" "pcm_rate a = rate"
    using assms(1) by (auto simp: from_pcm16_le_Inr_iff to_pcm16_le_def encode_decode_pairs)
  ultimately show ?thesis using from_wav_to_wav [OF assms(2) mono_pcm_new_wf assms(3)] assms(1) by simp
qed

theorem wav_roundtrip_witness:
  "\<exists>bytes. to_wav_pcm16 \<lparr>pcm_rate = 8000, pcm_samples = decode_pairs [0, 64]\<rparr> = Inr bytes
    \<and> from_wav bytes audio_limits_default
        = Inr \<lparr>pcm_rate = 8000, pcm_samples = decode_pairs [0, 64]\<rparr>"
proof -
  let ?a = "\<lparr>pcm_rate = 8000, pcm_samples = decode_pairs [0, 64]\<rparr>"
  have 1: "from_pcm16_le [0, 64] 8000 audio_limits_default = Inr ?a"
    by (simp add: from_pcm16_le_Inr_iff admit_Inr_iff audio_limits_default_def
        supported_sample_rates_def u64_max_def)
  obtain bytes where 2: "to_wav_pcm16 ?a = Inr bytes" "length bytes = 46"
    by (simp add: to_wav_pcm16_def num_defs u32_max_def to_pcm16_le_def Let_def)
  have "admit audio_limits_default (length bytes) 48000 0 = Inr ()"
    by (simp add: 2(2) admit_Inr_iff audio_limits_default_def u64_max_def)
  from wav_roundtrip [OF 1 2(1) this] 2(1) show ?thesis by blast
qed

end
