(* ===== verification/Resample.thy ===== *)
theory Resample
  imports Audio_Core
begin

text \<open>
  \<open>crates/impossible-voice-audio/src/lib.rs\<close>: the linear resampler, one-shot
  (\<open>MonoPcm::resample\<close>) and incremental (\<open>StreamingResampler\<close>). Proved: the
  arithmetic of one interpolated sample stays between its two neighbours although every operation
  rounds, so the one-shot resampler never fails on valid audio; and the incremental resampler, an
  instance of the \<open>chunked\<close> contract, delivers exactly the one-shot output whatever the
  chunking.
\<close>

section \<open>One output sample\<close>

definition resample_error :: audio_error where
  "resample_error = AudioError ''resampled audio is too large''"

text \<open>How many outputs an input ending at index \<open>last_input\<close> determines.\<close>

definition available_outputs :: "nat \<Rightarrow> nat \<Rightarrow> nat \<Rightarrow> audio_error + nat" where
  "available_outputs source_rate target_rate last_input =
     ok_or resample_error
       (Option.bind (checked_mul64 last_input target_rate) (\<lambda>value.
        Option.bind (checked_div64 value source_rate) (\<lambda>value.
        Option.bind (checked_add64 value 1) try_u64)))"

text \<open>\<open>samples[left] + (samples[right] - samples[left]) * fraction\<close>, in \<open>f32\<close>.\<close>

definition interpolate :: "f32 \<Rightarrow> f32 \<Rightarrow> nat \<Rightarrow> nat \<Rightarrow> f32" where
  "interpolate x y remainder target =
     ieee_add f32_round x
       (ieee_mul f32_round (ieee_sub f32_round y x)
         (ieee_div f32_round (Fin (of_nat remainder)) (Fin (of_nat target))))"

text \<open>The body shared by the loops of \<open>MonoPcm::resample\<close> and \<open>StreamingResampler::push\<close>.\<close>

definition sample_at :: "nat \<Rightarrow> nat \<Rightarrow> f32 list \<Rightarrow> nat \<Rightarrow> nat \<Rightarrow> audio_error + f32" where
  "sample_at source_rate target_rate xs last_input index =
     and_then (ok_or resample_error (checked_mul64 index source_rate)) (\<lambda>position.
     and_then (ok_or resample_error (try_u64 (position div target_rate))) (\<lambda>left.
       let remainder = position mod target_rate;
           right = min (saturating_add64 left 1) last_input
       in and_then (ok_or resample_error (try_u16 remainder)) (\<lambda>remainder.
          and_then (ok_or resample_error (try_u16 target_rate)) (\<lambda>target.
            Inr (interpolate (xs ! left) (xs ! right) remainder target)))))"

section \<open>The resamplers\<close>

definition resample :: "mono_pcm \<Rightarrow> nat \<Rightarrow> audio_error + mono_pcm" where
  "resample audio target_rate =
     and_then (validate_rate target_rate) (\<lambda>_.
       if target_rate = pcm_rate audio then Inr audio
       else
         let intervals = length (pcm_samples audio) - 1 in
         and_then (available_outputs (pcm_rate audio) target_rate intervals) (\<lambda>output_len.
         and_then
           (collect_ok
              (sample_at (pcm_rate audio) target_rate (pcm_samples audio)
                 (length (pcm_samples audio) - 1))
              [0..<output_len])
           (mono_pcm_new target_rate)))"

record streaming_resampler =
  rs_source :: nat
  rs_target :: nat
  rs_input :: "f32 list"
  rs_next :: nat

definition streaming_resampler_new :: "nat \<Rightarrow> nat \<Rightarrow> audio_error + streaming_resampler" where
  "streaming_resampler_new source target =
     and_then (validate_rate source) (\<lambda>_.
     and_then (validate_rate target) (\<lambda>_.
       Inr \<lparr>rs_source = source, rs_target = target, rs_input = [], rs_next = 0\<rparr>))"

text \<open>The loop of \<open>push\<close>; an error keeps the index it stopped at.\<close>

function emit_outputs ::
  "nat \<Rightarrow> nat \<Rightarrow> f32 list \<Rightarrow> nat \<Rightarrow> nat \<Rightarrow> nat \<Rightarrow> f32 list \<Rightarrow> (audio_error + f32 list) \<times> nat"
where
  "emit_outputs source target xs last_input available index output =
     (if index < available
      then (case sample_at source target xs last_input index of
              Inl e \<Rightarrow> (Inl e, index)
            | Inr s \<Rightarrow> emit_outputs source target xs last_input available (index + 1) (output @ [s]))
      else (Inr output, index))"
  by pat_completeness auto
termination
  by (relation "measure (\<lambda>(_, _, _, _, available, index, _). available - index)") auto

declare emit_outputs.simps [simp del]

definition resampler_push ::
  "streaming_resampler \<Rightarrow> f32 list \<Rightarrow> (audio_error + f32 list) \<times> streaming_resampler"
where
  "resampler_push s xs =
     (if xs = [] \<or> list_ex (\<lambda>x. \<not> is_finite x \<or> \<not> in_range (- 1) 1 x) xs
      then (Inl (AudioError ''streaming resampler input is invalid''), s)
      else if checked_add64 (length (rs_input s)) (length xs) = None
      then (Inl resample_error, s)
      else
        let s = s\<lparr>rs_input := rs_input s @ xs\<rparr>;
            last_input = length (rs_input s) - 1
        in (case available_outputs (rs_source s) (rs_target s) last_input of
              Inl e \<Rightarrow> (Inl e, s)
            | Inr available \<Rightarrow>
                (case emit_outputs (rs_source s) (rs_target s) (rs_input s) last_input available
                        (rs_next s) [] of
                   (r, index) \<Rightarrow> (r, s\<lparr>rs_next := index\<rparr>))))"

section \<open>Interpolation stays between its neighbours\<close>

lemma fraction_bounds:
  assumes "r < t" and "t \<le> 48000"
  shows "0 \<le> rnd32 (of_nat r / of_nat t)"
    and "rnd32 (of_nat r / of_nat t) \<le> 1 - 1 / 65536"
    and "f32_round (of_nat r / of_nat t) = Fin (rnd32 (of_nat r / of_nat t))"
proof -
  have t: "0 < (of_nat t :: rat)" "(of_nat t :: rat) \<le> 48000" using assms by auto
  have r: "(of_nat r :: rat) \<le> of_nat t - 1" using assms(1) by linarith
  have "of_nat r / of_nat t \<le> (of_nat t - 1) / (of_nat t :: rat)"
    using r t(1) by (intro divide_right_mono) auto
  also have "\<dots> = 1 - 1 / (of_nat t :: rat)" using t(1) by (simp add: diff_divide_distrib)
  also have "\<dots> \<le> 1 - 1 / 65536" using t by (simp add: field_simps)
  finally have le: "of_nat r / of_nat t \<le> (1 - 1 / 65536 :: rat)" .
  have "(1 - 1 / 65536 :: rat) = of_int 65535 * 2 powi (- 16)" by (simp add: power_int_def power_one_over)
  then have "rnd32 (1 - 1 / 65536) = 1 - 1 / 65536"
    by (rule binary32.round_exact_small) simp_all
  with binary32.round_mono [OF le] show "rnd32 (of_nat r / of_nat t) \<le> 1 - 1 / 65536" by simp
  show "0 \<le> rnd32 (of_nat r / of_nat t)" by (intro binary32.round_nonneg) simp
  have "\<bar>of_nat r / of_nat t\<bar> \<le> (2::rat) powi 0"
    using r t(1) by (simp add: divide_le_eq)
  then show "f32_round (of_nat r / of_nat t) = Fin (rnd32 (of_nat r / of_nat t))"
    by (rule f32_round_Fin) simp_all
qed

text \<open>The rounded increment: at most the exact distance, for a distance on the format's grid.\<close>

lemma rounded_increment:
  assumes d: "0 \<le> d" "d \<le> 2" and grid: "d = of_int m * 2 powi (- 149)"
    and f: "0 \<le> f" "f \<le> 1 - 1 / 65536"
  shows "0 \<le> rnd32 (rnd32 d * f)" and "rnd32 (rnd32 d * f) \<le> d"
proof -
  define D where "D = rnd32 d"
  define v where "v = D * f"
  have D: "0 \<le> D" unfolding D_def using d by (intro binary32.round_nonneg)
  then have v0: "0 \<le> v" using f(1) by (simp add: v_def)
  have vD: "v \<le> D * (1 - 1 / 65536)" unfolding v_def using f(2) D by (intro mult_left_mono)
  have idem: "rnd32 D = D" by (simp add: D_def binary32.round_idem)
  show "0 \<le> rnd32 (rnd32 d * f)"
    unfolding D_def [symmetric] v_def [symmetric] using v0 by (rule binary32.round_nonneg)
  have "rnd32 v \<le> d"
  proof (cases "d < 2 powi (- 125)")
    case True
    have "rnd32 d = d"
    proof (cases "d = 0")
      case False
      from True d have "\<bar>d\<bar> < 2 powi (- 125)" by simp
      from binary32.exp_less [OF False this] have "ulp_exp 24 (- 149) d \<le> - 149"
        by (simp add: ulp_exp_def)
      with grid show ?thesis by (rule binary32.round_exact)
    qed simp
    then have "D = d" by (simp add: D_def)
    have "v \<le> D" using vD D by (simp add: algebra_simps)
    from binary32.round_mono [OF this] show ?thesis using idem \<open>D = d\<close> by simp
  next
    case False
    have "\<bar>D - d\<bar> \<le> 2 powi (- int 24) * \<bar>d\<bar>"
      unfolding D_def using grid by (rule binary32.round_rel_err_on_grid)
    also have "2 powi (- int 24) * \<bar>d\<bar> = d / 2 ^ 24"
      using d by (simp add: power_int_def power_one_over)
    finally have "D - d \<le> d / 2 ^ 24" by (rule order_trans [OF abs_ge_self])
    then have "D \<le> d * (1 + 1 / 2 ^ 24)" by (simp add: algebra_simps)
    then have "D * (1 - 1 / 65536) \<le> d * (1 + 1 / 2 ^ 24) * (1 - 1 / 65536)"
      by (intro mult_right_mono) simp_all
    with vD have v: "v \<le> d * (1 - 1 / 131072)" using d by (simp add: algebra_simps)
    show ?thesis
    proof (cases "2 powi (- 126) \<le> v")
      case True
      then have "- 126 \<le> rat_exp v" using v0 by (intro binary32.exp_ge) simp
      then have "\<bar>rnd32 v - v\<bar> \<le> 2 powi (- int 24) * \<bar>v\<bar>"
        by (intro binary32.round_rel_err) simp
      also have "2 powi (- int 24) * \<bar>v\<bar> = v / 2 ^ 24"
        using v0 by (simp add: power_int_def power_one_over)
      finally have "rnd32 v - v \<le> v / 2 ^ 24" by (rule order_trans [OF abs_ge_self])
      then have "rnd32 v \<le> v * (1 + 1 / 2 ^ 24)" by (simp add: algebra_simps)
      also have "\<dots> \<le> d * (1 - 1 / 131072) * (1 + 1 / 2 ^ 24)" using v by (intro mult_right_mono) simp_all
      also have "\<dots> \<le> d" using d by (simp add: algebra_simps)
      finally show ?thesis .
    next
      case False
      then have "\<bar>v\<bar> \<le> 2 powi (- 126)" using v0 by simp
      from rnd32_bound [OF this] have "rnd32 v \<le> 2 powi (- 126)" by (simp add: abs_le_iff)
      also have "\<dots> \<le> (2::rat) powi (- 125)" by (intro power_int_increasing) simp_all
      also have "\<dots> \<le> d" using \<open>\<not> d < _\<close> by simp
      finally show ?thesis .
    qed
  qed
  then show "rnd32 (rnd32 d * f) \<le> d" by (simp add: v_def D_def)
qed

lemma rnd32_grid: "rnd32 x = x \<Longrightarrow> \<exists>m::int. x = of_int m * 2 powi (- 149)"
  using binary32.round_grid [of x] by metis

lemma interpolate_Fin:
  assumes x: "\<bar>x\<bar> \<le> 1" and y: "\<bar>y\<bar> \<le> 1" and r: "r < t" "t \<le> 48000"
  shows "interpolate (Fin x) (Fin y) r t
    = f32_round (x + rnd32 (rnd32 (y - x) * rnd32 (of_nat r / of_nat t)))"
proof -
  have "\<bar>y - x\<bar> \<le> 2 powi 1" using x y by (simp add: abs_le_iff)
  note d = f32_round_Fin [OF this] rnd32_bound [OF this]
  define f where "f = rnd32 (of_nat r / of_nat t)"
  have f: "\<bar>f\<bar> \<le> 1" using fraction_bounds [OF r] by (simp add: f_def)
  have "\<bar>rnd32 (y - x) * f\<bar> \<le> 2 powi 1 * 1"
    unfolding abs_mult using d(2) f by (intro mult_mono) simp_all
  then have "\<bar>rnd32 (y - x) * f\<bar> \<le> 2 powi 1" by simp
  note p = f32_round_Fin [OF this]
  have "ieee_div f32_round (Fin (of_nat r)) (Fin (of_nat t)) = Fin f"
    using r(1) by (auto simp: f_def fraction_bounds(3) [OF r])
  then show ?thesis
    using d(1) p by (simp add: interpolate_def ieee_sub_def f_def [symmetric])
qed

lemma interpolate_between:
  assumes x: "\<bar>x\<bar> \<le> 1" "rnd32 x = x" and y: "\<bar>y\<bar> \<le> 1" "rnd32 y = y"
    and r: "r < t" "t \<le> 48000"
  obtains z where "interpolate (Fin x) (Fin y) r t = Fin z" "min x y \<le> z" "z \<le> max x y"
    "rnd32 z = z"
proof -
  define f where "f = rnd32 (of_nat r / of_nat t)"
  define p where "p = rnd32 (rnd32 (y - x) * f)"
  have f: "0 \<le> f" "f \<le> 1 - 1 / 65536" using fraction_bounds [OF r] by (simp_all add: f_def)
  obtain m n :: int where mn: "x = of_int m * 2 powi (- 149)" "y = of_int n * 2 powi (- 149)"
    using rnd32_grid [OF x(2)] rnd32_grid [OF y(2)] by blast
  have b: "min x y \<le> x + p \<and> x + p \<le> max x y"
  proof (cases "x \<le> y")
    case True
    have "y - x = of_int (n - m) * 2 powi (- 149)" by (simp add: mn algebra_simps)
    from rounded_increment [OF _ _ this f] True x(1) y(1) show ?thesis
      by (simp add: p_def abs_le_iff)
  next
    case False
    have "x - y = of_int (m - n) * 2 powi (- 149)" by (simp add: mn algebra_simps)
    note inc = rounded_increment [OF _ _ this f]
    have "rnd32 (y - x) = - rnd32 (x - y)" using binary32.round_minus [of "x - y"] by simp
    then have "p = - rnd32 (rnd32 (x - y) * f)" by (simp add: p_def binary32.round_minus)
    with inc False x(1) y(1) show ?thesis by (simp add: abs_le_iff)
  qed
  have min: "rnd32 (min x y) = min x y" "rnd32 (max x y) = max x y"
    using x(2) y(2) by (simp_all add: min_def max_def)
  have z: "min x y \<le> rnd32 (x + p)" "rnd32 (x + p) \<le> max x y"
    using binary32.round_between [OF min] b by simp_all
  have "\<bar>x + p\<bar> \<le> 2 powi 0" using b x(1) y(1) by (simp add: abs_le_iff min_def max_def split: if_splits)
  then have "f32_round (x + p) = Fin (rnd32 (x + p))" by (rule f32_round_Fin) simp_all
  then have "interpolate (Fin x) (Fin y) r t = Fin (rnd32 (x + p))"
    by (simp add: interpolate_Fin [OF x(1) y(1) r] p_def f_def)
  then show ?thesis by (rule that) (use z binary32.round_idem in auto)
qed

section \<open>The output as a function of the input\<close>

definition f32_sample :: "f32 \<Rightarrow> bool" where
  "f32_sample s \<longleftrightarrow> valid_sample s \<and> is_f32 s"

definition value_at :: "nat \<Rightarrow> nat \<Rightarrow> f32 list \<Rightarrow> nat \<Rightarrow> nat \<Rightarrow> f32" where
  "value_at source target xs last_input index =
     (let position = index * source; left = position div target
      in interpolate (xs ! left) (xs ! min (left + 1) last_input) (position mod target) target)"

definition resampled :: "nat \<Rightarrow> nat \<Rightarrow> f32 list \<Rightarrow> f32 list" where
  "resampled source target xs =
     (if xs = [] then []
      else map (value_at source target xs (length xs - 1))
             [0..<(length xs - 1) * target div source + 1])"

text \<open>Inputs whose positions stay below \<open>2^64\<close>: 2300 years of audio at 48 kHz.\<close>

definition resample_admissible :: "f32 list \<Rightarrow> bool" where
  "resample_admissible xs \<longleftrightarrow> length xs * 48000 < u64_max"

lemma valid_sample_cases:
  assumes "valid_sample s"
  obtains q where "s = Fin q" "\<bar>q\<bar> \<le> 1"
  using assms by (cases s) (auto simp: valid_sample_def in_range_def abs_le_iff)

lemma left_bound:
  assumes "index \<le> final * target div source" and "0 < source" and "0 < (target :: nat)"
  shows "index * source \<le> final * target" and "index * source div target \<le> final"
proof -
  have "index * source \<le> final * target div source * source" using assms(1) by (rule mult_le_mono1)
  also have "\<dots> \<le> final * target" by simp
  finally show 1: "index * source \<le> final * target" .
  from div_le_mono [OF this, of target] assms(3) show "index * source div target \<le> final" by simp
qed

lemma supported_facts:
  assumes "r \<in> set supported_sample_rates"
  shows "0 < r" and "r \<le> 48000" and "r \<le> u16_max" and "validate_rate r = Inr ()"
  using supported_bounds [OF assms] assms by (simp_all add: u16_max_def validate_rate_def)

lemma sample_at_value:
  assumes s: "source \<in> set supported_sample_rates" and t: "target \<in> set supported_sample_rates"
    and i: "index \<le> final * target div source" and adm: "(final + 1) * 48000 < u64_max"
  shows "sample_at source target xs final index = Inr (value_at source target xs final index)"
proof -
  note S = supported_facts [OF s] and T = supported_facts [OF t]
  note b = left_bound [OF i S(1) T(1)]
  have f: "final * 48000 < u64_max" using adm by simp
  have "final * target \<le> final * 48000" using T(2) by (rule mult_le_mono2)
  with b(1) have "index * source \<le> final * 48000" by (rule order_trans)
  with f have "index * source \<le> u64_max" by simp
  moreover have "final < u64_max" using f by simp
  with b(2) have "index * source div target < u64_max" by (rule order.strict_trans1)
  moreover have "index * source mod target \<le> u16_max"
    using mod_less_divisor [OF T(1), of "index * source"] T(3) by linarith
  ultimately show ?thesis
    using T(3)
    by (simp add: sample_at_def value_at_def checked_mul64_def try_u64_def try_u16_def
        saturating_add64_def Let_def)
qed

lemma available_outputs_value:
  assumes "source \<in> set supported_sample_rates" and t: "target \<in> set supported_sample_rates"
    and adm: "(final + 1) * 48000 < u64_max"
  shows "available_outputs source target final = Inr (final * target div source + 1)"
proof -
  note T = supported_facts [OF t] and S = supported_facts [OF assms(1)]
  have f: "final * 48000 < u64_max" using adm by simp
  have "final * target \<le> final * 48000" using T(2) by (rule mult_le_mono2)
  then have 1: "final * target < u64_max" using f by (rule order.strict_trans1)
  moreover have "final * target div source \<le> final * target" by (rule div_le_dividend)
  ultimately have "final * target div source < u64_max" by linarith
  with 1 S(1) show ?thesis
    by (simp add: available_outputs_def checked_mul64_def checked_div64_def checked_add64_def
        try_u64_def)
qed

lemma interpolate_zero:
  assumes "valid_sample x" and "valid_sample y" and "0 < t" and "t \<le> 48000"
  shows "interpolate x y 0 t = ieee_add f32_round x (Fin 0)"
proof -
  from assms(1,2) obtain a b where "x = Fin a" "\<bar>a\<bar> \<le> 1" "y = Fin b" "\<bar>b\<bar> \<le> 1"
    by (metis valid_sample_cases)
  with interpolate_Fin [of a b 0 t] assms(3,4) show ?thesis by simp
qed

text \<open>More input does not change an output that was available before.\<close>

lemma value_at_append:
  assumes s: "source \<in> set supported_sample_rates" and t: "target \<in> set supported_sample_rates"
    and i: "index \<le> (length xs - 1) * target div source" and "xs \<noteq> []"
    and v: "\<forall>x\<in>set (xs @ ys). valid_sample x"
  shows "value_at source target (xs @ ys) (length (xs @ ys) - 1) index
    = value_at source target xs (length xs - 1) index"
proof -
  define final where "final = length xs - 1"
  define left where "left = index * source div target"
  note S = supported_facts [OF s] and T = supported_facts [OF t]
  note b = left_bound [OF i S(1) T(1), folded final_def left_def]
  have lenxs: "length xs = final + 1" using \<open>xs \<noteq> []\<close> by (cases xs) (simp_all add: final_def)
  show ?thesis
  proof (cases "left < final")
    case True
    then show ?thesis
      by (simp add: value_at_def Let_def left_def [symmetric] lenxs nth_append min_def)
  next
    case False
    then have l: "left = final" using b(2) by simp
    have "left * target \<le> index * source" by (simp add: left_def)
    with b(1) l have "index * source = final * target" by simp
    then have m: "index * source mod target = 0" by simp
    have val: "valid_sample (xs ! final)"
      "valid_sample ((xs @ ys) ! min (final + 1) (final + length ys))"
      using v lenxs by (simp, intro v [rule_format] nth_mem) simp
    have n: "(xs @ ys) ! final = xs ! final" using lenxs by (simp add: nth_append)
    have "value_at source target (xs @ ys) (length (xs @ ys) - 1) index
      = interpolate (xs ! final) ((xs @ ys) ! min (final + 1) (final + length ys)) 0 target"
      by (simp add: value_at_def Let_def left_def [symmetric] l m lenxs n)
    also have "\<dots> = interpolate (xs ! final) (xs ! final) 0 target"
      using interpolate_zero val T by metis
    also have "\<dots> = value_at source target xs (length xs - 1) index"
      by (simp add: value_at_def Let_def left_def [symmetric] l m lenxs)
    finally show ?thesis .
  qed
qed

section \<open>Valid input gives valid output\<close>

lemma f32_sample_cases:
  assumes "f32_sample s"
  obtains q where "s = Fin q" "\<bar>q\<bar> \<le> 1" "rnd32 q = q"
  using assms is_f32_rnd32 unfolding f32_sample_def by (metis valid_sample_cases)

lemma f32_sampleI:
  assumes "\<bar>q\<bar> \<le> 1" and "rnd32 q = q"
  shows "f32_sample (Fin q)"
proof -
  have "f32_round q = Fin (rnd32 q)" using assms(1) by (intro f32_round_Fin [of q 0]) simp_all
  with assms show ?thesis
    by (simp add: f32_sample_def valid_sample_def in_range_def is_f32_def abs_le_iff)
qed

lemma interpolate_f32_sample:
  assumes x: "f32_sample x" and y: "f32_sample y" and r: "r < t" "t \<le> 48000"
  shows "f32_sample (interpolate x y r t)"
proof -
  obtain a where a: "x = Fin a" "\<bar>a\<bar> \<le> 1" "rnd32 a = a" using x by (rule f32_sample_cases)
  obtain b where b: "y = Fin b" "\<bar>b\<bar> \<le> 1" "rnd32 b = b" using y by (rule f32_sample_cases)
  from interpolate_between [OF a(2,3) b(2,3) r] obtain z where
    z: "interpolate (Fin a) (Fin b) r t = Fin z" "min a b \<le> z" "z \<le> max a b" "rnd32 z = z" .
  have "\<bar>z\<bar> \<le> 1" using z(2,3) a(2) b(2) by (auto simp: abs_le_iff min_def max_def split: if_splits)
  with z(1,4) a(1) b(1) show ?thesis by (simp add: f32_sampleI)
qed

lemma value_at_f32_sample:
  assumes s: "source \<in> set supported_sample_rates" and t: "target \<in> set supported_sample_rates"
    and i: "index \<le> (length xs - 1) * target div source" and "xs \<noteq> []"
    and v: "\<forall>x\<in>set xs. f32_sample x"
  shows "f32_sample (value_at source target xs (length xs - 1) index)"
proof -
  note S = supported_facts [OF s] and T = supported_facts [OF t]
  note b = left_bound(2) [OF i S(1) T(1)]
  have "0 < length xs" using \<open>xs \<noteq> []\<close> by simp
  then have "f32_sample (xs ! (index * source div target))"
    "f32_sample (xs ! min (index * source div target + 1) (length xs - 1))"
    using b by (intro v [rule_format] nth_mem; linarith)+
  then show ?thesis using T by (simp add: value_at_def Let_def interpolate_f32_sample)
qed

lemma decode_pairs_f32_sample: "\<forall>s\<in>set (decode_pairs bs). f32_sample s"
proof -
  have "is_f32 (decode_sample lo hi)" for lo hi
    by (simp add: decode_sample_def is_f32_round)
  then have "f32_sample (decode_sample lo hi)" for lo hi
    by (simp add: f32_sample_def valid_decode_sample)
  then show ?thesis by (induction bs rule: decode_pairs.induct) auto
qed

lemma resampled_f32_sample:
  assumes "source \<in> set supported_sample_rates" and "target \<in> set supported_sample_rates"
    and "\<forall>x\<in>set xs. f32_sample x"
  shows "\<forall>y\<in>set (resampled source target xs). f32_sample y"
  using assms
  by (auto simp: resampled_def intro!: value_at_f32_sample simp del: upt_Suc One_nat_def)

lemma length_resampled:
  "xs \<noteq> [] \<Longrightarrow> length (resampled source target xs) = (length xs - 1) * target div source + 1"
  by (simp add: resampled_def)

lemma resample_value:
  assumes r: "pcm_rate a \<in> set supported_sample_rates" and t: "target \<in> set supported_sample_rates"
    and ne: "target \<noteq> pcm_rate a" "pcm_samples a \<noteq> []"
    and adm: "resample_admissible (pcm_samples a)"
  shows "resample a target = mono_pcm_new target (resampled (pcm_rate a) target (pcm_samples a))"
proof -
  define final where "final = length (pcm_samples a) - 1"
  have "length (pcm_samples a) = final + 1" unfolding final_def using ne(2) by simp
  then have f: "(final + 1) * 48000 < u64_max" using adm by (simp add: resample_admissible_def)
  have "collect_ok (sample_at (pcm_rate a) target (pcm_samples a) final)
      [0..<final * target div pcm_rate a + 1] = Inr (resampled (pcm_rate a) target (pcm_samples a))"
    using ne(2) sample_at_value [OF r t _ f]
    by (auto simp: resampled_def final_def intro!: collect_ok_map simp del: upt_Suc One_nat_def)
  then show ?thesis
    using ne available_outputs_value [OF r t f] supported_facts(4) [OF t]
    by (simp add: resample_def final_def [symmetric] del: upt_Suc One_nat_def)
qed

section \<open>The incremental resampler\<close>

lemma emit_outputs_value:
  assumes "\<forall>i<available. sample_at source target xs final i = Inr (g i)" and "index \<le> available"
  shows "emit_outputs source target xs final available index out
    = (Inr (out @ map g [index..<available]), available)"
  using assms(2)
proof (induction "available - index" arbitrary: index out)
  case 0
  then show ?case by (simp add: emit_outputs.simps [of source target xs final index index])
next
  case (Suc n)
  then have lt: "index < available" by simp
  have "emit_outputs source target xs final available (index + 1) (out @ [g index])
    = (Inr ((out @ [g index]) @ map g [index + 1..<available]), available)"
    using Suc by (intro Suc.hyps(1)) simp_all
  with lt assms(1) show ?case
    by (simp add: emit_outputs.simps [of source target xs final available index] upt_conv_Cons)
qed

definition resampler_rep ::
  "nat \<Rightarrow> nat \<Rightarrow> f32 list \<Rightarrow> streaming_resampler \<Rightarrow> bool"
where
  "resampler_rep source target xs s \<longleftrightarrow>
     source \<in> set supported_sample_rates \<and> target \<in> set supported_sample_rates
     \<and> rs_source s = source \<and> rs_target s = target \<and> rs_input s = xs
     \<and> rs_next s = length (resampled source target xs) \<and> (\<forall>x\<in>set xs. valid_sample x)"

definition resampler_good :: "f32 list \<Rightarrow> bool" where
  "resampler_good xs \<longleftrightarrow> xs \<noteq> [] \<and> (\<forall>x\<in>set xs. valid_sample x)"

lemma resampled_append:
  assumes "source \<in> set supported_sample_rates" and "target \<in> set supported_sample_rates"
    and "\<forall>x\<in>set (xs @ ys). valid_sample x" and "ys \<noteq> []"
  shows "resampled source target (xs @ ys) = resampled source target xs
    @ map (value_at source target (xs @ ys) (length (xs @ ys) - 1))
        [length (resampled source target xs)..<(length (xs @ ys) - 1) * target div source + 1]"
    and "length (resampled source target xs) \<le> (length (xs @ ys) - 1) * target div source + 1"
proof -
  let ?n = "length (resampled source target xs)"
  let ?m = "(length (xs @ ys) - 1) * target div source + 1"
  let ?f = "value_at source target (xs @ ys) (length (xs @ ys) - 1)"
  have le: "(length xs - 1) * target div source \<le> (length (xs @ ys) - 1) * target div source"
    by (intro div_le_mono mult_le_mono1) simp
  then show nm: "?n \<le> ?m" by (auto simp: resampled_def simp del: upt_Suc One_nat_def)
  have "resampled source target xs = map ?f [0..<?n]"
  proof (cases "xs = []")
    case False
    then have "resampled source target xs
      = map (value_at source target xs (length xs - 1)) [0..<?n]"
      by (simp add: resampled_def del: upt_Suc One_nat_def)
    also have "\<dots> = map ?f [0..<?n]"
      using value_at_append [OF assms(1,2) _ False assms(3)] False
      by (auto simp: length_resampled simp del: upt_Suc One_nat_def)
    finally show ?thesis .
  qed (simp add: resampled_def)
  moreover have "resampled source target (xs @ ys) = map ?f [0..<?m]"
    using assms(4) by (simp add: resampled_def del: upt_Suc One_nat_def)
  moreover have "[0..<?m] = [0..<?n] @ [?n..<?m]" using nm by (metis le_add_diff_inverse upt_add_eq_append zero_le)
  ultimately show "resampled source target (xs @ ys)
    = resampled source target xs @ map ?f [?n..<?m]"
    by (metis map_append)
qed

lemma resampler_push_spec:
  assumes rep: "resampler_rep source target xs s" and good: "resampler_good ys"
    and adm: "resample_admissible (xs @ ys)"
  shows "\<exists>out s'. resampler_push s ys = (Inr out, s') \<and> resampler_rep source target (xs @ ys) s'
    \<and> resampled source target (xs @ ys) = resampled source target xs @ out"
proof -
  define final where "final = length (xs @ ys) - 1"
  define out where "out = map (value_at source target (xs @ ys) final)
    [length (resampled source target xs)..<final * target div source + 1]"
  from rep have R: "source \<in> set supported_sample_rates" "target \<in> set supported_sample_rates"
    and s: "rs_source s = source" "rs_target s = target" "rs_input s = xs"
      "rs_next s = length (resampled source target xs)"
    by (simp_all add: resampler_rep_def)
  from good have ys: "ys \<noteq> []" "\<forall>y\<in>set ys. valid_sample y" by (simp_all add: resampler_good_def)
  have v: "\<forall>x\<in>set (xs @ ys). valid_sample x" using rep ys(2) by (auto simp: resampler_rep_def)
  note app = resampled_append [OF R v ys(1), folded final_def out_def]
  have len: "length (xs @ ys) = final + 1" unfolding final_def using ys(1) by simp
  then have f: "(final + 1) * 48000 < u64_max" using adm by (simp add: resample_admissible_def)
  have "emit_outputs source target (xs @ ys) final (final * target div source + 1)
      (length (resampled source target xs)) [] = (Inr out, final * target div source + 1)"
    using emit_outputs_value [OF _ app(2), of source target "xs @ ys" final _ "[]"]
      sample_at_value [OF R _ f] by (simp add: out_def del: upt_Suc One_nat_def)
  moreover have i: "length xs + length ys - 1 = final" by (simp add: final_def)
  moreover have "\<not> list_ex (\<lambda>x. \<not> is_finite x \<or> \<not> in_range (- 1) 1 x) ys"
    using ys(2) by (auto simp: list_ex_iff valid_sample_def)
  moreover have "checked_add64 (length xs) (length ys) \<noteq> None"
    using f len by (simp add: checked_add64_def)
  moreover have "length (resampled source target (xs @ ys)) = final * target div source + 1"
    using ys(1) by (simp add: length_resampled final_def)
  ultimately show ?thesis
    using ys(1) s app(1) available_outputs_value [OF R f] R v
    by (simp add: resampler_push_def i resampler_rep_def Let_def out_def [symmetric]
        del: upt_Suc One_nat_def)
qed

interpretation rs: chunked resampler_push "resampler_rep source target" resampler_good
  resample_admissible "resampled source target"
  for source target
  by unfold_locales (blast intro: resampler_push_spec, simp add: resample_admissible_def)

lemma resampled_same_rate:
  assumes r: "rate \<in> set supported_sample_rates" and v: "\<forall>x\<in>set xs. f32_sample x"
  shows "resampled rate rate xs = xs"
proof (rule nth_equalityI)
  have pos: "0 < rate" using supported_facts(1) [OF r] .
  show len: "length (resampled rate rate xs) = length xs"
    using pos by (cases "xs = []") (simp_all add: resampled_def length_resampled)
  fix i assume "i < length (resampled rate rate xs)"
  then have i: "i < length xs" and "xs \<noteq> []" using len by auto
  from i v have x: "f32_sample (xs ! i)" by simp
  have y: "f32_sample (xs ! min (i + 1) (length xs - 1))"
    using i v by (intro v [rule_format] nth_mem) linarith
  have "xs ! i = ieee_add f32_round (xs ! i) (Fin 0)"
    using x f32_sample_cases [of "xs ! i"] f32_sampleI
    by (cases "xs ! i") (auto simp: f32_sample_def is_f32_def)
  also have "\<dots> = interpolate (xs ! i) (xs ! min (i + 1) (length xs - 1)) 0 rate"
    using x y pos supported_facts(2) [OF r]
    by (intro interpolate_zero [symmetric]) (simp_all add: f32_sample_def)
  also have "\<dots> = resampled rate rate xs ! i"
    using i pos \<open>xs \<noteq> []\<close>
    by (simp add: resampled_def value_at_def Let_def nth_append del: upt_Suc One_nat_def)
  finally show "resampled rate rate xs ! i = xs ! i" ..
qed

lemma resample_f32:
  assumes r: "source \<in> set supported_sample_rates" and t: "target \<in> set supported_sample_rates"
    and v: "xs \<noteq> []" "\<forall>x\<in>set xs. f32_sample x" and adm: "resample_admissible xs"
  shows "resample \<lparr>pcm_rate = source, pcm_samples = xs\<rparr> target
    = Inr \<lparr>pcm_rate = target, pcm_samples = resampled source target xs\<rparr>"
proof (cases "target = source")
  case True
  then show ?thesis
    using resampled_same_rate [OF r v(2)] supported_facts(4) [OF r] by (simp add: resample_def)
next
  case False
  have "resampled source target xs \<noteq> []"
    using v(1) by (metis length_resampled Suc_eq_plus1 length_0_conv nat.distinct(1))
  moreover have "\<forall>y\<in>set (resampled source target xs). valid_sample y"
    using resampled_f32_sample [OF r t v(2)] by (simp add: f32_sample_def)
  ultimately show ?thesis
    using False v(1) adm t r
    by (simp add: resample_value mono_pcm_new_Inr_iff)
qed

section \<open>Properties\<close>

text \<open>
  C7: resampling is total on admitted audio. For valid \<open>f32\<close> samples and supported rates
  \<open>resample\<close> succeeds, its samples are again \<open>f32\<close> values in \<open>[-1,
  1]\<close>, and there are exactly \<open>(n - 1) * target / source + 1\<close> of them.
\<close>

theorem resample_total:
  assumes "wf_pcm a" and "\<forall>s\<in>set (pcm_samples a). f32_sample s"
    and "target \<in> set supported_sample_rates" and "resample_admissible (pcm_samples a)"
  shows "\<exists>b. resample a target = Inr b \<and> wf_pcm b \<and> pcm_rate b = target
    \<and> (\<forall>s\<in>set (pcm_samples b). f32_sample s)
    \<and> length (pcm_samples b) = (length (pcm_samples a) - 1) * target div pcm_rate a + 1"
proof -
  obtain r xs where a: "a = \<lparr>pcm_rate = r, pcm_samples = xs\<rparr>" by (cases a)
  from assms have r: "r \<in> set supported_sample_rates" and xs: "xs \<noteq> []" "\<forall>s\<in>set xs. f32_sample s"
    by (simp_all add: a wf_pcm_def)
  have out: "\<forall>y\<in>set (resampled r target xs). f32_sample y"
    using resampled_f32_sample [OF r assms(3) xs(2)] .
  have len: "length (resampled r target xs) = (length xs - 1) * target div r + 1"
    using xs(1) by (rule length_resampled)
  then have "resampled r target xs \<noteq> []" by auto
  with out len resample_f32 [OF r assms(3) xs] assms(3,4) show ?thesis
    by (simp add: a wf_pcm_def f32_sample_def)
qed

lemma f32_sample_example: "f32_sample (Fin 0)" "f32_sample (Fin (1 / 2))"
proof -
  have "rnd32 (1 / 2) = 1 / 2" using rnd32_powi [of "- 1"] by (simp add: power_int_def)
  then show "f32_sample (Fin 0)" "f32_sample (Fin (1 / 2))" by (simp_all add: f32_sampleI)
qed

theorem resample_total_witness:
  "\<exists>b. resample \<lparr>pcm_rate = 8000, pcm_samples = [Fin 0, Fin (1 / 2)]\<rparr> 16000 = Inr b \<and> wf_pcm b
    \<and> length (pcm_samples b) = 3"
proof -
  have "wf_pcm \<lparr>pcm_rate = 8000, pcm_samples = [Fin 0, Fin (1 / 2)]\<rparr>"
    using f32_sample_example by (simp add: wf_pcm_def supported_sample_rates_def f32_sample_def)
  from resample_total [OF this, of 16000] show ?thesis
    using f32_sample_example
    by (auto simp: supported_sample_rates_def resample_admissible_def u64_max_def)
qed

text \<open>
  C4: the incremental resampler delivers exactly what resampling the whole recording gives:
  however valid input is cut into non-empty chunks, no \<open>push\<close> fails and the concatenated
  outputs are the one-shot result.
\<close>

theorem streaming_resampler_equals_one_shot:
  assumes r: "source \<in> set supported_sample_rates" and t: "target \<in> set supported_sample_rates"
    and cs: "cs \<noteq> []" "\<forall>c\<in>set cs. c \<noteq> [] \<and> (\<forall>s\<in>set c. f32_sample s)"
    and adm: "resample_admissible (concat cs)"
  shows "\<exists>s0 out s'. streaming_resampler_new source target = Inr s0
    \<and> run_chunks resampler_push s0 cs = (Inr out, s')
    \<and> resample \<lparr>pcm_rate = source, pcm_samples = concat cs\<rparr> target
        = Inr \<lparr>pcm_rate = target, pcm_samples = out\<rparr>"
proof -
  define s0 where
    "s0 = \<lparr>rs_source = source, rs_target = target, rs_input = [], rs_next = 0\<rparr>"
  have new: "streaming_resampler_new source target = Inr s0"
    using supported_facts(4) r t by (simp add: streaming_resampler_new_def s0_def)
  have rep: "resampler_rep source target [] s0"
    using r t by (simp add: resampler_rep_def s0_def resampled_def)
  have good: "\<forall>c\<in>set cs. resampler_good c"
    using cs(2) by (auto simp: resampler_good_def f32_sample_def)
  from rs.run_chunks_spec [OF rep _ good adm] obtain s' where
    run: "run_chunks resampler_push s0 cs = (Inr (resampled source target (concat cs)), s')"
    by (auto simp: resampled_def)
  have "concat cs \<noteq> []" using cs by (cases cs) auto
  with resample_f32 [OF r t _ _ adm] cs(2) new run show ?thesis by auto
qed

theorem streaming_resampler_equals_one_shot_witness:
  "\<exists>s0 out s'. streaming_resampler_new 8000 16000 = Inr s0
    \<and> run_chunks resampler_push s0 [[Fin 0], [Fin (1 / 2), Fin 0]] = (Inr out, s')
    \<and> resample \<lparr>pcm_rate = 8000, pcm_samples = [Fin 0, Fin (1 / 2), Fin 0]\<rparr> 16000
        = Inr \<lparr>pcm_rate = 16000, pcm_samples = out\<rparr>"
  using streaming_resampler_equals_one_shot [of 8000 16000 "[[Fin 0], [Fin (1 / 2), Fin 0]]"]
    f32_sample_example
  by (simp add: supported_sample_rates_def resample_admissible_def u64_max_def)

end
