(* ===== verification/Incremental.thy ===== *)
theory Incremental
  imports Audio_Core
begin

text \<open>
  \<open>crates/impossible-voice-audio/src/lib.rs\<close>: \<open>IncrementalPcm16\<close>, which decodes PCM16
  arriving in frames cut anywhere, also inside a sample. It is an instance of the \<open>chunked\<close>
  contract with the batch decoder as its specification, it succeeds exactly where the batch decoder
  does, and a frame over the limits is refused without touching the state.
\<close>

section \<open>The decoder\<close>

record incremental_pcm16 =
  inc_rate :: nat
  inc_limits :: audio_limits
  inc_samples :: "f32 list"
  inc_pending :: "u8 option"

definition incremental_new :: "nat \<Rightarrow> audio_limits \<Rightarrow> audio_error + incremental_pcm16" where
  "incremental_new rate limits =
     and_then (validate_rate rate) (\<lambda>_.
       Inr \<lparr>inc_rate = rate, inc_limits = limits, inc_samples = [], inc_pending = None\<rparr>)"

text \<open>\<open>while index + 1 < bytes.len()\<close>: the decoded samples and the index the loop stops at.\<close>

function decode_loop :: "u8 list \<Rightarrow> nat \<Rightarrow> f32 list \<Rightarrow> f32 list \<times> nat" where
  "decode_loop bytes index decoded =
     (if index + 1 < length bytes
      then decode_loop bytes (index + 2)
             (decoded @ [decode_sample (bytes ! index) (bytes ! (index + 1))])
      else (decoded, index))"
  by pat_completeness auto
termination
  by (relation "measure (\<lambda>(bytes, index, _). length bytes - index)") auto

declare decode_loop.simps [simp del]

definition incremental_push ::
  "incremental_pcm16 \<Rightarrow> u8 list \<Rightarrow> (audio_error + f32 list) \<times> incremental_pcm16"
where
  "incremental_push s bytes =
     (let existing_bytes = saturating_mul64 (length (inc_samples s)) 2
            + (if inc_pending s \<noteq> None then 1 else 0)
      in case and_then (ok_or byte_limit_error (checked_add64 existing_bytes (length bytes)))
                (\<lambda>total_bytes. admit (inc_limits s) total_bytes (inc_rate s) (total_bytes div 2)) of
           Inl e \<Rightarrow> (Inl e, s)
         | Inr _ \<Rightarrow>
             let (decoded, index, pending) =
                   (case inc_pending s of
                      None \<Rightarrow> ([], 0, None)
                    | Some low \<Rightarrow>
                        (case bytes of
                           high # _ \<Rightarrow> ([decode_sample low high], 1, None)
                         | [] \<Rightarrow> ([], 0, Some low)));
                 (decoded, index) = decode_loop bytes index decoded;
                 pending = (if index < length bytes then Some (bytes ! index) else pending)
             in (Inr decoded,
                 s\<lparr>inc_samples := inc_samples s @ decoded, inc_pending := pending\<rparr>))"

definition incremental_finish :: "incremental_pcm16 \<Rightarrow> audio_error + mono_pcm" where
  "incremental_finish s =
     (if inc_pending s \<noteq> None
      then Inl (AudioError ''PCM16 stream ended with a partial sample'')
      else mono_pcm_new (inc_rate s) (inc_samples s))"

section \<open>The decoder against the batch decoder\<close>

lemma decode_loop_drop:
  assumes "index \<le> length bytes"
  shows "decode_loop bytes index decoded =
    (decoded @ decode_pairs (drop index bytes), length bytes - (length bytes - index) mod 2)"
  using assms
proof (induction bytes index decoded rule: decode_loop.induct)
  case (1 bytes index decoded)
  note unfold = decode_loop.simps [of bytes index decoded]
  show ?case
  proof (cases "index + 1 < length bytes")
    case True
    have d: "drop index bytes = bytes ! index # bytes ! (index + 1) # drop (index + 2) bytes"
      using True Cons_nth_drop_Suc [of index bytes] Cons_nth_drop_Suc [of "Suc index" bytes] by simp
    have m: "(length bytes - (index + 2)) mod 2 = (length bytes - index) mod 2"
    proof -
      from True obtain n where "length bytes = index + 2 + n"
        by (metis Suc_leI add_2_eq_Suc' add_Suc_right le_Suc_ex plus_1_eq_Suc add.commute)
      then show ?thesis by simp
    qed
    have "index + 2 \<le> length bytes" using True by simp
    from 1(1) [OF True this] show ?thesis unfolding unfold d m using True by simp
  next
    case False
    with 1(2) consider "index = length bytes" | "length bytes = index + 1" by linarith
    then show ?thesis
    proof cases
      case 1
      with False show ?thesis unfolding unfold by simp
    next
      case 2
      then have "length (drop index bytes) = 1" by simp
      then obtain b where "drop index bytes = [b]" by (cases "drop index bytes") auto
      with False 2 show ?thesis unfolding unfold by simp
    qed
  qed
qed

lemma decode_pairs_append_odd:
  "odd (length xs) \<Longrightarrow> decode_pairs (xs @ ys) = decode_pairs xs @ decode_pairs (last xs # ys)"
  by (induction xs rule: decode_pairs.induct) auto

text \<open>The state after consuming \<open>xs\<close>.\<close>

definition inc_state :: "nat \<Rightarrow> audio_limits \<Rightarrow> u8 list \<Rightarrow> incremental_pcm16" where
  "inc_state rate limits xs =
     \<lparr>inc_rate = rate, inc_limits = limits, inc_samples = decode_pairs xs,
      inc_pending = (if odd (length xs) then Some (last xs) else None)\<rparr>"

definition inc_admissible :: "nat \<Rightarrow> audio_limits \<Rightarrow> u8 list \<Rightarrow> bool" where
  "inc_admissible rate limits xs \<longleftrightarrow>
     length xs \<le> u64_max \<and> admit limits (length xs) rate (length xs div 2) = Inr ()"

lemma existing_bytes:
  assumes "length xs \<le> u64_max"
  shows "saturating_mul64 (length (inc_samples (inc_state rate limits xs))) 2
    + (if inc_pending (inc_state rate limits xs) \<noteq> None then 1 else 0) = length xs"
proof -
  have "length xs div 2 * 2 \<le> length xs" by simp
  then have "length xs div 2 * 2 \<le> u64_max" using assms by (rule order_trans)
  then have "saturating_mul64 (length xs div 2) 2 = length xs div 2 * 2"
    unfolding saturating_mul64_def by (rule min_absorb1)
  then show ?thesis
    by (simp add: inc_state_def length_decode_pairs odd_iff_mod_2_eq_one) presburger
qed

lemma incremental_push_rejected:
  assumes "length xs \<le> u64_max" and "length (xs @ ys) \<le> u64_max"
    and "admit limits (length (xs @ ys)) rate (length (xs @ ys) div 2) = Inl e"
  shows "incremental_push (inc_state rate limits xs) ys = (Inl e, inc_state rate limits xs)"
  using assms(2,3) unfolding incremental_push_def Let_def existing_bytes [OF assms(1)]
  by (simp add: checked_add64_def) (simp add: inc_state_def)

lemma incremental_push_admitted:
  assumes "inc_admissible rate limits (xs @ ys)"
  shows "\<exists>out. incremental_push (inc_state rate limits xs) ys
      = (Inr out, inc_state rate limits (xs @ ys))
    \<and> decode_pairs (xs @ ys) = decode_pairs xs @ out"
proof -
  have len: "length xs \<le> u64_max" and adm: "length xs + length ys \<le> u64_max"
    "admit limits (length xs + length ys) rate ((length xs + length ys) div 2) = Inr ()"
    using assms by (simp_all add: inc_admissible_def)
  note push = incremental_push_def Let_def existing_bytes [OF len]
  show ?thesis
  proof (cases "odd (length xs)")
    case False
    have "ys \<noteq> [] \<Longrightarrow> odd (length ys) \<Longrightarrow> ys ! (length ys - 1) = last ys"
      by (simp add: last_conv_nth)
    with False show ?thesis
      using adm unfolding push
      by (auto simp: checked_add64_def inc_state_def decode_loop_drop decode_pairs_append
          odd_iff_mod_2_eq_one last_append split: if_splits)
  next
    case True
    show ?thesis
    proof (cases ys)
      case Nil
      with True adm show ?thesis
        unfolding push by (simp add: checked_add64_def inc_state_def decode_loop_drop)
    next
      case (Cons y zs)
      have "zs \<noteq> [] \<Longrightarrow> odd (length zs) \<Longrightarrow> (y # zs) ! (Suc (length zs) - 1) = last zs"
        by (simp add: last_conv_nth nth_Cons' )
      with True adm Cons show ?thesis
        unfolding push
        by (auto simp: checked_add64_def inc_state_def decode_loop_drop decode_pairs_append_odd
            odd_iff_mod_2_eq_one last_append split: if_splits)
    qed
  qed
qed

lemma incremental_push_Inr:
  assumes "length xs \<le> u64_max" and "incremental_push (inc_state rate limits xs) ys = (Inr out, s)"
  shows "inc_admissible rate limits (xs @ ys) \<and> s = inc_state rate limits (xs @ ys)
    \<and> decode_pairs (xs @ ys) = decode_pairs xs @ out"
proof -
  have "inc_admissible rate limits (xs @ ys)"
    using assms(2) unfolding incremental_push_def Let_def existing_bytes [OF assms(1)]
    by (auto simp: inc_admissible_def res_simps inc_state_def [of rate limits xs]
        split: sum.splits)
  with incremental_push_admitted [OF this] assms(2) show ?thesis by auto
qed

interpretation inc: chunked incremental_push "\<lambda>xs s. s = inc_state rate limits xs" "\<lambda>_. True"
  "inc_admissible rate limits" decode_pairs
  for rate limits
proof unfold_locales
  show "\<And>xs s ys. s = inc_state rate limits xs \<Longrightarrow> True \<Longrightarrow> inc_admissible rate limits (xs @ ys) \<Longrightarrow>
    \<exists>out s'. incremental_push s ys = (Inr out, s') \<and> s' = inc_state rate limits (xs @ ys)
      \<and> decode_pairs (xs @ ys) = decode_pairs xs @ out"
    using incremental_push_admitted by blast
  show "\<And>xs ys. inc_admissible rate limits (xs @ ys) \<Longrightarrow> inc_admissible rate limits xs"
    unfolding inc_admissible_def by (auto elim!: admit_mono simp: div_le_mono)
qed

section \<open>Properties\<close>

lemma incremental_run_Inr:
  "run_chunks incremental_push (inc_state rate limits xs) frames = (Inr out, s) \<Longrightarrow> length xs \<le> u64_max \<Longrightarrow>
    s = inc_state rate limits (xs @ concat frames) \<and> decode_pairs (xs @ concat frames) = decode_pairs xs @ out
    \<and> (frames \<noteq> [] \<longrightarrow> inc_admissible rate limits (xs @ concat frames))"
proof (induction frames arbitrary: xs out)
  case (Cons ys frames)
  obtain o1 s1 o2 where push: "incremental_push (inc_state rate limits xs) ys = (Inr o1, s1)"
    and rest: "run_chunks incremental_push s1 frames = (Inr o2, s)" and out: "out = o1 @ o2"
    using Cons.prems(1) by (auto split: prod.splits sum.splits)
  note step = incremental_push_Inr [OF Cons.prems(2) push]
  then have "length (xs @ ys) \<le> u64_max" by (simp add: inc_admissible_def)
  from Cons.IH [OF _ this, of o2] rest step out show ?case by (cases frames) auto
qed simp

text \<open>
  C11: Decoding a PCM16 stream frame by frame, wherever the frames are cut, is the batch decoder
  \<open>from_pcm16_le\<close> on the concatenated bytes: it succeeds on the same streams, and then the samples
  given out frame by frame and the final recording are those of the batch.
\<close>

theorem incremental_equals_batch:
  assumes "length (concat frames) \<le> u64_max"
  shows "from_pcm16_le (concat frames) rate limits = Inr a \<longleftrightarrow>
    (\<exists>s0 s'. incremental_new rate limits = Inr s0
      \<and> run_chunks incremental_push s0 frames = (Inr (pcm_samples a), s')
      \<and> incremental_finish s' = Inr a)"
proof
  assume batch: "from_pcm16_le (concat frames) rate limits = Inr a"
  then have r: "rate \<in> set supported_sample_rates" "even (length (concat frames))"
    and a: "a = \<lparr>pcm_rate = rate, pcm_samples = decode_pairs (concat frames)\<rparr>"
    and "inc_admissible rate limits (concat frames)"
    using assms by (simp_all add: from_pcm16_le_Inr_iff inc_admissible_def)
  from inc.run_chunks_spec [OF refl _ _ this(4)]
  have run: "run_chunks incremental_push (inc_state rate limits []) frames
    = (Inr (decode_pairs (concat frames)), inc_state rate limits (concat frames))"
    by simp
  have "mono_pcm_new rate (decode_pairs (concat frames)) = Inr a"
    using batch by (auto simp: from_pcm16_le_def res_simps split: if_splits)
  with run r a show "\<exists>s0 s'. incremental_new rate limits = Inr s0
      \<and> run_chunks incremental_push s0 frames = (Inr (pcm_samples a), s') \<and> incremental_finish s' = Inr a"
    by (simp add: incremental_new_def validate_rate_def inc_state_def incremental_finish_def)
next
  assume "\<exists>s0 s'. incremental_new rate limits = Inr s0
      \<and> run_chunks incremental_push s0 frames = (Inr (pcm_samples a), s') \<and> incremental_finish s' = Inr a"
  then obtain s0 s' where new: "incremental_new rate limits = Inr s0"
    and run: "run_chunks incremental_push s0 frames = (Inr (pcm_samples a), s')"
    and fin: "incremental_finish s' = Inr a" by blast
  have rate: "rate \<in> set supported_sample_rates" and "s0 = inc_state rate limits []"
    using new by (auto simp: incremental_new_def validate_rate_def inc_state_def res_simps split: if_splits)
  from incremental_run_Inr [OF run [unfolded this(2)]]
  have s': "s' = inc_state rate limits (concat frames)"
    and adm: "frames \<noteq> [] \<Longrightarrow> inc_admissible rate limits (concat frames)" by auto
  from fin have even: "even (length (concat frames))"
    and pcm: "mono_pcm_new rate (decode_pairs (concat frames)) = Inr a"
    unfolding s' by (auto simp: incremental_finish_def inc_state_def split: if_splits)
  have "decode_pairs (concat frames) \<noteq> []" using pcm unfolding mono_pcm_new_Inr_iff by blast
  then have "concat frames \<noteq> []" by (metis decode_pairs.simps(2))
  moreover from this have "frames \<noteq> []" by auto
  from adm [OF this] have "admit limits (length (concat frames)) rate (length (concat frames) div 2) = Inr ()"
    by (simp only: inc_admissible_def)
  ultimately show "from_pcm16_le (concat frames) rate limits = Inr a"
    using even rate pcm unfolding from_pcm16_le_Inr_iff mono_pcm_new_Inr_iff by blast
qed

theorem incremental_equals_batch_witness:
  "\<exists>s0 s'. incremental_new 16000 audio_limits_default = Inr s0
    \<and> run_chunks incremental_push s0 [[1], [2, 3], [], [4]] = (Inr (decode_pairs [1, 2, 3, 4]), s')
    \<and> incremental_finish s' = Inr \<lparr>pcm_rate = 16000, pcm_samples = decode_pairs [1, 2, 3, 4]\<rparr>"
proof -
  have "from_pcm16_le (concat [[1], [2, 3], [], [4]]) 16000 audio_limits_default
    = Inr \<lparr>pcm_rate = 16000, pcm_samples = decode_pairs [1, 2, 3, 4]\<rparr>"
    by (simp add: from_pcm16_le_Inr_iff admit_Inr_iff audio_limits_default_def
        supported_sample_rates_def u64_max_def)
  moreover have "length (concat [[1], [2, 3], [], [4 :: u8]]) \<le> u64_max" by (simp add: u64_max_def)
  ultimately show ?thesis using incremental_equals_batch [of "[[1], [2, 3], [], [4]]"] by fastforce
qed

text \<open>
  A frame that would exceed the byte or duration limit is refused with the limit's error and
  leaves the decoder exactly as it was; every other frame is accepted. Here \<open>xs\<close> are the bytes
  consumed so far.
\<close>

theorem incremental_push_atomic:
  assumes "inc_admissible rate limits xs" and "length (xs @ ys) \<le> u64_max"
  shows "case admit limits (length (xs @ ys)) rate (length (xs @ ys) div 2) of
      Inl e \<Rightarrow> incremental_push (inc_state rate limits xs) ys = (Inl e, inc_state rate limits xs)
    | Inr _ \<Rightarrow> \<exists>out. incremental_push (inc_state rate limits xs) ys
          = (Inr out, inc_state rate limits (xs @ ys))
        \<and> decode_pairs (xs @ ys) = decode_pairs xs @ out"
  using assms incremental_push_rejected [of xs ys limits rate]
    incremental_push_admitted [of rate limits xs ys]
  by (simp add: inc_admissible_def split: sum.split)

theorem incremental_push_atomic_witness:
  "incremental_push (inc_state 8000 \<lparr>max_encoded_bytes = 3, max_duration_ms = 1\<rparr> [7]) [1, 2, 3]
    = (Inl byte_limit_error, inc_state 8000 \<lparr>max_encoded_bytes = 3, max_duration_ms = 1\<rparr> [7])"
  using incremental_push_atomic
    [of 8000 "\<lparr>max_encoded_bytes = 3, max_duration_ms = 1\<rparr>" "[7]" "[1, 2, 3]"]
  by (simp add: inc_admissible_def admit_def u64_max_def try_u64_def checked_mul64_def)

end
