(* ===== verification/Vad.thy ===== *)
theory Vad
  imports Audio_Core
begin

text \<open>
  \<open>crates/impossible-voice-audio/src/lib.rs\<close>: the energy voice-activity detector
  \<open>EnergyVad\<close>. The energy of a frame is computed in \<open>f64\<close> as the code does.
  The lemmas state its invariant (counters bounded by the configured durations), refine
  \<open>process\<close> to an automaton over voiced and unvoiced frames, and show that
  \<open>Started\<close> and \<open>Ended\<close> alternate.
\<close>

section \<open>The detector\<close>

record vad_config =
  rms_threshold :: f32
  min_speech_ms :: nat
  trailing_silence_ms :: nat
  max_utterance_ms :: nat

text \<open>The literal \<open>0.015\<close> is the nearest \<open>f32\<close>.\<close>

definition vad_config_default :: vad_config where
  "vad_config_default =
     \<lparr>rms_threshold = f32_round (15 / 1000), min_speech_ms = 120, trailing_silence_ms = 600,
      max_utterance_ms = 30000\<rparr>"

datatype vad_event = VadNone | VadStarted | VadEnded

record energy_vad =
  vad_config :: vad_config
  vad_rate :: nat
  speech_run :: nat
  silence_run :: nat
  utterance_samples :: nat
  vad_active :: bool

definition energy_vad_new :: "vad_config \<Rightarrow> nat \<Rightarrow> audio_error + energy_vad" where
  "energy_vad_new config rate =
     and_then (validate_rate rate) (\<lambda>_.
       if \<not> is_finite (rms_threshold config) \<or> \<not> in_range 0 1 (rms_threshold config)
          \<or> min_speech_ms config = 0 \<or> trailing_silence_ms config = 0
          \<or> max_utterance_ms config < min_speech_ms config
       then Inl (AudioError ''voice activity configuration is invalid'')
       else Inr \<lparr>vad_config = config, vad_rate = rate, speech_run = 0, silence_run = 0,
                 utterance_samples = 0, vad_active = False\<rparr>)"

definition samples_for :: "energy_vad \<Rightarrow> nat \<Rightarrow> nat" where
  "samples_for s milliseconds =
     (case try_u64 (saturating_mul64 (vad_rate s) milliseconds div 1000) of
        Some n \<Rightarrow> n
      | None \<Rightarrow> u64_max)"

definition vad_reset :: "energy_vad \<Rightarrow> energy_vad" where
  "vad_reset s = s\<lparr>speech_run := 0, silence_run := 0, utterance_samples := 0, vad_active := False\<rparr>"

text \<open>
  \<open>f64::from(sample)\<close> is exact: every \<open>f32\<close> is an \<open>f64\<close>. The
  products and the running sum (from the left, starting at zero) round in \<open>f64\<close>.
\<close>

definition frame_energy :: "f32 list \<Rightarrow> ieee" where
  "frame_energy xs =
     ieee_div f64_round
       (foldl (\<lambda>acc s. ieee_add f64_round acc (ieee_mul f64_round s s)) (Fin 0) xs)
       (Fin (of_nat (length xs)))"

definition frame_voiced :: "f32 \<Rightarrow> f32 list \<Rightarrow> bool" where
  "frame_voiced threshold xs \<longleftrightarrow> ieee_le threshold (f64_sqrt (frame_energy xs))"

text \<open>\<open>process\<close> from the point where the frame is known to be voiced or not.\<close>

definition vad_step :: "energy_vad \<Rightarrow> bool \<Rightarrow> nat \<Rightarrow> vad_event \<times> energy_vad" where
  "vad_step s voiced len =
     (let s = (if voiced
               then s\<lparr>speech_run := saturating_add64 (speech_run s) len, silence_run := 0\<rparr>
               else
                 let s = s\<lparr>speech_run := 0\<rparr>
                 in if vad_active s
                    then s\<lparr>silence_run := saturating_add64 (silence_run s) len\<rparr> else s)
      in if vad_active s then
           let s = s\<lparr>utterance_samples := saturating_add64 (utterance_samples s) len\<rparr>
           in if samples_for s (trailing_silence_ms (vad_config s)) \<le> silence_run s
                 \<or> samples_for s (max_utterance_ms (vad_config s)) \<le> utterance_samples s
              then (VadEnded, vad_reset s)
              else (VadNone, s)
         else if samples_for s (min_speech_ms (vad_config s)) \<le> speech_run s
         then (VadStarted, s\<lparr>vad_active := True, utterance_samples := speech_run s\<rparr>)
         else (VadNone, s))"

definition vad_frame_error :: audio_error where
  "vad_frame_error = AudioError ''voice activity frame is invalid''"

definition vad_process :: "energy_vad \<Rightarrow> f32 list \<Rightarrow> (audio_error + vad_event) \<times> energy_vad" where
  "vad_process s xs =
     (if xs = [] \<or> list_ex (\<lambda>x. \<not> is_finite x) xs then (Inl vad_frame_error, s)
      else case try_u32 (length xs) of
        None \<Rightarrow> (Inl vad_frame_error, s)
      | Some _ \<Rightarrow>
          (case vad_step s (frame_voiced (rms_threshold (vad_config s)) xs) (length xs) of
             (event, s') \<Rightarrow> (Inr event, s')))"

section \<open>The specification: an automaton over whole frame histories\<close>

text \<open>A frame is its voiced flag and its length; \<open>run_of b\<close> is the length of the trailing run.\<close>

type_synonym frame = "bool \<times> nat"

definition run_of :: "bool \<Rightarrow> frame list \<Rightarrow> nat" where
  "run_of b fs = sum_list (map snd (takeWhile (\<lambda>f. fst f = b) (rev fs)))"

definition frames_total :: "frame list \<Rightarrow> nat" where
  "frames_total fs = sum_list (map snd fs)"

text \<open>
  \<open>Quiet hs\<close>: no utterance, \<open>hs\<close> the frames since the last one ended.
  \<open>Speaking hs us\<close>: the frames \<open>hs\<close> opened an utterance, the frames
  \<open>us\<close> came after that.
\<close>

datatype phase = Quiet "frame list" | Speaking "frame list" "frame list"

fun phase_step :: "nat \<Rightarrow> nat \<Rightarrow> nat \<Rightarrow> phase \<Rightarrow> frame \<Rightarrow> vad_event \<times> phase" where
  "phase_step open_at close_at longest (Quiet hs) f =
     (if open_at \<le> run_of True (hs @ [f]) then (VadStarted, Speaking (hs @ [f]) [])
      else (VadNone, Quiet (hs @ [f])))"
| "phase_step open_at close_at longest (Speaking hs us) f =
     (if close_at \<le> run_of False (us @ [f]) \<or> longest \<le> run_of True hs + frames_total (us @ [f])
      then (VadEnded, Quiet []) else (VadNone, Speaking hs (us @ [f])))"

definition vad_wf :: "energy_vad \<Rightarrow> bool" where
  "vad_wf s \<longleftrightarrow> vad_rate s \<in> set supported_sample_rates
     \<and> 0 < min_speech_ms (vad_config s) \<and> 0 < trailing_silence_ms (vad_config s)
     \<and> min_speech_ms (vad_config s) \<le> max_utterance_ms (vad_config s)
     \<and> min_speech_ms (vad_config s) \<le> u32_max \<and> trailing_silence_ms (vad_config s) \<le> u32_max
     \<and> max_utterance_ms (vad_config s) \<le> u32_max"

fun phase_rep :: "energy_vad \<Rightarrow> phase \<Rightarrow> bool" where
  "phase_rep s (Quiet hs) \<longleftrightarrow> vad_wf s \<and> \<not> vad_active s
     \<and> speech_run s = run_of True hs \<and> silence_run s = 0 \<and> utterance_samples s = 0
     \<and> speech_run s < samples_for s (min_speech_ms (vad_config s))"
| "phase_rep s (Speaking hs us) \<longleftrightarrow> vad_wf s \<and> vad_active s
     \<and> silence_run s = run_of False us \<and> utterance_samples s = run_of True hs + frames_total us
     \<and> silence_run s < samples_for s (trailing_silence_ms (vad_config s))
     \<and> utterance_samples s \<le> 50 * u32_max
     \<and> (us = [] \<or> utterance_samples s < samples_for s (max_utterance_ms (vad_config s)))"

abbreviation vad_phase_step :: "energy_vad \<Rightarrow> phase \<Rightarrow> frame \<Rightarrow> vad_event \<times> phase" where
  "vad_phase_step s \<equiv> phase_step (samples_for s (min_speech_ms (vad_config s)))
     (samples_for s (trailing_silence_ms (vad_config s)))
     (samples_for s (max_utterance_ms (vad_config s)))"

section \<open>The detector implements the automaton\<close>

lemma run_of_snoc: "run_of b (fs @ [f]) = (if fst f = b then snd f + run_of b fs else 0)"
  by (simp add: run_of_def)

lemma run_of_Nil [simp]: "run_of b [] = 0" by (simp add: run_of_def)

lemma frames_total_snoc [simp]: "frames_total (fs @ [f]) = frames_total fs + snd f" "frames_total [] = 0"
  by (simp_all add: frames_total_def)

lemma samples_for_value:
  assumes "vad_rate s \<in> set supported_sample_rates" and "ms \<le> u32_max"
  shows "samples_for s ms = vad_rate s * ms div 1000" and "samples_for s ms \<le> 48 * u32_max"
    and "0 < ms \<Longrightarrow> 0 < samples_for s ms"
proof -
  have r: "8000 \<le> vad_rate s" "vad_rate s \<le> 48000" using supported_bounds [OF assms(1)] by simp_all
  have m: "vad_rate s * ms \<le> 48000 * u32_max" using r(2) assms(2) by (rule mult_le_mono)
  then have "saturating_mul64 (vad_rate s) ms = vad_rate s * ms"
    by (simp add: saturating_mul64_def u32_max_def u64_max_def)
  moreover have d: "vad_rate s * ms div 1000 \<le> 48 * u32_max"
    using div_le_mono [OF m, of 1000] by simp
  ultimately show v: "samples_for s ms = vad_rate s * ms div 1000"
    by (simp add: samples_for_def try_u64_def u32_max_def u64_max_def)
  with d show "samples_for s ms \<le> 48 * u32_max" by simp
  show "0 < samples_for s ms" if "0 < ms"
  proof -
    have "8000 * 1 \<le> vad_rate s * ms" using r(1) that by (intro mult_le_mono) simp_all
    then show ?thesis by (simp add: v div_greater_zero_iff)
  qed
qed

lemma samples_for_cong [simp]:
  "samples_for (s\<lparr>speech_run := a\<rparr>) ms = samples_for s ms"
  "samples_for (s\<lparr>silence_run := a\<rparr>) ms = samples_for s ms"
  "samples_for (s\<lparr>utterance_samples := a\<rparr>) ms = samples_for s ms"
  "samples_for (s\<lparr>vad_active := b\<rparr>) ms = samples_for s ms"
  by (simp_all add: samples_for_def)

lemma vad_wf_cong [simp]:
  "vad_wf (s\<lparr>speech_run := a\<rparr>) = vad_wf s" "vad_wf (s\<lparr>silence_run := a\<rparr>) = vad_wf s"
  "vad_wf (s\<lparr>utterance_samples := a\<rparr>) = vad_wf s" "vad_wf (s\<lparr>vad_active := b\<rparr>) = vad_wf s"
  by (simp_all add: vad_wf_def)

lemma vad_wf_samples:
  assumes "vad_wf s"
  shows "0 < samples_for s (min_speech_ms (vad_config s))"
    and "0 < samples_for s (trailing_silence_ms (vad_config s))"
    and "samples_for s (min_speech_ms (vad_config s)) \<le> 48 * u32_max"
    and "samples_for s (trailing_silence_ms (vad_config s)) \<le> 48 * u32_max"
    and "samples_for s (max_utterance_ms (vad_config s)) \<le> 48 * u32_max"
  using assms samples_for_value [of s] by (simp_all add: vad_wf_def)

lemma saturating_add64_exact: "a + b \<le> u64_max \<Longrightarrow> saturating_add64 a b = a + b"
  by (simp add: saturating_add64_def)

lemma step_quiet:
  assumes rep: "phase_rep s (Quiet hs)" and len: "len \<le> u32_max"
  shows "fst (vad_step s v len) = fst (vad_phase_step s (Quiet hs) (v, len))"
    and "phase_rep (snd (vad_step s v len)) (snd (vad_phase_step s (Quiet hs) (v, len)))"
proof -
  from rep have wf: "vad_wf s" by simp
  note b = vad_wf_samples [OF wf]
  have run: "run_of True hs < samples_for s (min_speech_ms (vad_config s))" using rep by simp
  have 1: "run_of True hs + len \<le> 49 * u32_max" using run b(3) len by linarith
  then have "saturating_add64 (run_of True hs) len = run_of True hs + len"
    by (intro saturating_add64_exact) (simp add: u32_max_def u64_max_def)
  with rep b 1
  show "fst (vad_step s v len) = fst (vad_phase_step s (Quiet hs) (v, len))"
    and "phase_rep (snd (vad_step s v len)) (snd (vad_phase_step s (Quiet hs) (v, len)))"
    by (cases v; auto simp: vad_step_def run_of_snoc Let_def add.commute)+
qed

lemma step_speaking:
  assumes rep: "phase_rep s (Speaking hs us)" and len: "len \<le> u32_max"
  shows "fst (vad_step s v len) = fst (vad_phase_step s (Speaking hs us) (v, len))"
    and "phase_rep (snd (vad_step s v len)) (snd (vad_phase_step s (Speaking hs us) (v, len)))"
proof -
  from rep have wf: "vad_wf s" by simp
  note b = vad_wf_samples [OF wf]
  have "run_of False us + len \<le> 49 * u32_max" using rep b(4) len by simp
  then have s1: "saturating_add64 (run_of False us) len = run_of False us + len"
    by (intro saturating_add64_exact) (simp add: u32_max_def u64_max_def)
  have "run_of True hs + frames_total us + len \<le> 51 * u32_max" using rep len by simp
  then have s2: "saturating_add64 (run_of True hs + frames_total us) len = run_of True hs + frames_total us + len"
    by (intro saturating_add64_exact) (simp add: u32_max_def u64_max_def)
  from rep b s1 s2
  show "fst (vad_step s v len) = fst (vad_phase_step s (Speaking hs us) (v, len))"
    and "phase_rep (snd (vad_step s v len)) (snd (vad_phase_step s (Speaking hs us) (v, len)))"
    by (cases v; auto simp: vad_step_def vad_reset_def run_of_snoc Let_def add.commute add.left_commute)+
qed

section \<open>Whole streams\<close>

text \<open>The events of a sequence of frames; a refused frame emits none and leaves the state alone.\<close>

fun vad_run :: "energy_vad \<Rightarrow> f32 list list \<Rightarrow> vad_event list \<times> energy_vad" where
  "vad_run s [] = ([], s)"
| "vad_run s (xs # xss) =
     (case vad_process s xs of
        (Inl _, s') \<Rightarrow> vad_run s' xss
      | (Inr e, s') \<Rightarrow> (case vad_run s' xss of (es, s'') \<Rightarrow> (e # es, s'')))"

fun phase_run ::
  "nat \<Rightarrow> nat \<Rightarrow> nat \<Rightarrow> phase \<Rightarrow> frame list \<Rightarrow> vad_event list \<times> phase"
where
  "phase_run open_at close_at longest ph [] = ([], ph)"
| "phase_run open_at close_at longest ph (f # fs) =
     (case phase_step open_at close_at longest ph f of
        (e, ph') \<Rightarrow> (case phase_run open_at close_at longest ph' fs of (es, ph'') \<Rightarrow> (e # es, ph'')))"

definition vad_frame_ok :: "f32 list \<Rightarrow> bool" where
  "vad_frame_ok xs \<longleftrightarrow> xs \<noteq> [] \<and> (\<forall>x\<in>set xs. is_finite x) \<and> length xs \<le> u32_max"

definition vad_frames :: "f32 \<Rightarrow> f32 list list \<Rightarrow> frame list" where
  "vad_frames threshold fs = map (\<lambda>xs. (frame_voiced threshold xs, length xs)) (filter vad_frame_ok fs)"

text \<open>Started and Ended strictly alternate; the flag says whether an utterance is open.\<close>

fun alternating :: "bool \<Rightarrow> vad_event list \<Rightarrow> bool" where
  "alternating speaking [] \<longleftrightarrow> True"
| "alternating speaking (VadNone # es) \<longleftrightarrow> alternating speaking es"
| "alternating speaking (VadStarted # es) \<longleftrightarrow> \<not> speaking \<and> alternating True es"
| "alternating speaking (VadEnded # es) \<longleftrightarrow> speaking \<and> alternating False es"

lemma vad_process_step:
  "vad_process s xs =
     (if vad_frame_ok xs
      then map_prod Inr id (vad_step s (frame_voiced (rms_threshold (vad_config s)) xs) (length xs))
      else (Inl vad_frame_error, s))"
  by (auto simp: vad_process_def vad_frame_ok_def list_ex_iff try_u32_def split: prod.split)

lemma vad_step_config [simp]:
  "vad_config (snd (vad_step s v len)) = vad_config s" "vad_rate (snd (vad_step s v len)) = vad_rate s"
  by (simp_all add: vad_step_def vad_reset_def Let_def)

lemma samples_for_step [simp]: "samples_for (snd (vad_step s v len)) ms = samples_for s ms"
  by (simp add: samples_for_def)

lemma vad_run_simulation:
  assumes "phase_rep s ph"
  shows "fst (vad_run s fs) = fst (phase_run (samples_for s (min_speech_ms (vad_config s)))
      (samples_for s (trailing_silence_ms (vad_config s)))
      (samples_for s (max_utterance_ms (vad_config s))) ph
      (vad_frames (rms_threshold (vad_config s)) fs))"
    and "phase_rep (snd (vad_run s fs))
      (snd (phase_run (samples_for s (min_speech_ms (vad_config s)))
        (samples_for s (trailing_silence_ms (vad_config s)))
        (samples_for s (max_utterance_ms (vad_config s))) ph
        (vad_frames (rms_threshold (vad_config s)) fs)))"
  using assms
proof (induction fs arbitrary: s ph)
  case (Cons xs fs)
  { case (1 s ph)
    define v where "v = frame_voiced (rms_threshold (vad_config s)) xs"
    show ?case
    proof (cases "vad_frame_ok xs")
      case True
      then have len: "length xs \<le> u32_max" by (simp add: vad_frame_ok_def)
      have "fst (vad_step s v (length xs)) = fst (vad_phase_step s ph (v, length xs))"
        "phase_rep (snd (vad_step s v (length xs))) (snd (vad_phase_step s ph (v, length xs)))"
        using 1 len by (cases ph; simp only: step_quiet step_speaking)+
      with Cons.IH(1) [OF this(2)] True show ?thesis
        by (simp add: vad_process_step v_def vad_frames_def split_beta)
    qed (use Cons.IH(1) 1 in \<open>simp add: vad_process_step vad_frames_def\<close>)
  next
    case (2 s ph)
    define v where "v = frame_voiced (rms_threshold (vad_config s)) xs"
    show ?case
    proof (cases "vad_frame_ok xs")
      case True
      then have len: "length xs \<le> u32_max" by (simp add: vad_frame_ok_def)
      have "phase_rep (snd (vad_step s v (length xs))) (snd (vad_phase_step s ph (v, length xs)))"
        using 2 len by (cases ph; simp only: step_quiet step_speaking)+
      with Cons.IH(2) [OF this] True show ?thesis
        by (simp add: vad_process_step v_def vad_frames_def split_beta)
    qed (use Cons.IH(2) 2 in \<open>simp add: vad_process_step vad_frames_def\<close>)
  }
qed (simp_all add: vad_frames_def)

lemma alternating_vad_run: "alternating (vad_active s) (fst (vad_run s fs))"
proof (induction fs arbitrary: s)
  case (Cons xs fs)
  define v where "v = frame_voiced (rms_threshold (vad_config s)) xs"
  have "fst (vad_step s v n) = VadNone \<and> vad_active (snd (vad_step s v n)) = vad_active s
      \<or> fst (vad_step s v n) = VadStarted \<and> \<not> vad_active s \<and> vad_active (snd (vad_step s v n))
      \<or> fst (vad_step s v n) = VadEnded \<and> vad_active s \<and> \<not> vad_active (snd (vad_step s v n))" for n
    by (simp add: vad_step_def vad_reset_def Let_def)
  from this [of "length xs"] Cons.IH [of "snd (vad_step s v (length xs))"] Cons.IH [of s]
  show ?case by (auto simp: vad_process_step v_def split_beta)
qed simp

lemma energy_vad_new_rep:
  assumes "energy_vad_new c rate = Inr s"
    and "trailing_silence_ms c \<le> u32_max" and "max_utterance_ms c \<le> u32_max"
  shows "phase_rep s (Quiet [])" and "vad_config s = c" and "vad_rate s = rate"
proof -
  from assms have s: "s = \<lparr>vad_config = c, vad_rate = rate, speech_run = 0, silence_run = 0,
      utterance_samples = 0, vad_active = False\<rparr>" and "vad_wf s"
    by (auto simp: energy_vad_new_def res_simps vad_wf_def validate_rate_def split: if_splits)
  with vad_wf_samples(1) [of s] show "phase_rep s (Quiet [])" "vad_config s = c" "vad_rate s = rate"
    by simp_all
qed

section \<open>Properties\<close>

text \<open>
  C12: the detector is the automaton. For any configuration it accepts and any frames, the events are
  those of \<open>phase_step\<close> on the history of accepted frames: an utterance opens when the
  voiced run reaches \<open>min_speech_ms\<close>, closes when the unvoiced run reaches
  \<open>trailing_silence_ms\<close> or its length reaches \<open>max_utterance_ms\<close>; and an
  utterance still open after its opening frame is shorter than that maximum.
\<close>

theorem vad_refines_automaton:
  assumes "energy_vad_new c rate = Inr s"
    and "trailing_silence_ms c \<le> u32_max" and "max_utterance_ms c \<le> u32_max"
  shows "\<exists>ph. phase_run (rate * min_speech_ms c div 1000) (rate * trailing_silence_ms c div 1000)
        (rate * max_utterance_ms c div 1000) (Quiet []) (vad_frames (rms_threshold c) fs)
      = (fst (vad_run s fs), ph) \<and> phase_rep (snd (vad_run s fs)) ph"
proof -
  note new = energy_vad_new_rep [OF assms]
  have wf: "vad_wf s" using new(1) by simp
  have "samples_for s (min_speech_ms c) = rate * min_speech_ms c div 1000"
    "samples_for s (trailing_silence_ms c) = rate * trailing_silence_ms c div 1000"
    "samples_for s (max_utterance_ms c) = rate * max_utterance_ms c div 1000"
    using wf samples_for_value(1) [of s] new(2,3) by (simp_all add: vad_wf_def)
  with vad_run_simulation [OF new(1), of fs] show ?thesis
    by (auto simp: new(2) prod_eq_iff)
qed

lemma vad_default_accepted:
  "energy_vad_new vad_config_default 16000 = Inr \<lparr>vad_config = vad_config_default, vad_rate = 16000,
     speech_run = 0, silence_run = 0, utterance_samples = 0, vad_active = False\<rparr>"
proof -
  have b: "\<bar>15 / 1000 :: rat\<bar> \<le> 2 powi 0" by simp
  have "0 \<le> rnd32 (15 / 1000)" by (rule binary32.round_nonneg) simp
  with rnd32_bound [OF b] f32_round_Fin [OF b] show ?thesis
    by (simp add: energy_vad_new_def vad_config_default_def in_range_def validate_rate_def
        supported_sample_rates_def)
qed

theorem vad_refines_automaton_witness:
  "\<exists>s ph. energy_vad_new vad_config_default 16000 = Inr s
    \<and> phase_run 1920 9600 480000 (Quiet [])
        (vad_frames (rms_threshold vad_config_default) [[Fin 1], [], [NaN]])
      = (fst (vad_run s [[Fin 1], [], [NaN]]), ph)"
  using vad_refines_automaton [OF vad_default_accepted, of "[[Fin 1], [], [NaN]]"]
    vad_default_accepted
  by (auto simp: vad_config_default_def u32_max_def simp del: vad_run.simps)

text \<open>
  Utterances never nest. Over any sequence of frames, valid or not, every \<open>Ended\<close> closes
  an open utterance and every \<open>Started\<close> comes when none is open.
\<close>

theorem vad_events_alternate:
  "energy_vad_new c rate = Inr s \<Longrightarrow> alternating False (fst (vad_run s fs))"
  using alternating_vad_run [of s fs]
  by (auto simp: energy_vad_new_def res_simps split: if_splits)

theorem vad_events_alternate_witness:
  "alternating False (fst (vad_run \<lparr>vad_config = vad_config_default, vad_rate = 16000,
     speech_run = 0, silence_run = 0, utterance_samples = 0, vad_active = False\<rparr> [[Fin 1], [Fin 0]]))"
  by (rule vad_events_alternate [OF vad_default_accepted])

end
