(* ===== verification/Core.thy ===== *)
theory Core
  imports Prelude "HOL-Library.AList"
begin

text \<open>
  \<open>vendor/impossible-server/crates/impossible-server-core/src\<close>: cancellation tokens, public
  errors, the health registry, validated limits, request identifiers and request contexts. A
  \<open>Duration\<close> and an \<open>Instant\<close> are nanoseconds.
\<close>

section \<open>Cancellation (\<open>cancellation.rs\<close>)\<close>

text \<open>The token is its atomic flag; \<open>cancel\<close> answers whether this call changed it.\<close>

record cancellation_token =
  token_cancelled :: bool

definition token_new :: cancellation_token where
  "token_new = \<lparr>token_cancelled = False\<rparr>"

definition token_cancel :: "cancellation_token \<Rightarrow> bool \<times> cancellation_token" where
  "token_cancel t =
     (if token_cancelled t then (False, t\<lparr>token_cancelled := True\<rparr>)
      else (True, t\<lparr>token_cancelled := True\<rparr>))"

section \<open>Public errors (\<open>error.rs\<close>)\<close>

datatype error_code =
  InvalidRequest | Unavailable | Overloaded | Cancelled | DeadlineExceeded | Internal

fun error_code_str :: "error_code \<Rightarrow> string" where
  "error_code_str InvalidRequest = ''invalid_request''"
| "error_code_str Unavailable = ''unavailable''"
| "error_code_str Overloaded = ''overloaded''"
| "error_code_str Cancelled = ''cancelled''"
| "error_code_str DeadlineExceeded = ''deadline_exceeded''"
| "error_code_str Internal = ''internal''"

datatype retryability = Never | Retryable | Unknown

record public_error =
  pe_code :: error_code
  pe_retryability :: retryability
  pe_message :: string

fun public_error_for :: "error_code \<Rightarrow> public_error" where
  "public_error_for InvalidRequest =
     \<lparr>pe_code = InvalidRequest, pe_retryability = Never, pe_message = ''the request is invalid''\<rparr>"
| "public_error_for Unavailable =
     \<lparr>pe_code = Unavailable, pe_retryability = Retryable,
      pe_message = ''the requested service is unavailable''\<rparr>"
| "public_error_for Overloaded =
     \<lparr>pe_code = Overloaded, pe_retryability = Retryable,
      pe_message = ''the service is temporarily overloaded''\<rparr>"
| "public_error_for Cancelled =
     \<lparr>pe_code = Cancelled, pe_retryability = Never, pe_message = ''the request was cancelled''\<rparr>"
| "public_error_for DeadlineExceeded =
     \<lparr>pe_code = DeadlineExceeded, pe_retryability = Never,
      pe_message = ''the request deadline was exceeded''\<rparr>"
| "public_error_for Internal =
     \<lparr>pe_code = Internal, pe_retryability = Unknown,
      pe_message = ''an internal server error occurred''\<rparr>"

section \<open>Health (\<open>health.rs\<close>)\<close>

datatype process_state = Starting | Running | ProcDraining | ProcStopped

datatype readiness_reason = ProcessNotRunning | ComponentUnavailable

fun readiness_reason_str :: "readiness_reason \<Rightarrow> string" where
  "readiness_reason_str ProcessNotRunning = ''process_not_running''"
| "readiness_reason_str ComponentUnavailable = ''component_unavailable''"

text \<open>The \<open>BTreeMap\<close> of components is an association list with distinct keys.\<close>

record health_registry =
  hr_process :: process_state
  hr_components :: "(string \<times> bool) list"

record health_snapshot =
  hs_live :: bool
  hs_ready :: bool
  hs_reason :: "readiness_reason option"

definition health_new :: health_registry where
  "health_new = \<lparr>hr_process = Starting, hr_components = []\<rparr>"

definition set_process :: "process_state \<Rightarrow> health_registry \<Rightarrow> health_registry" where
  "set_process p h = h\<lparr>hr_process := p\<rparr>"

definition register_component :: "string \<Rightarrow> health_registry \<Rightarrow> health_registry" where
  "register_component name h =
     (case map_of (hr_components h) name of
        Some _ \<Rightarrow> h
      | None \<Rightarrow> h\<lparr>hr_components := AList.update name False (hr_components h)\<rparr>)"

definition set_component_ready ::
  "string \<Rightarrow> bool \<Rightarrow> health_registry \<Rightarrow> bool \<times> health_registry"
where
  "set_component_ready name ready h =
     (case map_of (hr_components h) name of
        None \<Rightarrow> (False, h)
      | Some _ \<Rightarrow> (True, h\<lparr>hr_components := AList.update name ready (hr_components h)\<rparr>))"

definition health_snapshot :: "health_registry \<Rightarrow> health_snapshot" where
  "health_snapshot h =
     (let live = (hr_process h \<noteq> ProcStopped);
          process_ready = (hr_process h = Running);
          components_ready = list_all snd (hr_components h);
          ready = (process_ready \<and> components_ready);
          reason = (if ready then None
                    else if \<not> process_ready then Some ProcessNotRunning
                    else Some ComponentUnavailable)
      in \<lparr>hs_live = live, hs_ready = ready, hs_reason = reason\<rparr>)"

section \<open>Limits (\<open>limits.rs\<close>)\<close>

type_synonym duration = nat

definition nanos :: "nat \<Rightarrow> duration" where "nanos secs = secs * 1000000000"
definition millis :: "nat \<Rightarrow> duration" where "millis ms = ms * 1000000"

definition max_timeout :: duration where "max_timeout = nanos (24 * 60 * 60)"

datatype limit_error = LimitError string

record server_limits =
  max_request_bytes :: nat
  queue_capacity :: nat
  max_concurrent_requests :: nat
  request_timeout :: duration
  shutdown_timeout :: duration

definition bounded_size :: "nat \<Rightarrow> nat \<Rightarrow> string \<Rightarrow> limit_error + nat" where
  "bounded_size v maximum field =
     and_then (ok_or (LimitError field) (if v = 0 then None else Some v)) (\<lambda>v.
       if v > maximum then Inl (LimitError field) else Inr v)"

definition bounded_duration :: "duration \<Rightarrow> string \<Rightarrow> limit_error + duration" where
  "bounded_duration v field =
     (if v = 0 \<or> v > max_timeout then Inl (LimitError field) else Inr v)"

definition server_limits_new ::
  "nat \<Rightarrow> nat \<Rightarrow> nat \<Rightarrow> duration \<Rightarrow> duration \<Rightarrow> limit_error + server_limits"
where
  "server_limits_new bytes queue concurrent req shut =
     and_then (bounded_size bytes (1024 * 1024 * 1024) ''max_request_bytes'') (\<lambda>bytes.
     and_then (bounded_size queue 1000000 ''queue_capacity'') (\<lambda>queue.
     and_then (bounded_size concurrent 1000000 ''max_concurrent_requests'') (\<lambda>concurrent.
     and_then (bounded_duration req ''request_timeout'') (\<lambda>req.
     and_then (bounded_duration shut ''shutdown_timeout'') (\<lambda>shut.
       Inr \<lparr>max_request_bytes = bytes, queue_capacity = queue,
            max_concurrent_requests = concurrent, request_timeout = req,
            shutdown_timeout = shut\<rparr>)))))"

definition server_limits_default :: "limit_error + server_limits" where
  "server_limits_default = server_limits_new (1024 * 1024) 128 8 (nanos 30) (nanos 10)"

section \<open>Requests (\<open>request.rs\<close>)\<close>

datatype request_id_exhausted = RequestIdExhausted

text \<open>\<open>RequestIdSource::next\<close> on the shared counter: the identifier, and the counter after.\<close>

definition next_request_id :: "nat \<Rightarrow> (request_id_exhausted + nat) \<times> nat" where
  "next_request_id counter =
     (case checked_add64 counter 1 of
        None \<Rightarrow> (Inl RequestIdExhausted, counter)
      | Some v \<Rightarrow> (Inr (counter + 1), v))"

fun request_ids :: "nat \<Rightarrow> nat \<Rightarrow> (request_id_exhausted + nat) list \<times> nat" where
  "request_ids 0 counter = ([], counter)"
| "request_ids (Suc n) counter =
     (case next_request_id counter of
        (r, counter') \<Rightarrow> (case request_ids n counter' of (rs, c) \<Rightarrow> (r # rs, c)))"

datatype deadline_error = DeadlineError
datatype request_stop = StopCancelled | StopDeadlineExceeded

text \<open>An \<open>Instant\<close> is a signed 64-bit number of seconds and its nanoseconds.\<close>

definition instant_checked_add :: "nat \<Rightarrow> duration \<Rightarrow> nat option" where
  "instant_checked_add now d = (if now + d < nanos (2 ^ 63) then Some (now + d) else None)"

record request_context =
  rc_id :: nat
  rc_cancellation :: cancellation_token
  rc_deadline :: "nat option"

definition request_context_new ::
  "nat \<Rightarrow> nat \<Rightarrow> cancellation_token \<Rightarrow> duration option \<Rightarrow> deadline_error + request_context"
where
  "request_context_new now ident token timeout =
     and_then
       (case timeout of
          None \<Rightarrow> Inr None
        | Some d \<Rightarrow> map_ok Some (ok_or DeadlineError (instant_checked_add now d)))
       (\<lambda>deadline. Inr \<lparr>rc_id = ident, rc_cancellation = token, rc_deadline = deadline\<rparr>)"

definition remaining :: "nat \<Rightarrow> request_context \<Rightarrow> duration option" where
  "remaining now c = map_option (\<lambda>deadline. deadline - now) (rc_deadline c)"

text \<open>
  \<open>stopped()\<close> when the token is cancelled at \<open>cancel_at\<close> (if ever) and the
  task is polled again at \<open>poll\<close>, no earlier than its deadline; \<open>None\<close> is a
  future that never resolves.
\<close>

definition request_stopped ::
  "request_context \<Rightarrow> nat option \<Rightarrow> nat \<Rightarrow> request_stop option"
where
  "request_stopped c cancel_at poll =
     (let cancelled_by = (\<lambda>t. case cancel_at of None \<Rightarrow> False | Some k \<Rightarrow> k \<le> t)
      in case rc_deadline c of
           None \<Rightarrow> (case cancel_at of None \<Rightarrow> None | Some _ \<Rightarrow> Some StopCancelled)
         | Some deadline \<Rightarrow>
             if cancelled_by deadline \<or> cancelled_by poll then Some StopCancelled
             else Some StopDeadlineExceeded)"

section \<open>Health against a finite map\<close>

definition components_map :: "health_registry \<Rightarrow> string \<rightharpoonup> bool" where
  "components_map h = map_of (hr_components h)"

definition health_wf :: "health_registry \<Rightarrow> bool" where
  "health_wf h \<longleftrightarrow> distinct (map fst (hr_components h))"

lemma health_wf_ops [simp]:
  "health_wf health_new" "health_wf h \<Longrightarrow> health_wf (set_process p h)"
  "health_wf h \<Longrightarrow> health_wf (register_component n h)"
  "health_wf h \<Longrightarrow> health_wf (snd (set_component_ready n b h))"
  by (simp_all add: health_wf_def health_new_def set_process_def register_component_def
      set_component_ready_def distinct_update split: option.split)

lemma components_map_ops:
  "components_map health_new = Map.empty"
  "components_map (set_process p h) = components_map h"
  "components_map (register_component n h)
     = (if components_map h n = None then (components_map h)(n \<mapsto> False) else components_map h)"
  "components_map (snd (set_component_ready n b h))
     = (if components_map h n = None then components_map h else (components_map h)(n \<mapsto> b))"
  "fst (set_component_ready n b h) \<longleftrightarrow> n \<in> dom (components_map h)"
  by (auto simp: components_map_def health_new_def set_process_def register_component_def
      set_component_ready_def update_conv' split: option.split)

lemma list_all_snd_ran:
  "distinct (map fst xs) \<Longrightarrow> list_all snd xs \<longleftrightarrow> False \<notin> ran (map_of xs)"
  by (auto simp: list_all_iff ran_distinct)

lemma next_request_id_value:
  "counter \<le> u64_max \<Longrightarrow> next_request_id counter =
     (if counter < u64_max then (Inr (counter + 1), counter + 1) else (Inl RequestIdExhausted, counter))"
  by (auto simp: next_request_id_def checked_add64_def)

lemma server_limits_new_Inr_iff:
  "server_limits_new b q c r t = Inr l \<longleftrightarrow>
     0 < b \<and> b \<le> 1073741824 \<and> 0 < q \<and> q \<le> 1000000 \<and> 0 < c \<and> c \<le> 1000000
     \<and> 0 < r \<and> r \<le> max_timeout \<and> 0 < t \<and> t \<le> max_timeout
     \<and> l = \<lparr>max_request_bytes = b, queue_capacity = q, max_concurrent_requests = c,
            request_timeout = r, shutdown_timeout = t\<rparr>"
  by (auto simp: server_limits_new_def bounded_size_def bounded_duration_def res_simps)

section \<open>Properties\<close>

text \<open>
  The health registry is a map from component names to readiness. Every operation acts on
  the map as its name says, a component is registered not ready and never reset by registering
  it again, and the snapshot is ready exactly when the process runs and no registered component
  is unready, whatever well-formed state the operations reached.
\<close>

theorem health_refines_map:
  assumes "health_wf h"
  shows "(components_map (register_component n h)
      = (if components_map h n = None then (components_map h)(n \<mapsto> False) else components_map h))
    \<and> (components_map (snd (set_component_ready n b h))
      = (if components_map h n = None then components_map h else (components_map h)(n \<mapsto> b)))
    \<and> (fst (set_component_ready n b h) \<longleftrightarrow> n \<in> dom (components_map h))
    \<and> health_wf (register_component n h) \<and> health_wf (snd (set_component_ready n b h))
    \<and> (hs_ready (health_snapshot h)
      \<longleftrightarrow> hr_process h = Running \<and> False \<notin> ran (components_map h))
    \<and> (hs_live (health_snapshot h) \<longleftrightarrow> hr_process h \<noteq> ProcStopped)
    \<and> (hs_reason (health_snapshot h) = None \<longleftrightarrow> hs_ready (health_snapshot h))"
  using assms components_map_ops(3-5) health_wf_ops(3,4)
    list_all_snd_ran [of "hr_components h"]
  by (simp add: health_snapshot_def health_wf_def components_map_def Let_def)

theorem health_refines_map_witness:
  "hs_ready (health_snapshot (snd (set_component_ready ''voice'' True
     (register_component ''voice'' (set_process Running health_new)))))"
proof -
  define h where "h = register_component ''voice'' (set_process Running health_new)"
  define k where "k = snd (set_component_ready ''voice'' True h)"
  have "health_wf (set_process Running health_new)" by simp
  from health_refines_map [OF this, of "''voice''"]
  have reg: "components_map h = [''voice'' \<mapsto> False]" "health_wf h"
    by (simp_all add: h_def components_map_ops)
  from health_refines_map [OF reg(2), of "''voice''" True]
  have set: "components_map k = [''voice'' \<mapsto> True]" "health_wf k"
    by (simp_all add: k_def reg(1))
  have "hr_process k = Running"
    by (simp add: k_def h_def set_component_ready_def register_component_def set_process_def
        health_new_def)
  with health_refines_map [OF set(2)] set(1) have "hs_ready (health_snapshot k)" by simp
  then show ?thesis by (simp add: k_def h_def)
qed

text \<open>
  Request identifiers are never zero, never repeat and never wrap: \<open>n\<close> calls on a counter
  give its successors in order, and once \<open>u64::MAX\<close> is issued every further call fails.
\<close>

theorem request_ids_consecutive:
  "counter \<le> u64_max \<Longrightarrow> fst (request_ids n counter)
     = map (\<lambda>i. if counter + i < u64_max then Inr (counter + i + 1) else Inl RequestIdExhausted) [0..<n]"
proof (induction n arbitrary: counter)
  case (Suc n)
  have "map (\<lambda>i. if counter + i < u64_max then Inr (counter + i + 1) else Inl RequestIdExhausted) [0..<Suc n]
    = (if counter < u64_max then Inr (counter + 1) else Inl RequestIdExhausted)
      # map (\<lambda>i. if counter + 1 + i < u64_max then Inr (counter + 1 + i + 1) else Inl RequestIdExhausted) [0..<n]"
    by (simp add: map_upt_Suc del: upt_Suc)
  with Suc show ?case
    by (cases "counter < u64_max") (simp_all add: next_request_id_value split_beta del: upt_Suc)
qed simp

theorem request_ids_consecutive_witness:
  "fst (request_ids 3 (u64_max - 1)) = [Inr u64_max, Inl RequestIdExhausted, Inl RequestIdExhausted]"
  using request_ids_consecutive [of "u64_max - 1" 3] by (simp add: u64_max_def upt_rec)

end
