(* ===== verification/Token.thy ===== *)
theory Token
  imports Core
begin

text \<open>
  \<open>CancellationToken\<close> of
  \<open>vendor/impossible-server/crates/impossible-server-core/src/cancellation.rs\<close> under
  threads: any number of \<open>cancel\<close> and \<open>cancelled().await\<close>, interleaved at
  their accesses to the flag and to tokio's \<open>Notify\<close>. A \<open>Notify\<close> counts its
  calls of \<open>notify_waiters\<close>: a \<open>Notified\<close> future completes at the first one
  after its creation, polled or not, as tokio documents. Proved: the wake-up is never missed, one call
  of \<open>cancel\<close> answers that it cancelled, and nobody waits in vain.
\<close>

section \<open>The threads\<close>

text \<open>\<open>cancel\<close>: before the swap, between the swap and \<open>notify_waiters\<close>, after its answer.\<close>

datatype canceller = Swap | NotifyWaiters | Answered bool

text \<open>\<open>cancelled\<close>: before \<open>notified()\<close>, before the load of the flag, at the await, after its return.\<close>

datatype observer = Register | Load nat | Await nat | Woken

record token_threads =
  tt_token :: cancellation_token
  tt_notified :: nat
  tt_cancellers :: "canceller list"
  tt_observers :: "observer list"

definition token_start :: token_threads where
  "token_start = \<lparr>tt_token = token_new, tt_notified = 0, tt_cancellers = [], tt_observers = []\<rparr>"

text \<open>The atomic \<open>swap(true)\<close> with the branch on the value before, and \<open>notify_waiters\<close>.\<close>

fun cancel_step :: "canceller \<Rightarrow> token_threads \<Rightarrow> canceller \<times> token_threads" where
  "cancel_step Swap s =
     (case token_cancel (tt_token s) of
        (changed, t) \<Rightarrow> (if changed then NotifyWaiters else Answered False, s\<lparr>tt_token := t\<rparr>))"
| "cancel_step NotifyWaiters s = (Answered True, s\<lparr>tt_notified := tt_notified s + 1\<rparr>)"
| "cancel_step (Answered b) s = (Answered b, s)"

text \<open>One round of the loop of \<open>cancelled\<close>; \<open>None\<close> is an await that is not over.\<close>

fun observe_step :: "token_threads \<Rightarrow> observer \<Rightarrow> observer option" where
  "observe_step s Register = Some (Load (tt_notified s))"
| "observe_step s (Load n) = Some (if token_cancelled (tt_token s) then Woken else Await n)"
| "observe_step s (Await n) = (if n < tt_notified s then Some Register else None)"
| "observe_step s Woken = None"

inductive token_move :: "token_threads \<Rightarrow> token_threads \<Rightarrow> bool" where
  cancel: "i < length (tt_cancellers s) \<Longrightarrow> tt_cancellers s ! i = c \<Longrightarrow> \<nexists>b. c = Answered b \<Longrightarrow>
    cancel_step c s = (c', s') \<Longrightarrow> token_move s (s'\<lparr>tt_cancellers := (tt_cancellers s')[i := c']\<rparr>)"
| observe: "i < length (tt_observers s) \<Longrightarrow> observe_step s (tt_observers s ! i) = Some q \<Longrightarrow>
    token_move s (s\<lparr>tt_observers := (tt_observers s)[i := q]\<rparr>)"

inductive token_step :: "token_threads \<Rightarrow> token_threads \<Rightarrow> bool" where
  move: "token_move s t \<Longrightarrow> token_step s t"
| call_cancel: "token_step s (s\<lparr>tt_cancellers := tt_cancellers s @ [Swap]\<rparr>)"
| call_cancelled: "token_step s (s\<lparr>tt_observers := tt_observers s @ [Register]\<rparr>)"

section \<open>The invariant\<close>

definition token_changes :: "token_threads \<Rightarrow> nat" where
  "token_changes s = length (filter (\<lambda>c. c = NotifyWaiters \<or> c = Answered True) (tt_cancellers s))"

definition token_notifying :: "token_threads \<Rightarrow> nat" where
  "token_notifying s = length (filter (\<lambda>c. c = NotifyWaiters) (tt_cancellers s))"

fun observer_ok :: "token_threads \<Rightarrow> observer \<Rightarrow> bool" where
  "observer_ok s Register \<longleftrightarrow> True"
| "observer_ok s (Load n) \<longleftrightarrow> n \<le> tt_notified s"
| "observer_ok s (Await n) \<longleftrightarrow> n = 0"
| "observer_ok s Woken \<longleftrightarrow> token_cancelled (tt_token s)"

definition token_inv :: "token_threads \<Rightarrow> bool" where
  "token_inv s \<longleftrightarrow>
     token_changes s = of_bool (token_cancelled (tt_token s))
     \<and> token_notifying s + tt_notified s = of_bool (token_cancelled (tt_token s))
     \<and> (Answered False \<in> set (tt_cancellers s) \<longrightarrow> token_cancelled (tt_token s))
     \<and> list_all (observer_ok s) (tt_observers s)"

lemma filter_length_update:
  "i < length xs \<Longrightarrow> length (filter P (xs[i := x])) + of_bool (P (xs ! i)) = length (filter P xs) + of_bool (P x)"
proof (induction xs arbitrary: i)
  case (Cons y ys)
  show ?case
  proof (cases i)
    case (Suc j)
    with Cons.IH [of j] Cons.prems show ?thesis by auto
  qed simp
qed simp

lemma observer_ok_mono:
  "observer_ok s q \<Longrightarrow> tt_notified s \<le> tt_notified t \<Longrightarrow>
    (token_cancelled (tt_token s) \<Longrightarrow> token_cancelled (tt_token t)) \<Longrightarrow> observer_ok t q"
  by (cases q) auto

lemma observer_ok_same: "observer_ok (s\<lparr>tt_cancellers := cs, tt_observers := qs\<rparr>) q = observer_ok s q"
  "observer_ok (s\<lparr>tt_observers := qs\<rparr>) q = observer_ok s q"
  "observer_ok (s\<lparr>tt_cancellers := cs\<rparr>) q = observer_ok s q"
  by (cases q; simp)+

lemma token_move_inv:
  assumes inv: "token_inv s" and move: "token_move s t"
  shows "token_inv t"
  using move
proof cases
  case (observe i q)
  have "observer_ok s q"
    using inv observe(2,3) by (cases "tt_observers s ! i")
      (auto simp: token_inv_def list_all_length of_bool_def split: if_splits)
  with inv observe(1,2) show ?thesis
    by (auto simp: token_inv_def token_changes_def token_notifying_def list_all_iff observer_ok_same
        dest!: subsetD [OF set_update_subset_insert])
next
  case (cancel i c c' s')
  note changes = filter_length_update [OF cancel(2), of "\<lambda>c. c = NotifyWaiters \<or> c = Answered True" c']
  note notifying = filter_length_update [OF cancel(2), of "\<lambda>c. c = NotifyWaiters" c']
  have answers: "Answered False \<in> set ((tt_cancellers s)[i := c'])
      \<Longrightarrow> Answered False \<in> set (tt_cancellers s) \<or> c' = Answered False"
    by (auto dest!: subsetD [OF set_update_subset_insert])
  have observers: "list_all (observer_ok u) (tt_observers s)"
    if "tt_notified s \<le> tt_notified u" "token_cancelled (tt_token s) \<Longrightarrow> token_cancelled (tt_token u)" for u
    using inv that by (auto simp: token_inv_def list_all_iff intro: observer_ok_mono)
  show ?thesis
  proof (cases c)
    case Swap
    with cancel have t: "t = s\<lparr>tt_token := \<lparr>token_cancelled = True\<rparr>, tt_cancellers := (tt_cancellers s)[i := c']\<rparr>"
      and c': "c' = (if token_cancelled (tt_token s) then Answered False else NotifyWaiters)"
      by (auto simp: token_cancel_def split: if_splits)
    have "list_all (observer_ok t) (tt_observers s)" by (rule observers) (simp_all add: t)
    with inv changes notifying answers cancel(3) Swap show ?thesis
      by (auto simp: token_inv_def token_changes_def token_notifying_def t c' split: if_splits)
  next
    case NotifyWaiters
    with cancel have t: "t = s\<lparr>tt_notified := tt_notified s + 1, tt_cancellers := (tt_cancellers s)[i := c']\<rparr>"
      and c': "c' = Answered True" by auto
    have "list_all (observer_ok t) (tt_observers s)" by (rule observers) (simp_all add: t)
    with inv changes notifying answers cancel(3) NotifyWaiters show ?thesis
      by (auto simp: token_inv_def token_changes_def token_notifying_def t c' split: if_splits)
  qed (use cancel in simp)
qed

lemma token_step_inv:
  assumes inv: "token_inv s" and step: "token_step s t"
  shows "token_inv t"
  using step
proof cases
  case move
  with inv show ?thesis by (rule token_move_inv)
qed (use inv in \<open>auto simp: token_inv_def token_changes_def token_notifying_def observer_ok_same list_all_iff\<close>)

lemma token_start_inv: "token_inv token_start"
  by (simp add: token_inv_def token_start_def token_new_def token_changes_def token_notifying_def)

interpretation token: step_invariant "\<lambda>s. s = token_start" token_step token_inv
  by unfold_locales (auto intro: token_start_inv token_step_inv)

section \<open>Nobody waits in vain\<close>

text \<open>What the calls in progress may still do, at most.\<close>

fun canceller_rank :: "canceller \<Rightarrow> nat" where
  "canceller_rank Swap = 2" | "canceller_rank NotifyWaiters = 1" | "canceller_rank (Answered b) = 0"

fun observer_rank :: "nat \<Rightarrow> observer \<Rightarrow> nat" where
  "observer_rank k Register = (if k = 0 then 5 else 2)"
| "observer_rank k (Load n) = (if n = 0 then 4 else 1)"
| "observer_rank k (Await n) = 3"
| "observer_rank k Woken = 0"

definition token_rank :: "token_threads \<Rightarrow> nat" where
  "token_rank s = sum_list (map canceller_rank (tt_cancellers s))
     + sum_list (map (observer_rank (tt_notified s)) (tt_observers s))"

lemma rank_update:
  "i < length xs \<Longrightarrow> f x < f (xs ! i) \<Longrightarrow> sum_list (map f (xs[i := x])) < (sum_list (map f xs) :: nat)"
proof (induction xs arbitrary: i)
  case (Cons y ys)
  then show ?case by (cases i) auto
qed simp

lemma observers_rank_mono:
  "k \<le> l \<Longrightarrow> sum_list (map (observer_rank l) qs) \<le> sum_list (map (observer_rank k) qs)"
proof (rule sum_list_mono)
  show "observer_rank l q \<le> observer_rank k q" if "k \<le> l" for q using that by (cases q) auto
qed

lemma token_move_rank:
  assumes inv: "token_inv s" and move: "token_move s t"
  shows "token_rank t < token_rank s"
  using move
proof cases
  case (observe i q)
  have "observer_ok s (tt_observers s ! i)" "tt_notified s = 0 \<or> token_cancelled (tt_token s)"
    using inv observe(2) by (auto simp: token_inv_def list_all_length of_bool_def split: if_splits)
  with observe(3) have "observer_rank (tt_notified s) q < observer_rank (tt_notified s) (tt_observers s ! i)"
    by (cases "tt_observers s ! i") (auto split: if_splits)
  with rank_update [OF observe(2)] observe(1) show ?thesis by (simp add: token_rank_def)
next
  case (cancel i c c' s')
  then have "canceller_rank c' < canceller_rank (tt_cancellers s ! i)"
    and t: "tt_cancellers t = (tt_cancellers s)[i := c']" "tt_observers t = tt_observers s"
      "tt_notified s \<le> tt_notified t"
    by (cases c; auto simp: token_cancel_def split: if_splits)+
  from rank_update [OF cancel(2) this(1)] observers_rank_mono [OF t(3), of "tt_observers s"] t(1,2)
  show ?thesis by (simp add: token_rank_def)
qed

lemma token_moves: "(token_move ^^ k) s t \<Longrightarrow> token_inv s \<Longrightarrow> k \<le> token_rank s"
proof (induction k arbitrary: s)
  case (Suc k)
  then obtain u where "token_move s u" "(token_move ^^ k) u t" by (metis relpowp_Suc_D2)
  with Suc.IH [OF this(2)] token_move_rank [OF Suc.prems(2)] token_move_inv [OF Suc.prems(2)]
  show ?case by fastforce
qed simp

lemma sum_list_bound:
  fixes f :: "'a \<Rightarrow> nat"
  assumes "\<And>x. f x \<le> c"
  shows "sum_list (map f xs) \<le> c * length xs"
proof (induction xs)
  case (Cons x xs)
  with assms [of x] show ?case by simp
qed simp

lemma token_rank_bound:
  "token_rank s \<le> 2 * length (tt_cancellers s) + 5 * length (tt_observers s)"
proof -
  have "canceller_rank c \<le> 2" for c by (cases c) simp_all
  moreover have "observer_rank k q \<le> 5" for k q by (cases q) simp_all
  ultimately show ?thesis
    unfolding token_rank_def by (intro add_mono sum_list_bound)
qed

text \<open>No thread can move exactly when every \<open>cancel\<close> has answered and who waits does so rightly.\<close>

definition settled :: "token_threads \<Rightarrow> bool" where
  "settled s \<longleftrightarrow> list_all (\<lambda>c. c = Answered True \<or> c = Answered False) (tt_cancellers s)
     \<and> list_all (\<lambda>q. q = (if token_cancelled (tt_token s) then Woken else Await 0)) (tt_observers s)"

lemma stuck_settled:
  assumes inv: "token_inv s" and stuck: "\<nexists>t. token_move s t"
  shows "settled s"
proof -
  have answered: "c = Answered True \<or> c = Answered False" if c: "c \<in> set (tt_cancellers s)" for c
  proof (rule ccontr)
    assume "\<not> ?thesis"
    then have "\<nexists>b. c = Answered b" by auto
    moreover obtain i where "i < length (tt_cancellers s)" "tt_cancellers s ! i = c"
      using c by (auto simp: in_set_conv_nth)
    moreover obtain c' s' where "cancel_step c s = (c', s')" by fastforce
    ultimately show False using stuck token_move.cancel by blast
  qed
  then have none: "token_notifying s = 0" by (auto simp: token_notifying_def filter_empty_conv)
  have "q = (if token_cancelled (tt_token s) then Woken else Await 0)" if q: "q \<in> set (tt_observers s)" for q
  proof -
    obtain i where "i < length (tt_observers s)" "tt_observers s ! i = q"
      using q by (auto simp: in_set_conv_nth)
    then have "observe_step s q = None" using stuck token_move.observe by (cases "observe_step s q") blast+
    moreover have "observer_ok s q" using inv q by (auto simp: token_inv_def list_all_iff)
    moreover have "tt_notified s = of_bool (token_cancelled (tt_token s))"
      using inv none by (simp add: token_inv_def)
    ultimately show ?thesis by (cases q) (auto split: if_splits)
  qed
  with answered show ?thesis by (auto simp: settled_def list_all_iff)
qed

lemma settled_stuck:
  assumes inv: "token_inv s" and s: "settled s"
  shows "\<not> token_move s t"
proof
  assume "token_move s t"
  then show False
  proof cases
    case (cancel i c c' s')
    with s show False by (auto simp: settled_def list_all_length)
  next
    case (observe i q)
    moreover have "token_notifying s = 0"
      using s by (auto simp: settled_def list_all_iff token_notifying_def filter_empty_conv)
    ultimately show False
      using s inv by (auto simp: settled_def list_all_length token_inv_def split: if_splits)
  qed
qed

section \<open>The property\<close>

text \<open>
  C6: No wake-up is missed. Whatever calls of \<open>cancel\<close> and \<open>cancelled\<close>
  interleave: exactly one \<open>cancel\<close> has changed a cancelled token, the one that answers
  true; the calls in progress take at most two moves for a \<open>cancel\<close> and five for a
  \<open>cancelled\<close>; and they come to rest only when every \<open>cancel\<close> has answered and
  every \<open>cancelled\<close> has returned, or waits on a token that is not cancelled.
\<close>

theorem no_missed_wakeup:
  assumes "token_step\<^sup>*\<^sup>* token_start s"
  shows "token_changes s = (if token_cancelled (tt_token s) then 1 else 0)
    \<and> (\<forall>k t. (token_move ^^ k) s t \<longrightarrow> k \<le> 2 * length (tt_cancellers s) + 5 * length (tt_observers s)
        \<and> ((\<nexists>u. token_move t u) \<longleftrightarrow> settled t))"
proof -
  have inv: "token_inv s" by (rule token.reachable_inv [OF refl assms])
  have "token_inv t" if "(token_move ^^ k) s t" for k t
  proof -
    have "token_move\<^sup>*\<^sup>* s t" using that by (rule relpowp_imp_rtranclp)
    then show ?thesis by induction (auto intro: inv token_move_inv)
  qed
  then have "(\<nexists>u. token_move t u) \<longleftrightarrow> settled t" if "(token_move ^^ k) s t" for k t
    using that stuck_settled settled_stuck by blast
  moreover have "k \<le> 2 * length (tt_cancellers s) + 5 * length (tt_observers s)" if "(token_move ^^ k) s t" for k t
    using token_moves [OF that inv] token_rank_bound [of s] by simp
  ultimately show ?thesis using inv by (auto simp: token_inv_def)
qed

text \<open>One \<open>cancel\<close> and one \<open>cancelled\<close>.\<close>

definition lone :: "canceller \<Rightarrow> observer \<Rightarrow> bool \<Rightarrow> nat \<Rightarrow> token_threads" where
  "lone c q b n = \<lparr>tt_token = \<lparr>token_cancelled = b\<rparr>, tt_notified = n, tt_cancellers = [c], tt_observers = [q]\<rparr>"

lemma lone_cancel:
  "cancel_step c (lone c q b n) = (c', lone c q b' n') \<Longrightarrow> \<nexists>b. c = Answered b \<Longrightarrow>
    token_move (lone c q b n) (lone c' q b' n')"
  using token_move.cancel [of 0 "lone c q b n" c c' "lone c q b' n'"] by (simp add: lone_def)

lemma lone_observe:
  "observe_step (lone c q b n) q = Some q' \<Longrightarrow> token_move (lone c q b n) (lone c q' b n)"
  using token_move.observe [of 0 "lone c q b n" q'] by (simp add: lone_def)

lemma lone_start: "token_step\<^sup>*\<^sup>* token_start (lone Swap (Await 0) False 0)"
proof -
  have "token_step token_start (token_start\<lparr>tt_cancellers := [Swap]\<rparr>)"
    using token_step.call_cancel [of token_start] by (simp add: token_start_def)
  moreover have "token_step (token_start\<lparr>tt_cancellers := [Swap]\<rparr>) (lone Swap Register False 0)"
    using token_step.call_cancelled [of "token_start\<lparr>tt_cancellers := [Swap]\<rparr>"]
    by (simp add: token_start_def token_new_def lone_def)
  moreover have "token_step (lone Swap Register False 0) (lone Swap (Load 0) False 0)"
    by (rule token_step.move, rule lone_observe) (simp add: lone_def)
  moreover have "token_step (lone Swap (Load 0) False 0) (lone Swap (Await 0) False 0)"
    by (rule token_step.move, rule lone_observe) (simp add: lone_def)
  ultimately show ?thesis by (meson converse_rtranclp_into_rtranclp rtranclp.rtrancl_refl)
qed

lemma lone_moves: "(token_move ^^ Suc (Suc (Suc (Suc (Suc 0))))) (lone Swap (Await 0) False 0) (lone (Answered True) Woken True 1)"
proof -
  have "token_move (lone Swap (Await 0) False 0) (lone NotifyWaiters (Await 0) True 0)"
    by (rule lone_cancel) (simp_all add: lone_def token_cancel_def)
  moreover have "token_move (lone NotifyWaiters (Await 0) True 0) (lone (Answered True) (Await 0) True 1)"
    by (rule lone_cancel) (simp_all add: lone_def)
  moreover have "token_move (lone (Answered True) (Await 0) True 1) (lone (Answered True) Register True 1)"
    by (rule lone_observe) (simp add: lone_def)
  moreover have "token_move (lone (Answered True) Register True 1) (lone (Answered True) (Load 1) True 1)"
    by (rule lone_observe) (simp add: lone_def)
  moreover have "token_move (lone (Answered True) (Load 1) True 1) (lone (Answered True) Woken True 1)"
    by (rule lone_observe) (simp add: lone_def)
  ultimately show ?thesis by (simp only: relpowp.simps relcompp_apply) blast
qed

theorem no_missed_wakeup_witness:
  "\<exists>s. (token_move ^^ 5) (lone Swap (Await 0) False 0) s \<and> (\<nexists>u. token_move s u) \<and> tt_observers s = [Woken]"
proof -
  have five: "Suc (Suc (Suc (Suc (Suc 0)))) = (5 :: nat)" by simp
  note moves = lone_moves [unfolded five]
  have "settled (lone (Answered True) Woken True 1)" by (simp add: settled_def lone_def)
  with no_missed_wakeup [OF lone_start] moves have "\<nexists>u. token_move (lone (Answered True) Woken True 1) u"
    by blast
  moreover have "tt_observers (lone (Answered True) Woken True 1) = [Woken]" by (simp add: lone_def)
  ultimately show ?thesis using moves by blast
qed

end
