(* ===== verification/Shutdown.thy ===== *)
theory Shutdown
  imports Core "HOL-Library.Multiset"
begin

text \<open>
  \<open>vendor/impossible-server/crates/impossible-server-core/src/shutdown.rs\<close>: the admission gate
  and its bounded drain. Each critical section of the mutex is a function on the gate; the step
  relation interleaves any number of threads at the granularity of those sections, with the
  cancellation of the stop token as a step of its own, as in the code.
\<close>

section \<open>The gate\<close>

datatype drain_outcome = Graceful | Forced
datatype gate_phase = Accepting | Draining | Stopped drain_outcome

record gate =
  gate_phase :: gate_phase
  gate_active :: nat
  gate_stopped :: cancellation_token

definition gate_new :: gate where
  "gate_new = \<lparr>gate_phase = Accepting, gate_active = 0, gate_stopped = token_new\<rparr>"

text \<open>\<open>true\<close> stands for the returned guard.\<close>

definition try_enter :: "gate \<Rightarrow> bool \<times> gate" where
  "try_enter g =
     (if gate_phase g \<noteq> Accepting then (False, g)
      else case checked_add64 (gate_active g) 1 of
        None \<Rightarrow> (False, g)
      | Some n \<Rightarrow> (True, g\<lparr>gate_active := n\<rparr>))"

definition is_accepting :: "gate \<Rightarrow> bool" where
  "is_accepting g \<longleftrightarrow> gate_phase g = Accepting"

text \<open>The critical section of \<open>stop_now\<close>, without the token.\<close>

definition stop_now_locked :: "gate \<Rightarrow> gate" where
  "stop_now_locked g =
     (case gate_phase g of
        Stopped _ \<Rightarrow> g
      | _ \<Rightarrow> g\<lparr>gate_phase := Stopped Forced\<rparr>)"

text \<open>
  The critical section of \<open>begin_drain\<close>: the result, and whether the section completed the
  drain (then the token is cancelled next).
\<close>

definition begin_drain_locked :: "gate \<Rightarrow> drain_outcome option \<times> bool \<times> gate" where
  "begin_drain_locked g =
     (case gate_phase g of
        Stopped r \<Rightarrow> (Some r, False, g)
      | p \<Rightarrow>
          let g = (if p = Accepting then g\<lparr>gate_phase := Draining\<rparr> else g)
          in if gate_active g = 0
             then (Some Graceful, True, g\<lparr>gate_phase := Stopped Graceful\<rparr>)
             else (None, False, g))"

text \<open>The critical section of dropping a \<open>WorkGuard\<close>: whether it completed the drain.\<close>

definition drop_guard_locked :: "gate \<Rightarrow> bool \<times> gate" where
  "drop_guard_locked g =
     (let g = g\<lparr>gate_active := gate_active g - 1\<rparr>
      in if gate_active g = 0 \<and> gate_phase g = Draining
         then (True, g\<lparr>gate_phase := Stopped Graceful\<rparr>)
         else (False, g))"

definition terminal_outcome :: "gate \<Rightarrow> drain_outcome" where
  "terminal_outcome g =
     (case gate_phase g of
        Stopped r \<Rightarrow> r
      | Accepting \<Rightarrow> Forced
      | Draining \<Rightarrow> Forced)"

definition cancel_stopped :: "gate \<Rightarrow> gate" where
  "cancel_stopped g = g\<lparr>gate_stopped := snd (token_cancel (gate_stopped g))\<rparr>"

abbreviation stop_published :: "gate \<Rightarrow> bool" where
  "stop_published g \<equiv> token_cancelled (gate_stopped g)"

section \<open>Threads\<close>

text \<open>
  Where a thread stands: holding a guard, suspended in \<open>drain\<close>, or between a critical section
  that ended the drain and the cancellation of the token, with the outcome it returns after it
  (\<open>None\<close> when the call returns nothing: \<open>stop_now\<close>, or a drop).
\<close>

datatype thread = Holding | Waiting | Publishing "drain_outcome option"

record gate_system =
  gs_gate :: gate
  gs_threads :: "thread multiset"
  gs_returned :: "drain_outcome list"

definition gate_start :: "gate_system \<Rightarrow> bool" where
  "gate_start s \<longleftrightarrow> s = \<lparr>gs_gate = gate_new, gs_threads = {#}, gs_returned = []\<rparr>"

definition returned :: "drain_outcome option \<Rightarrow> drain_outcome list" where
  "returned r = (case r of None \<Rightarrow> [] | Some x \<Rightarrow> [x])"

inductive gate_step :: "gate_system \<Rightarrow> gate_system \<Rightarrow> bool" where
  enter: "try_enter g = (True, g') \<Longrightarrow>
    gate_step \<lparr>gs_gate = g, gs_threads = T, gs_returned = R\<rparr>
      \<lparr>gs_gate = g', gs_threads = add_mset Holding T, gs_returned = R\<rparr>"
| refused: "try_enter g = (False, g') \<Longrightarrow>
    gate_step \<lparr>gs_gate = g, gs_threads = T, gs_returned = R\<rparr>
      \<lparr>gs_gate = g', gs_threads = T, gs_returned = R\<rparr>"
| drop: "drop_guard_locked g = (False, g') \<Longrightarrow>
    gate_step \<lparr>gs_gate = g, gs_threads = add_mset Holding T, gs_returned = R\<rparr>
      \<lparr>gs_gate = g', gs_threads = T, gs_returned = R\<rparr>"
| drop_last: "drop_guard_locked g = (True, g') \<Longrightarrow>
    gate_step \<lparr>gs_gate = g, gs_threads = add_mset Holding T, gs_returned = R\<rparr>
      \<lparr>gs_gate = g', gs_threads = add_mset (Publishing None) T, gs_returned = R\<rparr>"
| drain_returns: "begin_drain_locked g = (Some r, False, g') \<Longrightarrow>
    gate_step \<lparr>gs_gate = g, gs_threads = T, gs_returned = R\<rparr>
      \<lparr>gs_gate = g', gs_threads = T, gs_returned = r # R\<rparr>"
| drain_completes: "begin_drain_locked g = (Some r, True, g') \<Longrightarrow>
    gate_step \<lparr>gs_gate = g, gs_threads = T, gs_returned = R\<rparr>
      \<lparr>gs_gate = g', gs_threads = add_mset (Publishing (Some r)) T, gs_returned = R\<rparr>"
| drain_waits: "begin_drain_locked g = (None, False, g') \<Longrightarrow>
    gate_step \<lparr>gs_gate = g, gs_threads = T, gs_returned = R\<rparr>
      \<lparr>gs_gate = g', gs_threads = add_mset Waiting T, gs_returned = R\<rparr>"
| drain_woken: "stop_published g \<Longrightarrow>
    gate_step \<lparr>gs_gate = g, gs_threads = add_mset Waiting T, gs_returned = R\<rparr>
      \<lparr>gs_gate = g, gs_threads = T, gs_returned = terminal_outcome g # R\<rparr>"
| drain_timeout:
    "gate_step \<lparr>gs_gate = g, gs_threads = add_mset Waiting T, gs_returned = R\<rparr>
      \<lparr>gs_gate = stop_now_locked g, gs_threads = add_mset (Publishing (Some Forced)) T,
       gs_returned = R\<rparr>"
| drain_aborted:
    "gate_step \<lparr>gs_gate = g, gs_threads = add_mset Waiting T, gs_returned = R\<rparr>
      \<lparr>gs_gate = stop_now_locked g, gs_threads = add_mset (Publishing None) T, gs_returned = R\<rparr>"
| stop_now:
    "gate_step \<lparr>gs_gate = g, gs_threads = T, gs_returned = R\<rparr>
      \<lparr>gs_gate = stop_now_locked g, gs_threads = add_mset (Publishing None) T, gs_returned = R\<rparr>"
| publish:
    "gate_step \<lparr>gs_gate = g, gs_threads = add_mset (Publishing r) T, gs_returned = R\<rparr>
      \<lparr>gs_gate = cancel_stopped g, gs_threads = T, gs_returned = returned r @ R\<rparr>"

section \<open>The invariant\<close>

definition publishing :: "thread multiset \<Rightarrow> bool" where
  "publishing T \<longleftrightarrow> (\<exists>r. Publishing r \<in># T)"

text \<open>
  \<open>active\<close> counts the guards in existence; a stopped phase is final and about to be published;
  a draining gate has work in flight and a caller waiting for it; a graceful stop means no work.
\<close>

fun phase_inv :: "gate_phase \<Rightarrow> nat \<Rightarrow> bool \<Rightarrow> thread multiset \<Rightarrow> drain_outcome list \<Rightarrow> bool" where
  "phase_inv Accepting active published T R \<longleftrightarrow>
     \<not> published \<and> Waiting \<notin># T \<and> \<not> publishing T \<and> R = []"
| "phase_inv Draining active published T R \<longleftrightarrow>
     0 < active \<and> Waiting \<in># T \<and> \<not> published \<and> \<not> publishing T \<and> R = []"
| "phase_inv (Stopped Graceful) active published T R \<longleftrightarrow>
     active = 0 \<and> (published \<or> publishing T)"
| "phase_inv (Stopped Forced) active published T R \<longleftrightarrow>
     (published \<or> publishing T) \<and> Graceful \<notin> set R \<and> Publishing (Some Graceful) \<notin># T"

definition gate_inv :: "gate_system \<Rightarrow> bool" where
  "gate_inv s \<longleftrightarrow>
     gate_active (gs_gate s) = count (gs_threads s) Holding
     \<and> phase_inv (gate_phase (gs_gate s)) (gate_active (gs_gate s)) (stop_published (gs_gate s))
         (gs_threads s) (gs_returned s)"

section \<open>The critical sections, case by case\<close>

lemma try_enter_True:
  "try_enter g = (True, g') \<longleftrightarrow>
     gate_phase g = Accepting \<and> gate_active g < u64_max \<and> g' = g\<lparr>gate_active := gate_active g + 1\<rparr>"
  by (auto simp: try_enter_def checked_add64_def)

lemma try_enter_False:
  "try_enter g = (False, g') \<longleftrightarrow> (gate_phase g \<noteq> Accepting \<or> u64_max \<le> gate_active g) \<and> g' = g"
  by (auto simp: try_enter_def checked_add64_def)

lemma drop_guard_True:
  "drop_guard_locked g = (True, g') \<longleftrightarrow> gate_active g \<le> 1 \<and> gate_phase g = Draining
     \<and> g' = g\<lparr>gate_active := 0, gate_phase := Stopped Graceful\<rparr>"
  by (auto simp: drop_guard_locked_def Let_def)

lemma drop_guard_False:
  "drop_guard_locked g = (False, g') \<longleftrightarrow> (1 < gate_active g \<or> gate_phase g \<noteq> Draining)
     \<and> g' = g\<lparr>gate_active := gate_active g - 1\<rparr>"
  by (auto simp: drop_guard_locked_def Let_def)

lemma begin_drain_returns:
  "begin_drain_locked g = (Some r, False, g') \<longleftrightarrow> gate_phase g = Stopped r \<and> g' = g"
  by (auto simp: begin_drain_locked_def Let_def split: gate_phase.splits)

lemma begin_drain_completes:
  "begin_drain_locked g = (Some r, True, g') \<longleftrightarrow> (\<forall>x. gate_phase g \<noteq> Stopped x)
     \<and> gate_active g = 0 \<and> r = Graceful \<and> g' = g\<lparr>gate_phase := Stopped Graceful\<rparr>"
  by (auto simp: begin_drain_locked_def Let_def split: gate_phase.splits)

lemma begin_drain_waits:
  "begin_drain_locked g = (None, False, g') \<longleftrightarrow> (\<forall>x. gate_phase g \<noteq> Stopped x)
     \<and> 0 < gate_active g \<and> g' = g\<lparr>gate_phase := Draining\<rparr>"
  by (auto simp: begin_drain_locked_def Let_def split: gate_phase.splits)

lemmas gate_cases = try_enter_True try_enter_False drop_guard_True drop_guard_False
  begin_drain_returns begin_drain_completes begin_drain_waits

lemma stop_now_phase:
  "gate_phase (stop_now_locked g)
     = (case gate_phase g of Stopped r \<Rightarrow> Stopped r | _ \<Rightarrow> Stopped Forced)"
  "gate_active (stop_now_locked g) = gate_active g"
  "gate_stopped (stop_now_locked g) = gate_stopped g"
  by (auto simp: stop_now_locked_def split: gate_phase.splits)

lemma cancel_stopped_simps [simp]:
  "gate_phase (cancel_stopped g) = gate_phase g" "gate_active (cancel_stopped g) = gate_active g"
  "stop_published (cancel_stopped g)"
  by (simp_all add: cancel_stopped_def token_cancel_def)

section \<open>The invariant is inductive\<close>

lemma publishing_simps [simp]:
  "\<not> publishing {#}" "publishing (add_mset (Publishing r) T)"
  "publishing (add_mset Holding T) = publishing T" "publishing (add_mset Waiting T) = publishing T"
  by (auto simp: publishing_def)

lemma not_publishing_mem: "\<not> publishing T \<Longrightarrow> Publishing r \<notin># T"
  by (auto simp: publishing_def)

lemma phase_inv_stopped:
  "phase_inv (Stopped r) active published T R \<longleftrightarrow> (published \<or> publishing T)
     \<and> (r = Graceful \<longrightarrow> active = 0)
     \<and> (r = Forced \<longrightarrow> Graceful \<notin> set R \<and> Publishing (Some Graceful) \<notin># T)"
  by (cases r) auto

lemma gate_start_inv: "gate_start s \<Longrightarrow> gate_inv s"
  by (simp add: gate_start_def gate_inv_def gate_new_def token_new_def)

lemma gate_step_inv:
  assumes "gate_inv s" and "gate_step s t"
  shows "gate_inv t"
  using assms(2,1)
proof cases
  case (enter g g' T R)
  with assms(1) show ?thesis by (auto simp: gate_inv_def gate_cases)
next
  case (refused g g' T R)
  with assms(1) show ?thesis by (auto simp: gate_inv_def gate_cases)
next
  case (drop g g' T R)
  with assms(1) show ?thesis
    by (cases "gate_phase g") (auto simp: gate_inv_def gate_cases phase_inv_stopped)
next
  case (drop_last g g' T R)
  with assms(1) show ?thesis
    by (auto simp: gate_inv_def gate_cases phase_inv_stopped)
next
  case (drain_returns g r g' T R)
  with assms(1) show ?thesis by (auto simp: gate_inv_def gate_cases phase_inv_stopped)
next
  case (drain_completes g r g' T R)
  with assms(1) show ?thesis
    by (cases "gate_phase g") (auto simp: gate_inv_def gate_cases phase_inv_stopped)
next
  case (drain_waits g g' T R)
  with assms(1) show ?thesis
    by (cases "gate_phase g") (auto simp: gate_inv_def gate_cases phase_inv_stopped)
next
  case (drain_woken g T R)
  with assms(1) show ?thesis
    by (cases "gate_phase g") (auto simp: gate_inv_def terminal_outcome_def phase_inv_stopped)
next
  case (drain_timeout g T R)
  with assms(1) show ?thesis
    by (cases "gate_phase g")
      (auto simp: gate_inv_def stop_now_phase phase_inv_stopped dest: not_publishing_mem)
next
  case (drain_aborted g T R)
  with assms(1) show ?thesis
    by (cases "gate_phase g")
      (auto simp: gate_inv_def stop_now_phase phase_inv_stopped dest: not_publishing_mem)
next
  case (stop_now g T R)
  with assms(1) show ?thesis
    by (cases "gate_phase g")
      (auto simp: gate_inv_def stop_now_phase phase_inv_stopped dest: not_publishing_mem)
next
  case (publish g r T R)
  with assms(1) show ?thesis
    by (cases "gate_phase g"; cases r)
      (auto simp: gate_inv_def phase_inv_stopped returned_def)
qed

interpretation gate: step_invariant gate_start gate_step gate_inv
  by unfold_locales (fact gate_start_inv, fact gate_step_inv)

lemma gate_step_monotone:
  assumes "gate_step s t" and "gate_phase (gs_gate s) \<noteq> Accepting"
  shows "gate_phase (gs_gate t) \<noteq> Accepting
    \<and> count (gs_threads t) Holding \<le> count (gs_threads s) Holding
    \<and> (case gate_phase (gs_gate s) of Stopped r \<Rightarrow> gate_phase (gs_gate t) = Stopped r | _ \<Rightarrow> True)"
  using assms
  by cases (auto simp: gate_cases stop_now_phase split: gate_phase.splits)

section \<open>Properties\<close>

text \<open>
  C5: in every reachable state of the gate, whatever the interleaving of admissions, guard
  drops, drains with their timeouts and abortions, and forced stops: the active count is the
  number of guards in existence; a draining gate still has work and a caller that will end the
  drain, so it is never left non-accepting for good; a stopped phase is published on the stop
  token or about to be, and only a stopped phase is; and when a drain has returned \<open>Graceful\<close>
  no admitted work is left.
\<close>

theorem gate_reachable_invariant:
  assumes "gate_start s0" and "gate_step\<^sup>*\<^sup>* s0 s"
  shows "gate_active (gs_gate s) = count (gs_threads s) Holding
    \<and> (gate_phase (gs_gate s) = Draining
        \<longrightarrow> 0 < gate_active (gs_gate s) \<and> Waiting \<in># gs_threads s)
    \<and> (stop_published (gs_gate s) \<longrightarrow> (\<exists>r. gate_phase (gs_gate s) = Stopped r))
    \<and> ((\<exists>r. gate_phase (gs_gate s) = Stopped r)
        \<longrightarrow> stop_published (gs_gate s) \<or> publishing (gs_threads s))
    \<and> (Graceful \<in> set (gs_returned s)
        \<longrightarrow> gate_phase (gs_gate s) = Stopped Graceful \<and> count (gs_threads s) Holding = 0)"
  using gate.reachable_inv [OF assms]
  by (cases "gate_phase (gs_gate s)") (auto simp: gate_inv_def phase_inv_stopped
      intro: drain_outcome.exhaust)

abbreviation gate_at ::
  "gate_phase \<Rightarrow> nat \<Rightarrow> bool \<Rightarrow> thread multiset \<Rightarrow> drain_outcome list \<Rightarrow> gate_system"
where
  "gate_at p n b T R \<equiv>
     \<lparr>gs_gate = \<lparr>gate_phase = p, gate_active = n, gate_stopped = \<lparr>token_cancelled = b\<rparr>\<rparr>,
      gs_threads = T, gs_returned = R\<rparr>"

lemma gate_run:
  "gate_step\<^sup>*\<^sup>* (gate_at Accepting 0 False {#} [])
     (gate_at (Stopped Graceful) 0 True {#} [Graceful])"
proof -
  have "gate_step (gate_at Accepting 0 False {#} []) (gate_at Accepting 1 False {#Holding#} [])"
    by (rule gate_step.enter) (simp add: gate_cases u64_max_def)
  moreover have "gate_step (gate_at Accepting 1 False {#Holding#} [])
    (gate_at Draining 1 False {#Waiting, Holding#} [])"
    by (rule gate_step.drain_waits) (simp add: gate_cases)
  moreover have "gate_step (gate_at Draining 1 False (add_mset Holding {#Waiting#}) [])
    (gate_at (Stopped Graceful) 0 False (add_mset (Publishing None) {#Waiting#}) [])"
    by (rule gate_step.drop_last) (simp add: gate_cases)
  moreover have "gate_step (gate_at (Stopped Graceful) 0 False (add_mset (Publishing None) {#Waiting#}) [])
    (gate_at (Stopped Graceful) 0 True {#Waiting#} [])"
    using gate_step.publish [of "\<lparr>gate_phase = Stopped Graceful, gate_active = 0,
        gate_stopped = \<lparr>token_cancelled = False\<rparr>\<rparr>" None "{#Waiting#}" "[]"]
    by (simp add: cancel_stopped_def token_cancel_def returned_def)
  moreover have "gate_step (gate_at (Stopped Graceful) 0 True {#Waiting#} [])
    (gate_at (Stopped Graceful) 0 True {#} [Graceful])"
    using gate_step.drain_woken [of "\<lparr>gate_phase = Stopped Graceful, gate_active = 0,
        gate_stopped = \<lparr>token_cancelled = True\<rparr>\<rparr>" "{#}" "[]"]
    by (simp add: terminal_outcome_def)
  ultimately show ?thesis
    by (simp add: add_mset_commute)
qed

lemma gate_start_at: "gate_start (gate_at Accepting 0 False {#} [])"
  by (simp add: gate_start_def gate_new_def token_new_def)

theorem gate_reachable_invariant_witness:
  "\<exists>s. gate_step\<^sup>*\<^sup>* (gate_at Accepting 0 False {#} []) s \<and> Graceful \<in> set (gs_returned s)
    \<and> gate_phase (gs_gate s) = Stopped Graceful \<and> count (gs_threads s) Holding = 0"
  using gate_reachable_invariant [OF gate_start_at gate_run] gate_run
  by (intro exI [of _ "gate_at (Stopped Graceful) 0 True {#} [Graceful]"]) simp

text \<open>
  Shutdown is one-way. From a state that no longer accepts, no step ever admits work again,
  the number of guards only falls, and a stopped gate keeps its outcome for good.
\<close>

theorem gate_never_reopens:
  assumes "gate_step\<^sup>*\<^sup>* s t" and "gate_phase (gs_gate s) \<noteq> Accepting"
  shows "gate_phase (gs_gate t) \<noteq> Accepting
    \<and> count (gs_threads t) Holding \<le> count (gs_threads s) Holding
    \<and> (case gate_phase (gs_gate s) of Stopped r \<Rightarrow> gate_phase (gs_gate t) = Stopped r | _ \<Rightarrow> True)"
  using assms(1)
proof induction
  case (step t u)
  from step.IH gate_step_monotone [OF step.hyps(2)] show ?case
    by (auto split: gate_phase.splits)
qed (use assms(2) in \<open>auto split: gate_phase.splits\<close>)

theorem gate_never_reopens_witness:
  "gate_phase (gs_gate (gate_at (Stopped Graceful) 0 True {#} [Graceful])) = Stopped Graceful"
proof -
  have "gate_step (gate_at (Stopped Graceful) 0 True {#Waiting#} [])
    (gate_at (Stopped Graceful) 0 True {#} [Graceful])"
    using gate_step.drain_woken [of "\<lparr>gate_phase = Stopped Graceful, gate_active = 0,
        gate_stopped = \<lparr>token_cancelled = True\<rparr>\<rparr>" "{#}" "[]"]
    by (simp add: terminal_outcome_def)
  from gate_never_reopens [OF r_into_rtranclp [where r = gate_step, OF this]] show ?thesis by simp
qed

end
