(* ===== verification/Limiter.thy ===== *)
theory Limiter
  imports Prelude
begin

text \<open>
  The concurrency limiter that both engines use: \<open>Limiter\<close> and \<open>Permit\<close> of
  \<open>crates/impossible-voice-stt/src/lib.rs\<close> and of
  \<open>crates/impossible-voice-tts/src/lib.rs\<close>, the same code twice. The locale
  \<open>permit_pool\<close> states the contract of an atomic counter with a bound and proves what its
  clients rely on for any interleaving; \<open>Stt\<close> and \<open>Tts\<close> interpret it on their
  own operations.
\<close>

record limiter =
  lim_active :: nat
  lim_maximum :: nat

text \<open>\<open>fetch_update\<close> of the counter: one atomic step.\<close>

definition limiter_acquire :: "'e \<Rightarrow> limiter \<Rightarrow> ('e + unit) \<times> limiter" where
  "limiter_acquire busy l =
     (if lim_active l < lim_maximum l then (Inr (), l\<lparr>lim_active := lim_active l + 1\<rparr>)
      else (Inl busy, l))"

text \<open>\<open>fetch_sub(1)\<close> wraps around at zero.\<close>

definition limiter_release :: "limiter \<Rightarrow> limiter" where
  "limiter_release l = l\<lparr>lim_active := (lim_active l + u64_max) mod (u64_max + 1)\<rparr>"

lemma limiter_release_value:
  "0 < lim_active l \<Longrightarrow> lim_active l \<le> u64_max + 1 \<Longrightarrow>
     limiter_release l = l\<lparr>lim_active := lim_active l - 1\<rparr>"
proof -
  assume a: "0 < lim_active l" "lim_active l \<le> u64_max + 1"
  then have "lim_active l + u64_max = (lim_active l - 1) + (u64_max + 1)" by simp
  then have "(lim_active l + u64_max) mod (u64_max + 1) = (lim_active l - 1) mod (u64_max + 1)"
    by (metis mod_add_self2)
  with a show ?thesis by (simp add: limiter_release_def)
qed

text \<open>What a pool's clients do; a permit is dropped only by its holder.\<close>

datatype pool_op = PoolAcquire | PoolRelease

fun pool_step ::
  "('l \<Rightarrow> ('e + unit) \<times> 'l) \<Rightarrow> ('l \<Rightarrow> 'l) \<Rightarrow> 'l \<times> nat \<Rightarrow> pool_op \<Rightarrow> 'l \<times> nat"
where
  "pool_step acquire release (l, held) PoolAcquire =
     (case acquire l of
        (Inl _, l') \<Rightarrow> (l', held)
      | (Inr _, l') \<Rightarrow> (l', held + 1))"
| "pool_step acquire release (l, held) PoolRelease =
     (if held = 0 then (l, held) else (release l, held - 1))"

locale permit_pool =
  fixes acquire :: "'l \<Rightarrow> ('e + unit) \<times> 'l"
    and release :: "'l \<Rightarrow> 'l"
    and active :: "'l \<Rightarrow> nat"
    and maximum :: "'l \<Rightarrow> nat"
    and bounded :: "'l \<Rightarrow> bool"
  assumes acquire_free: "bounded l \<Longrightarrow> active l < maximum l \<Longrightarrow>
      \<exists>l'. acquire l = (Inr (), l') \<and> active l' = active l + 1 \<and> maximum l' = maximum l \<and> bounded l'"
    and acquire_full: "bounded l \<Longrightarrow> maximum l \<le> active l \<Longrightarrow> \<exists>e. acquire l = (Inl e, l)"
    and release_held: "bounded l \<Longrightarrow> 0 < active l \<Longrightarrow> active l \<le> maximum l \<Longrightarrow>
      active (release l) = active l - 1 \<and> maximum (release l) = maximum l \<and> bounded (release l)"
    and release_acquire: "bounded l \<Longrightarrow> active l < maximum l \<Longrightarrow> release (snd (acquire l)) = l"
begin

definition pool_inv :: "nat \<Rightarrow> 'l \<times> nat \<Rightarrow> bool" where
  "pool_inv m s \<longleftrightarrow> bounded (fst s) \<and> maximum (fst s) = m \<and> active (fst s) = snd s \<and> snd s \<le> m"

lemma pool_step_inv: "pool_inv m s \<Longrightarrow> pool_inv m (pool_step acquire release s op)"
proof (cases s; cases op)
  fix l held assume s: "s = (l, held)" and inv: "pool_inv m s"
  { assume op: "op = PoolAcquire"
    show ?thesis
    proof (cases "active l < maximum l")
      case True
      with acquire_free [of l] inv show ?thesis by (auto simp: s op pool_inv_def)
    next
      case False
      with acquire_full [of l] inv show ?thesis by (auto simp: s op pool_inv_def)
    qed }
  { assume op: "op = PoolRelease"
    from release_held [of l] inv show ?thesis by (auto simp: s op pool_inv_def) }
qed

lemma pool_run_inv:
  "pool_inv m s \<Longrightarrow> pool_inv m (foldl (pool_step acquire release) s ops)"
proof (induction ops arbitrary: s)
  case (Cons op ops)
  from Cons.IH [OF pool_step_inv [OF Cons.prems]] show ?case by simp
qed simp

text \<open>Never more permits than the maximum, and none lost or counted twice.\<close>

lemma pool_bounded:
  assumes "bounded l" and "active l = 0"
    and "foldl (pool_step acquire release) (l, 0) ops = (l', held)"
  shows "active l' = held \<and> held \<le> maximum l"
  using pool_run_inv [of "maximum l" "(l, 0)" ops] assms by (simp add: pool_inv_def)

end

definition limiter_bounded :: "limiter \<Rightarrow> bool" where
  "limiter_bounded l \<longleftrightarrow> lim_maximum l \<le> u64_max"

lemma limiter_acquire_free:
  "lim_active l < lim_maximum l \<Longrightarrow> limiter_acquire busy l = (Inr (), l\<lparr>lim_active := lim_active l + 1\<rparr>)"
  by (simp add: limiter_acquire_def)

lemma limiter_acquire_full:
  "lim_maximum l \<le> lim_active l \<Longrightarrow> limiter_acquire busy l = (Inl busy, l)"
  by (simp add: limiter_acquire_def)

interpretation limiter: permit_pool "limiter_acquire busy" limiter_release lim_active lim_maximum
    limiter_bounded
  for busy
proof unfold_locales
  fix l :: limiter
  assume b: "limiter_bounded l"
  show "lim_active l < lim_maximum l \<Longrightarrow> \<exists>l'. limiter_acquire busy l = (Inr (), l')
      \<and> lim_active l' = lim_active l + 1 \<and> lim_maximum l' = lim_maximum l \<and> limiter_bounded l'"
    using b by (simp add: limiter_acquire_free limiter_bounded_def)
  show "lim_maximum l \<le> lim_active l \<Longrightarrow> \<exists>e. limiter_acquire busy l = (Inl e, l)"
    by (simp add: limiter_acquire_full)
  show "0 < lim_active l \<Longrightarrow> lim_active l \<le> lim_maximum l \<Longrightarrow>
      lim_active (limiter_release l) = lim_active l - 1
      \<and> lim_maximum (limiter_release l) = lim_maximum l \<and> limiter_bounded (limiter_release l)"
    using b by (simp add: limiter_release_value limiter_bounded_def)
  show "lim_active l < lim_maximum l \<Longrightarrow> limiter_release (snd (limiter_acquire busy l)) = l"
    using b by (simp add: limiter_acquire_free limiter_release_value limiter_bounded_def)
qed

end
