(* ===== verification/Stt.thy ===== *)
theory Stt
  imports Resample Incremental Vad Core Limiter
begin

text \<open>
  \<open>crates/impossible-voice-stt/src/lib.rs\<close>: the speech-to-text engine. The native
  recognizer (behind the trait \<open>Backend\<close>), the cancellation flag and the clock are outside
  the code: they are the functions of a record \<open>stt_env\<close> acting on an arbitrary world
  \<open>'w\<close>, a recognizer stream being a value of an arbitrary type \<open>'st\<close>.
  Everything the code does between those calls is modelled: the order of checks, the permit, the
  decoder, the resampler, the 320-sample framing, voice activity, and what each error leaves behind.
\<close>

section \<open>Errors, limits, transcripts\<close>

datatype stt_error =
  SttInvalidInput | SttBusy | SttCancelled | SttDeadlineExceeded | SttAudio | SttEngine

definition engine_sample_rate :: nat where "engine_sample_rate = 16000"
definition vad_frame_samples :: nat where "vad_frame_samples = 320"

record stt_limits =
  sl_max_concurrent :: nat
  sl_max_chunk_bytes :: nat
  sl_audio :: audio_limits

definition stt_limits_default :: stt_limits where
  "stt_limits_default =
     \<lparr>sl_max_concurrent = 2, sl_max_chunk_bytes = 64 * 1024, sl_audio = audio_limits_default\<rparr>"

datatype transcript_kind = Interim | Final

record transcript =
  tr_kind :: transcript_kind
  tr_text :: string

section \<open>The environment\<close>

text \<open>
  \<open>env_check\<close> is one look at the request: the cancellation flag and the time now. The other
  functions are the methods of \<open>Backend\<close> and \<open>BackendStream\<close>, a failing call
  may have changed the stream; \<open>env_drop\<close> is the drop of a stream.
\<close>

record ('st, 'w) stt_env =
  env_check :: "'w \<Rightarrow> (bool \<times> nat) \<times> 'w"
  env_stream :: "'w \<Rightarrow> (stt_error + 'st) \<times> 'w"
  env_accept :: "'st \<Rightarrow> f32 list \<Rightarrow> 'w \<Rightarrow> (stt_error + unit) \<times> 'st \<times> 'w"
  env_interim :: "'st \<Rightarrow> 'w \<Rightarrow> (stt_error + string) \<times> 'w"
  env_finish :: "'st \<Rightarrow> 'w \<Rightarrow> (stt_error + string) \<times> 'st \<times> 'w"
  env_drop :: "'st \<Rightarrow> 'w \<Rightarrow> 'w"

definition stt_ensure_active ::
  "('st, 'w) stt_env \<Rightarrow> request_context \<Rightarrow> ('w, stt_error, unit) action"
where
  "stt_ensure_active env context w =
     (case env_check env w of
        ((cancelled, now), w') \<Rightarrow>
          (if cancelled then Inl SttCancelled
           else if remaining now context = Some 0 then Inl SttDeadlineExceeded
           else Inr (), w'))"

section \<open>The engine\<close>

record stt_engine =
  se_limits :: stt_limits
  se_vad :: vad_config

definition stt_with_backend ::
  "stt_limits \<Rightarrow> vad_config \<Rightarrow> stt_error + stt_engine \<times> limiter"
where
  "stt_with_backend limits vad =
     (if sl_max_concurrent limits = 0 \<or> sl_max_chunk_bytes limits = 0 then Inl SttInvalidInput
      else and_then (map_err (\<lambda>_. SttInvalidInput) (energy_vad_new vad engine_sample_rate)) (\<lambda>_.
        Inr (\<lparr>se_limits = limits, se_vad = vad\<rparr>,
             \<lparr>lim_active = 0, lim_maximum = sl_max_concurrent limits\<rparr>)))"

definition stt_acquire :: "limiter \<Rightarrow> (stt_error + unit) \<times> limiter" where
  "stt_acquire = limiter_acquire SttBusy"

text \<open>The part of \<open>transcribe\<close> that runs with the permit held.\<close>

definition stream_check ::
  "('st, 'w) stt_env \<Rightarrow> request_context \<Rightarrow> ('st \<times> 'w, stt_error, unit) action"
where
  "stream_check env context x =
     (case x of (stream, w) \<Rightarrow> case stt_ensure_active env context w of (r, w) \<Rightarrow> (r, stream, w))"

definition transcribe_stream ::
  "('st, 'w) stt_env \<Rightarrow> f32 list \<Rightarrow> request_context \<Rightarrow> ('st \<times> 'w, stt_error, string) action"
where
  "transcribe_stream env xs context =
     bind_st (\<lambda>(stream, w). env_accept env stream xs w) (\<lambda>_.
     bind_st (stream_check env context) (\<lambda>_.
     bind_st (\<lambda>(stream, w). env_finish env stream w) (\<lambda>words.
     bind_st (stream_check env context) (\<lambda>_. ret words))))"

text \<open>The stream is a local variable, dropped with every return.\<close>

definition transcribe_body ::
  "('st, 'w) stt_env \<Rightarrow> stt_engine \<Rightarrow> mono_pcm \<Rightarrow> request_context \<Rightarrow> ('w, stt_error, string) action"
where
  "transcribe_body env engine audio context =
     bind_st (lift_res (map_err (\<lambda>_. SttAudio) (validate_pcm (sl_audio (se_limits engine)) audio))) (\<lambda>_.
     bind_st (lift_res (map_err (\<lambda>_. SttAudio) (resample audio engine_sample_rate))) (\<lambda>converted.
     bind_st (env_stream env) (\<lambda>stream w.
       case transcribe_stream env (pcm_samples converted) context (stream, w) of
         (r, stream, w) \<Rightarrow> (r, env_drop env stream w))))"

text \<open>The permit is dropped when \<open>transcribe\<close> returns, whatever it returns.\<close>

definition stt_transcribe ::
  "('st, 'w) stt_env \<Rightarrow> stt_engine \<Rightarrow> mono_pcm \<Rightarrow> request_context \<Rightarrow>
    (limiter \<times> 'w, stt_error, string) action"
where
  "stt_transcribe env engine audio context s =
     (case s of (l, w) \<Rightarrow>
       (case stt_ensure_active env context w of
          (Inl e, w) \<Rightarrow> (Inl e, l, w)
        | (Inr _, w) \<Rightarrow>
            (case stt_acquire l of
               (Inl e, l) \<Rightarrow> (Inl e, l, w)
             | (Inr _, l) \<Rightarrow>
                 (case transcribe_body env engine audio context w of
                    (r, w) \<Rightarrow> (r, limiter_release l, w)))))"

section \<open>Streaming sessions\<close>

record ('st, 'w) session =
  ss_stream :: 'st
  ss_decoder :: incremental_pcm16
  ss_resampler :: streaming_resampler
  ss_vad :: energy_vad
  ss_context :: request_context
  ss_max_chunk_bytes :: nat
  ss_residual :: "f32 list"
  ss_last_interim :: string
  ss_last_final :: "string option"
  ss_has_audio :: bool
  ss_finished :: bool
  ss_world :: 'w

text \<open>On success the session owns the permit; otherwise it is dropped at once.\<close>

definition start_stream ::
  "('st, 'w) stt_env \<Rightarrow> stt_engine \<Rightarrow> nat \<Rightarrow> request_context \<Rightarrow>
    limiter \<times> 'w \<Rightarrow> (stt_error + ('st, 'w) session) \<times> limiter \<times> 'w"
where
  "start_stream env engine source context s =
     (case s of (l, w) \<Rightarrow>
       (case stt_ensure_active env context w of
          (Inl e, w) \<Rightarrow> (Inl e, l, w)
        | (Inr _, w) \<Rightarrow>
            (case stt_acquire l of
               (Inl e, l) \<Rightarrow> (Inl e, l, w)
             | (Inr _, l) \<Rightarrow>
                 (case env_stream env w of
                    (Inl e, w) \<Rightarrow> (Inl e, limiter_release l, w)
                  | (Inr stream, w) \<Rightarrow>
                      (case and_then (incremental_new source (sl_audio (se_limits engine))) (\<lambda>d.
                            and_then (streaming_resampler_new source engine_sample_rate) (\<lambda>r.
                            map_ok (\<lambda>v. (d, r, v)) (energy_vad_new (se_vad engine) engine_sample_rate))) of
                         Inl _ \<Rightarrow> (Inl SttAudio, limiter_release l, env_drop env stream w)
                       | Inr (d, r, v) \<Rightarrow>
                           (Inr \<lparr>ss_stream = stream, ss_decoder = d, ss_resampler = r, ss_vad = v,
                              ss_context = context,
                              ss_max_chunk_bytes = sl_max_chunk_bytes (se_limits engine),
                              ss_residual = [], ss_last_interim = [], ss_last_final = None,
                              ss_has_audio = False, ss_finished = False, ss_world = w\<rparr>, l, w))))))"

definition session_check :: "('st, 'w) stt_env \<Rightarrow> (('st, 'w) session, stt_error, unit) action" where
  "session_check env s =
     (case stt_ensure_active env (ss_context s) (ss_world s) of (r, w) \<Rightarrow> (r, s\<lparr>ss_world := w\<rparr>))"

definition session_accept ::
  "('st, 'w) stt_env \<Rightarrow> f32 list \<Rightarrow> (('st, 'w) session, stt_error, unit) action"
where
  "session_accept env xs s =
     (case env_accept env (ss_stream s) xs (ss_world s) of
        (r, st, w) \<Rightarrow> (r, s\<lparr>ss_stream := st, ss_world := w\<rparr>))"

definition session_finish_stream ::
  "('st, 'w) stt_env \<Rightarrow> (('st, 'w) session, stt_error, string) action"
where
  "session_finish_stream env s =
     (case env_finish env (ss_stream s) (ss_world s) of
        (r, st, w) \<Rightarrow> (r, s\<lparr>ss_stream := st, ss_world := w\<rparr>))"

definition session_interim ::
  "('st, 'w) stt_env \<Rightarrow> (('st, 'w) session, stt_error, string) action"
where
  "session_interim env s =
     (case env_interim env (ss_stream s) (ss_world s) of (r, w) \<Rightarrow> (r, s\<lparr>ss_world := w\<rparr>))"

text \<open>\<open>self.stream = self.backend.stream()?\<close>: the stream before is dropped once the new one is there.\<close>

definition session_new_stream ::
  "('st, 'w) stt_env \<Rightarrow> (('st, 'w) session, stt_error, unit) action"
where
  "session_new_stream env s =
     (case env_stream env (ss_world s) of
        (Inl e, w) \<Rightarrow> (Inl e, s\<lparr>ss_world := w\<rparr>)
      | (Inr st, w) \<Rightarrow> (Inr (), s\<lparr>ss_stream := st, ss_world := env_drop env (ss_stream s) w\<rparr>))"

definition session_vad :: "f32 list \<Rightarrow> (('st, 'w) session, stt_error, vad_event) action" where
  "session_vad frame s =
     (case vad_process (ss_vad s) frame of
        (r, v) \<Rightarrow> (map_err (\<lambda>_. SttAudio) r, s\<lparr>ss_vad := v\<rparr>))"

text \<open>The body of the loop over 320-sample frames: the updates it adds.\<close>

definition push_frame ::
  "('st, 'w) stt_env \<Rightarrow> f32 list \<Rightarrow> (('st, 'w) session, stt_error, transcript list) action"
where
  "push_frame env frame =
     bind_st (session_check env) (\<lambda>_.
     bind_st (session_accept env frame) (\<lambda>_.
     bind_st (update_st (ss_has_audio_update (\<lambda>_. True))) (\<lambda>_.
     bind_st (session_vad frame) (\<lambda>transition.
       if transition = VadEnded then
         bind_st (session_finish_stream env) (\<lambda>text.
         bind_st (session_check env) (\<lambda>_.
         bind_st (update_st (ss_last_final_update (\<lambda>_. Some text))) (\<lambda>_.
         bind_st (session_new_stream env) (\<lambda>_.
         bind_st (update_st (\<lambda>s. s\<lparr>ss_has_audio := False, ss_last_interim := []\<rparr>)) (\<lambda>_.
           ret [\<lparr>tr_kind = Final, tr_text = text\<rparr>])))))
       else
         bind_st (session_interim env) (\<lambda>text s.
           if text \<noteq> [] \<and> text \<noteq> ss_last_interim s
           then (Inr [\<lparr>tr_kind = Interim, tr_text = text\<rparr>], s\<lparr>ss_last_interim := text\<rparr>)
           else (Inr [], s))))))"

fun push_frames ::
  "('st, 'w) stt_env \<Rightarrow> f32 list list \<Rightarrow> (('st, 'w) session, stt_error, transcript list) action"
where
  "push_frames env [] = ret []"
| "push_frames env (f # fs) =
     bind_st (push_frame env f) (\<lambda>us. bind_st (push_frames env fs) (\<lambda>vs. ret (us @ vs)))"

definition session_decode :: "u8 list \<Rightarrow> (('st, 'w) session, stt_error, f32 list) action" where
  "session_decode bytes s =
     (case incremental_push (ss_decoder s) bytes of
        (r, d) \<Rightarrow> (map_err (\<lambda>_. SttAudio) r, s\<lparr>ss_decoder := d\<rparr>))"

definition session_resample :: "f32 list \<Rightarrow> (('st, 'w) session, stt_error, f32 list) action" where
  "session_resample xs s =
     (case resampler_push (ss_resampler s) xs of
        (r, d) \<Rightarrow> (map_err (\<lambda>_. SttAudio) r, s\<lparr>ss_resampler := d\<rparr>))"

text \<open>\<open>residual.drain(..complete)\<close>: the whole frames leave the residual before the loop.\<close>

definition drain_frames :: "(('st, 'w) session, stt_error, f32 list list) action" where
  "drain_frames s =
     (let complete = length (ss_residual s) div vad_frame_samples * vad_frame_samples
      in (Inr (chunks_exact vad_frame_samples (take complete (ss_residual s))),
          s\<lparr>ss_residual := drop complete (ss_residual s)\<rparr>))"

definition push_pcm16 ::
  "('st, 'w) stt_env \<Rightarrow> u8 list \<Rightarrow> (('st, 'w) session, stt_error, transcript list) action"
where
  "push_pcm16 env bytes s =
     (if ss_finished s \<or> bytes = [] \<or> length bytes > ss_max_chunk_bytes s
      then (Inl SttInvalidInput, s)
      else
        bind_st (session_check env) (\<lambda>_.
        bind_st (session_decode bytes) (\<lambda>decoded.
          if decoded = [] then ret []
          else
            bind_st (session_resample decoded) (\<lambda>converted.
            bind_st (update_st (\<lambda>s. s\<lparr>ss_residual := ss_residual s @ converted\<rparr>)) (\<lambda>_.
            bind_st drain_frames (\<lambda>frames.
            bind_st (push_frames env frames) (\<lambda>updates.
            bind_st (session_check env) (\<lambda>_. ret updates))))))) s)"

text \<open>\<open>finish\<close>: the residual short of a frame is accepted, then the text is taken.\<close>

definition finish_residual :: "('st, 'w) stt_env \<Rightarrow> (('st, 'w) session, stt_error, unit) action" where
  "finish_residual env s =
     (if ss_residual s = [] then (Inr (), s)
      else
        bind_st (session_accept env (ss_residual s)) (\<lambda>_.
        bind_st (update_st (ss_has_audio_update (\<lambda>_. True))) (\<lambda>_.
        bind_st (\<lambda>s. session_vad (ss_residual s) s) (\<lambda>_.
          update_st (ss_residual_update (\<lambda>_. []))))) s)"

definition finish_text :: "('st, 'w) stt_env \<Rightarrow> (('st, 'w) session, stt_error, string) action" where
  "finish_text env s =
     (if ss_has_audio s then session_finish_stream env s
      else (ok_or SttAudio (ss_last_final s), s\<lparr>ss_last_final := None\<rparr>))"

definition session_finish ::
  "('st, 'w) stt_env \<Rightarrow> (('st, 'w) session, stt_error, transcript) action"
where
  "session_finish env s =
     (if ss_finished s then (Inl SttInvalidInput, s)
      else
        bind_st (session_check env) (\<lambda>_.
        bind_st (\<lambda>s. (map_err (\<lambda>_. SttAudio) (incremental_finish (ss_decoder s)), s)) (\<lambda>_.
        bind_st (finish_residual env) (\<lambda>_.
        bind_st (update_st (ss_finished_update (\<lambda>_. True))) (\<lambda>_.
        bind_st (finish_text env) (\<lambda>words.
        bind_st (session_check env) (\<lambda>_.
          ret \<lparr>tr_kind = Final, tr_text = words\<rparr>)))))) s)"

section \<open>Permits\<close>

interpretation stt_pool: permit_pool stt_acquire limiter_release lim_active lim_maximum limiter_bounded
  unfolding stt_acquire_def by (rule limiter.permit_pool_axioms)

lemma stt_transcribe_permit:
  assumes "limiter_bounded l"
  shows "fst (snd (stt_transcribe env engine audio context (l, w))) = l"
proof -
  obtain r w1 where c: "stt_ensure_active env context w = (r, w1)" by fastforce
  show ?thesis
  proof (cases "lim_active l < lim_maximum l")
    case True
    then have "stt_acquire l = (Inr (), l\<lparr>lim_active := lim_active l + 1\<rparr>)"
      by (simp add: stt_acquire_def limiter_acquire_free)
    moreover from this have "limiter_release (l\<lparr>lim_active := lim_active l + 1\<rparr>) = l"
      using stt_pool.release_acquire [OF assms True] by simp
    ultimately show ?thesis
      by (simp add: stt_transcribe_def c split: sum.split prod.split)
  next
    case False
    then have "stt_acquire l = (Inl SttBusy, l)" by (simp add: stt_acquire_def limiter_acquire_full)
    then show ?thesis by (simp add: stt_transcribe_def c split: sum.split prod.split)
  qed
qed

section \<open>What reaches the recognizer\<close>

text \<open>
  An environment that records, by a function \<open>fed\<close> of its world, the samples accepted so far.
\<close>

definition recording :: "('st, 'w) stt_env \<Rightarrow> ('w \<Rightarrow> f32 list) \<Rightarrow> bool" where
  "recording env fed \<longleftrightarrow>
     (\<forall>w. fed (snd (env_check env w)) = fed w) \<and> (\<forall>w. fed (snd (env_stream env w)) = fed w)
     \<and> (\<forall>st w. fed (snd (env_interim env st w)) = fed w)
     \<and> (\<forall>st w. fed (snd (snd (env_finish env st w))) = fed w)
     \<and> (\<forall>st w. fed (env_drop env st w) = fed w)
     \<and> (\<forall>st xs w u st' w'. env_accept env st xs w = (Inr u, st', w') \<longrightarrow> fed w' = fed w @ xs)"

lemma recording_world:
  "recording env fed \<Longrightarrow> stt_ensure_active env context w = (r, w') \<Longrightarrow> fed w' = fed w"
  "recording env fed \<Longrightarrow> env_stream env w = (q, w') \<Longrightarrow> fed w' = fed w"
  by (auto simp: stt_ensure_active_def recording_def split: prod.splits) (metis snd_conv)+

definition session_core where
  "session_core s = (ss_decoder s, ss_resampler s, ss_residual s, ss_context s,
     ss_max_chunk_bytes s, ss_finished s)"

definition session_fed :: "('w \<Rightarrow> f32 list) \<Rightarrow> ('st, 'w) session \<Rightarrow> f32 list" where
  "session_fed fed s = fed (ss_world s)"

lemma session_core_simps [simp]:
  "session_core (s\<lparr>ss_world := w\<rparr>) = session_core s" "session_core (s\<lparr>ss_stream := st\<rparr>) = session_core s"
  "session_core (s\<lparr>ss_vad := v\<rparr>) = session_core s" "session_core (s\<lparr>ss_has_audio := b\<rparr>) = session_core s"
  "session_core (s\<lparr>ss_last_interim := t\<rparr>) = session_core s"
  "session_core (s\<lparr>ss_last_final := x\<rparr>) = session_core s"
  by (simp_all add: session_core_def)

lemma recording_check:
  "recording env fed \<Longrightarrow> session_check env s = (r, t) \<Longrightarrow>
     session_core t = session_core s \<and> session_fed fed t = session_fed fed s"
  by (auto simp: session_check_def stt_ensure_active_def recording_def session_fed_def
      split: prod.splits if_splits dest: spec) (metis snd_conv)+

lemma recording_accept:
  "recording env fed \<Longrightarrow> session_accept env xs s = (Inr u, t) \<Longrightarrow>
     session_core t = session_core s \<and> session_fed fed t = session_fed fed s @ xs"
  by (auto simp: session_accept_def recording_def session_fed_def split: prod.splits)

lemma recording_finish_stream:
  "recording env fed \<Longrightarrow> session_finish_stream env s = (r, t) \<Longrightarrow>
     session_core t = session_core s \<and> session_fed fed t = session_fed fed s"
  by (auto simp: session_finish_stream_def recording_def session_fed_def split: prod.splits)
    (metis snd_conv)

lemma recording_interim:
  "recording env fed \<Longrightarrow> session_interim env s = (r, t) \<Longrightarrow>
     session_core t = session_core s \<and> session_fed fed t = session_fed fed s"
  by (auto simp: session_interim_def recording_def session_fed_def split: prod.splits)
    (metis snd_conv)

lemma recording_new_stream:
  "recording env fed \<Longrightarrow> session_new_stream env s = (r, t) \<Longrightarrow>
     session_core t = session_core s \<and> session_fed fed t = session_fed fed s"
  by (auto simp: session_new_stream_def recording_def session_fed_def split: prod.splits sum.splits)
    (metis snd_conv)+

lemma recording_vad:
  "session_vad xs s = (r, t) \<Longrightarrow> session_core t = session_core s \<and> session_fed fed t = session_fed fed s"
  by (auto simp: session_vad_def session_fed_def split: prod.splits)

lemmas recording_ops = recording_check recording_finish_stream recording_interim recording_new_stream

lemma session_fed_simps [simp]:
  "session_fed fed (s\<lparr>ss_has_audio := b\<rparr>) = session_fed fed s"
  "session_fed fed (s\<lparr>ss_last_interim := t\<rparr>) = session_fed fed s"
  "session_fed fed (s\<lparr>ss_last_final := x\<rparr>) = session_fed fed s"
  "session_fed fed (s\<lparr>ss_residual := xs\<rparr>) = session_fed fed s"
  "session_fed fed (s\<lparr>ss_decoder := d\<rparr>) = session_fed fed s"
  "session_fed fed (s\<lparr>ss_resampler := e\<rparr>) = session_fed fed s"
  "session_fed fed (s\<lparr>ss_finished := b\<rparr>) = session_fed fed s"
  by (simp_all add: session_fed_def)

lemma recording_push_frame:
  assumes r: "recording env fed" and p: "push_frame env f s = (Inr us, t)"
  shows "session_core t = session_core s \<and> session_fed fed t = session_fed fed s @ f"
  using p unfolding push_frame_def
  by (auto simp: res_simps split: if_splits dest!: recording_ops [OF r] recording_accept [OF r]
      recording_vad [where fed = fed])

lemma recording_push_frames:
  assumes r: "recording env fed" and "push_frames env fs s = (Inr us, t)"
  shows "session_core t = session_core s \<and> session_fed fed t = session_fed fed s @ concat fs"
  using assms(2)
proof (induction fs arbitrary: s us)
  case (Cons f fs)
  from Cons.prems obtain us1 u us2 where
    "push_frame env f s = (Inr us1, u)" "push_frames env fs u = (Inr us2, t)"
    by (auto simp: res_simps)
  with recording_push_frame [OF r] Cons.IH show ?case by fastforce
qed simp

text \<open>
  The bytes \<open>bs\<close> consumed so far: what has been fed, followed by the residual short of a frame,
  is the resampled recording.
\<close>

definition session_inv ::
  "nat \<Rightarrow> audio_limits \<Rightarrow> ('w \<Rightarrow> f32 list) \<Rightarrow> u8 list \<Rightarrow> ('st, 'w) session \<Rightarrow> bool"
where
  "session_inv source limits fed bs s \<longleftrightarrow>
     ss_decoder s = inc_state source limits bs \<and> inc_admissible source limits bs
     \<and> resampler_rep source engine_sample_rate (decode_pairs bs) (ss_resampler s)
     \<and> session_fed fed s @ ss_residual s = resampled source engine_sample_rate (decode_pairs bs)
     \<and> length (ss_residual s) < vad_frame_samples"

text \<open>Limits under which no sample position comes near \<open>2^64\<close>; the default is 32 MiB.\<close>

definition stream_bounded :: "audio_limits \<Rightarrow> bool" where
  "stream_bounded limits \<longleftrightarrow> max_encoded_bytes limits * 48000 < u64_max"

lemma inc_admissible_resample:
  assumes "stream_bounded limits" and "inc_admissible rate limits bs"
  shows "resample_admissible (decode_pairs bs)"
proof -
  have "length bs \<le> max_encoded_bytes limits"
    using assms(2) by (simp add: inc_admissible_def admit_Inr_iff)
  then have "length (decode_pairs bs) \<le> max_encoded_bytes limits"
    by (simp add: length_decode_pairs)
  then have "length (decode_pairs bs) * 48000 \<le> max_encoded_bytes limits * 48000"
    by (rule mult_le_mono1)
  with assms(1) show ?thesis by (simp add: resample_admissible_def stream_bounded_def)
qed

lemma session_core_iff:
  "session_core t = session_core s \<longleftrightarrow> ss_decoder t = ss_decoder s \<and> ss_resampler t = ss_resampler s
     \<and> ss_residual t = ss_residual s \<and> ss_context t = ss_context s
     \<and> ss_max_chunk_bytes t = ss_max_chunk_bytes s \<and> ss_finished t = ss_finished s"
  by (auto simp: session_core_def)

lemma session_decode_inv:
  assumes "session_inv source limits fed bs s" and "session_decode bytes s = (Inr out, t)"
  shows "inc_admissible source limits (bs @ bytes)
    \<and> t = s\<lparr>ss_decoder := inc_state source limits (bs @ bytes)\<rparr>
    \<and> decode_pairs (bs @ bytes) = decode_pairs bs @ out"
  using assms incremental_push_Inr [of bs source limits bytes]
  by (auto simp: session_decode_def session_inv_def inc_admissible_def res_simps split: prod.splits)

lemma session_resample_inv:
  assumes "stream_bounded limits" and "session_inv source limits fed bs s"
    and "inc_admissible source limits (bs @ bytes)"
    and d: "decode_pairs (bs @ bytes) = decode_pairs bs @ out" and "out \<noteq> []"
    and "session_resample out (s\<lparr>ss_decoder := d'\<rparr>) = (r, t)"
  shows "\<exists>conv e. r = Inr conv \<and> t = s\<lparr>ss_decoder := d', ss_resampler := e\<rparr>
    \<and> resampler_rep source engine_sample_rate (decode_pairs (bs @ bytes)) e
    \<and> resampled source engine_sample_rate (decode_pairs (bs @ bytes))
        = resampled source engine_sample_rate (decode_pairs bs) @ conv"
proof -
  have "\<forall>x\<in>set (decode_pairs (bs @ bytes)). valid_sample x" using valid_decode_pairs by blast
  with assms(5) d have good: "resampler_good out" by (simp add: resampler_good_def)
  have adm: "resample_admissible (decode_pairs bs @ out)"
    using inc_admissible_resample [OF assms(1,3)] d by simp
  have rep: "resampler_rep source engine_sample_rate (decode_pairs bs) (ss_resampler s)"
    using assms(2) by (simp add: session_inv_def)
  from resampler_push_spec [OF rep good adm] obtain conv e where
    "resampler_push (ss_resampler s) out = (Inr conv, e)"
    "resampler_rep source engine_sample_rate (decode_pairs bs @ out) e"
    "resampled source engine_sample_rate (decode_pairs bs @ out)
      = resampled source engine_sample_rate (decode_pairs bs) @ conv" by blast
  with assms(6) d show ?thesis
    by (intro exI [of _ conv] exI [of _ e]) (auto simp: session_resample_def)
qed

lemma drain_frames_inv:
  assumes "drain_frames s = (Inr frames, t)"
  shows "concat frames @ ss_residual t = ss_residual s \<and> length (ss_residual t) < vad_frame_samples
    \<and> ss_decoder t = ss_decoder s \<and> ss_resampler t = ss_resampler s \<and> ss_context t = ss_context s
    \<and> ss_max_chunk_bytes t = ss_max_chunk_bytes s \<and> ss_finished t = ss_finished s
    \<and> ss_world t = ss_world s"
  using assms mod_less_divisor [of vad_frame_samples "length (ss_residual s)"]
  by (auto simp: drain_frames_def Let_def concat_chunks_exact vad_frame_samples_def
      minus_div_mult_eq_mod min_def)

lemma push_pcm16_inv:
  assumes r: "recording env fed" and b: "stream_bounded limits"
    and inv: "session_inv source limits fed bs s" and p: "push_pcm16 env bytes s = (Inr us, t)"
  shows "session_inv source limits fed (bs @ bytes) t
    \<and> session_core t = (ss_decoder t, ss_resampler t, ss_residual t, ss_context s,
        ss_max_chunk_bytes s, ss_finished s)"
proof -
  from p obtain s1 s2 out where
    1: "session_check env s = (Inr (), s1)" "session_decode bytes s1 = (Inr out, s2)"
    and rest: "(if out = [] then ret []
          else
            bind_st (session_resample out) (\<lambda>converted.
            bind_st (update_st (\<lambda>s. s\<lparr>ss_residual := ss_residual s @ converted\<rparr>)) (\<lambda>_.
            bind_st drain_frames (\<lambda>frames.
            bind_st (push_frames env frames) (\<lambda>updates.
            bind_st (session_check env) (\<lambda>_. ret updates)))))) s2 = (Inr us, t)"
    by (auto simp: push_pcm16_def res_simps split: if_splits)
  note c1 = recording_check [OF r 1(1)]
  have inv1: "session_inv source limits fed bs s1"
    using inv c1 by (simp add: session_inv_def session_core_iff)
  note dec = session_decode_inv [OF inv1 1(2)]
  show ?thesis
  proof (cases "out = []")
    case True
    with rest have "t = s2" by simp
    with True dec inv1 c1 show ?thesis by (simp add: session_inv_def session_core_iff session_core_def)
  next
    case False
    with rest obtain conv s3 frames s4 s5 where
      3: "session_resample out s2 = (Inr conv, s3)"
      and 4: "drain_frames (s3\<lparr>ss_residual := ss_residual s3 @ conv\<rparr>) = (Inr frames, s4)"
      and 5: "push_frames env frames s4 = (Inr us, s5)"
      and 6: "session_check env s5 = (Inr (), t)"
      by (auto simp: res_simps)
    have conv3: "session_resample out (s1\<lparr>ss_decoder := inc_state source limits (bs @ bytes)\<rparr>) = (Inr conv, s3)"
      using 3 dec by simp
    have adm: "inc_admissible source limits (bs @ bytes)"
      and d: "decode_pairs (bs @ bytes) = decode_pairs bs @ out" using dec by simp_all
    from session_resample_inv [OF b inv1 adm d False conv3] obtain e where
      s3: "s3 = s1\<lparr>ss_decoder := inc_state source limits (bs @ bytes), ss_resampler := e\<rparr>"
      and e: "resampler_rep source engine_sample_rate (decode_pairs (bs @ bytes)) e"
      and out: "resampled source engine_sample_rate (decode_pairs (bs @ bytes))
        = resampled source engine_sample_rate (decode_pairs bs) @ conv" by auto
    note dr = drain_frames_inv [OF 4]
    note pf = recording_push_frames [OF r 5] and c6 = recording_check [OF r 6]
    have fed4: "session_fed fed s4 = session_fed fed s1"
      using dr s3 by (simp add: session_fed_def)
    have res: "ss_residual t = ss_residual s4" "ss_decoder t = inc_state source limits (bs @ bytes)"
      "ss_resampler t = e"
      using pf c6 dr s3 by (simp_all add: session_core_iff)
    have "session_fed fed t @ ss_residual t = session_fed fed s1 @ concat frames @ ss_residual s4"
      using pf c6 fed4 res by simp
    also have "\<dots> = session_fed fed s1 @ ss_residual s1 @ conv" using dr s3 by simp
    also have "\<dots> = resampled source engine_sample_rate (decode_pairs (bs @ bytes))"
      using inv1 out by (simp add: session_inv_def)
    finally have "session_inv source limits fed (bs @ bytes) t"
      using res e adm dr by (simp add: session_inv_def)
    moreover have "ss_context t = ss_context s" "ss_max_chunk_bytes t = ss_max_chunk_bytes s"
      "ss_finished t = ss_finished s"
      using pf c6 c1 dr s3 by (auto simp: session_core_iff)
    ultimately show ?thesis by (simp add: session_core_def)
  qed
qed

lemma finish_residual_fed:
  assumes r: "recording env fed" and "finish_residual env s = (Inr u, t)"
  shows "session_fed fed t = session_fed fed s @ ss_residual s"
  using assms(2) unfolding finish_residual_def
  by (auto simp: res_simps split: if_splits dest!: recording_accept [OF r]
      recording_vad [where fed = fed])

lemma finish_text_fed:
  "recording env fed \<Longrightarrow> finish_text env s = (r, t) \<Longrightarrow> session_fed fed t = session_fed fed s"
  by (auto simp: finish_text_def split: if_splits dest: recording_finish_stream)

lemma session_finish_fed:
  assumes r: "recording env fed" and inv: "session_inv source limits fed bs s"
    and p: "session_finish env s = (Inr t, u)"
  shows "session_fed fed u = resampled source engine_sample_rate (decode_pairs bs)
    \<and> (\<exists>a. incremental_finish (inc_state source limits bs) = Inr a)"
proof -
  from p obtain s1 a s2 s3 words where
    1: "session_check env s = (Inr (), s1)" and 2: "incremental_finish (ss_decoder s1) = Inr a"
    and 3: "finish_residual env s1 = (Inr (), s2)"
    and 4: "finish_text env (s2\<lparr>ss_finished := True\<rparr>) = (Inr words, s3)"
    and 5: "session_check env s3 = (Inr (), u)"
    by (auto simp: session_finish_def res_simps split: if_splits)
  note c1 = recording_check [OF r 1]
  have "session_fed fed u = session_fed fed s @ ss_residual s"
    using c1 finish_residual_fed [OF r 3] finish_text_fed [OF r 4] recording_check [OF r 5]
    by (simp add: session_core_iff)
  then show ?thesis using inv 2 c1 by (auto simp: session_inv_def session_core_iff)
qed

section \<open>A cooperative environment makes progress\<close>

text \<open>
  What the engine hands to a recognizer stream at once: at most a frame, not empty, all finite.
\<close>

definition frame_ok :: "f32 list \<Rightarrow> bool" where
  "frame_ok xs \<longleftrightarrow> xs \<noteq> [] \<and> length xs \<le> vad_frame_samples \<and> (\<forall>x\<in>set xs. is_finite x)"

text \<open>
  The request is never stopped, a new stream is ready, and a ready stream takes such frames, stays
  ready, and gives its interim and its final text. Nothing is said of a stream that has finished.
\<close>

definition env_total :: "('st, 'w) stt_env \<Rightarrow> request_context \<Rightarrow> ('st \<Rightarrow> bool) \<Rightarrow> bool" where
  "env_total env context ready \<longleftrightarrow>
     (\<forall>w. \<exists>w'. stt_ensure_active env context w = (Inr (), w'))
     \<and> (\<forall>w. \<exists>st w'. env_stream env w = (Inr st, w') \<and> ready st)
     \<and> (\<forall>st xs w. ready st \<and> frame_ok xs \<longrightarrow>
          (\<exists>st' w'. env_accept env st xs w = (Inr (), st', w') \<and> ready st'))
     \<and> (\<forall>st w. ready st \<longrightarrow> (\<exists>t w'. env_interim env st w = (Inr t, w')))
     \<and> (\<forall>st w. ready st \<longrightarrow> (\<exists>t st' w'. env_finish env st w = (Inr t, st', w')))"

definition heard :: "('st, 'w) session \<Rightarrow> bool" where
  "heard s \<longleftrightarrow> ss_has_audio s \<or> ss_last_final s \<noteq> None"

text \<open>A session of the request that is not stopped, between two calls: its stream is ready.\<close>

definition going :: "request_context \<Rightarrow> ('st \<Rightarrow> bool) \<Rightarrow> ('st, 'w) session \<Rightarrow> bool" where
  "going context ready s \<longleftrightarrow> ss_context s = context \<and> ready (ss_stream s)"

lemma total_ops:
  assumes "env_total env context ready"
  shows "ss_context s = context \<Longrightarrow> \<exists>w. session_check env s = (Inr (), s\<lparr>ss_world := w\<rparr>)"
    and "going context ready s \<Longrightarrow> frame_ok xs \<Longrightarrow>
      \<exists>st w. session_accept env xs s = (Inr (), s\<lparr>ss_stream := st, ss_world := w\<rparr>) \<and> ready st"
    and "going context ready s \<Longrightarrow>
      \<exists>t st w. session_finish_stream env s = (Inr t, s\<lparr>ss_stream := st, ss_world := w\<rparr>)"
    and "going context ready s \<Longrightarrow> \<exists>t w. session_interim env s = (Inr t, s\<lparr>ss_world := w\<rparr>)"
    and "\<exists>st w. session_new_stream env s = (Inr (), s\<lparr>ss_stream := st, ss_world := w\<rparr>) \<and> ready st"
proof -
  show "ss_context s = context \<Longrightarrow> \<exists>w. session_check env s = (Inr (), s\<lparr>ss_world := w\<rparr>)"
  proof -
    assume "ss_context s = context"
    moreover obtain w where "stt_ensure_active env context (ss_world s) = (Inr (), w)"
      using assms unfolding env_total_def by blast
    ultimately show ?thesis by (auto simp: session_check_def)
  qed
  show "\<exists>st w. session_accept env xs s = (Inr (), s\<lparr>ss_stream := st, ss_world := w\<rparr>) \<and> ready st"
    if g: "going context ready s" and f: "frame_ok xs"
  proof -
    obtain st w where "env_accept env (ss_stream s) xs (ss_world s) = (Inr (), st, w)" "ready st"
      using assms g f unfolding env_total_def going_def by blast
    then show ?thesis by (auto simp: session_accept_def)
  qed
  show "\<exists>t st w. session_finish_stream env s = (Inr t, s\<lparr>ss_stream := st, ss_world := w\<rparr>)"
    if g: "going context ready s"
  proof -
    obtain t st' w' where "env_finish env (ss_stream s) (ss_world s) = (Inr t, st', w')"
      using assms g unfolding env_total_def going_def by blast
    then show ?thesis by (auto simp: session_finish_stream_def)
  qed
  show "\<exists>t w. session_interim env s = (Inr t, s\<lparr>ss_world := w\<rparr>)" if g: "going context ready s"
  proof -
    obtain t w' where "env_interim env (ss_stream s) (ss_world s) = (Inr t, w')"
      using assms g unfolding env_total_def going_def by blast
    then show ?thesis by (auto simp: session_interim_def)
  qed
  obtain st' w' where "env_stream env (ss_world s) = (Inr st', w')" "ready st'"
    using assms unfolding env_total_def by blast
  then show "\<exists>st w. session_new_stream env s = (Inr (), s\<lparr>ss_stream := st, ss_world := w\<rparr>) \<and> ready st"
    by (auto simp: session_new_stream_def)
qed

lemma frame_ok_vad: "frame_ok f \<Longrightarrow> vad_frame_ok f"
  by (auto simp: frame_ok_def vad_frame_ok_def vad_frame_samples_def u32_max_def)

lemma session_vad_ok:
  "vad_frame_ok f \<Longrightarrow> \<exists>e v. session_vad f s = (Inr e, s\<lparr>ss_vad := v\<rparr>)"
  by (auto simp: session_vad_def vad_process_step map_prod_def split: prod.split)

lemma push_frame_total:
  assumes t: "env_total env context ready" and c: "going context ready s" and f: "frame_ok f"
  shows "\<exists>us u. push_frame env f s = (Inr us, u) \<and> going context ready u \<and> heard u"
proof -
  obtain w1 where 1: "session_check env s = (Inr (), s\<lparr>ss_world := w1\<rparr>)"
    using total_ops(1) [OF t] c by (auto simp: going_def)
  define s1 where "s1 = s\<lparr>ss_world := w1\<rparr>"
  have "going context ready s1" using c by (simp add: s1_def going_def)
  then obtain st w2 where 2: "session_accept env f s1 = (Inr (), s1\<lparr>ss_stream := st, ss_world := w2\<rparr>)"
    and st: "ready st"
    using total_ops(2) [OF t _ f] by blast
  define s2 where "s2 = s1\<lparr>ss_stream := st, ss_world := w2, ss_has_audio := True\<rparr>"
  obtain e v where 3: "session_vad f s2 = (Inr e, s2\<lparr>ss_vad := v\<rparr>)"
    using session_vad_ok [OF frame_ok_vad [OF f]] by blast
  define s3 where "s3 = s2\<lparr>ss_vad := v\<rparr>"
  have c3: "going context ready s3" "ss_has_audio s3" by (use c st in \<open>simp_all add: s3_def s2_def s1_def going_def\<close>)
  note pre = 1 [folded s1_def] 2 s2_def [symmetric] 3 [folded s3_def]
  show ?thesis
  proof (cases "e = VadEnded")
    case True
    obtain words st4 w4 where
      4: "session_finish_stream env s3 = (Inr words, s3\<lparr>ss_stream := st4, ss_world := w4\<rparr>)"
      using total_ops(3) [OF t c3(1)] by blast
    define s4 where "s4 = s3\<lparr>ss_stream := st4, ss_world := w4\<rparr>"
    have "ss_context s4 = context" using c3 by (simp add: s4_def going_def)
    then obtain w5 where 5: "session_check env s4 = (Inr (), s4\<lparr>ss_world := w5\<rparr>)"
      using total_ops(1) [OF t] by blast
    obtain st6 w6 where 6: "session_new_stream env (s4\<lparr>ss_world := w5, ss_last_final := Some words\<rparr>)
      = (Inr (), s4\<lparr>ss_world := w5, ss_last_final := Some words, ss_stream := st6, ss_world := w6\<rparr>)"
      and st6: "ready st6"
      using total_ops(5) [OF t] by blast
    show ?thesis
      by (simp add: push_frame_def pre True 4 [folded s4_def] 5 6 heard_def)
        (use c3 st6 in \<open>simp add: s4_def going_def\<close>)
  next
    case False
    obtain words w4 where 4: "session_interim env s3 = (Inr words, s3\<lparr>ss_world := w4\<rparr>)"
      using total_ops(4) [OF t c3(1)] by blast
    show ?thesis using c3 by (simp add: push_frame_def pre False 4 heard_def going_def)
  qed
qed

lemma push_frames_total:
  assumes t: "env_total env context ready" and "going context ready s" and "\<forall>f\<in>set fs. frame_ok f"
    and "fs \<noteq> [] \<or> heard s"
  shows "\<exists>us u. push_frames env fs s = (Inr us, u) \<and> going context ready u \<and> heard u"
  using assms(2-4)
proof (induction fs arbitrary: s)
  case (Cons f fs)
  from push_frame_total [OF t Cons.prems(1), of f] Cons.prems(2) obtain us u where
    1: "push_frame env f s = (Inr us, u)" "going context ready u" "heard u" by auto
  from Cons.IH [OF 1(2)] Cons.prems(2) 1(3) obtain vs v where
    "push_frames env fs u = (Inr vs, v)" "going context ready v" "heard v" by auto
  with 1 show ?case by simp
qed simp

lemma chunks_exact_subset: "c \<in> set (chunks_exact n xs) \<Longrightarrow> set c \<subseteq> set xs"
  by (induction n xs rule: chunks_exact.induct)
    (subst (asm) chunks_exact.simps, auto split: if_splits dest: in_set_takeD in_set_dropD)

lemma drain_frames_ok:
  assumes "drain_frames s = (r, t)" and "\<forall>x\<in>set (ss_residual s). is_finite x"
  shows "\<exists>frames. r = Inr frames \<and> (\<forall>f\<in>set frames. frame_ok f) \<and> (going context ready t \<longleftrightarrow> going context ready s)
    \<and> (heard t \<longleftrightarrow> heard s) \<and> session_fed fed t = session_fed fed s"
proof -
  have "frame_ok f" if f: "f \<in> set (chunks_exact vad_frame_samples (take n (ss_residual s)))" for f n
  proof -
    have "set f \<subseteq> set (ss_residual s)"
      using chunks_exact_subset [OF f] by (auto dest: in_set_takeD)
    moreover have "length f = vad_frame_samples" using f by (rule chunks_exact_length)
    ultimately show ?thesis
      using assms(2) by (auto simp: frame_ok_def vad_frame_samples_def)
  qed
  with assms(1) show ?thesis by (auto simp: drain_frames_def Let_def heard_def session_fed_def going_def)
qed

lemma session_decode_ok:
  assumes "session_inv source limits fed bs s" and "inc_admissible source limits (bs @ bytes)"
  shows "\<exists>out. session_decode bytes s
      = (Inr out, s\<lparr>ss_decoder := inc_state source limits (bs @ bytes)\<rparr>)
    \<and> decode_pairs (bs @ bytes) = decode_pairs bs @ out"
  using incremental_push_admitted [OF assms(2)] assms(1)
  by (auto simp: session_decode_def session_inv_def)

lemma resampled_finite:
  assumes "source \<in> set supported_sample_rates" and "target \<in> set supported_sample_rates"
  shows "\<forall>x\<in>set (resampled source target (decode_pairs bs)). is_finite x"
  using resampled_f32_sample [OF assms decode_pairs_f32_sample]
  by (auto simp: f32_sample_def valid_sample_def)

lemma push_pcm16_total:
  assumes t: "env_total env context ready" and r: "recording env fed" and b: "stream_bounded limits"
    and inv: "session_inv source limits fed bs s"
    and c: "going context ready s" "\<not> ss_finished s" "session_fed fed s = [] \<or> heard s"
    and bytes: "bytes \<noteq> []" "length bytes \<le> ss_max_chunk_bytes s"
    and adm: "inc_admissible source limits (bs @ bytes)"
  shows "\<exists>us u. push_pcm16 env bytes s = (Inr us, u) \<and> going context ready u
    \<and> (session_fed fed u = [] \<or> heard u)"
proof -
  obtain w1 where 1: "session_check env s = (Inr (), s\<lparr>ss_world := w1\<rparr>)"
    using total_ops(1) [OF t] c(1) by (auto simp: going_def)
  define s1 where "s1 = s\<lparr>ss_world := w1\<rparr>"
  note c1 = recording_check [OF r 1, folded s1_def]
  have inv1: "session_inv source limits fed bs s1" and ctx1: "going context ready s1"
    and h1: "session_fed fed s1 = [] \<or> heard s1"
    using inv c1 c by (simp_all add: session_inv_def session_core_iff) (simp_all add: s1_def heard_def going_def)
  obtain out where 2: "session_decode bytes s1
      = (Inr out, s1\<lparr>ss_decoder := inc_state source limits (bs @ bytes)\<rparr>)"
    and d: "decode_pairs (bs @ bytes) = decode_pairs bs @ out"
    using session_decode_ok [OF inv1 adm] by blast
  define s2 where "s2 = s1\<lparr>ss_decoder := inc_state source limits (bs @ bytes)\<rparr>"
  have h2: "session_fed fed s2 = [] \<or> heard s2" "going context ready s2"
    using h1 ctx1 by (simp_all add: s2_def heard_def going_def)
  have start: "push_pcm16 env bytes s =
      (if out = [] then ret [] else
        bind_st (session_resample out) (\<lambda>converted.
            bind_st (update_st (\<lambda>s. s\<lparr>ss_residual := ss_residual s @ converted\<rparr>)) (\<lambda>_.
            bind_st drain_frames (\<lambda>frames.
            bind_st (push_frames env frames) (\<lambda>updates.
            bind_st (session_check env) (\<lambda>_. ret updates)))))) s2"
    using c(2) bytes by (simp add: push_pcm16_def 1 [folded s1_def] 2 [folded s2_def])
  show ?thesis
  proof (cases "out = []")
    case True
    then show ?thesis using start h2 by auto
  next
    case False
    obtain conv e where 3: "session_resample out s2
        = (Inr conv, s1\<lparr>ss_decoder := inc_state source limits (bs @ bytes), ss_resampler := e\<rparr>)"
      and rep: "resampler_rep source engine_sample_rate (decode_pairs (bs @ bytes)) e"
      and app: "resampled source engine_sample_rate (decode_pairs (bs @ bytes))
        = resampled source engine_sample_rate (decode_pairs bs) @ conv"
      using session_resample_inv [OF b inv1 adm d False, of "inc_state source limits (bs @ bytes)"]
      unfolding s2_def by (metis prod.collapse)
    define s3 where "s3 = s1\<lparr>ss_decoder := inc_state source limits (bs @ bytes),
      ss_resampler := e, ss_residual := ss_residual s1 @ conv\<rparr>"
    have "set (ss_residual s3) \<subseteq> set (resampled source engine_sample_rate (decode_pairs (bs @ bytes)))"
      using inv1 app by (auto simp: s3_def session_inv_def) (metis Un_iff set_append)
    with resampled_finite [of source engine_sample_rate "bs @ bytes"] rep
    have fin: "\<forall>x\<in>set (ss_residual s3). is_finite x" by (auto simp: resampler_rep_def)
    have s3: "session_fed fed s3 = [] \<or> heard s3" "going context ready s3"
      using h1 ctx1 by (simp_all add: s3_def heard_def going_def)
    obtain r4 s4 where 4: "drain_frames s3 = (r4, s4)" by fastforce
    from drain_frames_ok [OF 4 fin, of "context" ready fed] obtain frames where
      fr: "r4 = Inr frames" "\<forall>f\<in>set frames. frame_ok f" "going context ready s4"
        "session_fed fed s4 = [] \<or> heard s4"
      using s3 by auto
    have "\<exists>us u. push_frames env frames s4 = (Inr us, u) \<and> going context ready u
      \<and> (session_fed fed u = [] \<or> heard u)"
    proof (cases "frames = [] \<and> \<not> heard s4")
      case True
      then show ?thesis using fr by simp
    next
      case False
      then show ?thesis using push_frames_total [OF t fr(3,2)] by blast
    qed
    then obtain us s5 where 5: "push_frames env frames s4 = (Inr us, s5)" "going context ready s5"
      "session_fed fed s5 = [] \<or> heard s5" by blast
    obtain w6 where 6: "session_check env s5 = (Inr (), s5\<lparr>ss_world := w6\<rparr>)"
      using total_ops(1) [OF t] 5(2) by (auto simp: going_def)
    have "push_pcm16 env bytes s = (Inr us, s5\<lparr>ss_world := w6\<rparr>)"
      using start False 5(1) 6 4 fr(1) by (simp add: 3 s3_def [symmetric])
    with recording_check [OF r 6] 5 show ?thesis by (auto simp: heard_def going_def)
  qed
qed

lemma finish_residual_total:
  assumes t: "env_total env context ready" and "going context ready s"
    and "\<forall>x\<in>set (ss_residual s). is_finite x" and "length (ss_residual s) < vad_frame_samples"
  shows "\<exists>u. finish_residual env s = (Inr (), u) \<and> going context ready u
    \<and> (if ss_residual s = [] then heard u = heard s else heard u)"
proof (cases "ss_residual s = []")
  case False
  obtain st w where 1: "session_accept env (ss_residual s) s = (Inr (), s\<lparr>ss_stream := st, ss_world := w\<rparr>)"
    and st: "ready st"
    using total_ops(2) [OF t assms(2), of "ss_residual s"] assms(3,4) False by (auto simp: frame_ok_def)
  define s1 where "s1 = s\<lparr>ss_stream := st, ss_world := w, ss_has_audio := True\<rparr>"
  have "vad_frame_ok (ss_residual s1)"
    using assms(3,4) False by (simp add: s1_def vad_frame_ok_def vad_frame_samples_def u32_max_def)
  then obtain e v where 2: "session_vad (ss_residual s1) s1 = (Inr e, s1\<lparr>ss_vad := v\<rparr>)"
    using session_vad_ok by blast
  have "finish_residual env s = (Inr (), s1\<lparr>ss_vad := v, ss_residual := []\<rparr>)"
    using False by (simp add: finish_residual_def 1 s1_def [symmetric] 2)
  then show ?thesis using False assms(2) st by (simp add: s1_def heard_def going_def)
qed (use assms(2) in \<open>simp add: finish_residual_def\<close>)

lemma finish_text_total:
  assumes t: "env_total env context ready" and "going context ready s" and "heard s"
  shows "\<exists>words u. finish_text env s = (Inr words, u) \<and> ss_context u = context"
proof (cases "ss_has_audio s")
  case True
  obtain words st w where "session_finish_stream env s = (Inr words, s\<lparr>ss_stream := st, ss_world := w\<rparr>)"
    using total_ops(3) [OF t assms(2)] by blast
  with True assms(2) show ?thesis by (simp add: finish_text_def going_def)
next
  case False
  with assms(2,3) show ?thesis by (auto simp: finish_text_def heard_def going_def)
qed

lemma session_finish_total:
  assumes t: "env_total env context ready" and r: "recording env fed"
    and inv: "session_inv source limits fed bs s"
    and c: "going context ready s" "\<not> ss_finished s" "session_fed fed s = [] \<or> heard s"
    and bs: "bs \<noteq> []" "even (length bs)"
  shows "\<exists>t u. session_finish env s = (Inr t, u)"
proof -
  obtain w1 where 1: "session_check env s = (Inr (), s\<lparr>ss_world := w1\<rparr>)"
    using total_ops(1) [OF t] c(1) by (auto simp: going_def)
  define s1 where "s1 = s\<lparr>ss_world := w1\<rparr>"
  note c1 = recording_check [OF r 1, folded s1_def]
  have inv1: "session_inv source limits fed bs s1" and ctx1: "going context ready s1"
    and h1: "session_fed fed s1 = [] \<or> heard s1"
    using inv c1 c by (simp_all add: session_inv_def session_core_iff) (simp_all add: s1_def heard_def going_def)
  have src: "source \<in> set supported_sample_rates" "engine_sample_rate \<in> set supported_sample_rates"
    using inv by (simp_all add: session_inv_def resampler_rep_def)
  have ne: "decode_pairs bs \<noteq> []" using bs by (cases bs rule: decode_pairs.cases) auto
  then have "resampled source engine_sample_rate (decode_pairs bs) \<noteq> []"
    by (simp add: resampled_def)
  then have spec: "session_fed fed s1 @ ss_residual s1 \<noteq> []"
    "set (ss_residual s1) \<subseteq> set (resampled source engine_sample_rate (decode_pairs bs))"
    using inv1 by (simp add: session_inv_def) (use inv1 in \<open>metis session_inv_def Un_upper2 set_append\<close>)
  have "ss_decoder s1 = inc_state source limits bs" using inv1 by (simp add: session_inv_def)
  then obtain a where 2: "incremental_finish (ss_decoder s1) = Inr a"
    using bs ne src(1) valid_decode_pairs
    by (auto simp: incremental_finish_def inc_state_def mono_pcm_new_Inr_iff)
  have "\<forall>x\<in>set (ss_residual s1). is_finite x" using resampled_finite [OF src] spec(2) by blast
  moreover have "length (ss_residual s1) < vad_frame_samples" using inv1 by (simp add: session_inv_def)
  ultimately obtain s2 where 3: "finish_residual env s1 = (Inr (), s2)" "going context ready s2"
    "heard s2"
    using finish_residual_total [OF t ctx1] h1 spec(1) by (metis append_Nil2)
  define s3 where "s3 = s2\<lparr>ss_finished := True\<rparr>"
  have "going context ready s3" "heard s3" using 3 by (simp_all add: s3_def heard_def going_def)
  then obtain words s4 where 4: "finish_text env s3 = (Inr words, s4)" "ss_context s4 = context"
    using finish_text_total [OF t] by blast
  obtain w5 where 5: "session_check env s4 = (Inr (), s4\<lparr>ss_world := w5\<rparr>)"
    using total_ops(1) [OF t 4(2)] by blast
  show ?thesis
    using c(2) by (simp add: session_finish_def 1 [folded s1_def] 2 3 s3_def [symmetric] 4 5)
qed

section \<open>A whole session\<close>

fun push_all :: "('st, 'w) stt_env \<Rightarrow> u8 list list \<Rightarrow> (('st, 'w) session, stt_error, transcript list) action"
where
  "push_all env [] = ret []"
| "push_all env (f # fs) =
     bind_st (push_pcm16 env f) (\<lambda>us. bind_st (push_all env fs) (\<lambda>vs. ret (us @ vs)))"

definition run_session ::
  "('st, 'w) stt_env \<Rightarrow> u8 list list \<Rightarrow> (('st, 'w) session, stt_error, transcript list \<times> transcript) action"
where
  "run_session env fs =
     bind_st (push_all env fs) (\<lambda>us. bind_st (session_finish env) (\<lambda>t. ret (us, t)))"

lemma start_stream_Inr:
  assumes "start_stream env engine source context (l, w) = (Inr s, l', w')"
    and r: "recording env fed"
  shows "session_fed fed s = fed w \<and> ss_context s = context \<and> \<not> ss_finished s
    \<and> ss_max_chunk_bytes s = sl_max_chunk_bytes (se_limits engine) \<and> ss_residual s = []
    \<and> ss_decoder s = inc_state source (sl_audio (se_limits engine)) []
    \<and> resampler_rep source engine_sample_rate [] (ss_resampler s)
    \<and> source \<in> set supported_sample_rates"
proof -
  from assms(1) obtain w1 st w2 where 1: "stt_ensure_active env context w = (Inr (), w1)"
    "env_stream env w1 = (Inr st, w2)" "ss_world s = w2"
    and s: "ss_context s = context" "\<not> ss_finished s" "ss_residual s = []"
      "ss_max_chunk_bytes s = sl_max_chunk_bytes (se_limits engine)"
    and d: "incremental_new source (sl_audio (se_limits engine)) = Inr (ss_decoder s)"
    and rs: "streaming_resampler_new source engine_sample_rate = Inr (ss_resampler s)"
    by (auto simp: start_stream_def res_simps split: prod.splits sum.splits)
  have "fed w1 = fed w" "fed w2 = fed w1"
    using recording_world [OF r] 1(1,2) by auto
  moreover have "source \<in> set supported_sample_rates" "engine_sample_rate \<in> set supported_sample_rates"
    and "ss_decoder s = inc_state source (sl_audio (se_limits engine)) []"
    and "ss_resampler s = \<lparr>rs_source = source, rs_target = engine_sample_rate, rs_input = [], rs_next = 0\<rparr>"
    using d rs
    by (auto simp: incremental_new_def streaming_resampler_new_def res_simps validate_rate_def
        inc_state_def split: if_splits)
  ultimately show ?thesis
    using 1(3) s by (simp add: session_fed_def resampler_rep_def resampled_def)
qed

lemma start_stream_inv:
  assumes "start_stream env engine source context (l, w) = (Inr s, l', w')"
    and "recording env fed" and "fed w = []"
    and "inc_admissible source (sl_audio (se_limits engine)) []"
  shows "session_inv source (sl_audio (se_limits engine)) fed [] s"
  using start_stream_Inr [OF assms(1,2)] assms(3,4)
  by (simp add: session_inv_def resampled_def vad_frame_samples_def)

lemma push_all_inv:
  assumes r: "recording env fed" and b: "stream_bounded limits"
  shows "session_inv source limits fed bs s \<Longrightarrow> push_all env fs s = (Inr us, t) \<Longrightarrow>
    session_inv source limits fed (bs @ concat fs) t"
proof (induction fs arbitrary: bs s us)
  case (Cons f fs)
  from Cons.prems(2) obtain us1 u us2 where
    1: "push_pcm16 env f s = (Inr us1, u)" "push_all env fs u = (Inr us2, t)"
    by (auto simp: res_simps)
  from push_pcm16_inv [OF r b Cons.prems(1) 1(1)] have "session_inv source limits fed (bs @ f) u" by simp
  from Cons.IH [OF this 1(2)] show ?case by simp
qed simp

lemma push_all_total:
  assumes t: "env_total env context ready" and r: "recording env fed" and b: "stream_bounded limits"
  shows "session_inv source limits fed bs s \<Longrightarrow> going context ready s \<Longrightarrow> \<not> ss_finished s \<Longrightarrow>
    session_fed fed s = [] \<or> heard s \<Longrightarrow>
    \<forall>f\<in>set fs. f \<noteq> [] \<and> length f \<le> ss_max_chunk_bytes s \<Longrightarrow>
    inc_admissible source limits (bs @ concat fs) \<Longrightarrow>
    \<exists>us u. push_all env fs s = (Inr us, u) \<and> session_inv source limits fed (bs @ concat fs) u
      \<and> going context ready u \<and> \<not> ss_finished u \<and> (session_fed fed u = [] \<or> heard u)"
proof (induction fs arbitrary: bs s)
  case (Cons f fs)
  have f: "f \<noteq> []" "length f \<le> ss_max_chunk_bytes s" using Cons.prems(5) by simp_all
  have adm: "inc_admissible source limits ((bs @ f) @ concat fs)" using Cons.prems(6) by simp
  then have adm1: "inc_admissible source limits (bs @ f)" by (rule inc.admissible_prefix)
  obtain us u where 1: "push_pcm16 env f s = (Inr us, u)" "going context ready u"
    "session_fed fed u = [] \<or> heard u"
    using push_pcm16_total [OF t r b Cons.prems(1-4) f adm1] by blast
  note inv = push_pcm16_inv [OF r b Cons.prems(1) 1(1)]
  then have "ss_max_chunk_bytes u = ss_max_chunk_bytes s" "\<not> ss_finished u"
    using Cons.prems(3) by (simp_all add: session_core_def)
  then show ?case
    using Cons.IH [of "bs @ f" u] inv 1 Cons.prems(5) adm by force
qed auto

lemma push_all_admissible:
  assumes r: "recording env fed" and d: "ss_decoder s = inc_state source limits []"
    and "push_all env fs s = (Inr us, t)" and "fs \<noteq> []"
  shows "inc_admissible source limits []"
proof -
  from assms(3,4) obtain f fs' us1 u where "fs = f # fs'" and p: "push_pcm16 env f s = (Inr us1, u)"
    by (cases fs) (auto simp: res_simps)
  from p obtain s1 s2 out where
    1: "session_check env s = (Inr (), s1)" "session_decode f s1 = (Inr out, s2)"
    by (auto simp: push_pcm16_def res_simps split: if_splits)
  have "ss_decoder s1 = inc_state source limits []"
    using recording_check [OF r 1(1)] d by (simp add: session_core_iff)
  with 1(2) have "inc_admissible source limits ([] @ f)"
    using incremental_push_Inr [of "[]" source limits f]
    by (auto simp: session_decode_def res_simps split: prod.splits)
  then show ?thesis by (rule inc.admissible_prefix)
qed

lemma session_inv_batch:
  assumes b: "stream_bounded limits" and inv: "session_inv source limits fed bs s"
    and "incremental_finish (inc_state source limits bs) = Inr a"
  shows "from_pcm16_le bs source limits = Inr a \<and> resample a engine_sample_rate
    = Inr \<lparr>pcm_rate = engine_sample_rate,
           pcm_samples = resampled source engine_sample_rate (decode_pairs bs)\<rparr>"
proof -
  have src: "source \<in> set supported_sample_rates" "engine_sample_rate \<in> set supported_sample_rates"
    and adm: "inc_admissible source limits bs"
    using inv by (simp_all add: session_inv_def resampler_rep_def)
  from assms(3) have a: "even (length bs)" "decode_pairs bs \<noteq> []"
    "a = \<lparr>pcm_rate = source, pcm_samples = decode_pairs bs\<rparr>"
    by (auto simp: incremental_finish_def inc_state_def mono_pcm_new_Inr_iff split: if_splits)
  then have "from_pcm16_le bs source limits = Inr a"
    using src adm by (auto simp: from_pcm16_le_Inr_iff inc_admissible_def)
  moreover have "resample a engine_sample_rate = Inr \<lparr>pcm_rate = engine_sample_rate,
      pcm_samples = resampled source engine_sample_rate (decode_pairs bs)\<rparr>"
    unfolding a(3)
    by (rule resample_f32 [OF src a(2) decode_pairs_f32_sample inc_admissible_resample [OF b adm]])
  ultimately show ?thesis by simp
qed

lemma start_stream_total:
  assumes t: "env_total env context ready" and "lim_active l < lim_maximum l"
    and "source \<in> set supported_sample_rates"
    and e: "stt_with_backend limits vad = Inr (engine, l0)"
  shows "\<exists>s l' w'. start_stream env engine source context (l, w) = (Inr s, l', w') \<and> going context ready s"
proof -
  have v: "\<exists>v. energy_vad_new (se_vad engine) engine_sample_rate = Inr v"
    using e by (auto simp: stt_with_backend_def res_simps split: if_splits)
  have m: "engine_sample_rate \<in> set supported_sample_rates"
    by (simp add: engine_sample_rate_def supported_sample_rates_def)
  obtain w1 where 1: "stt_ensure_active env context w = (Inr (), w1)"
    using t unfolding env_total_def by blast
  obtain st w2 where 2: "env_stream env w1 = (Inr st, w2)" "ready st" using t unfolding env_total_def by blast
  show ?thesis
    using assms(2,3) m v 1 2
    by (auto simp: start_stream_def stt_acquire_def limiter_acquire_free incremental_new_def
        streaming_resampler_new_def validate_rate_def going_def)
qed

section \<open>Properties\<close>

text \<open>An environment that records what it is fed; it instantiates the witnesses.\<close>

definition echo_env :: "(unit, f32 list) stt_env" where
  "echo_env = \<lparr>env_check = \<lambda>w. ((False, 0), w), env_stream = \<lambda>w. (Inr (), w),
     env_accept = \<lambda>_ xs w. (Inr (), (), w @ xs), env_interim = \<lambda>_ w. (Inr [], w),
     env_finish = \<lambda>_ w. (Inr ''done'', (), w), env_drop = \<lambda>_ w. w\<rparr>"

definition echo_context :: request_context where
  "echo_context = \<lparr>rc_id = 1, rc_cancellation = token_new, rc_deadline = None\<rparr>"

definition echo_engine :: stt_engine where
  "echo_engine = \<lparr>se_limits = stt_limits_default, se_vad = vad_config_default\<rparr>"

lemma echo_facts:
  "recording echo_env id" "env_total echo_env echo_context (\<lambda>_. True)"
  "stt_with_backend stt_limits_default vad_config_default = Inr (echo_engine, \<lparr>lim_active = 0, lim_maximum = 2\<rparr>)"
  "stream_bounded (sl_audio (se_limits echo_engine))"
  "inc_admissible 16000 (sl_audio (se_limits echo_engine)) [0, 64]"
  by (simp_all add: recording_def echo_env_def env_total_def stt_ensure_active_def echo_context_def
      remaining_def stt_with_backend_def stt_limits_default_def engine_sample_rate_def
      vad_default_accepted echo_engine_def stream_bounded_def audio_limits_default_def u64_max_def
      inc_admissible_def admit_Inr_iff)

text \<open>
  End to end, streaming is batch. Whenever a streaming session runs to its end, however the
  bytes were cut into frames, the samples handed to the recognizer, across all the streams the
  session opened, are exactly the batch decoding of all the bytes resampled to 16 kHz: nothing
  lost at a frame boundary, nothing repeated at an utterance boundary.
\<close>

lemma session_feeds_batch:
  assumes "recording env fed" and "stream_bounded (sl_audio (se_limits engine))" and "fed w = []"
    and "start_stream env engine source context (l, w) = (Inr s, l', w')"
    and "run_session env frames s = (Inr (us, t), u)"
  shows "\<exists>a. from_pcm16_le (concat frames) source (sl_audio (se_limits engine)) = Inr a
    \<and> resample a engine_sample_rate
        = Inr \<lparr>pcm_rate = engine_sample_rate, pcm_samples = fed (ss_world u)\<rparr>"
proof -
  let ?limits = "sl_audio (se_limits engine)"
  note st = start_stream_Inr [OF assms(4,1)]
  from assms(5) obtain s1 where p: "push_all env frames s = (Inr us, s1)"
    and f: "session_finish env s1 = (Inr t, u)"
    by (auto simp: run_session_def res_simps)
  have "frames \<noteq> []"
  proof
    assume "frames = []"
    with p f obtain s2 a where "session_check env s = (Inr (), s2)" "incremental_finish (ss_decoder s2) = Inr a"
      by (auto simp: session_finish_def res_simps split: if_splits)
    with recording_check [OF assms(1)] st show False
      by (auto simp: session_core_iff incremental_finish_def inc_state_def mono_pcm_new_Inr_iff
          dest!: meta_spec)
  qed
  with push_all_admissible [OF assms(1) _ p] st have adm: "inc_admissible source ?limits []" by blast
  from push_all_inv [OF assms(1,2) start_stream_inv [OF assms(4,1,3) adm] p]
  have inv: "session_inv source ?limits fed (concat frames) s1" by simp
  from session_finish_fed [OF assms(1) inv f] session_inv_batch [OF assms(2) inv] show ?thesis
    by (auto simp: session_fed_def)
qed

text \<open>
  A session fails only for cause. With a request that is not stopped, a free permit, and a
  recognizer whose fresh streams take non-empty frames of at most 320 finite samples and give their
  texts until they are finished, every non-empty even-length recording within the limits, cut into
  non-empty frames within the frame bound, is accepted frame by frame and finished with a transcript.
  In particular the session never uses a stream that it has finished, never hands over an empty
  frame, and \<open>finish\<close> finds text also when the audio ended with an utterance.
\<close>

lemma session_total:
  assumes "env_total env context ready" and "recording env fed" and "fed w = []"
    and "stt_with_backend limits vad = Inr (engine, l0)" and "stream_bounded (sl_audio limits)"
    and "lim_active l < lim_maximum l" and "source \<in> set supported_sample_rates"
    and "\<forall>f\<in>set frames. f \<noteq> [] \<and> length f \<le> sl_max_chunk_bytes limits"
    and "frames \<noteq> []" and "even (length (concat frames))"
    and "inc_admissible source (sl_audio limits) (concat frames)"
  shows "\<exists>s l' w' r u. start_stream env engine source context (l, w) = (Inr s, l', w')
    \<and> run_session env frames s = (Inr r, u)"
proof -
  have e: "se_limits engine = limits"
    using assms(4) by (auto simp: stt_with_backend_def res_simps split: if_splits)
  obtain s l' w' where 1: "start_stream env engine source context (l, w) = (Inr s, l', w')"
    and g: "going context ready s"
    using start_stream_total [OF assms(1,6,7,4)] by blast
  note st = start_stream_Inr [OF 1 assms(2)]
  have "inc_admissible source (sl_audio limits) []"
    using inc.admissible_prefix [of source "sl_audio limits" "[]" "concat frames"] assms(11) by simp
  with start_stream_inv [OF 1 assms(2,3)] have inv: "session_inv source (sl_audio limits) fed [] s"
    by (simp add: e)
  obtain us u where 2: "push_all env frames s = (Inr us, u)"
    and i: "session_inv source (sl_audio limits) fed (concat frames) u"
    and c: "going context ready u" "\<not> ss_finished u" "session_fed fed u = [] \<or> heard u"
    using push_all_total [OF assms(1,2,5) inv, of frames] st g assms(3,8,11) by (auto simp: e)
  have "concat frames \<noteq> []" using assms(8,9) by (cases frames) auto
  from session_finish_total [OF assms(1,2) i c this assms(10)] obtain t v where
    "session_finish env u = (Inr t, v)" by auto
  with 1 2 show ?thesis by (simp add: run_session_def)
qed

text \<open>
  No transcript is published after a stop. When \<open>transcribe\<close> returns text, the last thing
  it did after the recognizer produced that text was a check of the request that found it
  neither cancelled nor past its deadline.
\<close>

lemma stream_check_Inr:
  "stream_check env context (st, w) = (Inr u, x) \<longleftrightarrow>
    (\<exists>w'. stt_ensure_active env context w = (Inr u, w') \<and> x = (st, w'))"
  by (auto simp: stream_check_def split: prod.splits)

lemma transcribe_stream_Inr:
  assumes "transcribe_stream env xs context (st, w) = (Inr words, st', w')"
  obtains st1 w1 w2 w3 where "env_accept env st xs w = (Inr (), st1, w1)"
    and "stt_ensure_active env context w1 = (Inr (), w2)"
    and "env_finish env st1 w2 = (Inr words, st', w3)"
    and "stt_ensure_active env context w3 = (Inr (), w')"
  using assms by (auto simp: transcribe_stream_def res_simps stream_check_Inr)

lemma transcribe_body_Inr:
  assumes "transcribe_body env engine audio context w = (Inr words, w')"
  obtains b st w1 st' w2 where "resample audio engine_sample_rate = Inr b"
    and "env_stream env w = (Inr st, w1)"
    and "transcribe_stream env (pcm_samples b) context (st, w1) = (Inr words, st', w2)"
    and "w' = env_drop env st' w2"
proof -
  from assms obtain b st w1 where 1: "resample audio engine_sample_rate = Inr b" "env_stream env w = (Inr st, w1)"
    and rest: "(case transcribe_stream env (pcm_samples b) context (st, w1) of
      (r, st, w) \<Rightarrow> (r, env_drop env st w)) = (Inr words, w')"
    by (auto simp: transcribe_body_def res_simps)
  obtain q st' w2 where t: "transcribe_stream env (pcm_samples b) context (st, w1) = (q, st', w2)"
    by (metis surj_pair)
  with rest have "q = Inr words" "w' = env_drop env st' w2" by simp_all
  with 1 t that show thesis by simp
qed

theorem stt_transcribe_fenced:
  assumes "stt_transcribe env engine audio context (l, w) = (Inr words, l', w')"
  shows "\<exists>st st' w1 w2 w3 now. env_finish env st w1 = (Inr words, st', w2)
    \<and> env_check env w2 = ((False, now), w3) \<and> remaining now context \<noteq> Some 0
    \<and> w' = env_drop env st' w3"
proof -
  obtain w0 where b: "transcribe_body env engine audio context w0 = (Inr words, w')"
    using assms by (auto simp: stt_transcribe_def split: prod.splits sum.splits)
  from transcribe_body_Inr [OF b] obtain xs st0 w4 st' w3 where
    t: "transcribe_stream env xs context (st0, w4) = (Inr words, st', w3)" and w': "w' = env_drop env st' w3" .
  from transcribe_stream_Inr [OF t] obtain st w1 w2 where "env_finish env st w1 = (Inr words, st', w2)"
    and c: "stt_ensure_active env context w2 = (Inr (), w3)" .
  moreover obtain now where "env_check env w2 = ((False, now), w3)" "remaining now context \<noteq> Some 0"
    using c by (auto simp: stt_ensure_active_def split: prod.splits if_splits)
  ultimately show ?thesis using w' by blast
qed

lemma echo_transcribe:
  "stt_transcribe echo_env echo_engine \<lparr>pcm_rate = 16000, pcm_samples = [Fin 0]\<rparr> echo_context
    (\<lparr>lim_active = 0, lim_maximum = 2\<rparr>, []) = (Inr ''done'', \<lparr>lim_active = 0, lim_maximum = 2\<rparr>, [Fin 0])"
  by (simp add: stt_transcribe_def stt_ensure_active_def echo_env_def echo_context_def remaining_def
      stt_acquire_def limiter_acquire_def transcribe_body_def transcribe_stream_def stream_check_def echo_engine_def stt_limits_default_def
      validate_pcm_def admit_def audio_limits_default_def num_defs u64_max_def resample_def
      engine_sample_rate_def validate_rate_def supported_sample_rates_def limiter_release_def)

theorem stt_transcribe_fenced_witness:
  "\<exists>st st' w1 w2 w3 now. env_finish echo_env st w1 = (Inr ''done'', st', w2)
    \<and> env_check echo_env w2 = ((False, now), w3) \<and> remaining now echo_context \<noteq> Some 0
    \<and> [Fin 0] = env_drop echo_env st' w3"
  by (rule stt_transcribe_fenced [OF echo_transcribe])

text \<open>
  No permit is leaked or over-issued. Whatever \<open>transcribe\<close> returns, the limiter is left as
  it was; it answers Busy exactly when an active request finds every permit taken; and under any
  interleaving of acquisitions and drops the active count is the number of permits held and never
  exceeds the maximum.
\<close>

theorem stt_permits:
  assumes "limiter_bounded l"
  shows "fst (snd (stt_transcribe env engine audio context (l, w))) = l
    \<and> (fst (stt_ensure_active env context w) = Inr () \<and> lim_maximum l \<le> lim_active l
        \<longrightarrow> fst (stt_transcribe env engine audio context (l, w)) = Inl SttBusy)
    \<and> (lim_active l = 0 \<longrightarrow>
        (case foldl (pool_step stt_acquire limiter_release) (l, 0) ops of
           (l', held) \<Rightarrow> lim_active l' = held \<and> held \<le> lim_maximum l))"
proof -
  have "fst (stt_transcribe env engine audio context (l, w)) = Inl SttBusy"
    if "fst (stt_ensure_active env context w) = Inr ()" "lim_maximum l \<le> lim_active l"
  proof -
    from that(1) obtain w1 where "stt_ensure_active env context w = (Inr (), w1)"
      by (cases "stt_ensure_active env context w") auto
    with that(2) show ?thesis
      by (simp add: stt_transcribe_def stt_acquire_def limiter_acquire_full)
  qed
  moreover obtain l' held where
    run: "foldl (pool_step stt_acquire limiter_release) (l, 0) ops = (l', held)" by fastforce
  have "lim_active l = 0 \<Longrightarrow> lim_active l' = held \<and> held \<le> lim_maximum l"
    using stt_pool.pool_bounded [OF assms _ run] .
  ultimately show ?thesis
    using stt_transcribe_permit [OF assms, of env engine audio "context" w] unfolding run by simp
qed

theorem stt_permits_witness:
  "fst (snd (stt_transcribe echo_env echo_engine \<lparr>pcm_rate = 16000, pcm_samples = [Fin 0]\<rparr>
    echo_context (\<lparr>lim_active = 2, lim_maximum = 2\<rparr>, []))) = \<lparr>lim_active = 2, lim_maximum = 2\<rparr>"
  by (rule conjunct1 [OF stt_permits]) (simp add: limiter_bounded_def u64_max_def)

end
