(* ===== verification/Tts.thy ===== *)
theory Tts
  imports Wav Core Limiter
begin

text \<open>
  \<open>crates/impossible-voice-tts/src/lib.rs\<close>: the text-to-speech engine. The native synthesizer,
  the cancellation flag and the clock are the functions of \<open>tts_env\<close> on an arbitrary world. A
  \<open>&str\<close> is its list of Unicode code points. Proved: what \<open>synthesize\<close> refuses before
  touching the engine, that audio is never returned after a stop and always within the bounds, and
  that the transport chunks partition the completed audio with exactly the last one marked final.
\<close>

section \<open>Text\<close>

type_synonym ustr = "nat list"

text \<open>\<open>str::len\<close> counts the bytes of the UTF-8 encoding.\<close>

definition utf8_width :: "nat \<Rightarrow> nat" where
  "utf8_width c = (if c < 128 then 1 else if c < 2048 then 2 else if c < 65536 then 3 else 4)"

definition str_len :: "ustr \<Rightarrow> nat" where
  "str_len s = sum_list (map utf8_width s)"

text \<open>\<open>char::is_whitespace\<close>: the Unicode property \<open>White_Space\<close>.\<close>

definition is_whitespace :: "nat \<Rightarrow> bool" where
  "is_whitespace c \<longleftrightarrow> 9 \<le> c \<and> c \<le> 13
     \<or> c \<in> {32, 133, 160, 5760, 8232, 8233, 8239, 8287, 12288} \<or> 8192 \<le> c \<and> c \<le> 8202"

definition str_trim :: "ustr \<Rightarrow> ustr" where
  "str_trim s = rev (dropWhile is_whitespace (rev (dropWhile is_whitespace s)))"

section \<open>Errors, limits, results\<close>

datatype tts_error =
  TtsInvalidInput | TtsBusy | TtsCancelled | TtsDeadlineExceeded | TtsEngine | TtsOutput

record tts_limits =
  tl_max_concurrent :: nat
  tl_max_text_bytes :: nat
  tl_max_output_samples :: nat
  tl_max_chunk_samples :: nat

definition tts_limits_default :: tts_limits where
  "tts_limits_default =
     \<lparr>tl_max_concurrent = 1, tl_max_text_bytes = 4096, tl_max_output_samples = 22050 * 5 * 60,
      tl_max_chunk_samples = 22050\<rparr>"

record transport_chunk =
  tc_samples :: "f32 list"
  tc_final :: bool

record synthesis =
  sy_audio :: mono_pcm
  sy_max_chunk :: nat

definition synthesis_from_audio :: "mono_pcm \<Rightarrow> nat \<Rightarrow> tts_error + synthesis" where
  "synthesis_from_audio audio max_chunk =
     (if max_chunk = 0 then Inl TtsInvalidInput
      else Inr \<lparr>sy_audio = audio, sy_max_chunk = max_chunk\<rparr>)"

definition synthesis_pcm16 :: "synthesis \<Rightarrow> u8 list" where
  "synthesis_pcm16 s = to_pcm16_le (sy_audio s)"

definition synthesis_wav :: "synthesis \<Rightarrow> tts_error + u8 list" where
  "synthesis_wav s = map_err (\<lambda>_. TtsOutput) (to_wav_pcm16 (sy_audio s))"

definition div_ceil :: "nat \<Rightarrow> nat \<Rightarrow> nat" where
  "div_ceil a b = (if a mod b = 0 then a div b else a div b + 1)"

definition transport_chunks :: "synthesis \<Rightarrow> transport_chunk list" where
  "transport_chunks s =
     (let count = div_ceil (length (pcm_samples (sy_audio s))) (sy_max_chunk s)
      in map (\<lambda>(index, xs). \<lparr>tc_samples = xs, tc_final = (index + 1 = count)\<rparr>)
           (List.enumerate 0 (chunks (sy_max_chunk s) (pcm_samples (sy_audio s)))))"

section \<open>The engine\<close>

record generated_audio =
  ga_rate :: nat
  ga_samples :: "f32 list"

record 'w tts_env =
  tenv_check :: "'w \<Rightarrow> (bool \<times> nat) \<times> 'w"
  tenv_generate :: "ustr \<Rightarrow> f32 \<Rightarrow> nat \<Rightarrow> 'w \<Rightarrow> (tts_error + generated_audio) \<times> 'w"

definition tts_ensure_active ::
  "'w tts_env \<Rightarrow> request_context \<Rightarrow> ('w, tts_error, unit) action"
where
  "tts_ensure_active env context w =
     (case tenv_check env w of
        ((cancelled, now), w') \<Rightarrow>
          (if cancelled then Inl TtsCancelled
           else if remaining now context = Some 0 then Inl TtsDeadlineExceeded
           else Inr (), w'))"

definition tts_with_backend :: "tts_limits \<Rightarrow> tts_error + tts_limits \<times> limiter" where
  "tts_with_backend limits =
     (if tl_max_concurrent limits = 0 \<or> tl_max_text_bytes limits = 0
         \<or> tl_max_output_samples limits = 0 \<or> tl_max_chunk_samples limits = 0
      then Inl TtsInvalidInput
      else Inr (limits, \<lparr>lim_active = 0, lim_maximum = tl_max_concurrent limits\<rparr>))"

definition tts_acquire :: "limiter \<Rightarrow> (tts_error + unit) \<times> limiter" where
  "tts_acquire = limiter_acquire TtsBusy"

text \<open>The part of \<open>synthesize\<close> that runs with the permit held.\<close>

definition synthesize_body ::
  "'w tts_env \<Rightarrow> tts_limits \<Rightarrow> ustr \<Rightarrow> f32 \<Rightarrow> request_context \<Rightarrow> ('w, tts_error, synthesis) action"
where
  "synthesize_body env limits str speed context =
     bind_st (tenv_generate env str speed (tl_max_output_samples limits)) (\<lambda>generated.
     bind_st (tts_ensure_active env context) (\<lambda>_.
       if length (ga_samples generated) > tl_max_output_samples limits then fail TtsOutput
       else
         bind_st (lift_res (map_err (\<lambda>_. TtsOutput)
                   (mono_pcm_new (ga_rate generated) (ga_samples generated)))) (\<lambda>audio.
           ret \<lparr>sy_audio = audio, sy_max_chunk = tl_max_chunk_samples limits\<rparr>)))"

definition tts_input_ok :: "tts_limits \<Rightarrow> ustr \<Rightarrow> f32 \<Rightarrow> bool" where
  "tts_input_ok limits str speed \<longleftrightarrow>
     \<not> (str_trim str = [] \<or> str_len str > tl_max_text_bytes limits \<or> 0 \<in> set str
        \<or> \<not> is_finite speed \<or> \<not> in_range (1 / 2) 2 speed)"

definition tts_synthesize ::
  "'w tts_env \<Rightarrow> tts_limits \<Rightarrow> ustr \<Rightarrow> f32 \<Rightarrow> request_context \<Rightarrow>
    (limiter \<times> 'w, tts_error, synthesis) action"
where
  "tts_synthesize env limits str speed context s =
     (case s of (l, w) \<Rightarrow>
       (if \<not> tts_input_ok limits str speed then (Inl TtsInvalidInput, l, w)
        else
          (case tts_ensure_active env context w of
             (Inl e, w) \<Rightarrow> (Inl e, l, w)
           | (Inr _, w) \<Rightarrow>
               (case tts_acquire l of
                  (Inl e, l) \<Rightarrow> (Inl e, l, w)
                | (Inr _, l) \<Rightarrow>
                    (case synthesize_body env limits str speed context w of
                       (r, w) \<Rightarrow> (r, limiter_release l, w))))))"

section \<open>Permits\<close>

interpretation tts_pool: permit_pool tts_acquire limiter_release lim_active lim_maximum limiter_bounded
  unfolding tts_acquire_def by (rule limiter.permit_pool_axioms)

lemma tts_synthesize_permit:
  assumes "limiter_bounded l"
  shows "fst (snd (tts_synthesize env limits str speed context (l, w))) = l"
proof -
  obtain r w1 where c: "tts_ensure_active env context w = (r, w1)" by fastforce
  show ?thesis
  proof (cases "lim_active l < lim_maximum l")
    case True
    then have "tts_acquire l = (Inr (), l\<lparr>lim_active := lim_active l + 1\<rparr>)"
      by (simp add: tts_acquire_def limiter_acquire_free)
    moreover from this have "limiter_release (l\<lparr>lim_active := lim_active l + 1\<rparr>) = l"
      using tts_pool.release_acquire [OF assms True] by simp
    ultimately show ?thesis by (simp add: tts_synthesize_def c split: sum.split prod.split)
  next
    case False
    then have "tts_acquire l = (Inl TtsBusy, l)" by (simp add: tts_acquire_def limiter_acquire_full)
    then show ?thesis by (simp add: tts_synthesize_def c split: sum.split prod.split)
  qed
qed

section \<open>Results\<close>

lemma div_ceil_eq: "0 < b \<Longrightarrow> div_ceil a b = (a + b - 1) div b"
proof -
  assume b: "0 < b"
  define q r where "q = a div b" and "r = a mod b"
  have a: "a = q * b + r" by (simp add: q_def r_def)
  show ?thesis
  proof (cases "r = 0")
    case True
    then have "a + b - 1 = (b - 1) + q * b" using a b by simp
    then have "(a + b - 1) div b = q + (b - 1) div b"
      using b by (metis add.commute div_mult_self1 less_not_refl2)
    with True b show ?thesis by (simp add: div_ceil_def q_def r_def)
  next
    case False
    then obtain k where k: "r = Suc k" by (cases r) auto
    have "r < b" using b by (simp add: r_def)
    then have "k div b = 0" using k by simp
    moreover have "a + b - 1 = k + (q + 1) * b" using a k by (simp add: algebra_simps)
    then have "(a + b - 1) div b = (q + 1) + k div b"
      using b by (metis add.commute div_mult_self1 less_not_refl2)
    ultimately show ?thesis using False by (simp add: div_ceil_def q_def r_def)
  qed
qed

lemma transport_chunks_samples:
  "map tc_samples (transport_chunks s) = chunks (sy_max_chunk s) (pcm_samples (sy_audio s))"
  by (simp add: transport_chunks_def Let_def comp_def split_beta map_snd_enumerate [unfolded comp_def])

lemma transport_chunks_final:
  assumes "0 < sy_max_chunk s" and "i < length (transport_chunks s)"
  shows "tc_final (transport_chunks s ! i) \<longleftrightarrow> i + 1 = length (transport_chunks s)"
  using assms
  by (simp add: transport_chunks_def Let_def nth_enumerate_eq length_chunks div_ceil_eq)

lemma tts_synthesize_Inr:
  assumes "tts_synthesize env limits str speed context (l, w) = (Inr s, l', w')"
  shows "tts_input_ok limits str speed
    \<and> (\<exists>w1 w2 now g. tenv_generate env str speed (tl_max_output_samples limits) w1 = (Inr g, w2)
        \<and> tenv_check env w2 = ((False, now), w') \<and> remaining now context \<noteq> Some 0
        \<and> length (ga_samples g) \<le> tl_max_output_samples limits
        \<and> mono_pcm_new (ga_rate g) (ga_samples g) = Inr (sy_audio s))
    \<and> sy_max_chunk s = tl_max_chunk_samples limits"
proof -
  from assms obtain w1 where ok: "tts_input_ok limits str speed"
    and b: "synthesize_body env limits str speed context w1 = (Inr s, w')"
    by (auto simp: tts_synthesize_def split: prod.splits sum.splits if_splits)
  from b obtain g w2 where g: "tenv_generate env str speed (tl_max_output_samples limits) w1 = (Inr g, w2)"
    and c: "tts_ensure_active env context w2 = (Inr (), w')"
    and r: "length (ga_samples g) \<le> tl_max_output_samples limits"
      "mono_pcm_new (ga_rate g) (ga_samples g) = Inr (sy_audio s)"
      "sy_max_chunk s = tl_max_chunk_samples limits"
    by (auto simp: synthesize_body_def res_simps not_less split: if_splits)
  from c obtain now where "tenv_check env w2 = ((False, now), w')" "remaining now context \<noteq> Some 0"
    by (auto simp: tts_ensure_active_def split: prod.splits if_splits)
  with ok g r show ?thesis by blast
qed

section \<open>Properties\<close>

text \<open>
  The transport chunks of a synthesis partition it. Their samples in order are the audio,
  each is non-empty and within the bound, and exactly the last is marked final.
\<close>

theorem transport_chunks_partition:
  assumes "synthesis_from_audio audio max_chunk = Inr s" and "wf_pcm audio"
  shows "concat (map tc_samples (transport_chunks s)) = pcm_samples audio
    \<and> (\<forall>c\<in>set (transport_chunks s). tc_samples c \<noteq> [] \<and> length (tc_samples c) \<le> max_chunk)
    \<and> transport_chunks s \<noteq> []
    \<and> (\<forall>i<length (transport_chunks s).
        tc_final (transport_chunks s ! i) \<longleftrightarrow> i + 1 = length (transport_chunks s))"
proof -
  from assms(1) have m: "0 < max_chunk" "s = \<lparr>sy_audio = audio, sy_max_chunk = max_chunk\<rparr>"
    by (auto simp: synthesis_from_audio_def split: if_splits)
  have c: "concat (map tc_samples (transport_chunks s)) = pcm_samples audio"
    using m by (simp add: transport_chunks_samples concat_chunks)
  have "\<forall>c\<in>set (transport_chunks s). tc_samples c \<noteq> [] \<and> length (tc_samples c) \<le> max_chunk"
  proof
    fix c assume "c \<in> set (transport_chunks s)"
    then have "tc_samples c \<in> set (map tc_samples (transport_chunks s))" by simp
    then show "tc_samples c \<noteq> [] \<and> length (tc_samples c) \<le> max_chunk"
      using m chunks_length by (metis transport_chunks_samples synthesis.select_convs(2))
  qed
  moreover have "transport_chunks s \<noteq> []" using c assms(2) by (auto simp: wf_pcm_def)
  ultimately show ?thesis using c transport_chunks_final [of s] m by simp
qed

lemma one_sample_wf: "wf_pcm \<lparr>pcm_rate = 22050, pcm_samples = [Fin 0, Fin 0, Fin 0]\<rparr>"
  by (simp add: wf_pcm_def valid_sample_def in_range_def supported_sample_rates_def)

theorem transport_chunks_partition_witness:
  "\<exists>s. synthesis_from_audio \<lparr>pcm_rate = 22050, pcm_samples = [Fin 0, Fin 0, Fin 0]\<rparr> 2 = Inr s
    \<and> concat (map tc_samples (transport_chunks s)) = [Fin 0, Fin 0, Fin 0]"
  using transport_chunks_partition [OF _ one_sample_wf, of 2] by (simp add: synthesis_from_audio_def)

text \<open>
  C19: \<open>synthesize\<close> fences and bounds its result. Audio is returned only for admissible text and
  speed, only if the check made after the native call found the request live, and it is valid
  mono PCM of at most the configured number of samples; refused input reaches neither the
  limiter nor the synthesizer; and the permit is back whatever happened.
\<close>

theorem tts_synthesize_fenced:
  assumes "limiter_bounded l"
  shows "fst (snd (tts_synthesize env limits str speed context (l, w))) = l
    \<and> (\<not> tts_input_ok limits str speed
        \<longrightarrow> tts_synthesize env limits str speed context (l, w) = (Inl TtsInvalidInput, l, w))
    \<and> (\<forall>s l' w'. tts_synthesize env limits str speed context (l, w) = (Inr s, l', w')
        \<longrightarrow> wf_pcm (sy_audio s) \<and> length (pcm_samples (sy_audio s)) \<le> tl_max_output_samples limits
          \<and> (\<exists>w1 w2 now g. tenv_generate env str speed (tl_max_output_samples limits) w1 = (Inr g, w2)
              \<and> tenv_check env w2 = ((False, now), w') \<and> remaining now context \<noteq> Some 0))"
proof (intro conjI allI impI)
  show "fst (snd (tts_synthesize env limits str speed context (l, w))) = l"
    using assms by (rule tts_synthesize_permit)
  show "\<not> tts_input_ok limits str speed
      \<Longrightarrow> tts_synthesize env limits str speed context (l, w) = (Inl TtsInvalidInput, l, w)"
    by (simp add: tts_synthesize_def)
  fix s l' w'
  assume "tts_synthesize env limits str speed context (l, w) = (Inr s, l', w')"
  note r = tts_synthesize_Inr [OF this]
  then show "wf_pcm (sy_audio s)" using mono_pcm_new_wf by blast
  from r show "length (pcm_samples (sy_audio s)) \<le> tl_max_output_samples limits"
    by (auto simp: mono_pcm_new_Inr_iff)
  from r show "\<exists>w1 w2 now g. tenv_generate env str speed (tl_max_output_samples limits) w1 = (Inr g, w2)
      \<and> tenv_check env w2 = ((False, now), w') \<and> remaining now context \<noteq> Some 0"
    by blast
qed

definition hum_env :: "nat tts_env" where
  "hum_env = \<lparr>tenv_check = \<lambda>w. ((False, w), w + 1),
     tenv_generate = \<lambda>_ _ _ w. (Inr \<lparr>ga_rate = 22050, ga_samples = [Fin 0]\<rparr>, w + 1)\<rparr>"

theorem tts_synthesize_fenced_witness:
  "tts_synthesize hum_env tts_limits_default [32, 9, 12288] (Fin 1)
     \<lparr>rc_id = 1, rc_cancellation = token_new, rc_deadline = None\<rparr>
     (\<lparr>lim_active = 0, lim_maximum = 1\<rparr>, 0)
   = (Inl TtsInvalidInput, \<lparr>lim_active = 0, lim_maximum = 1\<rparr>, 0)"
proof -
  have "\<not> tts_input_ok tts_limits_default [32, 9, 12288] (Fin 1)"
    by (simp add: tts_input_ok_def str_trim_def is_whitespace_def)
  moreover have b: "limiter_bounded \<lparr>lim_active = 0, lim_maximum = 1\<rparr>"
    by (simp add: limiter_bounded_def u64_max_def)
  ultimately show ?thesis
    using tts_synthesize_fenced [OF b, of hum_env tts_limits_default "[32, 9, 12288]" "Fin 1" _ 0] by simp
qed

end
