(* ===== verification/Voice_Api.thy ===== *)
theory Voice_Api
  imports Stt Tts Strings
begin

text \<open>
  \<open>crates/impossible-voice-server/src/voice_api.rs\<close>, the HTTP part: the backend boundary, its
  errors and their HTTP form, audio admission from headers and multipart fields, transcription
  and speech. HTTP itself, the multipart parser and JSON are libraries: a handler is given the
  parsed request. \<open>engines.rs\<close>' implementation of the boundary on the two engines is here too.
\<close>

section \<open>The backend boundary\<close>

datatype backend_error =
  BackendInvalidInput | BackendBusy | BackendCancelled | BackendDeadlineExceeded | BackendEngine

fun map_stt_error :: "stt_error \<Rightarrow> backend_error" where
  "map_stt_error SttInvalidInput = BackendInvalidInput"
| "map_stt_error SttAudio = BackendInvalidInput"
| "map_stt_error SttBusy = BackendBusy"
| "map_stt_error SttCancelled = BackendCancelled"
| "map_stt_error SttDeadlineExceeded = BackendDeadlineExceeded"
| "map_stt_error SttEngine = BackendEngine"

fun map_tts_error :: "tts_error \<Rightarrow> backend_error" where
  "map_tts_error TtsInvalidInput = BackendInvalidInput"
| "map_tts_error TtsOutput = BackendInvalidInput"
| "map_tts_error TtsBusy = BackendBusy"
| "map_tts_error TtsCancelled = BackendCancelled"
| "map_tts_error TtsDeadlineExceeded = BackendDeadlineExceeded"
| "map_tts_error TtsEngine = BackendEngine"

text \<open>
  The traits \<open>VoiceBackend\<close> and \<open>RealtimeTranscriber\<close>; \<open>'t\<close> is an
  open transcriber and \<open>vb_drop\<close> what dropping one does.
\<close>

record ('t, 'w) voice_backend =
  vb_transcribe :: "mono_pcm \<Rightarrow> request_context \<Rightarrow> ('w, backend_error, string) action"
  vb_synthesize :: "ustr \<Rightarrow> f32 \<Rightarrow> request_context \<Rightarrow> ('w, backend_error, synthesis) action"
  vb_start :: "nat \<Rightarrow> request_context \<Rightarrow> ('w, backend_error, 't) action"
  vb_push :: "'t \<Rightarrow> u8 list \<Rightarrow> 'w \<Rightarrow> (backend_error + transcript list) \<times> 't \<times> 'w"
  vb_finish :: "'t \<Rightarrow> ('w, backend_error, transcript) action"
  vb_drop :: "'t \<Rightarrow> 'w \<Rightarrow> 'w"

section \<open>The engines behind it (\<open>engines.rs\<close>)\<close>

record 'w engines_state =
  es_stt :: limiter
  es_tts :: limiter
  es_world :: 'w

definition engines_transcribe ::
  "('st, 'w) stt_env \<Rightarrow> stt_engine \<Rightarrow> mono_pcm \<Rightarrow> request_context \<Rightarrow>
    ('w engines_state, backend_error, string) action"
where
  "engines_transcribe env engine audio context s =
     (case stt_transcribe env engine audio context (es_stt s, es_world s) of
        (r, l, w) \<Rightarrow> (map_err map_stt_error r, s\<lparr>es_stt := l, es_world := w\<rparr>))"

definition engines_synthesize ::
  "'w tts_env \<Rightarrow> tts_limits \<Rightarrow> ustr \<Rightarrow> f32 \<Rightarrow> request_context \<Rightarrow>
    ('w engines_state, backend_error, synthesis) action"
where
  "engines_synthesize env limits str speed context s =
     (case tts_synthesize env limits str speed context (es_tts s, es_world s) of
        (r, l, w) \<Rightarrow> (map_err map_tts_error r, s\<lparr>es_tts := l, es_world := w\<rparr>))"

definition engines_start ::
  "('st, 'w) stt_env \<Rightarrow> stt_engine \<Rightarrow> nat \<Rightarrow> request_context \<Rightarrow>
    ('w engines_state, backend_error, ('st, 'w) session) action"
where
  "engines_start env engine rate context s =
     (case start_stream env engine rate context (es_stt s, es_world s) of
        (r, l, w) \<Rightarrow> (map_err map_stt_error r, s\<lparr>es_stt := l, es_world := w\<rparr>))"

definition engines_push ::
  "('st, 'w) stt_env \<Rightarrow> ('st, 'w) session \<Rightarrow> u8 list \<Rightarrow> 'w engines_state \<Rightarrow>
    (backend_error + transcript list) \<times> ('st, 'w) session \<times> 'w engines_state"
where
  "engines_push env t bytes s =
     (case push_pcm16 env bytes (t\<lparr>ss_world := es_world s\<rparr>) of
        (r, t') \<Rightarrow> (map_err map_stt_error r, t', s\<lparr>es_world := ss_world t'\<rparr>))"

text \<open>\<open>finish\<close> consumes the session, so its stream and then its permit are dropped.\<close>

definition engines_drop ::
  "('st, 'w) stt_env \<Rightarrow> ('st, 'w) session \<Rightarrow> 'w engines_state \<Rightarrow> 'w engines_state"
where
  "engines_drop env t s =
     s\<lparr>es_stt := limiter_release (es_stt s), es_world := env_drop env (ss_stream t) (es_world s)\<rparr>"

definition engines_finish ::
  "('st, 'w) stt_env \<Rightarrow> ('st, 'w) session \<Rightarrow> ('w engines_state, backend_error, transcript) action"
where
  "engines_finish env t s =
     (case session_finish env (t\<lparr>ss_world := es_world s\<rparr>) of
        (r, t') \<Rightarrow> (map_err map_stt_error r, engines_drop env t' (s\<lparr>es_world := ss_world t'\<rparr>)))"

definition engines_backend ::
  "('st, 'w) stt_env \<Rightarrow> stt_engine \<Rightarrow> 'w tts_env \<Rightarrow> tts_limits \<Rightarrow>
    (('st, 'w) session, 'w engines_state) voice_backend"
where
  "engines_backend env engine tenv limits =
     \<lparr>vb_transcribe = engines_transcribe env engine,
      vb_synthesize = engines_synthesize tenv limits,
      vb_start = engines_start env engine, vb_push = engines_push env,
      vb_finish = engines_finish env, vb_drop = engines_drop env\<rparr>"

section \<open>HTTP errors\<close>

record api_error =
  ae_status :: nat
  ae_code :: string
  ae_message :: string

definition api_invalid :: "string \<Rightarrow> api_error" where
  "api_invalid message = \<lparr>ae_status = 400, ae_code = ''invalid_request'', ae_message = message\<rparr>"

fun api_error_of :: "backend_error \<Rightarrow> api_error" where
  "api_error_of BackendInvalidInput = api_invalid ''voice input is invalid''"
| "api_error_of BackendBusy =
     \<lparr>ae_status = 429, ae_code = ''overloaded'', ae_message = ''voice capacity is busy''\<rparr>"
| "api_error_of BackendCancelled =
     \<lparr>ae_status = 503, ae_code = ''cancelled'', ae_message = ''the request was cancelled''\<rparr>"
| "api_error_of BackendDeadlineExceeded =
     \<lparr>ae_status = 504, ae_code = ''deadline_exceeded'',
      ae_message = ''the request deadline was exceeded''\<rparr>"
| "api_error_of BackendEngine =
     \<lparr>ae_status = 500, ae_code = ''engine_error'', ae_message = ''the local voice engine failed''\<rparr>"

section \<open>Audio admission\<close>

definition parse_u32 :: "string \<Rightarrow> nat option" where
  "parse_u32 = parse_unsigned u32_max"

text \<open>\<open>find_map\<close> over the parameters after the media type.\<close>

fun rate_parameter :: "string list \<Rightarrow> nat option" where
  "rate_parameter [] = None"
| "rate_parameter (p # ps) =
     (case (case split_once (CHR ''='') (ascii_trim p) of
              None \<Rightarrow> None
            | Some (key, v) \<Rightarrow>
                if ascii_lower key = ''rate'' then parse_u32 (ascii_trim v) else None) of
        Some rate \<Rightarrow> Some rate
      | None \<Rightarrow> rate_parameter ps)"

definition decode_audio :: "string \<Rightarrow> nat option \<Rightarrow> u8 list \<Rightarrow> api_error + mono_pcm" where
  "decode_audio content_type explicit_rate bytes =
     (let media_type = ascii_lower (ascii_trim (hd (split_on (CHR '';'') content_type))) in
      if media_type = ''audio/wav'' \<or> media_type = ''audio/x-wav'' then
        if explicit_rate \<noteq> None
        then Inl (api_invalid ''WAV sample rate is embedded in the file'')
        else map_err (\<lambda>_. api_invalid ''WAV audio is invalid'') (from_wav bytes audio_limits_default)
      else if media_type = ''audio/pcm'' \<or> media_type = ''audio/l16'' then
        let parameter_rate = rate_parameter (tl (split_on (CHR '';'') content_type)) in
        and_then (ok_or (api_invalid ''raw PCM sample rate is required'')
            (case explicit_rate of Some r \<Rightarrow> Some r | None \<Rightarrow> parameter_rate)) (\<lambda>rate.
          map_err (\<lambda>_. api_invalid ''raw PCM16 audio is invalid'')
            (from_pcm16_le bytes rate audio_limits_default))
      else Inl (api_invalid ''audio content type is unsupported''))"

text \<open>The two headers the native route reads; \<open>None\<close> when absent or not ASCII text.\<close>

definition decode_http_audio ::
  "string option \<Rightarrow> string option \<Rightarrow> u8 list \<Rightarrow> api_error + mono_pcm"
where
  "decode_http_audio content_type rate_header bytes =
     and_then (ok_or (api_invalid ''content-type is required'') content_type) (\<lambda>content_type.
     and_then (case rate_header of
                 None \<Rightarrow> Inr None
               | Some v \<Rightarrow> map_ok Some (ok_or (api_invalid ''sample rate is malformed'') (parse_u32 v)))
       (\<lambda>sample_rate. decode_audio content_type sample_rate bytes))"

section \<open>Transcription\<close>

definition api_transcribe ::
  "('t, 'w) voice_backend \<Rightarrow> request_context \<Rightarrow> mono_pcm \<Rightarrow> ('w, api_error, string) action"
where
  "api_transcribe backend context audio w =
     (case vb_transcribe backend audio context w of (r, w') \<Rightarrow> (map_err api_error_of r, w'))"

definition native_transcription ::
  "('t, 'w) voice_backend \<Rightarrow> request_context \<Rightarrow> string option \<Rightarrow> string option \<Rightarrow> u8 list \<Rightarrow>
    ('w, api_error, string) action"
where
  "native_transcription backend context content_type rate_header body =
     bind_st (lift_res (decode_http_audio content_type rate_header body))
       (api_transcribe backend context)"

text \<open>
  What the multipart parser yields next: a field with its name, content type and body, a field
  whose body is malformed, or a malformed request. The end of the list is the end of the body.
\<close>

datatype multipart_item =
  Field "string option" "string option" "u8 list"
| MalformedField
| MalformedBody

definition max_multipart_field_bytes :: nat where
  "max_multipart_field_bytes = 64 * 1024"

fun multipart_loop ::
  "multipart_item list \<Rightarrow> (string option \<times> u8 list) option \<Rightarrow> nat option \<Rightarrow>
    api_error + (string option \<times> u8 list) option \<times> nat option"
where
  "multipart_loop [] audio rate = Inr (audio, rate)"
| "multipart_loop (MalformedBody # items) audio rate =
     Inl (api_invalid ''multipart body is malformed'')"
| "multipart_loop (MalformedField # items) audio rate =
     Inl (api_invalid ''multipart field is malformed'')"
| "multipart_loop (Field name content_type bytes # items) audio rate =
     (let name = (case name of Some n \<Rightarrow> n | None \<Rightarrow> []) in
      if name = ''file'' \<and> audio = None
      then multipart_loop items (Some (content_type, bytes)) rate
      else if name = ''sample_rate'' \<and> length bytes \<le> 16
      then and_then (ok_or (api_invalid ''sample_rate is malformed'')
             (parse_u32 (map (\<lambda>b. char_of (unat b)) bytes))) (\<lambda>r. multipart_loop items audio (Some r))
      else if name = ''model'' \<and> length bytes \<le> max_multipart_field_bytes
      then multipart_loop items audio rate
      else Inl (api_invalid ''multipart field is unsupported or duplicated''))"

definition openai_transcription ::
  "('t, 'w) voice_backend \<Rightarrow> request_context \<Rightarrow> multipart_item list \<Rightarrow> ('w, api_error, string) action"
where
  "openai_transcription backend context items =
     bind_st (lift_res
       (and_then (multipart_loop items None None) (\<lambda>(audio, sample_rate).
        and_then (ok_or (api_invalid ''file is required'') audio) (\<lambda>(content_type, bytes).
          decode_audio
            (case content_type of Some c \<Rightarrow> c | None \<Rightarrow> ''application/octet-stream'')
            sample_rate bytes))))
       (api_transcribe backend context)"

section \<open>Speech\<close>

record speech_request =
  sr_input :: ustr
  sr_speed :: f32
  sr_format :: string
  sr_model :: "string option"
  sr_voice :: "string option"

definition default_speed :: f32 where "default_speed = Fin 1"
definition default_format :: string where "default_format = ''wav''"

text \<open>A response is its body and the headers set by the handler; \<open>HSampleRate\<close> is decimal.\<close>

record speech_response =
  sp_body :: "u8 list"
  sp_content_type :: string
  sp_sample_rate :: nat
  sp_channels :: string
  sp_format :: string

definition speech ::
  "('t, 'w) voice_backend \<Rightarrow> request_context \<Rightarrow> speech_request \<Rightarrow>
    ('w, api_error, speech_response) action"
where
  "speech backend context request w =
     (if (case sr_model request of None \<Rightarrow> False | Some m \<Rightarrow> m \<noteq> ''impossible-voice-tts'')
         \<or> (case sr_voice request of None \<Rightarrow> False | Some v \<Rightarrow> v \<noteq> ''kristin'')
      then (Inl (api_invalid ''model or voice is unsupported''), w)
      else if \<not> (sr_format request = ''wav'' \<or> sr_format request = ''pcm'')
      then (Inl (api_invalid ''response_format must be wav or pcm''), w)
      else
        (case vb_synthesize backend (sr_input request) (sr_speed request) context w of
           (Inl e, w) \<Rightarrow> (Inl (api_error_of e), w)
         | (Inr synthesis, w) \<Rightarrow>
             (map_ok (\<lambda>(content_type, bytes).
                \<lparr>sp_body = bytes, sp_content_type = content_type,
                 sp_sample_rate = pcm_rate (sy_audio synthesis), sp_channels = ''1'',
                 sp_format = ''pcm_s16le''\<rparr>)
               (if sr_format request = ''wav''
                then map_ok (Pair ''audio/wav'')
                       (map_err (\<lambda>_. api_error_of BackendEngine) (synthesis_wav synthesis))
                else Inr (''audio/pcm'', synthesis_pcm16 synthesis)), w)))"

section \<open>What admission guarantees\<close>

lemma from_pcm16_le_valid:
  assumes "from_pcm16_le bytes rate limits = Inr a"
  shows "wf_pcm a \<and> (\<forall>s\<in>set (pcm_samples a). f32_sample s) \<and> validate_pcm limits a = Inr ()
    \<and> 2 * length (pcm_samples a) \<le> max_encoded_bytes limits"
proof -
  from assms have a: "a = \<lparr>pcm_rate = rate, pcm_samples = decode_pairs bytes\<rparr>"
    and ev: "even (length bytes)" "bytes \<noteq> []" "rate \<in> set supported_sample_rates"
    and adm: "admit limits (length bytes) rate (length bytes div 2) = Inr ()"
    by (simp_all add: from_pcm16_le_Inr_iff)
  have "decode_pairs bytes \<noteq> []" using ev by (cases bytes rule: decode_pairs.cases) auto
  moreover have "length bytes div 2 * 1000 \<le> u64_max" using adm by (simp add: admit_Inr_iff)
  ultimately show ?thesis
    using ev adm decode_pairs_f32_sample valid_decode_pairs
    by (auto simp: a wf_pcm_def validate_pcm_def length_decode_pairs checked_mul64_def admit_Inr_iff)
qed

lemma from_wav_pcm16:
  "from_wav bytes limits = Inr a \<Longrightarrow> \<exists>pcm rate. from_pcm16_le pcm rate limits = Inr a"
  by (auto simp: from_wav_def res_simps split: if_splits prod.splits)

lemma decode_audio_pcm16:
  "decode_audio content_type rate bytes = Inr a \<Longrightarrow>
     \<exists>pcm rate. from_pcm16_le pcm rate audio_limits_default = Inr a"
  by (auto simp: decode_audio_def Let_def res_simps split: if_splits dest: from_wav_pcm16)

lemma native_transcription_audio:
  "decode_http_audio content_type header bytes = Inr a \<Longrightarrow>
     \<exists>pcm rate. from_pcm16_le pcm rate audio_limits_default = Inr a"
  by (auto simp: decode_http_audio_def res_simps dest: decode_audio_pcm16)

section \<open>Multipart fields\<close>

definition is_file :: "multipart_item \<Rightarrow> bool" where
  "is_file item \<longleftrightarrow> (case item of Field n _ _ \<Rightarrow> n = Some ''file'' | _ \<Rightarrow> False)"

definition allowed_field :: "multipart_item \<Rightarrow> bool" where
  "allowed_field item \<longleftrightarrow>
     (case item of
        Field n _ bytes \<Rightarrow> n = Some ''file''
          \<or> n = Some ''sample_rate'' \<and> length bytes \<le> 16
          \<or> n = Some ''model'' \<and> length bytes \<le> max_multipart_field_bytes
      | _ \<Rightarrow> False)"

lemma multipart_loop_fields:
  assumes "multipart_loop items audio rate = Inr (audio', rate')"
  shows "list_all allowed_field items
    \<and> (case audio of
        Some x \<Rightarrow> audio' = Some x \<and> filter is_file items = []
      | None \<Rightarrow> filter is_file items
          = (case audio' of None \<Rightarrow> [] | Some (c, b) \<Rightarrow> [Field (Some ''file'') c b]))"
  using assms
  by (induction items audio rate rule: multipart_loop.induct)
    (auto simp: Let_def res_simps is_file_def allowed_field_def split: if_splits option.splits)

section \<open>Properties\<close>

text \<open>
  Whatever either HTTP route admits, as WAV or raw PCM, is a valid recording of \<open>f32\<close>
  samples within the default limits, which the recognizer's own validation accepts and which
  resamples to 16 kHz without error: a request past admission cannot fail for its audio.
\<close>

theorem admitted_audio_is_usable:
  assumes "decode_audio content_type rate bytes = Inr a"
  shows "wf_pcm a \<and> validate_pcm audio_limits_default a = Inr ()
    \<and> (\<exists>b. resample a engine_sample_rate = Inr b \<and> wf_pcm b)"
proof -
  from decode_audio_pcm16 [OF assms] obtain pcm r where
    "from_pcm16_le pcm r audio_limits_default = Inr a" by blast
  note v = from_pcm16_le_valid [OF this]
  obtain r' xs where a: "a = \<lparr>pcm_rate = r', pcm_samples = xs\<rparr>" by (cases a)
  have "length xs * 48000 < u64_max" using v by (simp add: a audio_limits_default_def u64_max_def)
  then have adm: "resample_admissible xs" by (simp add: resample_admissible_def)
  have src: "r' \<in> set supported_sample_rates" "xs \<noteq> []" "\<forall>s\<in>set xs. f32_sample s"
    using v by (simp_all add: a wf_pcm_def)
  have t: "engine_sample_rate \<in> set supported_sample_rates"
    by (simp add: engine_sample_rate_def supported_sample_rates_def)
  have "resampled r' engine_sample_rate xs \<noteq> []" using src(2) by (simp add: resampled_def)
  with resampled_f32_sample [OF src(1) t src(3)] t
  have "wf_pcm \<lparr>pcm_rate = engine_sample_rate, pcm_samples = resampled r' engine_sample_rate xs\<rparr>"
    by (simp add: wf_pcm_def f32_sample_def)
  with resample_f32 [OF src(1) t src(2,3) adm] v show ?thesis by (simp add: a)
qed

lemma rate_example: "rate_parameter ['' channels=1'', '' Rate= 8000''] = Some 8000"
proof -
  have 1: "split_once (CHR ''='') (ascii_trim '' channels=1'') = Some (''channels'', ''1'')" by code_simp
  have 2: "split_once (CHR ''='') (ascii_trim '' Rate= 8000'') = Some (''Rate'', '' 8000'')" by code_simp
  have 3: "ascii_lower ''channels'' = ''channels''" "ascii_lower ''Rate'' = ''rate''"
    "ascii_trim '' 8000'' = ''8000''" by code_simp+
  have 4: "parse_u32 ''8000'' = Some 8000"
    by (simp add: parse_u32_def parse_unsigned_def digit_value_def u32_max_def)
  show ?thesis by (simp add: 1 2 3 4)
qed

theorem admitted_audio_is_usable_witness:
  "\<exists>a b. decode_audio ''Audio/L16; channels=1; Rate= 8000'' None [1, 2] = Inr a
    \<and> resample a engine_sample_rate = Inr b"
proof -
  have 1: "from_pcm16_le [1, 2] 8000 audio_limits_default
    = Inr \<lparr>pcm_rate = 8000, pcm_samples = decode_pairs [1, 2]\<rparr>"
    by (simp add: from_pcm16_le_Inr_iff admit_Inr_iff audio_limits_default_def
        supported_sample_rates_def u64_max_def)
  have 2: "split_on (CHR '';'') ''Audio/L16; channels=1; Rate= 8000''
    = [''Audio/L16'', '' channels=1'', '' Rate= 8000'']" by code_simp
  have 3: "ascii_lower (ascii_trim ''Audio/L16'') = ''audio/l16''" by code_simp
  have "\<exists>a. decode_audio ''Audio/L16; channels=1; Rate= 8000'' None [1, 2] = Inr a"
    unfolding decode_audio_def 2 by (simp add: 1 3 rate_example del: decode_pairs.simps rate_parameter.simps)
  then show ?thesis using admitted_audio_is_usable by blast
qed

text \<open>
  The two speech formats carry the same audio. When a synthesis is answered as \<open>wav\<close>, the
  body decodes, under limits that admit it, to what the \<open>pcm\<close> body of the same synthesis decodes
  to at the rate given in the header.
\<close>

theorem speech_formats_agree:
  assumes "wf_pcm (sy_audio synthesis)"
    and "vb_synthesize backend (sr_input request) (sr_speed request) context w = (Inr synthesis, w1)"
    and "speech backend context (request\<lparr>sr_format := ''wav''\<rparr>) w = (Inr wav, w2)"
    and "speech backend context (request\<lparr>sr_format := ''pcm''\<rparr>) w = (Inr pcm, w3)"
    and "admit limits (length (sp_body wav)) 48000 0 = Inr ()"
  shows "from_wav (sp_body wav) limits = from_pcm16_le (sp_body pcm) (sp_sample_rate wav) limits
    \<and> sp_sample_rate pcm = sp_sample_rate wav \<and> sp_content_type wav = ''audio/wav''
    \<and> sp_content_type pcm = ''audio/pcm''"
proof -
  from assms(2,3) have w: "to_wav_pcm16 (sy_audio synthesis) = Inr (sp_body wav)"
    "sp_sample_rate wav = pcm_rate (sy_audio synthesis)" "sp_content_type wav = ''audio/wav''"
    by (auto simp: speech_def synthesis_wav_def res_simps split: if_splits)
  from assms(2,4) have p: "sp_body pcm = to_pcm16_le (sy_audio synthesis)"
    "sp_sample_rate pcm = pcm_rate (sy_audio synthesis)" "sp_content_type pcm = ''audio/pcm''"
    by (auto simp: speech_def synthesis_pcm16_def res_simps split: if_splits)
  from from_wav_to_wav [OF w(1) assms(1,5)] w p show ?thesis by simp
qed

definition chime_backend :: "(unit, unit) voice_backend" where
  "chime_backend = \<lparr>vb_transcribe = \<lambda>_ _. fail BackendEngine,
     vb_synthesize = \<lambda>_ _ _. ret \<lparr>sy_audio = \<lparr>pcm_rate = 8000, pcm_samples = decode_pairs [0, 64]\<rparr>, sy_max_chunk = 1\<rparr>,
     vb_start = \<lambda>_ _. ret (), vb_push = \<lambda>_ _ _. (Inr [], (), ()),
     vb_finish = \<lambda>_. fail BackendEngine, vb_drop = \<lambda>_ w. w\<rparr>"

theorem speech_formats_agree_witness:
  "\<exists>bytes. to_wav_pcm16 \<lparr>pcm_rate = 8000, pcm_samples = decode_pairs [0, 64]\<rparr> = Inr bytes
    \<and> from_wav bytes audio_limits_default = from_pcm16_le [0, 64] 8000 audio_limits_default"
proof -
  let ?a = "\<lparr>pcm_rate = 8000, pcm_samples = decode_pairs [0, 64]\<rparr>"
  let ?s = "\<lparr>sy_audio = ?a, sy_max_chunk = 1\<rparr>"
  let ?r = "\<lparr>sr_input = [104], sr_speed = default_speed, sr_format = default_format, sr_model = None, sr_voice = Some ''kristin''\<rparr>"
  have wf: "wf_pcm (sy_audio ?s)"
    by (simp add: wf_pcm_def supported_sample_rates_def valid_decode_sample)
  have enc: "to_pcm16_le ?a = [0, 64]"
    using encode_decode_pairs [of "[0, 64]"] by (simp add: to_pcm16_le_def)
  obtain bytes where b: "to_wav_pcm16 ?a = Inr bytes" "length bytes = 46"
    by (simp add: to_wav_pcm16_def num_defs u32_max_def to_pcm16_le_def Let_def)
  define wav where "wav = \<lparr>sp_body = bytes, sp_content_type = ''audio/wav'', sp_sample_rate = 8000,
    sp_channels = ''1'', sp_format = ''pcm_s16le''\<rparr>"
  define pcm where "pcm = \<lparr>sp_body = [0, 64], sp_content_type = ''audio/pcm'', sp_sample_rate = 8000,
    sp_channels = ''1'', sp_format = ''pcm_s16le''\<rparr>"
  have "from_wav (sp_body wav) audio_limits_default
      = from_pcm16_le (sp_body pcm) (sp_sample_rate wav) audio_limits_default
    \<and> sp_sample_rate pcm = sp_sample_rate wav \<and> sp_content_type wav = ''audio/wav''
    \<and> sp_content_type pcm = ''audio/pcm''"
    by (rule speech_formats_agree [OF wf, of chime_backend ?r _ "()" "()" wav "()" pcm "()"])
      (use b enc in \<open>simp_all add: chime_backend_def speech_def synthesis_wav_def synthesis_pcm16_def
        wav_def pcm_def admit_Inr_iff audio_limits_default_def u64_max_def del: decode_pairs.simps\<close>)
  then show ?thesis using b(1) by (simp add: wav_def pcm_def)
qed

text \<open>
  Multipart admission is strict. A transcription form is accepted only when every part is a
  \<open>file\<close>, a short \<open>sample_rate\<close> or a bounded \<open>model\<close> field, and
  the audio that is decoded is that of its only \<open>file\<close> part.
\<close>

theorem multipart_accepts_one_file:
  assumes "multipart_loop items None None = Inr (Some (content_type, bytes), rate)"
  shows "list_all allowed_field items \<and> filter is_file items = [Field (Some ''file'') content_type bytes]"
  using multipart_loop_fields [OF assms] by simp

theorem multipart_accepts_one_file_witness:
  "filter is_file [Field (Some ''model'') None [], Field (Some ''file'') None [1, 2]]
    = [Field (Some ''file'') None [1, 2]]"
  using multipart_accepts_one_file [of "[Field (Some ''model'') None [], Field (Some ''file'') None [1, 2]]" None "[1, 2]" None]
  by simp

end
