(* ===== verification/Realtime.thy ===== *)
theory Realtime
  imports Voice_Api
begin

text \<open>
  \<open>crates/impossible-voice-server/src/voice_api.rs\<close>, the WebSocket part:
  \<open>realtime\<close>, \<open>websocket_session\<close>, \<open>websocket_loop\<close> and
  \<open>handle_client_event\<close>. The session runs against the sequence of things that happen to it:
  messages received (text already parsed by serde into a client event, or \<open>None\<close> when it is
  not one) and the completion of the synthesis worker; the sequence ends when the session timeout fires.
  Sending may fail, or be cut by the timeout, at any point, as \<open>we_send\<close> decides, and a
  synthesis the session gives up may still run to its end, as \<open>we_abandoned\<close> decides. What
  the output obeys is proved in \<open>Realtime_Protocol\<close>, what the session does with its permits
  in \<open>Realtime_Permits\<close>, and that it is the backend's session in \<open>Transports\<close>.
\<close>

section \<open>Messages\<close>

datatype session_mode = ModeStt | ModeTts

datatype client_event =
  SessionStart session_mode "nat option"
| AudioAppend nat
| AudioCommit
| SpeechGenerate ustr f32
| ClientCancel
| ClientPing
| ClientClose

record server_event =
  ev_kind :: string
  ev_session_id :: nat
  ev_text :: "string option"
  ev_code :: "string option"
  ev_sample_rate :: "nat option"
  ev_channels :: "nat option"
  ev_chunking :: "string option"

datatype ws_message =
  WsText "client_event option"
| WsBinary "u8 list"
| WsPing "u8 list"
| WsPong "u8 list"
| WsClose

text \<open>
  \<open>Recv None\<close> is the end of the stream, \<open>Recv (Some (Inl ()))\<close> a transport error;
  \<open>WorkerDone panicked\<close> is the end of the blocking synthesis task.
\<close>

datatype ws_input =
  Recv "(unit + ws_message) option"
| WorkerDone bool

datatype ws_out = OutEvent server_event | OutBinary "u8 list" | OutPong "u8 list" | OutClose nat string

section \<open>The session\<close>

text \<open>Why the loop stopped with no result: \<open>Err(())\<close>, or the timeout dropped it.\<close>

datatype ws_stop = WsFail | WsTimeout

definition max_ws_message_bytes :: nat where "max_ws_message_bytes = 64 * 1024"
definition max_ws_session_seconds :: nat where "max_ws_session_seconds = 5 * 60"
definition tts_chunk_bytes :: nat where "tts_chunk_bytes = 32 * 1024"

record ('t, 'w) ws_env =
  we_backend :: "('t, 'w) voice_backend"
  we_send :: "ws_out \<Rightarrow> 'w \<Rightarrow> ws_stop option \<times> 'w"
  we_context :: request_context
  we_abandoned :: "'w \<Rightarrow> bool option"

record ('t, 'w) ws =
  ws_mode :: "session_mode option"
  ws_pending :: "nat option"
  ws_transcriber :: "'t option"
  ws_completed :: bool
  ws_failure :: "backend_error option"
  ws_cancelled :: bool
  ws_inputs :: "ws_input list"
  ws_sent :: "ws_out list"
  ws_cut :: "(nat \<times> ws_out) list"
  ws_world :: 'w

text \<open>
  A send completes, fails, or is interrupted by the session timeout. Only a completed send counts
  as sent: \<open>ws_sent\<close> is what the program knows it wrote. An interrupted one may have left its frame
  in the sink's buffer, and the next send then flushes it; \<open>ws_cut\<close> records that frame with the
  position in \<open>ws_sent\<close> at which the peer may see it besides.
\<close>

definition ws_send :: "('t, 'w) ws_env \<Rightarrow> ws_out \<Rightarrow> (('t, 'w) ws, ws_stop, unit) action" where
  "ws_send env out s =
     (case we_send env out (ws_world s) of
        (None, w) \<Rightarrow> (Inr (), s\<lparr>ws_world := w, ws_sent := ws_sent s @ [out]\<rparr>)
      | (Some WsFail, w) \<Rightarrow> (Inl WsFail, s\<lparr>ws_world := w\<rparr>)
      | (Some WsTimeout, w) \<Rightarrow>
          (Inl WsTimeout, s\<lparr>ws_world := w, ws_cut := ws_cut s @ [(length (ws_sent s), out)]\<rparr>))"

definition plain_event :: "('t, 'w) ws_env \<Rightarrow> string \<Rightarrow> server_event" where
  "plain_event env kind =
     \<lparr>ev_kind = kind, ev_session_id = rc_id (we_context env), ev_text = None, ev_code = None,
      ev_sample_rate = None, ev_channels = None, ev_chunking = None\<rparr>"

definition send_event :: "('t, 'w) ws_env \<Rightarrow> string \<Rightarrow> (('t, 'w) ws, ws_stop, unit) action" where
  "send_event env kind = ws_send env (OutEvent (plain_event env kind))"

definition send_error :: "('t, 'w) ws_env \<Rightarrow> string \<Rightarrow> (('t, 'w) ws, ws_stop, unit) action" where
  "send_error env code = ws_send env (OutEvent (plain_event env ''error''\<lparr>ev_code := Some code\<rparr>))"

definition send_transcript ::
  "('t, 'w) ws_env \<Rightarrow> transcript \<Rightarrow> (('t, 'w) ws, ws_stop, unit) action"
where
  "send_transcript env update =
     (let kind = (case tr_kind update of
            Interim \<Rightarrow> ''transcript_interim'' | Final \<Rightarrow> ''transcript_final'')
      in ws_send env (OutEvent (plain_event env kind\<lparr>ev_text := Some (tr_text update)\<rparr>)))"

text \<open>\<open>send_error(..).await?; return Err(())\<close>\<close>

definition protocol_error :: "('t, 'w) ws_env \<Rightarrow> string \<Rightarrow> (('t, 'w) ws, ws_stop, 'a) action" where
  "protocol_error env code = bind_st (send_error env code) (\<lambda>_. fail WsFail)"

definition fail_backend ::
  "('t, 'w) ws_env \<Rightarrow> backend_error \<Rightarrow> (('t, 'w) ws, ws_stop, 'a) action"
where
  "fail_backend env e s = protocol_error env (ae_code (api_error_of e)) (s\<lparr>ws_failure := Some e\<rparr>)"

definition cancel_token :: "('t, 'w) ws \<Rightarrow> ('t, 'w) ws" where
  "cancel_token s = s\<lparr>ws_cancelled := True\<rparr>"

fun send_all :: "('t, 'w) ws_env \<Rightarrow> ws_out list \<Rightarrow> (('t, 'w) ws, ws_stop, unit) action" where
  "send_all env [] = ret ()"
| "send_all env (out # outs) = bind_st (ws_send env out) (\<lambda>_. send_all env outs)"

fun send_transcripts :: "('t, 'w) ws_env \<Rightarrow> transcript list \<Rightarrow> (('t, 'w) ws, ws_stop, unit) action" where
  "send_transcripts env [] = ret ()"
| "send_transcripts env (u # us) = bind_st (send_transcript env u) (\<lambda>_. send_transcripts env us)"

section \<open>The select loop of \<open>speech_generate\<close>\<close>

text \<open>
  One branch of the select: wait on, the synthesis, or the end of the session. The worker runs
  \<open>synthesize\<close> on its own thread; its effects are placed where its result is taken.
\<close>

datatype generation = StillWaiting | Generated synthesis | SessionOver

definition generate_input ::
  "('t, 'w) ws_env \<Rightarrow> ustr \<Rightarrow> f32 \<Rightarrow> ws_input \<Rightarrow> (('t, 'w) ws, ws_stop, generation) action"
where
  "generate_input env str speed i s =
     (case i of
        WorkerDone True \<Rightarrow> fail_backend env BackendEngine s
      | WorkerDone False \<Rightarrow>
          (case vb_synthesize (we_backend env) str speed (we_context env) (ws_world s) of
             (Inr y, w) \<Rightarrow> (Inr (Generated y), s\<lparr>ws_world := w\<rparr>)
           | (Inl e, w) \<Rightarrow> fail_backend env e (s\<lparr>ws_world := w\<rparr>))
      | Recv None \<Rightarrow> (Inr SessionOver, cancel_token s)
      | Recv (Some (Inl _)) \<Rightarrow> (Inr SessionOver, cancel_token s)
      | Recv (Some (Inr WsClose)) \<Rightarrow> (Inr SessionOver, cancel_token s)
      | Recv (Some (Inr (WsText None))) \<Rightarrow> protocol_error env ''invalid_json'' (cancel_token s)
      | Recv (Some (Inr (WsText (Some command)))) \<Rightarrow>
          (case command of
             ClientCancel \<Rightarrow>
               bind_st (send_event env ''cancelled'') (\<lambda>_. ret SessionOver) (cancel_token s)
           | ClientClose \<Rightarrow> (Inr SessionOver, cancel_token s)
           | ClientPing \<Rightarrow> bind_st (send_event env ''pong'') (\<lambda>_. ret StillWaiting) s
           | _ \<Rightarrow> protocol_error env ''invalid_sequence'' (cancel_token s))
      | Recv (Some (Inr (WsPing bytes))) \<Rightarrow>
          bind_st (ws_send env (OutPong bytes)) (\<lambda>_. ret StillWaiting) s
      | Recv (Some (Inr (WsPong _))) \<Rightarrow> (Inr StillWaiting, s)
      | Recv (Some (Inr (WsBinary _))) \<Rightarrow>
          protocol_error env ''invalid_sequence'' (cancel_token s))"

text \<open>
  A session that ends without taking the result leaves its worker behind: \<open>worker.abort()\<close>,
  like dropping the handle, stops a blocking task only while the pool has not started it.
  \<open>we_abandoned\<close> says which it was: \<open>None\<close> for a task that never started,
  \<open>Some cancelled\<close> for one that runs on to its end, having found its token cancelled or
  not. Its effects are placed where the session leaves it. A worker that panics (\<open>WorkerDone
  True\<close>) unwinds; what it did before the panic is not modelled.
\<close>

definition abandoned_context :: "('t, 'w) ws_env \<Rightarrow> bool \<Rightarrow> request_context" where
  "abandoned_context env cancelled =
     (if cancelled then (we_context env)\<lparr>rc_cancellation := \<lparr>token_cancelled = True\<rparr>\<rparr>
      else we_context env)"

definition abandon_worker ::
  "('t, 'w) ws_env \<Rightarrow> ustr \<Rightarrow> f32 \<Rightarrow> ('t, 'w) ws \<Rightarrow> ('t, 'w) ws"
where
  "abandon_worker env str speed s =
     (case we_abandoned env (ws_world s) of
        None \<Rightarrow> s
      | Some cancelled \<Rightarrow>
          s\<lparr>ws_world := snd (vb_synthesize (we_backend env) str speed
                              (abandoned_context env cancelled) (ws_world s))\<rparr>)"

lemma abandon_worker_inputs [simp]: "ws_inputs (abandon_worker env str speed s) = ws_inputs s"
  by (simp add: abandon_worker_def split: option.split)

lemma ws_send_inputs [simp]: "ws_inputs (snd (ws_send env out s)) = ws_inputs s"
  by (simp add: ws_send_def split: prod.split option.split ws_stop.split)

lemma bind_st_inputs:
  assumes "ws_inputs (snd (m s)) = ws_inputs s" and "\<And>a t. ws_inputs (snd (f a t)) = ws_inputs t"
  shows "ws_inputs (snd (bind_st m f s)) = ws_inputs s"
  using assms by (cases "m s") (auto simp: bind_st_def split: sum.split)

lemma send_inputs [simp]:
  "ws_inputs (snd (send_event env k s)) = ws_inputs s"
  "ws_inputs (snd (send_error env c s)) = ws_inputs s"
  "ws_inputs (snd (send_transcript env u s)) = ws_inputs s"
  "ws_inputs (cancel_token s) = ws_inputs s"
  by (simp_all add: send_event_def send_error_def send_transcript_def cancel_token_def Let_def)

lemma protocol_error_inputs [simp]:
  "ws_inputs (snd (protocol_error env c s)) = ws_inputs s"
  "ws_inputs (snd (fail_backend env e s)) = ws_inputs s"
  by (simp_all add: protocol_error_def fail_backend_def bind_st_inputs)

lemma send_all_inputs [simp]: "ws_inputs (snd (send_all env outs s)) = ws_inputs s"
  by (induction outs arbitrary: s) (simp_all add: bind_st_inputs)

lemma send_transcripts_inputs [simp]: "ws_inputs (snd (send_transcripts env us s)) = ws_inputs s"
  by (induction us arbitrary: s) (simp_all add: bind_st_inputs)

lemma generate_input_inputs: "ws_inputs (snd (generate_input env str speed i s)) = ws_inputs s"
  by (auto simp: generate_input_def bind_st_inputs
      split: ws_input.split option.split sum.split ws_message.split client_event.split bool.split
        prod.split)

lemma generate_input_eq_inputs: "generate_input env str speed i s = (r, t) \<Longrightarrow> ws_inputs t = ws_inputs s"
  using generate_input_inputs [of env str speed i s] by simp

function generate_loop ::
  "('t, 'w) ws_env \<Rightarrow> ustr \<Rightarrow> f32 \<Rightarrow> (('t, 'w) ws, ws_stop, synthesis option) action"
where
  "generate_loop env str speed s =
     (case ws_inputs s of
        [] \<Rightarrow> (Inl WsTimeout, abandon_worker env str speed s)
      | i # rest \<Rightarrow>
          (case generate_input env str speed i (s\<lparr>ws_inputs := rest\<rparr>) of
             (Inl e, t) \<Rightarrow>
               (Inl e, case i of WorkerDone _ \<Rightarrow> t | Recv _ \<Rightarrow> abandon_worker env str speed t)
           | (Inr StillWaiting, t) \<Rightarrow> generate_loop env str speed t
           | (Inr (Generated y), t) \<Rightarrow> (Inr (Some y), t)
           | (Inr SessionOver, t) \<Rightarrow> (Inr None, abandon_worker env str speed t)))"
  by pat_completeness auto
termination
  by (relation "measure (\<lambda>(env, str, speed, s). length (ws_inputs s))")
    (auto dest: generate_input_eq_inputs sym [THEN generate_input_eq_inputs])

declare generate_loop.simps [simp del]

section \<open>Handling one event\<close>

definition session_start ::
  "('t, 'w) ws_env \<Rightarrow> session_mode \<Rightarrow> nat option \<Rightarrow> (('t, 'w) ws, ws_stop, bool) action"
where
  "session_start env mode sample_rate s =
     (let s = s\<lparr>ws_mode := Some mode\<rparr>;
          ready = bind_st (send_event env ''session_ready'') (\<lambda>_. ret False)
      in if mode = ModeStt then
           (case sample_rate of
              None \<Rightarrow> protocol_error env ''sample_rate_required'' s
            | Some rate \<Rightarrow>
                (case vb_start (we_backend env) rate (we_context env) (ws_world s) of
                   (Inl e, w) \<Rightarrow> fail_backend env e (s\<lparr>ws_world := w\<rparr>)
                 | (Inr t, w) \<Rightarrow> ready (s\<lparr>ws_transcriber := Some t, ws_world := w\<rparr>)))
         else if sample_rate \<noteq> None then protocol_error env ''sample_rate_not_allowed'' s
         else ready s)"

definition audio_commit :: "('t, 'w) ws_env \<Rightarrow> (('t, 'w) ws, ws_stop, bool) action" where
  "audio_commit env s =
     (case ws_transcriber s of
        None \<Rightarrow> protocol_error env ''invalid_sequence'' s
      | Some t \<Rightarrow>
          (case vb_finish (we_backend env) t (ws_world s) of
             (Inl e, w) \<Rightarrow> fail_backend env e (s\<lparr>ws_transcriber := None, ws_world := w\<rparr>)
           | (Inr update, w) \<Rightarrow>
               bind_st (send_transcript env update) (\<lambda>_.
               bind_st (update_st (ws_completed_update (\<lambda>_. True))) (\<lambda>_.
               bind_st (send_event env ''session_completed'') (\<lambda>_. ret False)))
                 (s\<lparr>ws_transcriber := None, ws_world := w\<rparr>)))"

definition speech_metadata :: "('t, 'w) ws_env \<Rightarrow> synthesis \<Rightarrow> ws_out" where
  "speech_metadata env y =
     OutEvent (plain_event env ''speech_metadata''
       \<lparr>ev_sample_rate := Some (pcm_rate (sy_audio y)), ev_channels := Some 1,
        ev_chunking := Some ''post_synthesis_transport''\<rparr>)"

text \<open>Generation: wait for the worker, then publish metadata, audio and completion.\<close>

definition publish_speech ::
  "('t, 'w) ws_env \<Rightarrow> synthesis \<Rightarrow> (('t, 'w) ws, ws_stop, bool) action"
where
  "publish_speech env y =
     bind_st (ws_send env (speech_metadata env y)) (\<lambda>_.
     bind_st (send_all env (map OutBinary (chunks tts_chunk_bytes (synthesis_pcm16 y)))) (\<lambda>_.
     bind_st (update_st (ws_completed_update (\<lambda>_. True))) (\<lambda>_.
     bind_st (send_event env ''speech_completed'') (\<lambda>_. ret False))))"

definition speech_generate ::
  "('t, 'w) ws_env \<Rightarrow> ustr \<Rightarrow> f32 \<Rightarrow> (('t, 'w) ws, ws_stop, bool) action"
where
  "speech_generate env str speed s =
     (case generate_loop env str speed s of
        (Inl e, s) \<Rightarrow> (Inl e, s)
      | (Inr None, s) \<Rightarrow> (Inr True, s)
      | (Inr (Some y), s) \<Rightarrow> if ws_cancelled s then (Inr True, s) else publish_speech env y s)"

text \<open>\<open>true\<close> ends the session.\<close>

definition handle_client_event ::
  "('t, 'w) ws_env \<Rightarrow> client_event \<Rightarrow> (('t, 'w) ws, ws_stop, bool) action"
where
  "handle_client_event env event s =
     (let invalid = protocol_error env ''invalid_sequence'' in
      case event of
        SessionStart mode sample_rate \<Rightarrow>
          if ws_mode s = None then session_start env mode sample_rate s else invalid s
      | AudioAppend bytes \<Rightarrow>
          if ws_mode s = Some ModeStt \<and> \<not> ws_completed s \<and> bytes > 0 \<and> bytes \<le> max_ws_message_bytes
          then (Inr False, s\<lparr>ws_pending := Some bytes\<rparr>)
          else invalid s
      | AudioCommit \<Rightarrow>
          if ws_mode s = Some ModeStt \<and> \<not> ws_completed s then audio_commit env s else invalid s
      | SpeechGenerate str speed \<Rightarrow>
          if ws_mode s = Some ModeTts \<and> \<not> ws_completed s then speech_generate env str speed s else invalid s
      | ClientCancel \<Rightarrow> bind_st (send_event env ''cancelled'') (\<lambda>_. ret True) (cancel_token s)
      | ClientPing \<Rightarrow> bind_st (send_event env ''pong'') (\<lambda>_. ret False) s
      | ClientClose \<Rightarrow> (Inr True, s))"

definition handle_binary :: "('t, 'w) ws_env \<Rightarrow> u8 list \<Rightarrow> (('t, 'w) ws, ws_stop, unit) action" where
  "handle_binary env bytes s =
     (case ws_pending s of
        None \<Rightarrow> protocol_error env ''audio_declaration_required'' s
      | Some expected \<Rightarrow>
          let s = s\<lparr>ws_pending := None\<rparr> in
          if length bytes \<noteq> expected \<or> expected > max_ws_message_bytes
          then protocol_error env ''audio_frame_invalid'' s
          else
            (case ws_transcriber s of
               None \<Rightarrow> protocol_error env ''stt_session_required'' s
             | Some t \<Rightarrow>
                 (case vb_push (we_backend env) t bytes (ws_world s) of
                    (r, t', w) \<Rightarrow>
                      let s = s\<lparr>ws_transcriber := Some t', ws_world := w\<rparr> in
                      (case r of
                         Inl e \<Rightarrow> fail_backend env e s
                       | Inr updates \<Rightarrow> send_transcripts env updates s))))"

text \<open>One message of the loop; \<open>true\<close> ends it with \<open>Ok(())\<close>.\<close>

definition handle_input :: "('t, 'w) ws_env \<Rightarrow> ws_input \<Rightarrow> (('t, 'w) ws, ws_stop, bool) action" where
  "handle_input env i s =
     (case i of
        Recv None \<Rightarrow> (Inr True, s)
      | Recv (Some (Inl _)) \<Rightarrow> (Inl WsFail, s)
      | Recv (Some (Inr (WsText event))) \<Rightarrow>
          if ws_pending s \<noteq> None then protocol_error env ''audio_frame_expected'' s
          else (case event of
                  None \<Rightarrow> protocol_error env ''invalid_json'' s
                | Some e \<Rightarrow> handle_client_event env e s)
      | Recv (Some (Inr (WsBinary bytes))) \<Rightarrow>
          bind_st (handle_binary env bytes) (\<lambda>_. ret False) s
      | Recv (Some (Inr (WsPing bytes))) \<Rightarrow>
          bind_st (ws_send env (OutPong bytes)) (\<lambda>_. ret False) s
      | Recv (Some (Inr (WsPong _))) \<Rightarrow> (Inr False, s)
      | Recv (Some (Inr WsClose)) \<Rightarrow> (Inr True, s)
      | WorkerDone _ \<Rightarrow> (Inr False, s))"

section \<open>Handlers only consume input\<close>

lemma generate_loop_inputs: "length (ws_inputs (snd (generate_loop env str speed s))) \<le> length (ws_inputs s)"
proof (induction env str speed s rule: generate_loop.induct)
  case (1 env str speed s)
  show ?case
  proof (cases "ws_inputs s")
    case (Cons i rest)
    obtain r t where g: "generate_input env str speed i (s\<lparr>ws_inputs := rest\<rparr>) = (r, t)" by fastforce
    have t: "ws_inputs t = rest" using generate_input_eq_inputs [OF g] by simp
    show ?thesis
    proof (cases "r = Inr StillWaiting")
      case True
      with 1 [OF Cons g [symmetric]] g t Cons show ?thesis
        by (simp add: generate_loop.simps [of env str speed s])
    next
      case False
      with g t Cons show ?thesis
        by (auto simp: generate_loop.simps [of env str speed s]
            split: sum.split generation.split ws_input.split)
    qed
  qed (simp add: generate_loop.simps [of env str speed s])
qed

lemma session_start_inputs [simp]: "ws_inputs (snd (session_start env mode rate s)) = ws_inputs s"
  by (simp add: session_start_def Let_def bind_st_inputs split: option.split prod.split sum.split)

lemma audio_commit_inputs [simp]: "ws_inputs (snd (audio_commit env s)) = ws_inputs s"
  by (simp add: audio_commit_def bind_st_inputs split: option.split prod.split sum.split)

lemma handle_binary_inputs [simp]: "ws_inputs (snd (handle_binary env bytes s)) = ws_inputs s"
  by (simp add: handle_binary_def Let_def split: option.split prod.split sum.split)

lemma publish_speech_inputs [simp]: "ws_inputs (snd (publish_speech env y s)) = ws_inputs s"
  by (simp add: publish_speech_def bind_st_inputs)

lemma speech_generate_inputs: "length (ws_inputs (snd (speech_generate env str speed s))) \<le> length (ws_inputs s)"
proof -
  obtain r t where g: "generate_loop env str speed s = (r, t)" by fastforce
  have "ws_inputs (snd (speech_generate env str speed s)) = ws_inputs t"
    by (simp add: speech_generate_def g split: sum.split option.split)
  then show ?thesis using generate_loop_inputs [of env str speed s] g by simp
qed

lemma handle_client_event_inputs:
  "length (ws_inputs (snd (handle_client_event env e s))) \<le> length (ws_inputs s)"
  by (cases e) (simp_all add: handle_client_event_def Let_def bind_st_inputs speech_generate_inputs)

lemma handle_input_inputs:
  "handle_input env i s = (r, t) \<Longrightarrow> length (ws_inputs t) \<le> length (ws_inputs s)"
proof -
  assume "handle_input env i s = (r, t)"
  moreover have "length (ws_inputs (snd (handle_input env i s))) \<le> length (ws_inputs s)"
    by (simp add: handle_input_def handle_client_event_inputs bind_st_inputs
        split: ws_input.split option.split sum.split ws_message.split)
  ultimately show ?thesis by simp
qed

section \<open>The loop and the session\<close>

function websocket_loop :: "('t, 'w) ws_env \<Rightarrow> (('t, 'w) ws, ws_stop, unit) action" where
  "websocket_loop env s =
     (case ws_inputs s of
        [] \<Rightarrow> (Inl WsTimeout, s)
      | i # rest \<Rightarrow>
          (case handle_input env i (s\<lparr>ws_inputs := rest\<rparr>) of
             (Inl e, t) \<Rightarrow> (Inl e, t)
           | (Inr finished, t) \<Rightarrow> if finished then (Inr (), t) else websocket_loop env t))"
  by pat_completeness auto
termination
  by (relation "measure (\<lambda>(env, s). length (ws_inputs s))")
    (auto dest!: handle_input_inputs sym [THEN handle_input_inputs])

declare websocket_loop.simps [simp del]

definition ws_start :: "ws_input list \<Rightarrow> 'w \<Rightarrow> ('t, 'w) ws" where
  "ws_start inputs w =
     \<lparr>ws_mode = None, ws_pending = None, ws_transcriber = None, ws_completed = False,
      ws_failure = None, ws_cancelled = False, ws_inputs = inputs, ws_sent = [], ws_cut = [],
      ws_world = w\<rparr>"

fun close_of_failure :: "backend_error option \<Rightarrow> nat \<times> string" where
  "close_of_failure (Some BackendBusy) = (1013, ''voice capacity is busy'')"
| "close_of_failure (Some BackendDeadlineExceeded) = (1008, ''session deadline exceeded'')"
| "close_of_failure (Some BackendEngine) = (1011, ''voice engine failed'')"
| "close_of_failure _ = (1002, ''protocol error'')"

text \<open>\<open>let _ = ...\<close> ignores a failed send; the transcriber is dropped with the session.\<close>

definition websocket_session :: "('t, 'w) ws_env \<Rightarrow> ('t, 'w) ws \<Rightarrow> ('t, 'w) ws" where
  "websocket_session env s =
     (case websocket_loop env s of
        (outcome, s) \<Rightarrow>
          let s = cancel_token s;
              (s, close) =
                (case outcome of
                   Inl WsTimeout \<Rightarrow>
                     (snd (send_error env ''deadline_exceeded'' s), (1008, ''session deadline exceeded''))
                 | Inl WsFail \<Rightarrow> (s, close_of_failure (ws_failure s))
                 | Inr _ \<Rightarrow> (s, (1000, ''session closed'')));
              s = snd (ws_send env (OutClose (fst close) (snd close)) s)
          in (case ws_transcriber s of
                None \<Rightarrow> s
              | Some t \<Rightarrow> s\<lparr>ws_transcriber := None, ws_world := vb_drop (we_backend env) t (ws_world s)\<rparr>))"

text \<open>The upgrade: a session permit and a fresh context with the session deadline.\<close>

definition realtime ::
  "nat \<Rightarrow> nat \<Rightarrow> request_context \<Rightarrow> (api_error + request_context) \<times> nat"
where
  "realtime permits now request =
     (if permits = 0 then (Inl (api_error_of BackendBusy), permits)
      else
        (case request_context_new now (rc_id request) token_new
                (Some (nanos max_ws_session_seconds)) of
           Inl _ \<Rightarrow> (Inl (api_invalid ''session deadline is invalid''), permits)
         | Inr context \<Rightarrow> (Inr context, permits - 1)))"

end
