(* ===== verification/Realtime_Protocol.thy ===== *)
theory Realtime_Protocol
  imports Realtime
begin

text \<open>
  What a realtime session promises its client: the documented output protocol as an automaton
  over the messages sent, and the proof, by weakest preconditions handler by handler, that every
  session of \<open>Realtime\<close> emits a word of it, whatever the client sends and however sending fails.
\<close>

section \<open>The protocol\<close>

datatype phase =
  PFresh | PReady | PHeard | PListening | PSpeaking | PDone | PFailed string | PCancelled | PClosed

definition stable_codes :: "string list" where
  "stable_codes =
     [''sample_rate_required'', ''sample_rate_not_allowed'', ''audio_frame_expected'',
      ''audio_declaration_required'', ''audio_frame_invalid'', ''stt_session_required'',
      ''invalid_sequence'', ''invalid_json'', ''invalid_request'', ''overloaded'', ''cancelled'',
      ''deadline_exceeded'', ''engine_error'']"

text \<open>The documented close code for a reported failure.\<close>

definition documented_close :: "string \<Rightarrow> nat" where
  "documented_close code =
     (if code = ''overloaded'' then 1013 else if code = ''engine_error'' then 1011
      else if code = ''deadline_exceeded'' then 1008 else 1002)"

fun active :: "phase \<Rightarrow> bool" where
  "active (PFailed c) = False" | "active PCancelled = False" | "active PClosed = False"
| "active _ = True"

text \<open>A pong may come between any two messages except the audio of a synthesis.\<close>

definition pong_step :: "phase \<Rightarrow> phase option" where
  "pong_step p =
     (if active p \<and> p \<noteq> PSpeaking then Some (if p = PHeard then PListening else p) else None)"

definition event_step :: "phase \<Rightarrow> server_event \<Rightarrow> phase option" where
  "event_step p ev =
     (let kind = ev_kind ev in
      if kind = ''error'' then
        (case ev_code ev of
           None \<Rightarrow> None
         | Some c \<Rightarrow> if active p \<and> c \<in> set stable_codes then Some (PFailed c) else None)
      else if kind = ''cancelled'' then (if active p \<and> p \<noteq> PSpeaking then Some PCancelled else None)
      else if kind = ''pong'' then pong_step p
      else if kind = ''session_ready'' then (if p = PFresh then Some PReady else None)
      else if kind = ''transcript_interim'' \<or> kind = ''transcript_final'' then
        (if p \<in> {PReady, PHeard, PListening} \<and> ev_text ev \<noteq> None then Some PHeard else None)
      else if kind = ''session_completed'' then (if p = PHeard then Some PDone else None)
      else if kind = ''speech_metadata'' then
        (if p = PReady \<and> ev_sample_rate ev \<noteq> None \<and> ev_channels ev = Some 1
            \<and> ev_chunking ev = Some ''post_synthesis_transport''
         then Some PSpeaking else None)
      else if kind = ''speech_completed'' then (if p = PSpeaking then Some PDone else None)
      else None)"

definition out_step :: "nat \<Rightarrow> phase \<Rightarrow> ws_out \<Rightarrow> phase option" where
  "out_step sid p out =
     (case out of
        OutEvent ev \<Rightarrow> if ev_session_id ev = sid then event_step p ev else None
      | OutBinary bytes \<Rightarrow>
          if p = PSpeaking \<and> bytes \<noteq> [] \<and> length bytes \<le> tts_chunk_bytes then Some p else None
      | OutPong _ \<Rightarrow> pong_step p
      | OutClose code _ \<Rightarrow>
          if (case p of
                PFailed c \<Rightarrow> code = documented_close c
              | PCancelled \<Rightarrow> code = 1000
              | PClosed \<Rightarrow> False
              | _ \<Rightarrow> code \<in> {1000, 1002, 1008, 1011, 1013})
          then Some PClosed else None)"

fun protocol :: "nat \<Rightarrow> phase \<Rightarrow> ws_out list \<Rightarrow> phase option" where
  "protocol sid p [] = Some p"
| "protocol sid p (out # outs) =
     (case out_step sid p out of None \<Rightarrow> None | Some q \<Rightarrow> protocol sid q outs)"

lemma protocol_snoc:
  "protocol sid p (outs @ [out]) =
     (case protocol sid p outs of None \<Rightarrow> None | Some q \<Rightarrow> out_step sid q out)"
  by (induction outs arbitrary: p) (auto split: option.split)

section \<open>The session invariant\<close>

definition phase_matches :: "session_mode option \<Rightarrow> bool \<Rightarrow> phase \<Rightarrow> bool" where
  "phase_matches mode completed p \<longleftrightarrow>
     (case mode of
        None \<Rightarrow> p = PFresh \<and> \<not> completed
      | Some ModeStt \<Rightarrow> if completed then p = PDone else p \<in> {PReady, PHeard, PListening}
      | Some ModeTts \<Rightarrow> if completed then p = PDone else p = PReady)"

text \<open>\<open>q\<close> records that sends succeed and no transport error is coming.\<close>

definition steady :: "('t, 'w) ws_env \<Rightarrow> bool" where
  "steady env \<longleftrightarrow> (\<forall>out w. fst (we_send env out w) = None)"

definition sound_inputs :: "bool \<Rightarrow> ('t, 'w) ws \<Rightarrow> bool" where
  "sound_inputs q s \<longleftrightarrow> (q \<longrightarrow> Recv (Some (Inl ())) \<notin> set (ws_inputs s))"

definition session_phase :: "('t, 'w) ws_env \<Rightarrow> ('t, 'w) ws \<Rightarrow> phase option" where
  "session_phase env s = protocol (rc_id (we_context env)) PFresh (ws_sent s)"

text \<open>A transcriber is open only while the session listens.\<close>

definition transcriber_ok :: "('t, 'w) ws \<Rightarrow> bool" where
  "transcriber_ok s \<longleftrightarrow>
     (ws_transcriber s \<noteq> None \<longrightarrow> ws_mode s = Some ModeStt \<and> \<not> ws_completed s)"

definition running :: "('t, 'w) ws_env \<Rightarrow> bool \<Rightarrow> ('t, 'w) ws \<Rightarrow> bool" where
  "running env q s \<longleftrightarrow>
     (\<exists>p. session_phase env s = Some p \<and> phase_matches (ws_mode s) (ws_completed s) p)
     \<and> ws_failure s = None \<and> sound_inputs q s \<and> transcriber_ok s"

text \<open>After the loop: with a result, with a failure, or cut by the timeout.\<close>

definition closing :: "('t, 'w) ws_env \<Rightarrow> ('t, 'w) ws \<Rightarrow> bool" where
  "closing env s \<longleftrightarrow> (\<exists>p. session_phase env s = Some p \<and> (active p \<or> p = PCancelled))"

definition stopped :: "('t, 'w) ws_env \<Rightarrow> bool \<Rightarrow> ws_stop \<Rightarrow> ('t, 'w) ws \<Rightarrow> bool" where
  "stopped env q e s \<longleftrightarrow>
     (\<exists>p. session_phase env s = Some p \<and>
       (case e of
          WsTimeout \<Rightarrow> active p
        | WsFail \<Rightarrow> (if active p then \<not> q
            else \<exists>c. p = PFailed c \<and> fst (close_of_failure (ws_failure s)) = documented_close c)))"

lemma phase_matches_active: "phase_matches m d p \<Longrightarrow> active p \<and> p \<noteq> PSpeaking"
  by (auto simp: phase_matches_def split: option.splits session_mode.splits if_splits)

lemma wp_ws_send:
  assumes "q \<longrightarrow> steady env"
    and "\<And>w. Q () (s\<lparr>ws_world := w, ws_sent := ws_sent s @ [out]\<rparr>)"
    and cut: "\<And>e w c. \<not> q \<Longrightarrow> E e (s\<lparr>ws_world := w, ws_cut := c\<rparr>)"
  shows "wp Q E (ws_send env out s)"
proof -
  have "s\<lparr>ws_world := w\<rparr> = s\<lparr>ws_world := w, ws_cut := ws_cut s\<rparr>" for w by simp
  then have uncut: "\<not> q \<Longrightarrow> E e (s\<lparr>ws_world := w\<rparr>)" for e w using cut by metis
  obtain r w where send: "we_send env out (ws_world s) = (r, w)" by fastforce
  show ?thesis
  proof (cases r)
    case None
    then show ?thesis using assms(2) by (simp add: ws_send_def send wp_simps)
  next
    case (Some e)
    then have "\<not> steady env" using send by (metis fst_conv option.distinct(1) steady_def)
    then show ?thesis using Some assms(1) cut uncut
      by (auto simp: ws_send_def send wp_simps split: ws_stop.split)
  qed
qed

lemma session_phase_sent:
  "session_phase env (s\<lparr>ws_world := w, ws_sent := ws_sent s @ [out]\<rparr>) =
     (case session_phase env s of
        None \<Rightarrow> None | Some p \<Rightarrow> out_step (rc_id (we_context env)) p out)"
  by (simp add: session_phase_def protocol_snoc)

lemma session_phase_unchanged [simp]:
  "session_phase env (s\<lparr>ws_world := w\<rparr>) = session_phase env s"
  "session_phase env (s\<lparr>ws_mode := m\<rparr>) = session_phase env s"
  "session_phase env (s\<lparr>ws_pending := n\<rparr>) = session_phase env s"
  "session_phase env (s\<lparr>ws_transcriber := t\<rparr>) = session_phase env s"
  "session_phase env (s\<lparr>ws_completed := d\<rparr>) = session_phase env s"
  "session_phase env (s\<lparr>ws_failure := f\<rparr>) = session_phase env s"
  "session_phase env (s\<lparr>ws_inputs := i\<rparr>) = session_phase env s"
  "session_phase env (s\<lparr>ws_cancelled := c\<rparr>) = session_phase env s"
  "session_phase env (s\<lparr>ws_cut := k\<rparr>) = session_phase env s"
  "session_phase env (s\<lparr>ws_world := w, ws_cut := k\<rparr>) = session_phase env s"
  "session_phase env (cancel_token s) = session_phase env s"
  by (simp_all add: session_phase_def cancel_token_def)

lemma sound_inputs_cong: "ws_inputs t = ws_inputs s \<Longrightarrow> sound_inputs q t = sound_inputs q s"
  by (simp add: sound_inputs_def)

lemma stopped_send:
  "session_phase env s = Some p \<Longrightarrow> active p \<Longrightarrow> \<not> q \<Longrightarrow>
    stopped env q e (s\<lparr>ws_world := w, ws_cut := c\<rparr>)"
  by (cases e) (auto simp: stopped_def)

text \<open>One message: it takes the protocol one step, or it is not delivered.\<close>

lemma wp_send_step:
  assumes q: "q \<longrightarrow> steady env" and p: "session_phase env s = Some p" "active p"
    and step: "out_step (rc_id (we_context env)) p out = Some p'"
    and Q: "\<And>w. session_phase env (s\<lparr>ws_world := w, ws_sent := ws_sent s @ [out]\<rparr>) = Some p'
      \<Longrightarrow> Q () (s\<lparr>ws_world := w, ws_sent := ws_sent s @ [out]\<rparr>)"
  shows "wp Q (stopped env q) (ws_send env out s)"
  using assms by (intro wp_ws_send [OF q] Q stopped_send [OF p]) (simp_all add: session_phase_sent)

lemma wp_protocol_error:
  assumes q: "q \<longrightarrow> steady env" and p: "session_phase env s = Some p" "active p"
    and code: "code \<in> set stable_codes"
    and close: "fst (close_of_failure (ws_failure s)) = documented_close code"
  shows "wp Q (stopped env q) (protocol_error env code s)"
  unfolding protocol_error_def wp_simps send_error_def
  by (rule wp_send_step [OF q p, where p' = "PFailed code"])
    (use p code close in \<open>auto simp: out_step_def event_step_def plain_event_def wp_simps stopped_def\<close>)

lemma wp_fail_backend:
  assumes q: "q \<longrightarrow> steady env" and p: "session_phase env s = Some p" "active p"
  shows "wp Q (stopped env q) (fail_backend env e s)"
  unfolding fail_backend_def
  by (rule wp_protocol_error [OF q])
    (use p in \<open>cases e; simp add: stable_codes_def documented_close_def api_invalid_def\<close>)+

text \<open>The codes of a client's mistakes.\<close>

definition violation :: "string \<Rightarrow> bool" where
  "violation code \<longleftrightarrow> code \<in> set stable_codes \<and> documented_close code = 1002"

lemma violations [simp]:
  "violation ''sample_rate_required''" "violation ''sample_rate_not_allowed''"
  "violation ''audio_frame_expected''" "violation ''audio_declaration_required''"
  "violation ''audio_frame_invalid''" "violation ''stt_session_required''"
  "violation ''invalid_sequence''" "violation ''invalid_json''"
  by (simp_all add: violation_def stable_codes_def documented_close_def)

lemma wp_invalid:
  assumes "q \<longrightarrow> steady env" and "running env q s" and "violation code"
  shows "wp Q (stopped env q) (protocol_error env code s)"
    "wp Q (stopped env q) (protocol_error env code (cancel_token s))"
  using assms unfolding running_def violation_def
  by (auto intro!: wp_protocol_error [OF assms(1)] dest: phase_matches_active
      simp: cancel_token_def)

lemma wp_running_fail:
  assumes "q \<longrightarrow> steady env" and "running env q s"
  shows "wp Q (stopped env q) (fail_backend env e (s\<lparr>ws_world := w\<rparr>))"
  using assms unfolding running_def
  by (auto intro!: wp_fail_backend [OF assms(1)] dest: phase_matches_active)

text \<open>Messages that leave the session running, or end it.\<close>

lemma running_closing: "running env q s \<Longrightarrow> closing env s" "running env q s \<Longrightarrow> closing env (cancel_token s)"
  by (auto simp: running_def closing_def dest: phase_matches_active)

lemma running_pong:
  assumes q: "q \<longrightarrow> steady env" and run: "running env q s"
    and out: "out = OutPong bytes \<or> out = OutEvent (plain_event env ''pong'')"
    and Q: "\<And>t. running env q t \<Longrightarrow> ws_mode t = ws_mode s \<Longrightarrow> ws_completed t = ws_completed s
      \<Longrightarrow> ws_inputs t = ws_inputs s \<Longrightarrow> ws_transcriber t = ws_transcriber s \<Longrightarrow> Q () t"
  shows "wp Q (stopped env q) (ws_send env out s)"
proof -
  obtain p where p: "session_phase env s = Some p" "phase_matches (ws_mode s) (ws_completed s) p"
    using run by (auto simp: running_def)
  define p' where "p' = (if p = PHeard then PListening else p)"
  have act: "active p" "p \<noteq> PSpeaking" using phase_matches_active [OF p(2)] by auto
  have p': "phase_matches (ws_mode s) (ws_completed s) p'"
    using p(2) by (auto simp: p'_def phase_matches_def split: option.splits session_mode.splits if_splits)
  show ?thesis
  proof (rule wp_send_step [OF q p(1) act(1)])
    show "out_step (rc_id (we_context env)) p out = Some p'"
      using out act by (auto simp: out_step_def event_step_def pong_step_def plain_event_def p'_def)
    fix w
    assume "session_phase env (s\<lparr>ws_world := w, ws_sent := ws_sent s @ [out]\<rparr>) = Some p'"
    then show "Q () (s\<lparr>ws_world := w, ws_sent := ws_sent s @ [out]\<rparr>)"
      using run p' by (intro Q) (auto simp: running_def sound_inputs_def transcriber_ok_def)
  qed
qed

lemma running_cancelled:
  assumes q: "q \<longrightarrow> steady env" and run: "running env q s"
    and Q: "\<And>t. closing env t \<Longrightarrow> Q () t"
  shows "wp Q (stopped env q) (send_event env ''cancelled'' (cancel_token s))"
proof -
  obtain p where p: "session_phase env s = Some p" "phase_matches (ws_mode s) (ws_completed s) p"
    using run by (auto simp: running_def)
  have act: "active p" "p \<noteq> PSpeaking" using phase_matches_active [OF p(2)] by auto
  show ?thesis
    unfolding send_event_def
    by (rule wp_send_step [OF q, where p = p and p' = PCancelled])
      (use p act in \<open>auto simp: out_step_def event_step_def plain_event_def closing_def intro!: Q\<close>)
qed

section \<open>Handler by handler\<close>

abbreviation speaking :: "('t, 'w) ws_env \<Rightarrow> bool \<Rightarrow> ('t, 'w) ws \<Rightarrow> bool" where
  "speaking env q s \<equiv> running env q s \<and> ws_mode s = Some ModeTts \<and> \<not> ws_completed s"

lemma generate_input_wp:
  assumes q: "q \<longrightarrow> steady env" and run: "speaking env q s"
  shows "wp (\<lambda>g t. case g of SessionOver \<Rightarrow> closing env t | _ \<Rightarrow> speaking env q t)
           (stopped env q) (generate_input env str speed i s)"
proof -
  have invalid: "wp Q (stopped env q) (protocol_error env c (cancel_token s))"
    if "violation c" for c Q
    using wp_invalid(2) [OF q conjunct1 [OF run] that] .
  have failing: "wp Q (stopped env q) (fail_backend env e (s\<lparr>ws_world := w\<rparr>))" for e w Q
    using wp_running_fail [OF q conjunct1 [OF run]] .
  have pong: "wp (\<lambda>a t. speaking env q t) (stopped env q) (send_event env ''pong'' s)"
    "wp (\<lambda>a t. speaking env q t) (stopped env q) (ws_send env (OutPong bytes) s)" for bytes
    unfolding send_event_def
    by (rule running_pong [OF q conjunct1 [OF run]]; use run in auto)+
  have over: "wp (\<lambda>a t. closing env t) (stopped env q) (send_event env ''cancelled'' (cancel_token s))"
    by (rule running_cancelled [OF q conjunct1 [OF run]])
  have world: "running env q (s\<lparr>ws_world := w\<rparr>)" for w
    using run by (auto simp: running_def sound_inputs_def transcriber_ok_def)
  show ?thesis
    using run failing [of _ BackendEngine "ws_world s"] failing invalid [OF violations(7)] invalid [OF violations(8)] pong over world
      running_closing [OF conjunct1 [OF run]]
    by (auto simp: generate_input_def wp_simps split: ws_input.split bool.split prod.split
        option.split sum.split ws_message.split client_event.split)
qed

text \<open>What an abandoned worker still does touches the world alone.\<close>

lemma abandon_worker_keeps [simp]:
  "ws_sent (abandon_worker env str speed s) = ws_sent s"
  "ws_failure (abandon_worker env str speed s) = ws_failure s"
  by (simp_all add: abandon_worker_def split: option.split)

lemma abandon_worker_phase [simp]:
  "session_phase env (abandon_worker env str speed s) = session_phase env s"
  "stopped env q e (abandon_worker env str speed s) = stopped env q e s"
  "closing env (abandon_worker env str speed s) = closing env s"
  unfolding stopped_def closing_def session_phase_def abandon_worker_keeps by (rule refl)+

lemma generate_loop_wp:
  "q \<longrightarrow> steady env \<Longrightarrow> speaking env q s \<Longrightarrow>
    wp (\<lambda>y t. case y of None \<Rightarrow> closing env t | Some _ \<Rightarrow> speaking env q t)
      (stopped env q) (generate_loop env str speed s)"
proof (induction env str speed s rule: generate_loop.induct)
  case (1 env str speed s)
  show ?case
  proof (cases "ws_inputs s")
    case Nil
    then show ?thesis
      using 1(3) by (auto simp: generate_loop.simps [of env str speed s] wp_simps running_def
          stopped_def dest: phase_matches_active)
  next
    case (Cons i rest)
    have run: "speaking env q (s\<lparr>ws_inputs := rest\<rparr>)"
      using 1(3) Cons by (auto simp: running_def sound_inputs_def transcriber_ok_def)
    obtain r t where g: "generate_input env str speed i (s\<lparr>ws_inputs := rest\<rparr>) = (r, t)" by fastforce
    note wp = generate_input_wp [OF 1(2) run, of str speed i, unfolded g]
    show ?thesis
    proof (cases "r = Inr StillWaiting")
      case True
      with wp have "speaking env q t" by (simp add: wp_simps)
      with True 1(1) [OF Cons g [symmetric]] 1(2) g Cons show ?thesis
        by (simp add: generate_loop.simps [of env str speed s])
    next
      case False
      with wp g Cons show ?thesis
        by (auto simp: generate_loop.simps [of env str speed s] wp_simps
            split: sum.split generation.split ws_input.split)
    qed
  qed
qed

lemma send_all_speaking:
  assumes q: "q \<longrightarrow> steady env"
  shows "session_phase env s = Some PSpeaking \<Longrightarrow> sound_inputs q s \<Longrightarrow> ws_failure s = None \<Longrightarrow>
    \<forall>b\<in>set bs. b \<noteq> [] \<and> length b \<le> tts_chunk_bytes \<Longrightarrow>
    wp (\<lambda>_ t. session_phase env t = Some PSpeaking \<and> sound_inputs q t \<and> ws_failure t = None
          \<and> ws_mode t = ws_mode s \<and> ws_transcriber t = ws_transcriber s)
      (stopped env q) (send_all env (map OutBinary bs) s)"
proof (induction bs arbitrary: s)
  case (Cons b bs)
  show ?case
    unfolding list.map send_all.simps wp_simps
  proof (rule wp_send_step [OF q Cons.prems(1), where p' = PSpeaking])
    fix w
    let ?t = "s\<lparr>ws_world := w, ws_sent := ws_sent s @ [OutBinary b]\<rparr>"
    assume "session_phase env ?t = Some PSpeaking"
    from Cons.IH [OF this] Cons.prems
    show "wp (\<lambda>_ t. session_phase env t = Some PSpeaking \<and> sound_inputs q t \<and> ws_failure t = None
        \<and> ws_mode t = ws_mode s \<and> ws_transcriber t = ws_transcriber s) (stopped env q) (send_all env (map OutBinary bs) ?t)"
      by (simp add: sound_inputs_def)
  qed (use Cons.prems in \<open>auto simp: out_step_def\<close>)
qed (simp add: wp_simps)

lemma running_done:
  assumes q: "q \<longrightarrow> steady env"
    and p: "session_phase env s = Some p" "active p"
    and step: "out_step (rc_id (we_context env)) p (OutEvent (plain_event env kind)) = Some PDone"
    and s: "sound_inputs q s" "ws_failure s = None" "ws_mode s \<noteq> None" "ws_completed s"
      "ws_transcriber s = None"
  shows "wp (\<lambda>_ t. running env q t) (stopped env q) (send_event env kind s)"
  unfolding send_event_def
  by (rule wp_send_step [OF q p step])
    (use s in \<open>auto simp: running_def sound_inputs_def phase_matches_def transcriber_ok_def
       split: session_mode.split option.split\<close>)

lemma publish_speech_wp:
  assumes q: "q \<longrightarrow> steady env" and run: "speaking env q s"
  shows "wp (\<lambda>b t. \<not> b \<and> running env q t) (stopped env q) (publish_speech env y s)"
proof -
  have p: "session_phase env s = Some PReady" and s: "sound_inputs q s" "ws_failure s = None"
      "ws_transcriber s = None"
    using run by (auto simp: running_def phase_matches_def transcriber_ok_def)
  have done_ok: "wp (\<lambda>_ t. running env q t) (stopped env q)
      (send_event env ''speech_completed'' (ws_completed_update (\<lambda>_. True) t))"
    if "session_phase env t = Some PSpeaking" "sound_inputs q t" "ws_failure t = None"
      "ws_mode t = Some ModeTts" "ws_transcriber t = None" for t
    by (rule running_done [OF q, where p = PSpeaking])
      (use that in \<open>auto simp: out_step_def event_step_def plain_event_def sound_inputs_def\<close>)
  show ?thesis
    unfolding publish_speech_def wp_simps
  proof (rule wp_send_step [OF q p])
    show "out_step (rc_id (we_context env)) PReady (speech_metadata env y) = Some PSpeaking"
      by (simp add: out_step_def event_step_def speech_metadata_def plain_event_def)
    fix w
    let ?t = "s\<lparr>ws_world := w, ws_sent := ws_sent s @ [speech_metadata env y]\<rparr>"
    assume "session_phase env ?t = Some PSpeaking"
    from send_all_speaking [OF q this, of "chunks tts_chunk_bytes (synthesis_pcm16 y)"] s run
    have "wp (\<lambda>_ t. session_phase env t = Some PSpeaking \<and> sound_inputs q t
        \<and> ws_failure t = None \<and> ws_mode t = Some ModeTts \<and> ws_transcriber t = None) (stopped env q)
      (send_all env (map OutBinary (chunks tts_chunk_bytes (synthesis_pcm16 y))) ?t)"
      by (auto simp: sound_inputs_def dest: chunks_length)
    then show "wp (\<lambda>_ t. wp (\<lambda>_ t. wp (\<lambda>_ t. wp (\<lambda>b t. \<not> b \<and> running env q t) (stopped env q)
        (ret False t)) (stopped env q) (send_event env ''speech_completed'' t)) (stopped env q)
        (update_st (ws_completed_update (\<lambda>_. True)) t)) (stopped env q)
      (send_all env (map OutBinary (chunks tts_chunk_bytes (synthesis_pcm16 y))) ?t)"
      by (rule wp_mono) (use done_ok in \<open>auto simp: wp_simps\<close>)
  qed simp
qed

text \<open>A handler's boolean: the session is over, or goes on.\<close>

definition handled :: "('t, 'w) ws_env \<Rightarrow> bool \<Rightarrow> bool \<Rightarrow> ('t, 'w) ws \<Rightarrow> bool" where
  "handled env q finished t \<longleftrightarrow> (if finished then closing env t else running env q t)"

lemma handled_simps [simp]:
  "handled env q True t = closing env t" "handled env q False t = running env q t"
  by (simp_all add: handled_def)

lemma speech_generate_wp:
  assumes q: "q \<longrightarrow> steady env" and run: "speaking env q s"
  shows "wp (handled env q) (stopped env q) (speech_generate env str speed s)"
proof -
  obtain r t where g: "generate_loop env str speed s = (r, t)" by fastforce
  note loop = generate_loop_wp [OF q run, of str speed, unfolded g]
  have "wp (handled env q) (stopped env q) (publish_speech env y t)" if "speaking env q t" for y
    by (rule wp_mono [OF publish_speech_wp [OF q that]]) auto
  with loop show ?thesis
    by (auto simp: speech_generate_def g wp_simps running_closing split: sum.split option.split)
qed

lemma send_transcript_wp:
  assumes q: "q \<longrightarrow> steady env"
    and p: "session_phase env s = Some p" "p \<in> {PReady, PHeard, PListening}"
    and Q: "\<And>t. session_phase env t = Some PHeard \<Longrightarrow> ws_mode t = ws_mode s \<Longrightarrow>
      ws_completed t = ws_completed s \<Longrightarrow> ws_failure t = ws_failure s \<Longrightarrow> ws_inputs t = ws_inputs s
      \<Longrightarrow> ws_transcriber t = ws_transcriber s \<Longrightarrow> Q () t"
  shows "wp Q (stopped env q) (send_transcript env u s)"
  unfolding send_transcript_def Let_def
proof (rule wp_send_step [OF q p(1)])
  show "out_step (rc_id (we_context env)) p (OutEvent (plain_event env
      (case tr_kind u of Interim \<Rightarrow> ''transcript_interim'' | Final \<Rightarrow> ''transcript_final'')
      \<lparr>ev_text := Some (tr_text u)\<rparr>)) = Some PHeard"
    using p(2) by (cases "tr_kind u") (auto simp: out_step_def event_step_def plain_event_def Let_def)
qed (use p(2) in \<open>auto intro!: Q\<close>)

abbreviation listening :: "('t, 'w) ws_env \<Rightarrow> bool \<Rightarrow> ('t, 'w) ws \<Rightarrow> bool" where
  "listening env q s \<equiv> running env q s \<and> ws_mode s = Some ModeStt \<and> \<not> ws_completed s"

lemma listening_iff:
  "listening env q s \<longleftrightarrow>
     (\<exists>p. session_phase env s = Some p \<and> p \<in> {PReady, PHeard, PListening}) \<and>
     ws_failure s = None \<and> sound_inputs q s \<and> ws_mode s = Some ModeStt \<and> \<not> ws_completed s"
  by (auto simp: running_def phase_matches_def transcriber_ok_def)

lemma send_transcripts_wp:
  assumes q: "q \<longrightarrow> steady env"
  shows "listening env q s \<Longrightarrow>
    wp (\<lambda>_ t. listening env q t) (stopped env q) (send_transcripts env us s)"
proof (induction us arbitrary: s)
  case (Cons u us)
  from Cons.prems obtain p where p: "session_phase env s = Some p" "p \<in> {PReady, PHeard, PListening}"
    unfolding listening_iff by blast
  have next_ok: "wp (\<lambda>_ t. listening env q t) (stopped env q) (send_transcripts env us t)"
    if "session_phase env t = Some PHeard" "ws_mode t = ws_mode s" "ws_completed t = ws_completed s"
      "ws_failure t = ws_failure s" "ws_inputs t = ws_inputs s"
      "ws_transcriber t = ws_transcriber s" for t
    by (rule Cons.IH) (use that Cons.prems in \<open>unfold listening_iff sound_inputs_def, simp\<close>)
  show ?case
    unfolding send_transcripts.simps wp_simps
    by (rule send_transcript_wp [OF q p next_ok])
qed (simp add: wp_simps)

lemma audio_commit_wp:
  assumes q: "q \<longrightarrow> steady env" and run: "listening env q s"
  shows "wp (handled env q) (stopped env q) (audio_commit env s)"
proof (cases "ws_transcriber s")
  case None
  then show ?thesis
    using wp_invalid(1) [OF q conjunct1 [OF run] violations(7)] by (simp add: audio_commit_def)
next
  case (Some tr)
  obtain r w where f: "vb_finish (we_backend env) tr (ws_world s) = (r, w)" by fastforce
  let ?s = "s\<lparr>ws_transcriber := None, ws_world := w\<rparr>"
  from run obtain p where p: "session_phase env s = Some p" "p \<in> {PReady, PHeard, PListening}"
    unfolding listening_iff by blast
  show ?thesis
  proof (cases r)
    case (Inl e)
    have "wp (handled env q) (stopped env q) (fail_backend env e ?s)"
      by (rule wp_fail_backend [OF q, where p = p]) (use p in auto)
    then show ?thesis by (simp add: audio_commit_def Some f Inl)
  next
    case (Inr u)
    have done_ok: "wp (\<lambda>_ t. running env q t) (stopped env q)
        (send_event env ''session_completed'' (ws_completed_update (\<lambda>_. True) t))"
      if "session_phase env t = Some PHeard" "ws_mode t = ws_mode ?s" "ws_failure t = ws_failure ?s"
        "ws_inputs t = ws_inputs ?s" "ws_transcriber t = None" for t
      by (rule running_done [OF q, where p = PHeard])
        (use that run in \<open>auto simp: out_step_def event_step_def plain_event_def listening_iff sound_inputs_def\<close>)
    have "wp (\<lambda>_ t. wp (\<lambda>_ t. wp (\<lambda>_. wp (handled env q) (stopped env q) \<circ> ret False) (stopped env q)
        (send_event env ''session_completed'' t)) (stopped env q)
        (update_st (ws_completed_update (\<lambda>_. True)) t)) (stopped env q) (send_transcript env u ?s)"
      by (rule send_transcript_wp [OF q, where p = p])
        (use p done_ok in \<open>auto simp: wp_simps comp_def\<close>)
    then show ?thesis by (simp add: audio_commit_def Some f Inr wp_simps comp_def)
  qed
qed

lemma session_start_wp:
  assumes q: "q \<longrightarrow> steady env" and run: "running env q s" and mode: "ws_mode s = None"
  shows "wp (handled env q) (stopped env q) (session_start env mode rate s)"
proof -
  have p: "session_phase env s = Some PFresh" and s: "ws_failure s = None" "sound_inputs q s"
      "\<not> ws_completed s" "ws_transcriber s = None"
    using run mode by (auto simp: running_def phase_matches_def transcriber_ok_def)
  let ?s = "s\<lparr>ws_mode := Some mode\<rparr>"
  have ready: "wp (\<lambda>_. running env q) (stopped env q) (send_event env ''session_ready'' t)"
    if "session_phase env t = Some PFresh" "ws_mode t = Some mode" "ws_failure t = None"
      "sound_inputs q t" "\<not> ws_completed t" "ws_transcriber t \<noteq> None \<longrightarrow> mode = ModeStt" for t
    unfolding send_event_def
    by (rule wp_send_step [OF q that(1), where p' = PReady])
      (use that in \<open>auto simp: out_step_def event_step_def plain_event_def running_def
        phase_matches_def sound_inputs_def transcriber_ok_def split: session_mode.split\<close>)
  have failing: "wp (handled env q) (stopped env q) (fail_backend env e (?s\<lparr>ws_world := w\<rparr>))" for e w
    by (rule wp_fail_backend [OF q, where p = PFresh]) (use p in auto)
  have invalid: "wp (handled env q) (stopped env q) (protocol_error env c ?s)" if "violation c" for c
    by (rule wp_protocol_error [OF q, where p = PFresh]) (use p s that in \<open>auto simp: violation_def\<close>)
  show ?thesis
  proof (cases "mode = ModeStt")
    case True
    show ?thesis
    proof (cases rate)
      case None
      with True show ?thesis
        using invalid [OF violations(1)] by (simp add: session_start_def Let_def)
    next
      case (Some r)
      obtain x w where start: "vb_start (we_backend env) r (we_context env) (ws_world s) = (x, w)"
        by fastforce
      show ?thesis
      proof (cases x)
        case (Inl e)
        then show ?thesis
          using failing [of e w] True Some start by (simp add: session_start_def Let_def)
      next
        case (Inr t)
        have "wp (\<lambda>_. running env q) (stopped env q)
            (send_event env ''session_ready'' (?s\<lparr>ws_transcriber := Some t, ws_world := w\<rparr>))"
          by (rule ready) (use p s True in \<open>auto simp: sound_inputs_def\<close>)
        then show ?thesis
          using True Some start Inr by (simp add: session_start_def Let_def wp_simps)
      qed
    qed
  next
    case False
    have "wp (\<lambda>_. running env q) (stopped env q) (send_event env ''session_ready'' ?s)"
      by (rule ready) (use p s in \<open>auto simp: sound_inputs_def\<close>)
    then show ?thesis
      using False invalid [OF violations(2)] by (simp add: session_start_def Let_def wp_simps)
  qed
qed

lemma running_update:
  "running env q s \<Longrightarrow> running env q (s\<lparr>ws_pending := n\<rparr>)"
  "running env q s \<Longrightarrow> ws_transcriber s \<noteq> None \<Longrightarrow>
     running env q (s\<lparr>ws_transcriber := t, ws_world := w\<rparr>)"
  "running env q s \<Longrightarrow> running env q (s\<lparr>ws_world := w\<rparr>)"
  "running env q s \<Longrightarrow> ws_inputs s = i # rest \<Longrightarrow> running env q (s\<lparr>ws_inputs := rest\<rparr>)"
  by (auto simp: running_def sound_inputs_def transcriber_ok_def)

lemma handle_client_event_wp:
  assumes q: "q \<longrightarrow> steady env" and run: "running env q s"
  shows "wp (handled env q) (stopped env q) (handle_client_event env event s)"
proof -
  have pong: "wp (\<lambda>_. running env q) (stopped env q) (send_event env ''pong'' s)"
    unfolding send_event_def by (rule running_pong [OF q run]) auto
  have cancelled: "wp (\<lambda>_. closing env) (stopped env q) (send_event env ''cancelled'' (cancel_token s))"
    by (rule running_cancelled [OF q run])
  have invalid: "wp (handled env q) (stopped env q) (protocol_error env ''invalid_sequence'' s)"
    by (rule wp_invalid(1) [OF q run violations(7)])
  show ?thesis
  proof (cases event)
    case (SessionStart mode rate)
    then show ?thesis
      by (simp add: invalid session_start_wp [OF q run] handle_client_event_def Let_def)
  next
    case (AudioAppend n)
    then show ?thesis
      by (simp add: invalid running_update(1) [OF run] handle_client_event_def Let_def wp_simps)
  next
    case AudioCommit
    then show ?thesis
      by (simp add: invalid audio_commit_wp [OF q] run handle_client_event_def Let_def)
  next
    case (SpeechGenerate str speed)
    then show ?thesis
      by (simp add: invalid speech_generate_wp [OF q] run handle_client_event_def Let_def)
  qed (use pong cancelled running_closing(1) [OF run] in
      \<open>simp_all add: handle_client_event_def Let_def wp_simps\<close>)
qed

lemma handle_binary_wp:
  assumes q: "q \<longrightarrow> steady env" and run: "running env q s"
  shows "wp (\<lambda>_. running env q) (stopped env q) (handle_binary env bytes s)"
proof (cases "ws_pending s")
  case None
  then show ?thesis
    using wp_invalid(1) [OF q run violations(4)] by (simp add: handle_binary_def)
next
  case (Some expected)
  let ?s = "s\<lparr>ws_pending := None\<rparr>"
  note run' = running_update(1) [OF run, of None]
  show ?thesis
  proof (cases "length bytes \<noteq> expected \<or> expected > max_ws_message_bytes")
    case True
    then show ?thesis
      using wp_invalid(1) [OF q run' violations(5)] Some by (auto simp: handle_binary_def Let_def)
  next
    case False
    show ?thesis
    proof (cases "ws_transcriber s")
      case None
      then show ?thesis
        using wp_invalid(1) [OF q run' violations(6)] Some False
        by (simp add: handle_binary_def Let_def)
    next
      case (Some tr)
      obtain r tr' w where push: "vb_push (we_backend env) tr bytes (ws_world s) = (r, tr', w)"
        by (metis prod_cases3)
      let ?t = "?s\<lparr>ws_transcriber := Some tr', ws_world := w\<rparr>"
      have run_t: "running env q ?t" using running_update(2) [OF run'] Some by simp
      have failing: "wp (\<lambda>_ :: unit. running env q) (stopped env q) (fail_backend env e ?t)" for e
        using wp_running_fail [OF q run_t, of "\<lambda>_. running env q" e w] by simp
      have "listening env q ?t" using run_t run Some by (simp add: running_def transcriber_ok_def)
      note sending = send_transcripts_wp [OF q this]
      have "wp (\<lambda>_. running env q) (stopped env q) (send_transcripts env us ?t)" for us
        by (rule wp_mono [OF sending]) auto
      with failing show ?thesis
        using Some False \<open>ws_pending s = Some expected\<close> push
        by (simp add: handle_binary_def Let_def split: sum.split)
    qed
  qed
qed

lemma handle_input_wp:
  assumes q: "q \<longrightarrow> steady env" and run: "running env q s"
    and input: "q \<longrightarrow> i \<noteq> Recv (Some (Inl ()))"
  shows "wp (handled env q) (stopped env q) (handle_input env i s)"
proof -
  have pong: "wp (\<lambda>_. running env q) (stopped env q) (ws_send env (OutPong bytes) s)" for bytes
    by (rule running_pong [OF q run]) auto
  have broken: "q \<or> stopped env q WsFail s"
    using run by (auto simp: running_def stopped_def dest: phase_matches_active)
  show ?thesis
    using input broken
    by (auto simp: handle_input_def wp_simps pong handle_binary_wp [OF q run]
        handle_client_event_wp [OF q run] running_closing(1) [OF run] run
        wp_invalid(1) [OF q run violations(3)] wp_invalid(1) [OF q run violations(8)]
        split: ws_input.split option.split sum.split ws_message.split)
qed

lemma websocket_loop_wp:
  "q \<longrightarrow> steady env \<Longrightarrow> running env q s \<Longrightarrow>
    wp (\<lambda>_. closing env) (stopped env q) (websocket_loop env s)"
proof (induction env s rule: websocket_loop.induct)
  case (1 env s)
  show ?case
  proof (cases "ws_inputs s")
    case Nil
    then show ?thesis
      using 1(3) by (auto simp: websocket_loop.simps [of env s] wp_simps running_def stopped_def
          dest: phase_matches_active)
  next
    case (Cons i rest)
    have input: "q \<longrightarrow> i \<noteq> Recv (Some (Inl ()))"
      using 1(3) Cons by (auto simp: running_def sound_inputs_def)
    obtain r t where h: "handle_input env i (s\<lparr>ws_inputs := rest\<rparr>) = (r, t)" by fastforce
    note wp = handle_input_wp [OF 1(2) running_update(4) [OF 1(3) Cons] input, unfolded h]
    show ?thesis
    proof (cases "r = Inr False")
      case True
      with wp have "running env q t" by (simp add: wp_simps)
      with True 1(1) [OF Cons h [symmetric], of False] 1(2) h Cons show ?thesis
        by (simp add: websocket_loop.simps [of env s])
    next
      case False
      with wp h Cons show ?thesis
        by (auto simp: websocket_loop.simps [of env s] wp_simps split: sum.split)
    qed
  qed
qed

section \<open>The session\<close>

lemma running_start: "q \<longrightarrow> Recv (Some (Inl ())) \<notin> set inputs \<Longrightarrow> running env q (ws_start inputs w)"
  by (simp add: running_def ws_start_def session_phase_def phase_matches_def sound_inputs_def
      transcriber_ok_def)

text \<open>The close frame closes the protocol, when it is delivered.\<close>

definition ends_well :: "('t, 'w) ws_env \<Rightarrow> bool \<Rightarrow> ws_out list \<Rightarrow> bool" where
  "ends_well env q outs \<longleftrightarrow>
     protocol (rc_id (we_context env)) PFresh outs \<noteq> None \<and>
     (q \<longrightarrow> (\<exists>before code reason p. outs = before @ [OutClose code reason]
        \<and> protocol (rc_id (we_context env)) PFresh before = Some p
        \<and> (if code = 1000 then active p \<or> p = PCancelled
           else \<exists>c. p = PFailed c \<and> code = documented_close c)))"

lemma close_ends_well:
  assumes q: "q \<longrightarrow> steady env" and p: "session_phase env s = Some p"
    and step: "out_step (rc_id (we_context env)) p (OutClose code reason) \<noteq> None"
    and code: "q \<longrightarrow> (if code = 1000 then active p \<or> p = PCancelled
       else \<exists>c. p = PFailed c \<and> code = documented_close c)"
  shows "ends_well env q (ws_sent (snd (ws_send env (OutClose code reason) s)))"
proof -
  have "wp (\<lambda>_ t. ends_well env q (ws_sent t)) (\<lambda>_ t. ends_well env q (ws_sent t))
      (ws_send env (OutClose code reason) s)"
    using p step code unfolding session_phase_def
    by (intro wp_ws_send [OF q]) (auto simp: ends_well_def protocol_snoc)
  then show ?thesis by (auto simp: wp_def split: prod.splits sum.splits)
qed

lemma send_error_deadline:
  assumes q: "q \<longrightarrow> steady env" and p: "session_phase env s = Some p" "active p"
  shows "\<exists>p'. session_phase env (snd (send_error env ''deadline_exceeded'' s)) = Some p'
    \<and> (active p' \<and> \<not> q \<or> p' = PFailed ''deadline_exceeded'')"
proof -
  have "out_step (rc_id (we_context env)) p
      (OutEvent (plain_event env ''error''\<lparr>ev_code := Some ''deadline_exceeded''\<rparr>)) =
        Some (PFailed ''deadline_exceeded'')"
    using p(2) by (simp add: out_step_def event_step_def plain_event_def stable_codes_def)
  with p have "wp (\<lambda>_ t. \<exists>p'. session_phase env t = Some p' \<and> (active p' \<and> \<not> q \<or> p' = PFailed ''deadline_exceeded''))
    (\<lambda>_ t. \<exists>p'. session_phase env t = Some p' \<and> (active p' \<and> \<not> q \<or> p' = PFailed ''deadline_exceeded''))
    (send_error env ''deadline_exceeded'' s)"
    unfolding send_error_def by (intro wp_ws_send [OF q]) (auto simp: session_phase_sent)
  then show ?thesis by (auto simp: wp_def split: prod.splits sum.splits)
qed

lemma websocket_session_ends_well:
  assumes q: "q \<longrightarrow> steady env" and run: "running env q s"
  shows "ends_well env q (ws_sent (websocket_session env s))"
proof -
  obtain outcome t where loop: "websocket_loop env s = (outcome, t)" by fastforce
  note wp = websocket_loop_wp [OF q run, unfolded loop]
  have dropped: "ws_sent (websocket_session env s) =
      ws_sent (snd (ws_send env (OutClose (fst close) (snd close)) u))"
    if "(case outcome of
          Inl WsTimeout \<Rightarrow> (snd (send_error env ''deadline_exceeded'' (cancel_token t)),
            (1008, ''session deadline exceeded''))
        | Inl WsFail \<Rightarrow> (cancel_token t, close_of_failure (ws_failure (cancel_token t)))
        | Inr _ \<Rightarrow> (cancel_token t, (1000, ''session closed''))) = (u, close)" for u close
    using that by (simp add: websocket_session_def loop Let_def split: option.split)
  show ?thesis
  proof (cases outcome)
    case (Inr x)
    with wp obtain p where p: "session_phase env t = Some p" "active p \<or> p = PCancelled"
      by (auto simp: wp_simps closing_def)
    show ?thesis
      by (subst dropped [of "cancel_token t" "(1000, ''session closed'')"], simp add: Inr)
        (rule close_ends_well [OF q, where p = p], use p in \<open>auto simp: out_step_def split: phase.splits\<close>)
  next
    case (Inl e)
    show ?thesis
    proof (cases e)
      case WsFail
      with Inl wp obtain p where p: "session_phase env t = Some p"
        and f: "if active p then \<not> q
          else \<exists>c. p = PFailed c \<and> fst (close_of_failure (ws_failure t)) = documented_close c"
        by (auto simp: wp_simps stopped_def)
      have codes: "fst (close_of_failure x) \<in> {1002, 1008, 1011, 1013}" for x
        by (cases x rule: close_of_failure.cases) auto
      have ft: "ws_failure (cancel_token t) = ws_failure t" by (simp add: cancel_token_def)
      show ?thesis
        by (subst dropped [of "cancel_token t" "close_of_failure (ws_failure t)"],
            simp add: Inl WsFail ft)
          (rule close_ends_well [OF q, where p = p], use p f codes [of "ws_failure t"] in
            \<open>auto simp: out_step_def split: phase.splits if_splits\<close>)
    next
      case WsTimeout
      with Inl wp obtain p where "session_phase env (cancel_token t) = Some p" "active p"
        by (auto simp: wp_simps stopped_def)
      from send_error_deadline [OF q this] obtain p' where p':
        "session_phase env (snd (send_error env ''deadline_exceeded'' (cancel_token t))) = Some p'"
        "active p' \<and> \<not> q \<or> p' = PFailed ''deadline_exceeded''" by blast
      show ?thesis
        by (subst dropped [of "snd (send_error env ''deadline_exceeded'' (cancel_token t))"
              "(1008, ''session deadline exceeded'')"], simp add: Inl WsTimeout)
          (rule close_ends_well [OF q p'(1)], use p'(2) in
            \<open>auto simp: out_step_def documented_close_def split: phase.splits\<close>)
    qed
  qed
qed

text \<open>A failed phase was reached by its error event.\<close>

lemma protocol_failed:
  assumes "protocol sid PFresh outs = Some (PFailed c)"
  shows "\<exists>before ev. outs = before @ [OutEvent ev] \<and> ev_kind ev = ''error'' \<and> ev_code ev = Some c"
proof (cases outs rule: rev_cases)
  case (snoc before out)
  with assms obtain p where "out_step sid p out = Some (PFailed c)"
    by (auto simp: protocol_snoc split: option.splits)
  then have "\<exists>ev. out = OutEvent ev \<and> ev_kind ev = ''error'' \<and> ev_code ev = Some c"
    by (cases out) (auto simp: out_step_def event_step_def pong_step_def Let_def
        split: if_splits option.splits)
  with snoc show ?thesis by auto
qed (use assms in simp)

lemma protocol_no_error:
  "protocol sid p outs = Some q \<Longrightarrow> active q \<or> q = PCancelled \<Longrightarrow>
     OutEvent ev \<in> set outs \<Longrightarrow> ev_kind ev \<noteq> ''error''"
proof (induction outs arbitrary: q rule: rev_induct)
  case (snoc out outs)
  then obtain r where r: "protocol sid p outs = Some r" "out_step sid r out = Some q"
    by (auto simp: protocol_snoc split: option.splits)
  then have "(active r \<or> r = PCancelled) \<and> (out = OutEvent ev \<longrightarrow> ev_kind ev \<noteq> ''error'')"
    using snoc.prems(2)
    by (cases out) (auto simp: out_step_def event_step_def pong_step_def Let_def
        split: if_splits option.splits phase.splits)
  with snoc.IH r(1) snoc.prems(3) show ?case by auto
qed simp

section \<open>Properties\<close>

text \<open>
  C16: whatever a client sends, in whatever order, however the backend answers and whichever sends fail,
  the messages of a realtime session are a word of the documented protocol: \<open>session_ready\<close>
  first; transcripts only in a transcription session and one right before
  \<open>session_completed\<close>; audio only between its metadata and \<open>speech_completed\<close>,
  in non-empty frames of at most 32 KiB; one error event, with a stable code, after which only the close
  frame comes, with the close code documented for that error; every event with the session's id. The
  messages are those whose send completed; a frame whose send the session timeout cut, which the peer
  may see besides, is kept in \<open>ws_cut\<close>.
\<close>

theorem realtime_output_protocol:
  "protocol (rc_id (we_context env)) PFresh (ws_sent (websocket_session env (ws_start inputs w))) \<noteq> None"
proof -
  have "running env False (ws_start inputs w)" by (rule running_start) simp
  from websocket_session_ends_well [OF _ this] show ?thesis by (simp add: ends_well_def)
qed

text \<open>
  C17: while sends succeed and the transport delivers whole messages, every session ends in a
  close frame, which is 1000 exactly when no error was reported, and otherwise the code
  documented for the error event sent right before it.
\<close>

theorem realtime_close_codes:
  assumes "steady env" and "Recv (Some (Inl ())) \<notin> set inputs"
  shows "\<exists>before code reason.
    ws_sent (websocket_session env (ws_start inputs w)) = before @ [OutClose code reason] \<and>
    (if code = 1000 then \<forall>ev. OutEvent ev \<in> set before \<longrightarrow> ev_kind ev \<noteq> ''error''
     else \<exists>earlier ev c. before = earlier @ [OutEvent ev] \<and> ev_kind ev = ''error''
       \<and> ev_code ev = Some c \<and> code = documented_close c)"
proof -
  have "ends_well env True (ws_sent (websocket_session env (ws_start inputs w)))"
    using assms by (intro websocket_session_ends_well running_start) auto
  then obtain before code reason p where
    outs: "ws_sent (websocket_session env (ws_start inputs w)) = before @ [OutClose code reason]"
    and p: "protocol (rc_id (we_context env)) PFresh before = Some p"
    and c: "if code = 1000 then active p \<or> p = PCancelled
      else \<exists>c. p = PFailed c \<and> code = documented_close c"
    unfolding ends_well_def by blast
  show ?thesis
  proof (cases "code = 1000")
    case True
    with p c protocol_no_error have "\<forall>ev. OutEvent ev \<in> set before \<longrightarrow> ev_kind ev \<noteq> ''error''"
      by fastforce
    with outs True show ?thesis by auto
  next
    case False
    with c obtain d where "p = PFailed d" "code = documented_close d" by auto
    moreover from this p have "\<exists>earlier ev. before = earlier @ [OutEvent ev]
        \<and> ev_kind ev = ''error'' \<and> ev_code ev = Some d"
      using protocol_failed by blast
    ultimately show ?thesis using outs False by auto
  qed
qed

definition chime_env :: "(unit, unit) ws_env" where
  "chime_env = \<lparr>we_backend = chime_backend, we_send = \<lambda>_ w. (None, w),
     we_context = \<lparr>rc_id = 7, rc_cancellation = token_new, rc_deadline = None\<rparr>,
     we_abandoned = \<lambda>_. None\<rparr>"

theorem realtime_close_codes_witness:
  "\<exists>before code reason. ws_sent (websocket_session chime_env
     (ws_start [Recv (Some (Inr (WsText (Some AudioCommit))))] ())) = before @ [OutClose code reason]"
proof -
  have "steady chime_env" by (simp add: steady_def chime_env_def)
  from realtime_close_codes [OF this, of "[Recv (Some (Inr (WsText (Some AudioCommit))))]" "()"]
  show ?thesis by auto
qed

end
