(* ===== verification/Backend_Permits.thy ===== *)
theory Backend_Permits
  imports Voice_Api
begin

text \<open>
  The contract of a backend about transcription permits, which every streaming transport relies
  on, as a locale: opening a transcription takes a permit exactly when it succeeds, and finishing
  or dropping one gives it back. The engines of \<open>Voice_Api\<close> are shown to keep it; the transports
  prove their own resource safety in its context (\<open>Realtime_Permits\<close>, \<open>Grpc_Permits\<close>).
\<close>

section \<open>The contract of a backend\<close>

locale permit_backend =
  fixes backend :: "('t, 'w) voice_backend"
    and held :: "'w \<Rightarrow> nat"
    and sane :: "'w \<Rightarrow> bool"
  assumes start_permit: "sane w \<Longrightarrow> vb_start backend rate context w = (r, w') \<Longrightarrow>
      sane w' \<and> held w' = (if is_ok r then held w + 1 else held w)"
    and push_permit: "sane w \<Longrightarrow> vb_push backend t bytes w = (u, t', w') \<Longrightarrow>
      sane w' \<and> held w' = held w"
    and finish_permit: "sane w \<Longrightarrow> 0 < held w \<Longrightarrow> vb_finish backend t w = (v, w') \<Longrightarrow>
      sane w' \<and> held w' = held w - 1"
    and drop_permit: "sane w \<Longrightarrow> 0 < held w \<Longrightarrow>
      sane (vb_drop backend t w) \<and> held (vb_drop backend t w) = held w - 1"
    and synthesize_permit: "sane w \<Longrightarrow> vb_synthesize backend str speed context w = (y, w') \<Longrightarrow>
      sane w' \<and> held w' = held w"

section \<open>The engines keep the contract\<close>

definition engines_sane :: "'w engines_state \<Rightarrow> bool" where
  "engines_sane s \<longleftrightarrow> limiter_bounded (es_stt s) \<and> lim_active (es_stt s) \<le> lim_maximum (es_stt s)"

lemma start_stream_permit:
  assumes l: "limiter_bounded l" "lim_active l \<le> lim_maximum l"
    and start: "start_stream env engine source context (l, w) = (r, l', w')"
  shows "lim_active l' = (if is_ok r then lim_active l + 1 else lim_active l)
    \<and> limiter_bounded l' \<and> lim_active l' \<le> lim_maximum l'"
proof -
  obtain a w1 where c: "stt_ensure_active env context w = (a, w1)" by fastforce
  show ?thesis
  proof (cases "lim_active l < lim_maximum l")
    case True
    then have acq: "stt_acquire l = (Inr (), l\<lparr>lim_active := lim_active l + 1\<rparr>)"
      by (simp add: stt_acquire_def limiter_acquire_free)
    then have rel: "limiter_release (l\<lparr>lim_active := Suc (lim_active l)\<rparr>) = l"
      using stt_pool.release_acquire [OF l(1) True] by simp
    show ?thesis
      using start l True
      by (auto simp: start_stream_def c acq rel limiter_bounded_def split: sum.splits prod.splits)
  next
    case False
    then have "stt_acquire l = (Inl SttBusy, l)" by (simp add: stt_acquire_def limiter_acquire_full)
    then show ?thesis using start l by (auto simp: start_stream_def c split: sum.splits)
  qed
qed

lemma engines_drop_permit:
  assumes "engines_sane s" and "0 < lim_active (es_stt s)"
  shows "engines_sane (engines_drop env t s)"
    and "lim_active (es_stt (engines_drop env t s)) = lim_active (es_stt s) - 1"
  using assms stt_pool.release_held [of "es_stt s"] by (auto simp: engines_sane_def engines_drop_def)

interpretation engines: permit_backend "engines_backend env engine tenv limits"
    "\<lambda>s. lim_active (es_stt s)" engines_sane
  for env :: "('st, 'w) stt_env" and engine and tenv :: "'w tts_env" and limits
proof unfold_locales
  let ?b = "engines_backend env engine tenv limits"
  fix w w' :: "'w engines_state"
  assume sane: "engines_sane w"
  show "engines_sane w' \<and>
      lim_active (es_stt w') = (if is_ok r then lim_active (es_stt w) + 1 else lim_active (es_stt w))"
    if "vb_start ?b rate context w = (r, w')" for rate "context" r
    using that sane start_stream_permit [of "es_stt w" env engine rate "context" "es_world w"]
    by (auto simp: engines_backend_def engines_start_def engines_sane_def is_ok_def
        split: prod.splits sum.splits)
  show "engines_sane w' \<and> lim_active (es_stt w') = lim_active (es_stt w)"
    if "vb_push ?b t bytes w = (u, t', w')" for t bytes u t'
    using that sane by (auto simp: engines_backend_def engines_push_def engines_sane_def split: prod.splits)
  show "engines_sane w' \<and> lim_active (es_stt w') = lim_active (es_stt w) - 1"
    if "0 < lim_active (es_stt w)" "vb_finish ?b t w = (v, w')" for t v
    using that sane engines_drop_permit [of "w\<lparr>es_world := x\<rparr>" for x]
    by (auto simp: engines_backend_def engines_finish_def engines_sane_def split: prod.splits)
  show "engines_sane (vb_drop ?b t w) \<and> lim_active (es_stt (vb_drop ?b t w)) = lim_active (es_stt w) - 1"
    if "0 < lim_active (es_stt w)" for t
    by (simp add: engines_backend_def engines_drop_permit [OF sane that, simplified])
  show "engines_sane w' \<and> lim_active (es_stt w') = lim_active (es_stt w)"
    if "vb_synthesize ?b str speed context w = (y, w')" for str speed "context" y
    using that sane
    by (auto simp: engines_backend_def engines_synthesize_def engines_sane_def split: prod.splits)
qed

end
