(* ===== verification/Realtime_Permits.thy ===== *)
theory Realtime_Permits
  imports Realtime Backend_Permits
begin

text \<open>
  Resource safety of a realtime session: the transcription permit that \<open>start_transcription\<close>
  takes is given back on every way out of the session.
\<close>

section \<open>A session keeps the balance\<close>

context permit_backend begin

text \<open>The session's environment uses this backend, and sending does not touch the permits.\<close>

definition connected :: "('t, 'w) ws_env \<Rightarrow> bool" where
  "connected env \<longleftrightarrow> we_backend env = backend \<and>
     (\<forall>out w. held (snd (we_send env out w)) = held w \<and> (sane w \<longrightarrow> sane (snd (we_send env out w))))"

definition balanced :: "nat \<Rightarrow> ('t, 'w) ws \<Rightarrow> bool" where
  "balanced n s \<longleftrightarrow> sane (ws_world s)
     \<and> held (ws_world s) = (if ws_transcriber s = None then n else n + 1)
     \<and> (ws_mode s = None \<longrightarrow> ws_transcriber s = None)"

lemma send_balanced:
  assumes env: "connected env" and s: "balanced n s"
  shows "balanced n (snd (ws_send env out s))"
proof -
  obtain r w where send: "we_send env out (ws_world s) = (r, w)" by fastforce
  have "sane w" "held w = held (ws_world s)"
    using env s send unfolding connected_def balanced_def by (metis snd_conv)+
  then show ?thesis using s
    by (auto simp: ws_send_def send balanced_def split: option.split ws_stop.split)
qed

lemma protocol_error_balanced:
  assumes "connected env" and "balanced n s"
  shows "balanced n (snd (protocol_error env c s))"
  unfolding protocol_error_def send_error_def
  by (rule bind_st_keeps) (use assms in \<open>simp_all add: send_balanced\<close>)

lemma fail_backend_balanced:
  assumes "connected env" and "balanced n s"
  shows "balanced n (snd (fail_backend env e s))"
  unfolding fail_backend_def
  by (rule protocol_error_balanced [OF assms(1)]) (use assms(2) in \<open>simp add: balanced_def\<close>)

lemma events_balanced:
  assumes "connected env" and "balanced n s"
  shows "balanced n (snd (send_event env k s))" "balanced n (snd (send_error env c s))"
    "balanced n (snd (send_transcript env u s))"
  unfolding send_event_def send_error_def send_transcript_def Let_def
  by (rule send_balanced [OF assms])+

lemma bind_balanced:
  assumes "balanced n (snd (m s))" and "\<And>a t. balanced n t \<Longrightarrow> balanced n (snd (f a t))"
  shows "balanced n (snd (bind_st m f s))"
  by (rule bind_st_keeps [where P = "balanced n"]) (use assms in auto)

lemma send_all_balanced:
  "connected env \<Longrightarrow> balanced n s \<Longrightarrow> balanced n (snd (send_all env outs s))"
  by (induction outs arbitrary: s) (simp_all add: bind_balanced send_balanced)

lemma send_transcripts_balanced:
  "connected env \<Longrightarrow> balanced n s \<Longrightarrow> balanced n (snd (send_transcripts env us s))"
  by (induction us arbitrary: s) (simp_all add: bind_balanced events_balanced)

lemma updates_balanced [simp]:
  "balanced n (s\<lparr>ws_pending := p\<rparr>) = balanced n s"
  "balanced n (s\<lparr>ws_inputs := i\<rparr>) = balanced n s"
  "balanced n (s\<lparr>ws_completed := d\<rparr>) = balanced n s"
  "balanced n (ws_completed_update f s) = balanced n s"
  "balanced n (cancel_token s) = balanced n s"
  by (simp_all add: balanced_def cancel_token_def)

lemma generate_input_balanced:
  assumes env: "connected env" and s: "balanced n s"
  shows "balanced n (snd (generate_input env str speed i s))"
proof -
  have world: "balanced n (s\<lparr>ws_world := w\<rparr>)"
    if "vb_synthesize (we_backend env) str speed (we_context env) (ws_world s) = (y, w)" for y w
    using synthesize_permit [of "ws_world s" str speed "we_context env" y w] that env s
    by (simp add: connected_def balanced_def)
  show ?thesis
    by (auto simp: generate_input_def s world intro!: bind_balanced protocol_error_balanced [OF env]
        fail_backend_balanced [OF env] events_balanced [OF env] send_balanced [OF env]
        split: ws_input.split bool.split prod.split option.split sum.split ws_message.split
          client_event.split)
qed

lemma abandon_worker_balanced:
  assumes env: "connected env" and s: "balanced n s"
  shows "balanced n (abandon_worker env str speed s)"
proof -
  have "balanced n (s\<lparr>ws_world := snd (vb_synthesize (we_backend env) str speed ctx (ws_world s))\<rparr>)"
    for ctx
  proof -
    obtain y w where out: "vb_synthesize (we_backend env) str speed ctx (ws_world s) = (y, w)"
      by fastforce
    then show ?thesis using synthesize_permit [of "ws_world s" str speed ctx y w] env s
      by (simp add: connected_def balanced_def)
  qed
  with s show ?thesis by (auto simp: abandon_worker_def split: option.split)
qed

lemma generate_loop_balanced:
  "connected env \<Longrightarrow> balanced n s \<Longrightarrow> balanced n (snd (generate_loop env str speed s))"
proof (induction env str speed s rule: generate_loop.induct)
  case (1 env str speed s)
  show ?case
  proof (cases "ws_inputs s")
    case (Cons i rest)
    obtain r t where g: "generate_input env str speed i (s\<lparr>ws_inputs := rest\<rparr>) = (r, t)" by fastforce
    have "balanced n t"
      using generate_input_balanced [OF 1(2), of n "s\<lparr>ws_inputs := rest\<rparr>" str speed i] g 1(3) by simp
    with 1(1) [OF Cons g [symmetric]] 1(2) g Cons show ?thesis
      by (auto simp: generate_loop.simps [of env str speed s] abandon_worker_balanced
          split: sum.split generation.split ws_input.split)
  qed (simp add: generate_loop.simps [of env str speed s] 1(2,3) abandon_worker_balanced)
qed

lemma session_start_balanced:
  assumes env: "connected env" and s: "balanced n s" and mode: "ws_mode s = None"
  shows "balanced n (snd (session_start env mode rate s))"
proof -
  have start: "balanced n (s\<lparr>ws_mode := Some md, ws_world := w\<rparr>)" if "x = Inl e"
      "vb_start (we_backend env) q (we_context env) (ws_world s) = (x, w)" for e q x w md
    using start_permit [of "ws_world s" q "we_context env" x w] that env s mode
    by (simp add: connected_def balanced_def)
  have started: "balanced n (s\<lparr>ws_mode := Some md, ws_transcriber := Some t, ws_world := w\<rparr>)"
    if "vb_start (we_backend env) q (we_context env) (ws_world s) = (Inr t, w)" for t q w md
    using start_permit [of "ws_world s" q "we_context env" "Inr t" w] that env s mode
    by (simp add: connected_def balanced_def)
  have m: "balanced n (s\<lparr>ws_mode := Some md\<rparr>)" for md using s mode by (simp add: balanced_def)
  show ?thesis
    by (auto simp: session_start_def Let_def m start started
        intro!: bind_balanced protocol_error_balanced [OF env] fail_backend_balanced [OF env]
          events_balanced [OF env] split: option.split prod.split sum.split)
qed

lemma audio_commit_balanced:
  assumes env: "connected env" and s: "balanced n s"
  shows "balanced n (snd (audio_commit env s))"
proof -
  have finish: "balanced n (s\<lparr>ws_transcriber := None, ws_world := w\<rparr>)"
    if "ws_transcriber s = Some t" "vb_finish (we_backend env) t (ws_world s) = (x, w)" for t x w
    using finish_permit [of "ws_world s" t x w] that env s by (simp add: connected_def balanced_def)
  show ?thesis
    by (auto simp: audio_commit_def s finish intro!: bind_balanced protocol_error_balanced [OF env]
        fail_backend_balanced [OF env] events_balanced [OF env]
        split: option.split prod.split sum.split)
qed

lemma handle_binary_balanced:
  assumes env: "connected env" and s: "balanced n s"
  shows "balanced n (snd (handle_binary env bytes s))"
proof -
  have push: "balanced n (s\<lparr>ws_pending := None, ws_transcriber := Some t', ws_world := w\<rparr>)"
    if "ws_transcriber s = Some t" "vb_push (we_backend env) t bytes (ws_world s) = (x, t', w)"
    for t x t' w
    using push_permit [of "ws_world s" t bytes x t' w] that env s
    by (simp add: connected_def balanced_def)
  show ?thesis
    by (auto simp: handle_binary_def Let_def s push intro!: protocol_error_balanced [OF env]
        fail_backend_balanced [OF env] send_transcripts_balanced [OF env]
        split: option.split prod.split sum.split)
qed

lemma publish_speech_balanced:
  "connected env \<Longrightarrow> balanced n s \<Longrightarrow> balanced n (snd (publish_speech env y s))"
  unfolding publish_speech_def
  by (intro bind_balanced send_balanced send_all_balanced events_balanced) simp_all

lemma handle_client_event_balanced:
  assumes env: "connected env" and s: "balanced n s"
  shows "balanced n (snd (handle_client_event env event s))"
proof -
  have speech: "balanced n (snd (speech_generate env str speed s))" for str speed
  proof -
    obtain r t where g: "generate_loop env str speed s = (r, t)" by fastforce
    have "balanced n t" using generate_loop_balanced [OF env s, of str speed] g by simp
    then show ?thesis
      by (auto simp: speech_generate_def g publish_speech_balanced [OF env] split: sum.split option.split)
  qed
  show ?thesis
    by (auto simp: handle_client_event_def Let_def s speech session_start_balanced [OF env s]
        audio_commit_balanced [OF env s] protocol_error_balanced [OF env s]
        intro!: bind_balanced events_balanced [OF env] split: client_event.split)
qed

lemma handle_input_balanced:
  assumes env: "connected env" and s: "balanced n s"
  shows "balanced n (snd (handle_input env i s))"
  by (auto simp: handle_input_def s handle_client_event_balanced [OF env s]
      protocol_error_balanced [OF env s] intro!: bind_balanced handle_binary_balanced [OF env s]
      send_balanced [OF env s] split: ws_input.split option.split sum.split ws_message.split)

lemma websocket_loop_balanced:
  "connected env \<Longrightarrow> balanced n s \<Longrightarrow> balanced n (snd (websocket_loop env s))"
proof (induction env s rule: websocket_loop.induct)
  case (1 env s)
  show ?case
  proof (cases "ws_inputs s")
    case (Cons i rest)
    obtain r t where h: "handle_input env i (s\<lparr>ws_inputs := rest\<rparr>) = (r, t)" by fastforce
    have "balanced n t"
      using handle_input_balanced [OF 1(2), of n "s\<lparr>ws_inputs := rest\<rparr>" i] h 1(3) by simp
    with 1(1) [OF Cons h [symmetric]] 1(2) h Cons show ?thesis
      by (auto simp: websocket_loop.simps [of env s] split: sum.split)
  qed (simp add: websocket_loop.simps [of env s] 1(3))
qed

text \<open>Whatever happened, the session leaves the backend with the permits it found.\<close>

lemma session_permits:
  assumes env: "connected env" and s: "balanced n s"
  shows "held (ws_world (websocket_session env s)) = n"
proof -
  obtain outcome t where loop: "websocket_loop env s = (outcome, t)" by fastforce
  have t: "balanced n (cancel_token t)"
    using websocket_loop_balanced [OF env s] by (simp add: loop)
  define u where "u = (case outcome of Inl WsTimeout \<Rightarrow>
      snd (send_error env ''deadline_exceeded'' (cancel_token t)) | _ \<Rightarrow> cancel_token t)"
  have u: "balanced n u"
    using t by (auto simp: u_def events_balanced [OF env] split: sum.split ws_stop.split)
  obtain close where v: "websocket_session env s =
      (let s = snd (ws_send env (OutClose (fst close) (snd close)) u)
       in case ws_transcriber s of None \<Rightarrow> s
        | Some t \<Rightarrow> s\<lparr>ws_transcriber := None, ws_world := vb_drop (we_backend env) t (ws_world s)\<rparr>)"
    by (cases outcome rule: sum.exhaust; (cases "projl outcome")?)
      (auto simp: websocket_session_def loop u_def Let_def split: ws_stop.split)
  let ?v = "snd (ws_send env (OutClose (fst close) (snd close)) u)"
  have "balanced n ?v" by (rule send_balanced [OF env u])
  then show ?thesis
    using drop_permit [of "ws_world ?v"] env
    by (auto simp: v Let_def balanced_def connected_def split: option.split)
qed

end

section \<open>Properties\<close>

text \<open>
  C18: a realtime session on the engines never leaks or over-releases a transcription permit:
  after the session, however it ended (completion, cancel, protocol error, engine failure,
  broken transport, timeout), the limiter's active count is what it was before it.
\<close>

theorem realtime_returns_permit:
  assumes "we_backend env = engines_backend senv engine tenv limits"
    and "\<And>out w. es_stt (snd (we_send env out w)) = es_stt w"
    and "limiter_bounded (es_stt w)" and "lim_active (es_stt w) \<le> lim_maximum (es_stt w)"
  shows "lim_active (es_stt (ws_world (websocket_session env (ws_start inputs w)))) = lim_active (es_stt w)"
proof (rule engines.session_permits)
  show "engines.connected senv engine tenv limits env"
    using assms(1,2) by (simp add: engines.connected_def engines_sane_def)
  show "engines.balanced (lim_active (es_stt w)) (ws_start inputs w)"
    using assms(3,4) by (simp add: engines.balanced_def ws_start_def engines_sane_def)
qed

definition mute_env :: "f32 list tts_env" where
  "mute_env = \<lparr>tenv_check = \<lambda>w. ((False, 0), w), tenv_generate = \<lambda>_ _ _ w. (Inl TtsEngine, w)\<rparr>"

definition echo_ws_env :: "((unit, f32 list) session, f32 list engines_state) ws_env" where
  "echo_ws_env = \<lparr>we_backend = engines_backend echo_env echo_engine mute_env tts_limits_default,
     we_send = \<lambda>_ w. (None, w), we_context = echo_context,
     we_abandoned = \<lambda>_. None\<rparr>"

theorem realtime_returns_permit_witness:
  "lim_active (es_stt (ws_world (websocket_session echo_ws_env
     (ws_start [Recv (Some (Inr (WsText (Some (SessionStart ModeStt (Some 16000)))))),
        Recv (Some (Inl ()))]
       \<lparr>es_stt = \<lparr>lim_active = 1, lim_maximum = 2\<rparr>, es_tts = \<lparr>lim_active = 0, lim_maximum = 1\<rparr>,
        es_world = []\<rparr>)))) = 1"
  by (subst realtime_returns_permit [of echo_ws_env echo_env echo_engine mute_env tts_limits_default])
    (simp_all add: echo_ws_env_def limiter_bounded_def u64_max_def)

end
