(* ===== verification/Grpc.thy ===== *)
theory Grpc
  imports Voice_Api
begin

text \<open>
  \<open>crates/impossible-voice-server/src/grpc.rs\<close>: the four RPCs of the Voice service. Requests are
  decoded messages of \<open>voice.proto\<close>; the transport, health and reflection are tonic's. A streaming
  RPC runs against the sequence of things its task awaits (messages, the end or failure of the
  input, the request being stopped), and a send fails once the receiver is gone. Proved: a stream
  emits transcript events and then at most one error, what a synthesis stream delivers, and the
  exact transcripts of a well-formed stream in terms of the backend.
\<close>

section \<open>Statuses and messages\<close>

datatype status_code =
  StInvalidArgument | StResourceExhausted | StCancelled | StDeadlineExceeded | StInternal

record grpc_status =
  st_code :: status_code
  st_message :: string

definition status :: "status_code \<Rightarrow> string \<Rightarrow> grpc_status" where
  "status code message = \<lparr>st_code = code, st_message = message\<rparr>"

fun status_of_backend_error :: "backend_error \<Rightarrow> grpc_status" where
  "status_of_backend_error BackendInvalidInput = status StInvalidArgument ''voice input is invalid''"
| "status_of_backend_error BackendBusy = status StResourceExhausted ''voice capacity is busy''"
| "status_of_backend_error BackendCancelled = status StCancelled ''the request was cancelled''"
| "status_of_backend_error BackendDeadlineExceeded =
     status StDeadlineExceeded ''the request deadline was exceeded''"
| "status_of_backend_error BackendEngine = status StInternal ''the local voice engine failed''"

datatype audio_encoding = EncUnspecified | EncWavPcm16 | EncRawPcm16

definition encoding_of_i32 :: "int \<Rightarrow> audio_encoding option" where
  "encoding_of_i32 v =
     (if v = 0 then Some EncUnspecified else if v = 1 then Some EncWavPcm16
      else if v = 2 then Some EncRawPcm16 else None)"

record transcribe_request =
  tq_audio :: "u8 list"
  tq_encoding :: int
  tq_sample_rate :: nat

record synthesize_request =
  yq_input :: ustr
  yq_speed :: f32
  yq_encoding :: int

record synthesize_response =
  yr_audio :: "u8 list"
  yr_encoding :: audio_encoding
  yr_sample_rate :: nat
  yr_channels :: nat

record transcript_event =
  te_text :: string
  te_final :: bool

record audio_chunk =
  ac_audio :: "u8 list"
  ac_sequence :: nat
  ac_final :: bool
  ac_sample_rate :: nat
  ac_channels :: nat
  ac_chunking :: string

definition max_grpc_message_bytes :: nat where "max_grpc_message_bytes = 16 * 1024 * 1024"
definition max_stream_audio_bytes :: nat where "max_stream_audio_bytes = 64 * 1024"
definition grpc_tts_chunk_bytes :: nat where "grpc_tts_chunk_bytes = 32 * 1024"

section \<open>Admission\<close>

definition grpc_decode_audio :: "transcribe_request \<Rightarrow> grpc_status + mono_pcm" where
  "grpc_decode_audio request =
     (if length (tq_audio request) > max_grpc_message_bytes
      then Inl (status StResourceExhausted ''audio exceeds the message limit'')
      else
        (case encoding_of_i32 (tq_encoding request) of
           Some EncWavPcm16 \<Rightarrow>
             if tq_sample_rate request = 0
             then map_err (\<lambda>_. status StInvalidArgument ''WAV audio is invalid'')
                    (from_wav (tq_audio request) audio_limits_default)
             else Inl (status StInvalidArgument ''encoding and sample rate are inconsistent'')
         | Some EncRawPcm16 \<Rightarrow>
             if tq_sample_rate request > 0
             then map_err (\<lambda>_. status StInvalidArgument ''raw PCM16 audio is invalid'')
                    (from_pcm16_le (tq_audio request) (tq_sample_rate request) audio_limits_default)
             else Inl (status StInvalidArgument ''encoding and sample rate are inconsistent'')
         | _ \<Rightarrow> Inl (status StInvalidArgument ''encoding and sample rate are inconsistent'')))"

definition parse_output_encoding :: "int \<Rightarrow> grpc_status + audio_encoding" where
  "parse_output_encoding v =
     (case encoding_of_i32 v of
        Some EncWavPcm16 \<Rightarrow> Inr EncWavPcm16
      | Some EncRawPcm16 \<Rightarrow> Inr EncRawPcm16
      | _ \<Rightarrow> Inl (status StInvalidArgument ''output encoding is unsupported''))"

definition normalize_speed :: "f32 \<Rightarrow> f32" where
  "normalize_speed speed = (if speed = Fin 0 then Fin 1 else speed)"

fun encode_synthesis :: "synthesis \<Rightarrow> audio_encoding \<Rightarrow> grpc_status + u8 list" where
  "encode_synthesis y EncWavPcm16 = map_err (\<lambda>_. status StInternal ''WAV encoding failed'') (synthesis_wav y)"
| "encode_synthesis y EncRawPcm16 = Inr (synthesis_pcm16 y)"
| "encode_synthesis y EncUnspecified = Inl (status StInvalidArgument ''output encoding is required'')"

section \<open>Unary calls\<close>

text \<open>
  \<open>ge_panics\<close> says whether the blocking worker panics, which \<open>spawn_blocking\<close>
  reports as a join error; \<open>ge_clock\<close> is the instant at which the request's deadline is
  computed.
\<close>

record ('t, 'w) grpc_env =
  ge_backend :: "('t, 'w) voice_backend"
  ge_timeout :: duration
  ge_clock :: "'w \<Rightarrow> nat"
  ge_panics :: "'w \<Rightarrow> bool"

record 'w grpc_state =
  gs_ids :: nat
  gs_world :: 'w

definition grpc_context ::
  "('t, 'w) grpc_env \<Rightarrow> ('w grpc_state, grpc_status, request_context) action"
where
  "grpc_context env s =
     (case next_request_id (gs_ids s) of
        (Inl _, ids) \<Rightarrow>
          (Inl (status StInternal ''request identifiers are unavailable''), s\<lparr>gs_ids := ids\<rparr>)
      | (Inr ident, ids) \<Rightarrow>
          (map_err (\<lambda>_. status StInternal ''request deadline is unavailable'')
             (request_context_new (ge_clock env (gs_world s)) ident token_new (Some (ge_timeout env))),
           s\<lparr>gs_ids := ids\<rparr>))"

text \<open>\<open>spawn_blocking(...).await\<close> of a backend call.\<close>

definition grpc_worker ::
  "('t, 'w) grpc_env \<Rightarrow> string \<Rightarrow> ('w, backend_error, 'a) action \<Rightarrow> ('w grpc_state, grpc_status, 'a) action"
where
  "grpc_worker env failed call s =
     (case call (gs_world s) of
        (r, w) \<Rightarrow>
          (if ge_panics env (gs_world s) then Inl (status StInternal failed)
           else map_err status_of_backend_error r,
           s\<lparr>gs_world := w\<rparr>))"

definition grpc_transcribe ::
  "('t, 'w) grpc_env \<Rightarrow> transcribe_request \<Rightarrow> ('w grpc_state, grpc_status, string) action"
where
  "grpc_transcribe env request =
     bind_st (grpc_context env) (\<lambda>context.
     bind_st (lift_res (grpc_decode_audio request)) (\<lambda>audio.
       grpc_worker env ''speech recognition worker failed''
         (vb_transcribe (ge_backend env) audio context)))"

definition grpc_synthesize ::
  "('t, 'w) grpc_env \<Rightarrow> synthesize_request \<Rightarrow> ('w grpc_state, grpc_status, synthesize_response) action"
where
  "grpc_synthesize env request =
     bind_st (grpc_context env) (\<lambda>context.
     bind_st (lift_res (parse_output_encoding (yq_encoding request))) (\<lambda>encoding.
     bind_st (grpc_worker env ''speech synthesis worker failed''
                (vb_synthesize (ge_backend env) (yq_input request) (normalize_speed (yq_speed request))
                   context)) (\<lambda>synthesis.
     bind_st (lift_res (encode_synthesis synthesis encoding)) (\<lambda>audio.
       ret \<lparr>yr_audio = audio, yr_encoding = encoding, yr_sample_rate = pcm_rate (sy_audio synthesis),
            yr_channels = 1\<rparr>))))"

section \<open>Streams\<close>

text \<open>
  What a task sends on the stream's channel. The channel says, from what was sent and the state,
  whether the receiver still takes an item; a full queue only delays a send.
\<close>

type_synonym ('a, 's) channel = "(grpc_status + 'a) list \<Rightarrow> 's \<Rightarrow> bool"

record ('a, 's) stream_task =
  sk_sent :: "(grpc_status + 'a) list"
  sk_state :: 's

definition channel_send ::
  "('a, 's) channel \<Rightarrow> (grpc_status + 'a) \<Rightarrow> (('a, 's) stream_task, unit, unit) action"
where
  "channel_send ch item s =
     (if ch (sk_sent s) (sk_state s) then (Inr (), s\<lparr>sk_sent := sk_sent s @ [item]\<rparr>) else (Inl (), s))"

text \<open>The chunks of a completed synthesis; the task ends when the receiver is gone.\<close>

fun send_chunks ::
  "(audio_chunk, 's) channel \<Rightarrow> nat \<Rightarrow> nat \<Rightarrow> (nat \<times> u8 list) list \<Rightarrow>
    ((audio_chunk, 's) stream_task, unit, unit) action"
where
  "send_chunks ch rate count [] = ret ()"
| "send_chunks ch rate count ((index, audio) # rest) =
     (case try_u32 index of
        None \<Rightarrow> channel_send ch (Inl (status StInternal ''chunk sequence overflow''))
      | Some sequence \<Rightarrow>
          bind_st (channel_send ch
             (Inr \<lparr>ac_audio = audio, ac_sequence = sequence, ac_final = (index + 1 = count),
                  ac_sample_rate = rate, ac_channels = 1,
                  ac_chunking = ''post_synthesis_transport''\<rparr>))
            (\<lambda>_. send_chunks ch rate count rest))"

definition synthesis_stream ::
  "(audio_chunk, 's) channel \<Rightarrow> synthesis \<Rightarrow> 's \<Rightarrow> (grpc_status + audio_chunk) list"
where
  "synthesis_stream ch y s =
     (let pcm = synthesis_pcm16 y;
          count = div_ceil (length pcm) grpc_tts_chunk_bytes
      in sk_sent (snd (send_chunks ch (pcm_rate (sy_audio y)) count
           (List.enumerate 0 (chunks grpc_tts_chunk_bytes pcm)) \<lparr>sk_sent = [], sk_state = s\<rparr>)))"

definition grpc_stream_synthesize ::
  "('t, 'w) grpc_env \<Rightarrow> (audio_chunk, 'w) channel \<Rightarrow> synthesize_request \<Rightarrow>
    ('w grpc_state, grpc_status, (grpc_status + audio_chunk) list) action"
where
  "grpc_stream_synthesize env ch request =
     bind_st (grpc_context env) (\<lambda>context.
     bind_st (lift_res (parse_output_encoding (yq_encoding request))) (\<lambda>encoding.
       if encoding \<noteq> EncRawPcm16
       then fail (status StInvalidArgument ''streaming synthesis requires raw PCM16 output'')
       else
         bind_st (grpc_worker env ''speech synthesis worker failed''
                    (vb_synthesize (ge_backend env) (yq_input request)
                       (normalize_speed (yq_speed request)) context)) (\<lambda>synthesis s.
           ret (synthesis_stream ch synthesis (gs_world s)) s)))"

section \<open>Streaming transcription\<close>

datatype stream_event = EvConfig nat | EvAudio "u8 list" | EvCommit bool | EvCancel bool

datatype stream_input =
  InStopped request_stop
| InMessage "stream_event option"
| InEnd
| InFailed

record ('t, 'w) transcription =
  tn_session :: "'t option"
  tn_committed :: bool
  tn_world :: 'w

type_synonym ('t, 'w) transcription_task = "(transcript_event, ('t, 'w) transcription) stream_task"

fun stop_status :: "request_stop \<Rightarrow> grpc_status" where
  "stop_status StopCancelled = status StCancelled ''the request was cancelled''"
| "stop_status StopDeadlineExceeded = status StDeadlineExceeded ''the request deadline was exceeded''"

text \<open>\<open>let _ = sender.send(item).await; return\<close>\<close>

definition send_last ::
  "(transcript_event, ('t, 'w) transcription) channel \<Rightarrow> (grpc_status + transcript_event) \<Rightarrow>
    ('t, 'w) transcription_task \<Rightarrow> bool \<times> ('t, 'w) transcription_task"
where
  "send_last ch item s = (True, snd (channel_send ch item s))"

text \<open>Sends the updates of a push; an error is a receiver that has gone.\<close>

fun send_updates ::
  "(transcript_event, ('t, 'w) transcription) channel \<Rightarrow> transcript list \<Rightarrow>
    (('t, 'w) transcription_task, unit, unit) action"
where
  "send_updates ch [] = ret ()"
| "send_updates ch (u # us) =
     bind_st (channel_send ch (Inr \<lparr>te_text = tr_text u, te_final = (tr_kind u = Final)\<rparr>))
       (\<lambda>_. send_updates ch us)"

definition stream_failed ::
  "(transcript_event, ('t, 'w) transcription) channel \<Rightarrow> backend_error \<Rightarrow>
    ('t, 'w) transcription_task \<Rightarrow> bool \<times> ('t, 'w) transcription_task"
where
  "stream_failed ch e = send_last ch (Inl (status_of_backend_error e))"

text \<open>The three events of a session; \<open>true\<close> means the task returned.\<close>

definition stream_config ::
  "('t, 'w) voice_backend \<Rightarrow> request_context \<Rightarrow>
    (transcript_event, ('t, 'w) transcription) channel \<Rightarrow> nat \<Rightarrow>
    ('t, 'w) transcription_task \<Rightarrow> bool \<times> ('t, 'w) transcription_task"
where
  "stream_config backend context ch rate s =
     (let t = sk_state s
      in if tn_session t = None \<and> \<not> tn_committed t then
           (case vb_start backend rate context (tn_world t) of
              (Inl e, w) \<Rightarrow> stream_failed ch e (s\<lparr>sk_state := t\<lparr>tn_world := w\<rparr>\<rparr>)
            | (Inr opened, w) \<Rightarrow>
                (False, s\<lparr>sk_state := t\<lparr>tn_session := Some opened, tn_world := w\<rparr>\<rparr>))
         else stream_failed ch BackendInvalidInput s)"

definition stream_audio ::
  "('t, 'w) voice_backend \<Rightarrow> (transcript_event, ('t, 'w) transcription) channel \<Rightarrow> u8 list \<Rightarrow>
    ('t, 'w) transcription_task \<Rightarrow> bool \<times> ('t, 'w) transcription_task"
where
  "stream_audio backend ch bytes s =
     (let t = sk_state s
      in case tn_session t of
           None \<Rightarrow> stream_failed ch BackendInvalidInput s
         | Some active \<Rightarrow>
             if \<not> tn_committed t \<and> bytes \<noteq> [] \<and> length bytes \<le> max_stream_audio_bytes then
               (case vb_push backend active bytes (tn_world t) of
                  (r, active', w) \<Rightarrow>
                    let s = s\<lparr>sk_state := t\<lparr>tn_session := Some active', tn_world := w\<rparr>\<rparr> in
                    (case r of
                       Inl e \<Rightarrow> stream_failed ch e s
                     | Inr updates \<Rightarrow>
                         (case send_updates ch updates s of
                            (Inl _, s) \<Rightarrow> (True, s)
                          | (Inr _, s) \<Rightarrow> (False, s))))
             else stream_failed ch BackendInvalidInput s)"

definition stream_commit ::
  "('t, 'w) voice_backend \<Rightarrow> (transcript_event, ('t, 'w) transcription) channel \<Rightarrow>
    ('t, 'w) transcription_task \<Rightarrow> bool \<times> ('t, 'w) transcription_task"
where
  "stream_commit backend ch s =
     (let t = sk_state s
      in case tn_session t of
           None \<Rightarrow> stream_failed ch BackendInvalidInput s
         | Some active \<Rightarrow>
             if \<not> tn_committed t then
               (case vb_finish backend active (tn_world t) of
                  (r, w) \<Rightarrow>
                    let s = s\<lparr>sk_state := \<lparr>tn_session = None, tn_committed = True, tn_world = w\<rparr>\<rparr> in
                    (case r of
                       Inl e \<Rightarrow> stream_failed ch e s
                     | Inr u \<Rightarrow> send_last ch (Inr \<lparr>te_text = tr_text u, te_final = True\<rparr>) s))
             else stream_failed ch BackendInvalidInput s)"

fun stream_message ::
  "('t, 'w) voice_backend \<Rightarrow> request_context \<Rightarrow>
    (transcript_event, ('t, 'w) transcription) channel \<Rightarrow> stream_event option \<Rightarrow>
    ('t, 'w) transcription_task \<Rightarrow> bool \<times> ('t, 'w) transcription_task"
where
  "stream_message backend context ch (Some (EvConfig rate)) s = stream_config backend context ch rate s"
| "stream_message backend context ch (Some (EvAudio bytes)) s = stream_audio backend ch bytes s"
| "stream_message backend context ch (Some (EvCommit True)) s = stream_commit backend ch s"
| "stream_message backend context ch (Some (EvCancel True)) s = (True, s)"
| "stream_message backend context ch _ s = stream_failed ch BackendInvalidInput s"

lemma stream_message_eq:
  "stream_message backend context ch event s =
     (case event of
        None \<Rightarrow> stream_failed ch BackendInvalidInput s
      | Some (EvConfig rate) \<Rightarrow> stream_config backend context ch rate s
      | Some (EvAudio bytes) \<Rightarrow> stream_audio backend ch bytes s
      | Some (EvCommit commit) \<Rightarrow>
          if commit then stream_commit backend ch s else stream_failed ch BackendInvalidInput s
      | Some (EvCancel cancel) \<Rightarrow>
          if cancel then (True, s) else stream_failed ch BackendInvalidInput s)"
  by (cases "(backend, context, ch, event, s)" rule: stream_message.cases) simp_all

definition stream_step ::
  "('t, 'w) voice_backend \<Rightarrow> request_context \<Rightarrow>
    (transcript_event, ('t, 'w) transcription) channel \<Rightarrow> stream_input \<Rightarrow>
    ('t, 'w) transcription_task \<Rightarrow> bool \<times> ('t, 'w) transcription_task"
where
  "stream_step backend context ch input s =
     (case input of
        InStopped stop \<Rightarrow> send_last ch (Inl (stop_status stop)) s
      | InFailed \<Rightarrow> send_last ch (Inl (status StCancelled ''input stream failed'')) s
      | InEnd \<Rightarrow>
          if tn_committed (sk_state s) then (True, s)
          else send_last ch (Inl (status StInvalidArgument ''stream ended before commit'')) s
      | InMessage event \<Rightarrow> stream_message backend context ch event s)"

text \<open>The task waits when the inputs run out; a task that returned drops its open session.\<close>

fun stream_loop ::
  "('t, 'w) voice_backend \<Rightarrow> request_context \<Rightarrow>
    (transcript_event, ('t, 'w) transcription) channel \<Rightarrow> stream_input list \<Rightarrow>
    ('t, 'w) transcription_task \<Rightarrow> bool \<times> ('t, 'w) transcription_task"
where
  "stream_loop backend context ch [] s = (False, s)"
| "stream_loop backend context ch (i # inputs) s =
     (case stream_step backend context ch i s of
        (True, s) \<Rightarrow> (True, s)
      | (False, s) \<Rightarrow> stream_loop backend context ch inputs s)"

definition stream_drop ::
  "('t, 'w) voice_backend \<Rightarrow> ('t, 'w) transcription_task \<Rightarrow> ('t, 'w) transcription_task"
where
  "stream_drop backend s =
     (case tn_session (sk_state s) of
        None \<Rightarrow> s
      | Some t \<Rightarrow>
          s\<lparr>sk_state := (sk_state s)\<lparr>tn_session := None,
              tn_world := vb_drop backend t (tn_world (sk_state s))\<rparr>\<rparr>)"

definition stream_start :: "'w \<Rightarrow> ('t, 'w) transcription_task" where
  "stream_start w =
     \<lparr>sk_sent = [], sk_state = \<lparr>tn_session = None, tn_committed = False, tn_world = w\<rparr>\<rparr>"

definition stream_transcribe ::
  "('t, 'w) voice_backend \<Rightarrow> request_context \<Rightarrow>
    (transcript_event, ('t, 'w) transcription) channel \<Rightarrow> stream_input list \<Rightarrow> 'w \<Rightarrow>
    bool \<times> ('t, 'w) transcription_task"
where
  "stream_transcribe backend context ch inputs w =
     (case stream_loop backend context ch inputs (stream_start w) of
        (True, s) \<Rightarrow> (True, stream_drop backend s)
      | (False, s) \<Rightarrow> (False, s))"

text \<open>The RPC: a context first, then the task in the background.\<close>

definition grpc_stream_transcribe ::
  "('t, 'w) grpc_env \<Rightarrow> (transcript_event, ('t, 'w) transcription) channel \<Rightarrow> stream_input list \<Rightarrow>
    ('w grpc_state, grpc_status, bool \<times> (grpc_status + transcript_event) list) action"
where
  "grpc_stream_transcribe env ch inputs =
     bind_st (grpc_context env) (\<lambda>context s.
       case stream_transcribe (ge_backend env) context ch inputs (gs_world s) of
         (returned, task) \<Rightarrow>
           (Inr (returned, sk_sent task), s\<lparr>gs_world := tn_world (sk_state task)\<rparr>))"

section \<open>Synthesis streams\<close>

lemma length_le_concat: "\<forall>b\<in>set bs. b \<noteq> [] \<Longrightarrow> length bs \<le> length (concat bs)"
  by (induction bs) (auto simp: Suc_le_eq neq_Nil_conv)

abbreviation always_open :: "('a, 's) channel" where
  "always_open \<equiv> \<lambda>_ _. True"

lemma channel_send_open [simp]: "channel_send always_open item s = (Inr (), s\<lparr>sk_sent := sk_sent s @ [item]\<rparr>)"
  by (simp add: channel_send_def)

lemma send_chunks_open:
  assumes "\<forall>(i, a)\<in>set xs. i \<le> u32_max"
  shows "sk_sent (snd (send_chunks always_open rate count xs s)) = sk_sent s @
    map (\<lambda>(i, a). Inr \<lparr>ac_audio = a, ac_sequence = i, ac_final = (i + 1 = count), ac_sample_rate = rate,
      ac_channels = 1, ac_chunking = ''post_synthesis_transport''\<rparr>) xs"
  using assms
  by (induction xs arbitrary: s) (auto simp: try_u32_def bind_st_def)

section \<open>What a transcription stream emits\<close>

text \<open>Transcript events, then at most one error status.\<close>

definition events_then_status :: "(grpc_status + transcript_event) list \<Rightarrow> bool" where
  "events_then_status outs \<longleftrightarrow> list_all is_ok (butlast outs)"

lemma channel_send_appends:
  "sk_sent (snd (channel_send ch item s)) = sk_sent s
     \<or> sk_sent (snd (channel_send ch item s)) = sk_sent s @ [item]"
  by (simp add: channel_send_def)

lemma send_last_events:
  assumes "list_all is_ok (sk_sent s)" and "send_last ch item s = (b, t)"
  shows "events_then_status (sk_sent t)"
  using assms channel_send_appends [of ch item s]
  by (auto simp: send_last_def events_then_status_def list_all_iff dest: in_set_butlastD)

lemma send_updates_events:
  "list_all is_ok (sk_sent s) \<Longrightarrow> list_all is_ok (sk_sent (snd (send_updates ch us s)))"
proof (induction us arbitrary: s)
  case (Cons u us)
  then show ?case
    by (auto intro!: bind_st_keeps [where P = "\<lambda>s. list_all is_ok (sk_sent s)"]
        simp: channel_send_def)
qed simp

lemma events_sofar: "list_all is_ok outs \<Longrightarrow> events_then_status outs"
  by (auto simp: events_then_status_def list_all_iff dest: in_set_butlastD)

text \<open>What holds when the task goes on, and what when it has returned.\<close>

definition after :: "('s \<Rightarrow> bool) \<Rightarrow> ('s \<Rightarrow> bool) \<Rightarrow> bool \<times> 's \<Rightarrow> bool" where
  "after P R r = (if fst r then R (snd r) else P (snd r))"

lemma after_simps [simp]: "after P R (True, s) = R s" "after P R (False, s) = P s"
  by (simp_all add: after_def)

abbreviation emitting :: "('t, 'w) transcription_task \<Rightarrow> bool" where
  "emitting s \<equiv> list_all is_ok (sk_sent s)"

abbreviation emitted :: "('t, 'w) transcription_task \<Rightarrow> bool" where
  "emitted s \<equiv> events_then_status (sk_sent s)"

lemma send_last_after: "emitting s \<Longrightarrow> after emitting emitted (send_last ch item s)"
  using send_last_events [of s ch item] by (simp add: after_def send_last_def)

lemma stream_step_events:
  assumes s: "emitting s"
  shows "after emitting emitted (stream_step backend context ch i s)"
proof -
  have updates: "emitting t" if "send_updates ch us u = (x, t)" "emitting u" for us u x t
    using send_updates_events [of u ch us] that by simp
  have "after emitting emitted (stream_config backend context ch rate s)"
    "after emitting emitted (stream_audio backend ch bytes s)"
    "after emitting emitted (stream_commit backend ch s)" for rate bytes
    using s events_sofar [OF s]
    by (auto simp: stream_config_def stream_audio_def stream_commit_def stream_failed_def Let_def
        intro!: send_last_after dest: updates intro: events_sofar
        split: option.split sum.split prod.split)
  then have "after emitting emitted (stream_message backend context ch event s)" for event
    using s events_sofar [OF s]
    by (simp add: stream_message_eq stream_failed_def send_last_after
        split: option.split stream_event.split)
  then show ?thesis
    using s events_sofar [OF s] by (simp add: stream_step_def send_last_after split: stream_input.split)
qed

lemma stream_loop_events:
  "emitting s \<Longrightarrow> after emitting emitted (stream_loop backend context ch inputs s)"
proof (induction inputs arbitrary: s)
  case (Cons i inputs)
  obtain b t where step: "stream_step backend context ch i s = (b, t)" by fastforce
  with stream_step_events [OF Cons.prems, of backend "context" ch i] Cons.IH [of t] show ?case
    by (cases b) simp_all
qed simp

section \<open>Well-formed transcription streams\<close>

text \<open>
  The reference for every transport: a session of the backend over complete frames. What it
  transcribes, and the error that stopped it, if any.
\<close>

fun session_frames ::
  "('t, 'w) voice_backend \<Rightarrow> 't \<Rightarrow> u8 list list \<Rightarrow> 'w \<Rightarrow> transcript list \<times> backend_error option"
where
  "session_frames backend t [] w =
     (case vb_finish backend t w of
        (Inl e, _) \<Rightarrow> ([], Some e)
      | (Inr u, _) \<Rightarrow> ([u], None))"
| "session_frames backend t (f # fs) w =
     (case vb_push backend t f w of
        (Inl e, _, _) \<Rightarrow> ([], Some e)
      | (Inr us, t', w') \<Rightarrow>
          (case session_frames backend t' fs w' of (vs, e) \<Rightarrow> (us @ vs, e)))"

definition voice_session ::
  "('t, 'w) voice_backend \<Rightarrow> request_context \<Rightarrow> nat \<Rightarrow> u8 list list \<Rightarrow> 'w \<Rightarrow>
    transcript list \<times> backend_error option"
where
  "voice_session backend context rate frames w =
     (case vb_start backend rate context w of
        (Inl e, _) \<Rightarrow> ([], Some e)
      | (Inr t, w') \<Rightarrow> session_frames backend t frames w')"

definition event_of :: "transcript \<Rightarrow> transcript_event" where
  "event_of u = \<lparr>te_text = tr_text u, te_final = (tr_kind u = Final)\<rparr>"

definition stream_answer ::
  "transcript list \<times> backend_error option \<Rightarrow> (grpc_status + transcript_event) list"
where
  "stream_answer r = map (Inr \<circ> event_of) (fst r) @
     (case snd r of None \<Rightarrow> [] | Some e \<Rightarrow> [Inl (status_of_backend_error e)])"

definition finishes_final :: "('t, 'w) voice_backend \<Rightarrow> bool" where
  "finishes_final backend \<longleftrightarrow>
     (\<forall>t w. case vb_finish backend t w of (Inl _, _) \<Rightarrow> True | (Inr u, _) \<Rightarrow> tr_kind u = Final)"

lemma send_updates_open:
  "send_updates always_open us s = (Inr (), s\<lparr>sk_sent := sk_sent s @ map (Inr \<circ> event_of) us\<rparr>)"
  by (induction us arbitrary: s) (simp_all add: event_of_def)

definition frame_messages :: "u8 list list \<Rightarrow> stream_input list" where
  "frame_messages fs = map (\<lambda>f. InMessage (Some (EvAudio f))) fs"

lemma stream_frames:
  assumes final: "finishes_final backend" and frames: "\<forall>f\<in>set fs. f \<noteq> [] \<and> length f \<le> max_stream_audio_bytes"
    and s: "tn_session (sk_state s) = Some t" "\<not> tn_committed (sk_state s)"
  shows "\<exists>u. stream_loop backend context always_open
      (frame_messages fs @ [InMessage (Some (EvCommit True))]) s = (True, u)
    \<and> sk_sent u = sk_sent s @ stream_answer (session_frames backend t fs (tn_world (sk_state s)))"
  using frames s
proof (induction fs arbitrary: s t)
  case Nil
  have "tr_kind u = Final" if "vb_finish backend t w = (Inr u, w')" for u w w'
    using spec [OF spec [OF final [unfolded finishes_final_def], of t], of w] that by simp
  with Nil show ?case
    by (auto simp: frame_messages_def stream_step_def stream_commit_def stream_failed_def Let_def send_last_def
        stream_answer_def event_of_def split: prod.split sum.split)
next
  case (Cons f fs)
  obtain r t' w where push: "vb_push backend t f (tn_world (sk_state s)) = (r, t', w)"
    by (metis prod_cases3)
  show ?case
  proof (cases r)
    case (Inl e)
    with Cons.prems push show ?thesis
      by (simp add: frame_messages_def stream_step_def stream_audio_def stream_failed_def Let_def
          send_last_def stream_answer_def)
  next
    case (Inr us)
    define v where "v = s\<lparr>sk_state := (sk_state s)\<lparr>tn_session := Some t', tn_world := w\<rparr>,
      sk_sent := sk_sent s @ map (Inr \<circ> event_of) us\<rparr>"
    have step: "stream_step backend context always_open (InMessage (Some (EvAudio f))) s = (False, v)"
      using Cons.prems push Inr
      by (simp add: stream_step_def stream_audio_def Let_def send_updates_open v_def)
    obtain vs e where rest: "session_frames backend t' fs w = (vs, e)" by fastforce
    from Cons.IH [of v t'] Cons.prems step push Inr rest show ?thesis
      by (simp add: frame_messages_def v_def stream_answer_def)
  qed
qed

section \<open>A stream never ends in silence\<close>

definition answered :: "('t, 'w) transcription_task \<Rightarrow> bool" where
  "answered s \<longleftrightarrow> sk_sent s \<noteq> [] \<and>
     (case last (sk_sent s) of Inl _ \<Rightarrow> True | Inr ev \<Rightarrow> te_final ev)"

abbreviation uncommitted :: "('t, 'w) transcription_task \<Rightarrow> bool" where
  "uncommitted s \<equiv> \<not> tn_committed (sk_state s)"

lemma send_last_answered:
  "(case item of Inl _ \<Rightarrow> True | Inr ev \<Rightarrow> te_final ev) \<Longrightarrow>
     after uncommitted answered (send_last always_open item s)"
  by (simp add: send_last_def answered_def)

lemma stream_step_answers:
  assumes "uncommitted s" and "i \<noteq> InMessage (Some (EvCancel True))"
  shows "after uncommitted answered (stream_step backend context always_open i s)"
proof -
  have failed: "after uncommitted answered (stream_failed always_open e u)" for e u
    by (simp add: stream_failed_def send_last_answered)
  have "after uncommitted answered (stream_config backend context always_open rate s)"
    "after uncommitted answered (stream_audio backend always_open bytes s)"
    "after uncommitted answered (stream_commit backend always_open s)" for rate bytes
    using assms(1)
    by (auto simp: stream_config_def stream_audio_def stream_commit_def Let_def failed
        send_updates_open intro!: send_last_answered split: option.split sum.split prod.split)
  then have "event \<noteq> Some (EvCancel True) \<Longrightarrow>
      after uncommitted answered (stream_message backend context always_open event s)" for event
    by (simp add: stream_message_eq failed split: option.split stream_event.split)
  then show ?thesis
    using assms by (auto simp: stream_step_def send_last_answered split: stream_input.split)
qed

lemma stream_loop_answers:
  "uncommitted s \<Longrightarrow> InMessage (Some (EvCancel True)) \<notin> set inputs \<Longrightarrow>
     after uncommitted answered (stream_loop backend context always_open inputs s)"
proof (induction inputs arbitrary: s)
  case (Cons i inputs)
  obtain b t where step: "stream_step backend context always_open i s = (b, t)" by fastforce
  with stream_step_answers [OF Cons.prems(1), of i backend "context"] Cons.IH [of t] Cons.prems(2)
  show ?case by (cases b) auto
qed simp

lemma stream_drop_sent [simp]: "sk_sent (stream_drop backend s) = sk_sent s"
  by (simp add: stream_drop_def split: option.split)

section \<open>Properties\<close>

text \<open>
  C32: whatever messages, failures and stops reach it, and whenever the receiver goes away, a
  transcription stream emits transcript events and then at most one error status, which ends it;
  and while the receiver stays, a stream that ended uncancelled ended with an error status or a
  final transcript, never in silence.
\<close>

theorem grpc_stream_output:
  "events_then_status (sk_sent (snd (stream_transcribe backend context ch inputs w)))
   \<and> (fst (stream_transcribe backend context always_open inputs w)
        \<and> InMessage (Some (EvCancel True)) \<notin> set inputs
      \<longrightarrow> answered (snd (stream_transcribe backend context always_open inputs w)))"
proof -
  let ?s = "stream_start w"
  have "emitting ?s" "uncommitted ?s" by (simp_all add: stream_start_def)
  from stream_loop_events [OF this(1), of backend "context" ch inputs]
    stream_loop_answers [OF this(2), of inputs backend "context"]
  show ?thesis
    by (auto simp: stream_transcribe_def after_def answered_def events_sofar
        split: prod.splits bool.splits if_splits)
qed

theorem grpc_stream_output_witness:
  "answered (snd (stream_transcribe chime_backend echo_context always_open [InEnd] ()))"
  by (rule grpc_stream_output [THEN conjunct2, rule_format])
    (simp add: stream_transcribe_def stream_step_def send_last_def stream_start_def)

text \<open>
  C33: a well-formed transcription stream (a configuration, audio frames of 1 to 65536 bytes, a
  commit) answers exactly what the backend's session over those frames transcribes, in order,
  followed by the status of the error that stopped it, if any.
\<close>

theorem grpc_stream_equals_session:
  fixes backend :: "('t, 'w) voice_backend"
  assumes "finishes_final backend" and "\<forall>f\<in>set frames. f \<noteq> [] \<and> length f \<le> max_stream_audio_bytes"
  shows "sk_sent (snd (stream_transcribe backend context always_open
      (InMessage (Some (EvConfig rate)) # frame_messages frames @ [InMessage (Some (EvCommit True))]) w))
    = stream_answer (voice_session backend context rate frames w)"
proof -
  obtain r w' where start: "vb_start backend rate context w = (r, w')" by fastforce
  show ?thesis
  proof (cases r)
    case (Inl e)
    with start show ?thesis
      by (simp add: stream_transcribe_def stream_step_def stream_config_def stream_failed_def
          send_last_def stream_start_def voice_session_def stream_answer_def)
  next
    case (Inr t)
    define s :: "('t, 'w) transcription_task" where "s = \<lparr>sk_sent = [], sk_state = \<lparr>tn_session = Some t, tn_committed = False, tn_world = w'\<rparr>\<rparr>"
    obtain u where "stream_loop backend context always_open
        (frame_messages frames @ [InMessage (Some (EvCommit True))]) s = (True, u)"
      and "sk_sent u = stream_answer (session_frames backend t frames w')"
      using stream_frames [OF assms, of s t "context"] by (auto simp: s_def)
    with start Inr show ?thesis
      by (simp add: stream_transcribe_def stream_step_def stream_config_def stream_start_def
          voice_session_def s_def)
  qed
qed

theorem grpc_stream_equals_session_witness:
  "sk_sent (snd (stream_transcribe chime_backend echo_context always_open
      (InMessage (Some (EvConfig 8000)) # frame_messages [[1, 2]] @ [InMessage (Some (EvCommit True))]) ()))
    = [Inl (status StInternal ''the local voice engine failed'')]"
  by (subst grpc_stream_equals_session)
    (simp_all add: finishes_final_def chime_backend_def voice_session_def stream_answer_def
      max_stream_audio_bytes_def)

text \<open>
  A synthesis stream whose receiver stays delivers the whole recording: its chunks, in
  order, are the PCM16 bytes; each is non-empty and at most 32 KiB; they are numbered from 0; and
  exactly the last is marked final.
\<close>

theorem grpc_synthesis_stream_delivers:
  assumes "length (synthesis_pcm16 y) \<le> u32_max"
  shows "\<exists>cs. synthesis_stream always_open y s = map Inr cs
    \<and> concat (map ac_audio cs) = synthesis_pcm16 y
    \<and> map ac_sequence cs = [0..<length cs]
    \<and> (\<forall>i<length cs. ac_audio (cs ! i) \<noteq> [] \<and> length (ac_audio (cs ! i)) \<le> grpc_tts_chunk_bytes
        \<and> (ac_final (cs ! i) \<longleftrightarrow> i + 1 = length cs))"
proof -
  define pcm where "pcm = synthesis_pcm16 y"
  define bs where "bs = chunks grpc_tts_chunk_bytes pcm"
  have pos: "0 < grpc_tts_chunk_bytes" by (simp add: grpc_tts_chunk_bytes_def)
  have len: "length bs = div_ceil (length pcm) grpc_tts_chunk_bytes"
    unfolding bs_def by (simp add: length_chunks [OF pos] div_ceil_eq [OF pos])
  have "length bs \<le> length (concat bs)"
    by (rule length_le_concat) (auto simp: bs_def dest: chunks_length)
  then have short: "length bs \<le> u32_max" using assms by (simp add: bs_def concat_chunks [OF pos] pcm_def)
  define f where "f = (\<lambda>(i, a). \<lparr>ac_audio = a, ac_sequence = i, ac_final = (i + 1 = length bs),
    ac_sample_rate = pcm_rate (sy_audio y), ac_channels = 1,
    ac_chunking = ''post_synthesis_transport''\<rparr>)"
  define cs where "cs = map f (List.enumerate 0 bs)"
  have "\<forall>(i, a)\<in>set (List.enumerate 0 bs). i \<le> u32_max"
    using short by (auto simp: in_set_enumerate_eq)
  then have sent: "synthesis_stream always_open y s = map Inr cs"
    by (simp add: synthesis_stream_def Let_def send_chunks_open cs_def f_def comp_def len
        bs_def [symmetric] pcm_def [symmetric] split_beta)
  have audio: "map ac_audio cs = bs" and seq: "map ac_sequence cs = [0..<length bs]"
    by (simp_all add: cs_def f_def comp_def split_beta map_snd_enumerate [unfolded comp_def]
        map_fst_enumerate [unfolded comp_def])
  have nth: "cs ! i = f (i, bs ! i)" if "i < length bs" for i
    using that by (simp add: cs_def nth_enumerate_eq)
  have "bs ! i \<noteq> [] \<and> length (bs ! i) \<le> grpc_tts_chunk_bytes" if "i < length bs" for i
    using that chunks_length [of "bs ! i" grpc_tts_chunk_bytes pcm] by (simp add: bs_def)
  moreover have "length cs = length bs" by (simp add: cs_def)
  ultimately show ?thesis
    using sent audio seq nth concat_chunks [OF pos, of pcm]
    by (intro exI [of _ cs]) (auto simp: f_def bs_def pcm_def)
qed

theorem grpc_synthesis_stream_delivers_witness:
  "\<exists>cs. synthesis_stream always_open
      \<lparr>sy_audio = \<lparr>pcm_rate = 8000, pcm_samples = decode_pairs [0, 64]\<rparr>, sy_max_chunk = 1\<rparr> () = map Inr cs
    \<and> concat (map ac_audio cs) = [0, 64]"
proof -
  let ?y = "\<lparr>sy_audio = \<lparr>pcm_rate = 8000, pcm_samples = decode_pairs [0, 64]\<rparr>, sy_max_chunk = 1\<rparr>"
  have pcm: "synthesis_pcm16 ?y = [0, 64]"
    using encode_decode_pairs [of "[0, 64]"] by (simp add: synthesis_pcm16_def to_pcm16_le_def)
  have "length (synthesis_pcm16 ?y) \<le> u32_max" unfolding pcm by (simp add: u32_max_def)
  from grpc_synthesis_stream_delivers [OF this, of "()"] show ?thesis unfolding pcm by blast
qed

end
