(* ===== verification/Grpc_Permits.thy ===== *)
theory Grpc_Permits
  imports Grpc Backend_Permits
begin

text \<open>
  Resource safety of a gRPC transcription stream: when its task has returned, the permit its
  session took is back, whatever the client sent and wherever the stream failed.
\<close>

section \<open>A stream keeps the balance\<close>

context permit_backend begin

abbreviation stream_balanced :: "nat \<Rightarrow> ('t, 'w) transcription_task \<Rightarrow> bool" where
  "stream_balanced n s \<equiv> sane (tn_world (sk_state s))
     \<and> held (tn_world (sk_state s)) = (if tn_session (sk_state s) = None then n else n + 1)"

lemma channel_send_state: "sk_state (snd (channel_send ch item s)) = sk_state s"
  by (simp add: channel_send_def)

lemma send_last_state: "sk_state (snd (send_last ch item s)) = sk_state s"
  by (simp add: send_last_def channel_send_state)

lemma send_updates_state: "sk_state (snd (send_updates ch us s)) = sk_state s"
proof (induction us arbitrary: s)
  case (Cons u us)
  show ?case
    by (rule send_updates.simps(2) [THEN ssubst],
        rule bind_st_keeps [where P = "\<lambda>t. sk_state t = sk_state s"])
      (simp_all add: channel_send_state Cons.IH)
qed simp

lemma stream_failed_state: "sk_state (snd (stream_failed ch e s)) = sk_state s"
  by (simp add: stream_failed_def send_last_state)

lemma stream_config_balanced:
  assumes s: "stream_balanced n s"
  shows "stream_balanced n (snd (stream_config backend context ch rate s))"
proof -
  obtain r w where start: "vb_start backend rate context (tn_world (sk_state s)) = (r, w)" by fastforce
  with start_permit [OF conjunct1 [OF s] start] s show ?thesis
    by (cases r) (simp_all add: stream_config_def Let_def stream_failed_state)
qed

lemma stream_audio_balanced:
  assumes s: "stream_balanced n s"
  shows "stream_balanced n (snd (stream_audio backend ch bytes s))"
proof (cases "tn_session (sk_state s)")
  case (Some t)
  obtain r t' w where push: "vb_push backend t bytes (tn_world (sk_state s)) = (r, t', w)"
    by (metis prod_cases3)
  note law = push_permit [OF conjunct1 [OF s] push]
  have updates: "sk_state v = sk_state u" if "send_updates ch us u = (x, v)" for us u x v
    using send_updates_state [of ch us u] that by simp
  show ?thesis
    using law s Some push
    by (cases r) (auto simp: stream_audio_def Let_def stream_failed_state dest: updates
        split: prod.splits sum.splits)
qed (use s in \<open>simp add: stream_audio_def Let_def stream_failed_state\<close>)

lemma stream_commit_balanced:
  assumes s: "stream_balanced n s"
  shows "stream_balanced n (snd (stream_commit backend ch s))"
proof (cases "tn_session (sk_state s)")
  case (Some t)
  obtain r w where fin: "vb_finish backend t (tn_world (sk_state s)) = (r, w)" by fastforce
  have "0 < held (tn_world (sk_state s))" using s Some by simp
  from finish_permit [OF conjunct1 [OF s] this fin] s Some fin show ?thesis
    by (cases r) (simp_all add: stream_commit_def Let_def stream_failed_state send_last_state)
qed (use s in \<open>simp add: stream_commit_def Let_def stream_failed_state\<close>)

lemma stream_step_balanced:
  assumes s: "stream_balanced n s"
  shows "stream_balanced n (snd (stream_step backend context ch i s))"
proof -
  have "stream_balanced n (snd (stream_message backend context ch event s))" for event
    using stream_config_balanced [OF s] stream_audio_balanced [OF s] stream_commit_balanced [OF s] s
    by (simp add: stream_message_eq stream_failed_state split: option.split stream_event.split)
  then show ?thesis
    using s by (simp add: stream_step_def send_last_state split: stream_input.split)
qed

lemma stream_loop_balanced:
  "stream_balanced n s \<Longrightarrow> stream_balanced n (snd (stream_loop backend context ch inputs s))"
proof (induction inputs arbitrary: s)
  case (Cons i inputs)
  obtain b t where step: "stream_step backend context ch i s = (b, t)" by fastforce
  with stream_step_balanced [OF Cons.prems, of "context" ch i] Cons.IH [of t] show ?case
    by (cases b) simp_all
qed simp

lemma stream_permits:
  assumes "sane w" and "stream_transcribe backend context ch inputs w = (True, task)"
  shows "held (tn_world (sk_state task)) = held w"
proof -
  obtain s where loop: "stream_loop backend context ch inputs (stream_start w) = (True, s)"
    and task: "task = stream_drop backend s"
    using assms(2) by (auto simp: stream_transcribe_def split: prod.splits bool.splits)
  have "stream_balanced (held w) (stream_start w)" using assms(1) by (simp add: stream_start_def)
  from stream_loop_balanced [OF this, of "context" ch inputs]
  have s: "stream_balanced (held w) s" by (simp add: loop)
  then show ?thesis
    using drop_permit [of "tn_world (sk_state s)"]
    by (auto simp: task stream_drop_def split: option.split)
qed

end

section \<open>Properties\<close>

text \<open>
  When the task of a transcription stream on the engines has returned, however the stream
  ended (committed, cancelled, failed, stopped, or its receiver gone), the limiter's active count
  is what it was when the stream was opened.
\<close>

theorem grpc_stream_returns_permit:
  assumes "limiter_bounded (es_stt w)" and "lim_active (es_stt w) \<le> lim_maximum (es_stt w)"
    and "stream_transcribe (engines_backend env engine tenv limits) context ch inputs w = (True, task)"
  shows "lim_active (es_stt (tn_world (sk_state task))) = lim_active (es_stt w)"
  by (rule engines.stream_permits [OF _ assms(3)]) (simp add: engines_sane_def assms(1,2))

definition quiet_tts_env :: "f32 list tts_env" where
  "quiet_tts_env = \<lparr>tenv_check = \<lambda>w. ((False, 0), w), tenv_generate = \<lambda>_ _ _ w. (Inl TtsEngine, w)\<rparr>"

definition idle_engines :: "f32 list engines_state" where
  "idle_engines = \<lparr>es_stt = \<lparr>lim_active = 1, lim_maximum = 2\<rparr>,
     es_tts = \<lparr>lim_active = 0, lim_maximum = 1\<rparr>, es_world = []\<rparr>"

lemma broken_stream_returns:
  fixes backend :: "('t, 'w) voice_backend"
  shows "\<exists>task. stream_transcribe backend context ch (inputs @ [InFailed]) w = (True, task)"
proof -
  have "fst (stream_loop backend context ch (inputs @ [InFailed]) s)" for s :: "('t, 'w) transcription_task"
    by (induction inputs arbitrary: s)
      (auto simp: stream_step_def send_last_def split: prod.split bool.split)
  from this [of "stream_start w"] show ?thesis
    by (cases "stream_loop backend context ch (inputs @ [InFailed]) (stream_start w)")
      (auto simp: stream_transcribe_def)
qed

theorem grpc_stream_returns_permit_witness:
  "\<exists>task. stream_transcribe (engines_backend echo_env echo_engine quiet_tts_env tts_limits_default)
      echo_context always_open ([InMessage (Some (EvConfig 16000))] @ [InFailed]) idle_engines = (True, task)
    \<and> lim_active (es_stt (tn_world (sk_state task))) = 1"
proof -
  obtain task where t: "stream_transcribe (engines_backend echo_env echo_engine quiet_tts_env tts_limits_default)
      echo_context always_open ([InMessage (Some (EvConfig 16000))] @ [InFailed]) idle_engines = (True, task)"
    using broken_stream_returns [of "engines_backend echo_env echo_engine quiet_tts_env tts_limits_default"
        echo_context always_open "[InMessage (Some (EvConfig 16000))]" idle_engines] by blast
  have "lim_active (es_stt (tn_world (sk_state task))) = 1"
    using grpc_stream_returns_permit [OF _ _ t]
    by (simp add: limiter_bounded_def u64_max_def idle_engines_def)
  with t show ?thesis by blast
qed

end
