(* ===== verification/Mcp.thy ===== *)
theory Mcp
  imports Voice_Api
begin

text \<open>
  \<open>crates/impossible-voice-server/src/mcp.rs\<close>: the JSON-RPC endpoint. JSON parsing, the conversion
  of a JSON value to an argument struct, and base64 are libraries (serde, base64): the functions of
  \<open>mcp_codec\<close>. Everything the handler decides is here. Proved: what is answered to whom, that the
  backend is reached only with admitted audio, and that speech over MCP is the speech of the HTTP
  route, within the size limit.
\<close>

section \<open>JSON and the codec\<close>

text \<open>\<open>JDecimal\<close> is a non-integer number, by its decimal text.\<close>

datatype json =
  JNull | JBool bool | JInt int | JDecimal string | JStr string | JArr "json list" | JObj "(string \<times> json) list"

record rpc_request =
  rq_jsonrpc :: string
  rq_id :: "json option"
  rq_method :: string
  rq_params :: json

record transcribe_arguments =
  ta_audio_base64 :: string
  ta_encoding :: string
  ta_sample_rate :: "nat option"

record synthesize_arguments =
  sa_text :: ustr
  sa_speed :: f32
  sa_format :: string

text \<open>
  \<open>from_slice\<close>, \<open>from_value\<close> to each struct of the code (its fields after the
  serde defaults), \<open>to_string\<close>, and the standard base64 engine.
\<close>

record mcp_codec =
  mc_parse :: "u8 list \<Rightarrow> json option"
  mc_request :: "json \<Rightarrow> rpc_request option"
  mc_protocol_version :: "json \<Rightarrow> string option"
  mc_tool_call :: "json \<Rightarrow> (string \<times> json) option"
  mc_transcribe :: "json \<Rightarrow> transcribe_arguments option"
  mc_synthesize :: "json \<Rightarrow> synthesize_arguments option"
  mc_read_resource :: "json \<Rightarrow> string option"
  mc_to_string :: "json \<Rightarrow> string"
  mc_base64_decode :: "string \<Rightarrow> u8 list option"
  mc_base64_encode :: "u8 list \<Rightarrow> string"

record ('t, 'w) mcp_env =
  mv_codec :: mcp_codec
  mv_backend :: "('t, 'w) voice_backend"
  mv_panics :: "'w \<Rightarrow> bool"
  mv_version :: string

section \<open>Failures\<close>

record rpc_failure =
  rf_code :: int
  rf_message :: string

definition invalid_params :: rpc_failure where
  "invalid_params = \<lparr>rf_code = - 32602, rf_message = ''invalid tool parameters''\<rparr>"

definition rpc_invalid_request :: rpc_failure where
  "rpc_invalid_request = \<lparr>rf_code = - 32600, rf_message = ''invalid JSON-RPC request''\<rparr>"

definition engine_failure :: rpc_failure where
  "engine_failure = \<lparr>rf_code = - 32003, rf_message = ''local voice engine failed''\<rparr>"

fun rpc_failure_of :: "backend_error \<Rightarrow> rpc_failure" where
  "rpc_failure_of BackendInvalidInput = invalid_params"
| "rpc_failure_of BackendBusy = \<lparr>rf_code = - 32003, rf_message = ''voice capacity is busy''\<rparr>"
| "rpc_failure_of BackendCancelled = \<lparr>rf_code = - 32800, rf_message = ''request cancelled''\<rparr>"
| "rpc_failure_of BackendDeadlineExceeded =
     \<lparr>rf_code = - 32800, rf_message = ''request deadline exceeded''\<rparr>"
| "rpc_failure_of BackendEngine = engine_failure"

section \<open>Fixed answers\<close>

definition mcp_protocol_version :: string where "mcp_protocol_version = ''2025-03-26''"
definition max_mcp_audio_bytes :: nat where "max_mcp_audio_bytes = 4 * 1024 * 1024"
definition max_mcp_base64_bytes :: nat where "max_mcp_base64_bytes = 5592408"

definition mcp_initialize :: "mcp_codec \<Rightarrow> string \<Rightarrow> json \<Rightarrow> rpc_failure + json" where
  "mcp_initialize codec version params =
     and_then (ok_or rpc_invalid_request (mc_protocol_version codec params)) (\<lambda>requested.
       if requested \<noteq> mcp_protocol_version
       then Inl \<lparr>rf_code = - 32602, rf_message = ''MCP protocol version is unsupported''\<rparr>
       else Inr (JObj
         [(''protocolVersion'', JStr mcp_protocol_version),
          (''capabilities'', JObj
            [(''tools'', JObj [(''listChanged'', JBool False)]),
             (''resources'', JObj [(''subscribe'', JBool False), (''listChanged'', JBool False)])]),
          (''serverInfo'', JObj [(''name'', JStr ''impossible-voice''), (''version'', JStr version)])]))"

definition text_content :: "string \<Rightarrow> json" where
  "text_content words =
     JObj [(''content'', JArr [JObj [(''type'', JStr ''text''), (''text'', JStr words)]]),
       (''isError'', JBool False)]"

definition object_schema :: "string list \<Rightarrow> (string \<times> json) list \<Rightarrow> json" where
  "object_schema required properties =
     JObj [(''type'', JStr ''object''), (''additionalProperties'', JBool False),
       (''required'', JArr (map JStr required)), (''properties'', JObj properties)]"

definition empty_schema :: json where
  "empty_schema = JObj [(''type'', JStr ''object''), (''additionalProperties'', JBool False)]"

definition tool :: "string \<Rightarrow> string \<Rightarrow> json \<Rightarrow> json" where
  "tool name description schema =
     JObj [(''name'', JStr name), (''description'', JStr description), (''inputSchema'', schema)]"

definition mcp_tools :: json where
  "mcp_tools = JObj [(''tools'', JArr
     [tool ''transcribe_audio'' ''Transcribe bounded base64 WAV or raw PCM16 using the local model.''
        (object_schema [''audio_base64'', ''encoding'']
          [(''audio_base64'', JObj [(''type'', JStr ''string''), (''maxLength'', JInt 5592408)]),
           (''encoding'', JObj [(''enum'', JArr [JStr ''wav'', JStr ''pcm16''])]),
           (''sample_rate'', JObj [(''type'', JStr ''integer''), (''minimum'', JInt 8000),
              (''maximum'', JInt 48000)])]),
      tool ''synthesize_speech'' ''Synthesize bounded text with the local Kristin voice.''
        (object_schema [''text'']
          [(''text'', JObj [(''type'', JStr ''string''), (''maxLength'', JInt 4096)]),
           (''speed'', JObj [(''type'', JStr ''number''), (''minimum'', JDecimal ''0.5''),
              (''maximum'', JDecimal ''2.0'')]),
           (''format'', JObj [(''enum'', JArr [JStr ''wav'', JStr ''pcm16''])])]),
      tool ''list_models'' ''List the curated local STT model and TTS voice.'' empty_schema,
      tool ''health'' ''Return local engine readiness.'' empty_schema])]"

definition mcp_resources :: json where
  "mcp_resources = JObj [(''resources'', JArr
     [JObj [(''uri'', JStr ''voice://capabilities''), (''name'', JStr ''Voice capabilities''),
        (''mimeType'', JStr ''application/json'')],
      JObj [(''uri'', JStr ''voice://status''), (''name'', JStr ''Voice status''),
        (''mimeType'', JStr ''application/json'')]])]"

definition mcp_read_resource :: "mcp_codec \<Rightarrow> json \<Rightarrow> rpc_failure + json" where
  "mcp_read_resource codec params =
     and_then (ok_or invalid_params (mc_read_resource codec params)) (\<lambda>uri.
     and_then
       (if uri = ''voice://capabilities'' then
          Inr (JObj (map (\<lambda>k. (k, JBool True))
            [''speech_to_text'', ''text_to_speech'', ''http'', ''websocket'', ''grpc'', ''mcp'',
             ''offline_after_setup'']))
        else if uri = ''voice://status'' then
          Inr (JObj [(''status'', JStr ''ready''), (''downloads_during_serve'', JBool False)])
        else Inl \<lparr>rf_code = - 32002, rf_message = ''resource not found''\<rparr>)
       (\<lambda>content. Inr (JObj [(''contents'', JArr
          [JObj [(''uri'', JStr uri), (''mimeType'', JStr ''application/json''),
             (''text'', JStr (mc_to_string codec content))]])])))"

text \<open>\<open>value.as_object().is_none_or(Map::is_empty)\<close>\<close>

definition require_empty :: "json \<Rightarrow> rpc_failure + unit" where
  "require_empty v =
     (case v of
        JObj members \<Rightarrow> if members = [] then Inr () else Inl invalid_params
      | _ \<Rightarrow> Inr ())"

section \<open>Tools\<close>

definition mcp_worker ::
  "('t, 'w) mcp_env \<Rightarrow> ('w, backend_error, 'a) action \<Rightarrow> ('w, rpc_failure, 'a) action"
where
  "mcp_worker env call w =
     (case call w of
        (r, w') \<Rightarrow> (if mv_panics env w then Inl engine_failure else map_err rpc_failure_of r, w'))"

definition mcp_decode_audio :: "mcp_codec \<Rightarrow> json \<Rightarrow> rpc_failure + mono_pcm" where
  "mcp_decode_audio codec arguments =
     and_then (ok_or invalid_params (mc_transcribe codec arguments)) (\<lambda>a.
     and_then (ensure (\<not> length (ta_audio_base64 a) > max_mcp_base64_bytes) invalid_params) (\<lambda>_.
     and_then (ok_or invalid_params (mc_base64_decode codec (ta_audio_base64 a))) (\<lambda>bytes.
     and_then (ensure (\<not> length bytes > max_mcp_audio_bytes) invalid_params) (\<lambda>_.
       if ta_encoding a = ''wav'' \<and> ta_sample_rate a = None
       then map_err (\<lambda>_. invalid_params) (from_wav bytes audio_limits_default)
       else if ta_encoding a = ''pcm16''
       then and_then (ok_or invalid_params (ta_sample_rate a)) (\<lambda>rate.
              map_err (\<lambda>_. invalid_params) (from_pcm16_le bytes rate audio_limits_default))
       else Inl invalid_params))))"

definition mcp_transcribe ::
  "('t, 'w) mcp_env \<Rightarrow> request_context \<Rightarrow> json \<Rightarrow> ('w, rpc_failure, json) action"
where
  "mcp_transcribe env context arguments =
     bind_st (lift_res (mcp_decode_audio (mv_codec env) arguments)) (\<lambda>audio.
     bind_st (mcp_worker env (vb_transcribe (mv_backend env) audio context)) (\<lambda>words.
       ret (text_content words)))"

definition mcp_encode_speech :: "string \<Rightarrow> synthesis \<Rightarrow> rpc_failure + string \<times> u8 list" where
  "mcp_encode_speech format y =
     and_then
       (if format = ''wav''
        then map_ok (Pair ''audio/wav'') (map_err (\<lambda>_. engine_failure) (synthesis_wav y))
        else Inr (''audio/pcm'', synthesis_pcm16 y))
       (\<lambda>(mime, bytes).
          if length bytes > max_mcp_audio_bytes
          then Inl \<lparr>rf_code = - 32003, rf_message = ''tool result exceeds the MCP limit''\<rparr>
          else Inr (mime, bytes))"

definition mcp_synthesize ::
  "('t, 'w) mcp_env \<Rightarrow> request_context \<Rightarrow> json \<Rightarrow> ('w, rpc_failure, json) action"
where
  "mcp_synthesize env context arguments =
     bind_st (lift_res (and_then (ok_or invalid_params (mc_synthesize (mv_codec env) arguments)) (\<lambda>a.
        and_then (ensure (sa_format a = ''wav'' \<or> sa_format a = ''pcm16'') invalid_params) (\<lambda>_. Inr a))))
     (\<lambda>a.
       bind_st (mcp_worker env (vb_synthesize (mv_backend env) (sa_text a) (sa_speed a) context)) (\<lambda>y.
       bind_st (lift_res (mcp_encode_speech (sa_format a) y)) (\<lambda>(mime, bytes).
         ret (JObj
           [(''content'', JArr [JObj [(''type'', JStr ''audio''),
               (''data'', JStr (mc_base64_encode (mv_codec env) bytes)), (''mimeType'', JStr mime)]]),
            (''isError'', JBool False)]))))"

definition mcp_call_tool ::
  "('t, 'w) mcp_env \<Rightarrow> request_context \<Rightarrow> json \<Rightarrow> ('w, rpc_failure, json) action"
where
  "mcp_call_tool env context params =
     bind_st (lift_res (ok_or invalid_params (mc_tool_call (mv_codec env) params))) (\<lambda>(name, arguments).
       if name = ''transcribe_audio'' then mcp_transcribe env context arguments
       else if name = ''synthesize_speech'' then mcp_synthesize env context arguments
       else if name = ''list_models'' then
         lift_res (map_ok (\<lambda>_. text_content (mc_to_string (mv_codec env)
             (JObj [(''stt'', JStr ''impossible-voice-stt''), (''tts'', JStr ''impossible-voice-tts''),
                (''voice'', JStr ''kristin'')])))
           (require_empty arguments))
       else if name = ''health'' then
         lift_res (map_ok (\<lambda>_. text_content (''{'' @ [CHR 0x22] @ ''status'' @ [CHR 0x22] @ '':''
             @ [CHR 0x22] @ ''ready'' @ [CHR 0x22] @ ''}''))
           (require_empty arguments))
       else fail \<lparr>rf_code = - 32602, rf_message = ''tool not found''\<rparr>)"

section \<open>The endpoint\<close>

text \<open>202 with no body, or a JSON-RPC response with the id to echo.\<close>

datatype mcp_response = McpAccepted | McpReply json "rpc_failure + json"

definition mcp_method ::
  "('t, 'w) mcp_env \<Rightarrow> request_context \<Rightarrow> rpc_request \<Rightarrow> ('w, rpc_failure, json) action"
where
  "mcp_method env context request =
     (let m = rq_method request; params = rq_params request in
      if m = ''initialize'' then lift_res (mcp_initialize (mv_codec env) (mv_version env) params)
      else if m = ''ping'' then ret (JObj [])
      else if m = ''tools/list'' then ret mcp_tools
      else if m = ''tools/call'' then mcp_call_tool env context params
      else if m = ''resources/list'' then ret mcp_resources
      else if m = ''resources/read'' then lift_res (mcp_read_resource (mv_codec env) params)
      else fail \<lparr>rf_code = - 32601, rf_message = ''method not found''\<rparr>)"

definition mcp_handle ::
  "('t, 'w) mcp_env \<Rightarrow> request_context \<Rightarrow> u8 list \<Rightarrow> 'w \<Rightarrow> mcp_response \<times> 'w"
where
  "mcp_handle env context body w =
     (case mc_parse (mv_codec env) body of
        None \<Rightarrow> (McpReply JNull (Inl \<lparr>rf_code = - 32700, rf_message = ''JSON-RPC parse error''\<rparr>), w)
      | Some v \<Rightarrow>
          (case mc_request (mv_codec env) v of
             None \<Rightarrow> (McpReply JNull (Inl rpc_invalid_request), w)
           | Some request \<Rightarrow>
               let ident = (case rq_id request of None \<Rightarrow> JNull | Some i \<Rightarrow> i) in
               if rq_jsonrpc request \<noteq> ''2.0'' then (McpReply ident (Inl rpc_invalid_request), w)
               else if rq_id request = None then (McpAccepted, w)
               else (case mcp_method env context request w of (r, w') \<Rightarrow> (McpReply ident r, w'))))"

section \<open>What a method can do\<close>

definition rpc_codes :: "int set" where
  "rpc_codes = {- 32700, - 32600, - 32601, - 32602, - 32002, - 32003, - 32800}"

lemma rpc_codes_members [simp]:
  "- 32700 \<in> rpc_codes" "- 32600 \<in> rpc_codes" "- 32601 \<in> rpc_codes" "- 32602 \<in> rpc_codes"
  "- 32002 \<in> rpc_codes" "- 32003 \<in> rpc_codes" "- 32800 \<in> rpc_codes"
  by (simp_all add: rpc_codes_def)

lemma failures_stable [simp]:
  "rf_code invalid_params \<in> rpc_codes" "rf_code rpc_invalid_request \<in> rpc_codes"
  "rf_code engine_failure \<in> rpc_codes"
  by (simp_all add: invalid_params_def rpc_invalid_request_def engine_failure_def rpc_codes_def)

lemma rpc_failure_of_stable [simp]: "rf_code (rpc_failure_of e) \<in> rpc_codes"
  by (cases e) (simp_all add: invalid_params_def engine_failure_def)

text \<open>A failure of an action is one of the stable ones.\<close>

definition stable :: "(rpc_failure + 'a) \<times> 'w \<Rightarrow> bool" where
  "stable r = wp (\<lambda>_ _. True) (\<lambda>e _. rf_code e \<in> rpc_codes) r"

lemma stable_simps [simp]:
  "stable (Inr a, w)" "stable (Inl e, w) \<longleftrightarrow> rf_code e \<in> rpc_codes"
  by (simp_all add: stable_def wp_def)

lemma stable_bind: "stable (m w) \<Longrightarrow> (\<And>a v. stable (f a v)) \<Longrightarrow> stable (bind_st m f w)"
  by (auto simp: stable_def wp_bind intro!: wp_mono [of _ _ "m w"])

lemma mcp_worker_stable: "stable (mcp_worker env call w)"
  by (auto simp: mcp_worker_def stable_def wp_def map_err_def split: prod.split sum.split)

lemma mcp_decode_audio_failure:
  "mcp_decode_audio codec arguments = Inl e \<Longrightarrow> e = invalid_params"
  by (auto simp: mcp_decode_audio_def res_simps split: if_splits)

lemma mcp_encode_speech_failure:
  "mcp_encode_speech format y = Inl e \<Longrightarrow> rf_code e \<in> rpc_codes"
  by (auto simp: mcp_encode_speech_def res_simps engine_failure_def split: if_splits)

lemma lift_stable: "(\<And>e. r = Inl e \<Longrightarrow> rf_code e \<in> rpc_codes) \<Longrightarrow> stable (lift_res r w)"
  by (cases r) simp_all

lemma require_empty_stable: "stable (map_ok f (require_empty a), v)"
  by (cases a) (auto simp: require_empty_def)

lemma mcp_transcribe_stable: "stable (mcp_transcribe env context arguments v)"
  unfolding mcp_transcribe_def
  by (intro stable_bind lift_stable mcp_worker_stable) (auto dest: mcp_decode_audio_failure)

lemma mcp_synthesize_stable: "stable (mcp_synthesize env context arguments v)"
  unfolding mcp_synthesize_def
  by (intro stable_bind lift_stable mcp_worker_stable)
    (auto simp: res_simps intro!: stable_bind lift_stable dest: mcp_encode_speech_failure)

lemma mcp_call_tool_stable: "stable (mcp_call_tool env context params v)"
  unfolding mcp_call_tool_def
  by (intro stable_bind lift_stable)
    (auto simp: res_simps mcp_transcribe_stable mcp_synthesize_stable require_empty_stable)

lemma mcp_initialize_failure: "mcp_initialize codec version params = Inl e \<Longrightarrow> rf_code e \<in> rpc_codes"
  by (auto simp: mcp_initialize_def res_simps split: if_splits)

lemma mcp_read_resource_failure: "mcp_read_resource codec params = Inl e \<Longrightarrow> rf_code e \<in> rpc_codes"
  by (auto simp: mcp_read_resource_def res_simps split: if_splits)

lemma mcp_method_stable: "stable (mcp_method env context request w)"
  by (auto simp: mcp_method_def Let_def mcp_call_tool_stable simp del: action_simps(3)
      intro!: lift_stable dest: mcp_initialize_failure mcp_read_resource_failure)

lemma bind_lift: "bind_st (lift_res r) f w = (case r of Inl e \<Rightarrow> (Inl e, w) | Inr a \<Rightarrow> f a w)"
  by (cases r) simp_all

lemma mcp_audio_valid:
  assumes "mcp_decode_audio codec arguments = Inr a"
  shows "wf_pcm a \<and> validate_pcm audio_limits_default a = Inr ()"
proof -
  have "\<exists>bytes rate. from_pcm16_le bytes rate audio_limits_default = Inr a"
    using assms by (auto simp: mcp_decode_audio_def res_simps split: if_splits dest: from_wav_pcm16)
  then show ?thesis using from_pcm16_le_valid by blast
qed

text \<open>What the workers leave: the world of the backend's operation.\<close>

lemma mcp_worker_world: "snd (mcp_worker env call w) = snd (call w)"
  by (simp add: mcp_worker_def split: prod.split)

lemma mcp_transcribe_eq:
  "mcp_decode_audio (mv_codec env) arguments = Inr audio \<Longrightarrow>
     mcp_transcribe env context arguments w
       = map_prod (map_ok text_content) id (mcp_worker env (vb_transcribe (mv_backend env) audio context) w)"
  by (simp add: mcp_transcribe_def bind_st_def ret_def map_ok_def split: prod.split sum.split)

lemma mcp_synthesize_world:
  assumes "mcp_synthesize env context arguments w = (r, w')" and "w' \<noteq> w"
  shows "\<exists>a. mc_synthesize (mv_codec env) arguments = Some a \<and> (sa_format a = ''wav'' \<or> sa_format a = ''pcm16'')
    \<and> w' = snd (vb_synthesize (mv_backend env) (sa_text a) (sa_speed a) context w)"
proof -
  from assms obtain a where a: "mc_synthesize (mv_codec env) arguments = Some a" "sa_format a = ''wav'' \<or> sa_format a = ''pcm16''"
    by (auto simp: mcp_synthesize_def bind_lift ok_or_def ensure_def and_then_def
        split: option.splits if_splits sum.splits)
  obtain y v where y: "mcp_worker env (vb_synthesize (mv_backend env) (sa_text a) (sa_speed a) context) w = (y, v)"
    by fastforce
  have "w' = v"
    using assms(1) a y
    by (cases y) (auto simp: mcp_synthesize_def bind_lift ok_or_def ensure_def and_then_def split: sum.splits)
  with a mcp_worker_world [of env "vb_synthesize (mv_backend env) (sa_text a) (sa_speed a) context" w] y
  show ?thesis by auto
qed

lemma mcp_call_tool_world:
  assumes "mcp_call_tool env context params w = (r, w')" and "w' \<noteq> w"
  shows "\<exists>name arguments. mc_tool_call (mv_codec env) params = Some (name, arguments) \<and>
    (name = ''transcribe_audio'' \<and> (\<exists>audio. mcp_decode_audio (mv_codec env) arguments = Inr audio
        \<and> w' = snd (vb_transcribe (mv_backend env) audio context w)
        \<and> r = map_ok text_content (fst (mcp_worker env (vb_transcribe (mv_backend env) audio context) w)))
     \<or> name = ''synthesize_speech'' \<and> (\<exists>a. mc_synthesize (mv_codec env) arguments = Some a
          \<and> (sa_format a = ''wav'' \<or> sa_format a = ''pcm16'')
          \<and> w' = snd (vb_synthesize (mv_backend env) (sa_text a) (sa_speed a) context w)))"
proof -
  from assms obtain name arguments where t: "mc_tool_call (mv_codec env) params = Some (name, arguments)"
    and c: "name = ''transcribe_audio'' \<and> mcp_transcribe env context arguments w = (r, w')
      \<or> name = ''synthesize_speech'' \<and> mcp_synthesize env context arguments w = (r, w')"
    by (auto simp: mcp_call_tool_def bind_lift ok_or_def split: option.splits if_splits sum.splits)
  from c show ?thesis
  proof (elim disjE conjE)
    assume n: "name = ''transcribe_audio''" and x: "mcp_transcribe env context arguments w = (r, w')"
    from x assms(2) obtain audio where a: "mcp_decode_audio (mv_codec env) arguments = Inr audio"
      by (cases "mcp_decode_audio (mv_codec env) arguments") (auto simp: mcp_transcribe_def)
    with x mcp_transcribe_eq [OF a, of "context" w]
      mcp_worker_world [of env "vb_transcribe (mv_backend env) audio context" w]
    have "w' = snd (vb_transcribe (mv_backend env) audio context w)"
      "r = map_ok text_content (fst (mcp_worker env (vb_transcribe (mv_backend env) audio context) w))"
      by (simp_all add: map_prod_def split: prod.splits)
    with n t a show ?thesis by blast
  next
    assume n: "name = ''synthesize_speech''" and x: "mcp_synthesize env context arguments w = (r, w')"
    from mcp_synthesize_world [OF x assms(2)] n t show ?thesis by blast
  qed
qed

section \<open>Properties\<close>

text \<open>A message without an id that is a well-formed 2.0 request: a notification.\<close>

definition mcp_notification :: "mcp_codec \<Rightarrow> u8 list \<Rightarrow> bool" where
  "mcp_notification codec body \<longleftrightarrow>
     (case mc_parse codec body of
        None \<Rightarrow> False
      | Some v \<Rightarrow>
          (case mc_request codec v of
             None \<Rightarrow> False
           | Some request \<Rightarrow> rq_jsonrpc request = ''2.0'' \<and> rq_id request = None))"

text \<open>
  C34: every message gets the answer JSON-RPC asks for. A notification, and nothing else, is accepted
  silently, and it never touches the engine, whatever method it names; everything else gets one reply
  that echoes the request's id, or null where there is none; and a failure carries one of the stable
  codes.
\<close>

theorem mcp_answers:
  "case mcp_handle env context body w of (response, w') \<Rightarrow>
     if mcp_notification (mv_codec env) body then response = McpAccepted \<and> w' = w
     else (\<exists>r. response = McpReply
            (case mc_parse (mv_codec env) body of None \<Rightarrow> JNull
             | Some v \<Rightarrow> (case mc_request (mv_codec env) v of None \<Rightarrow> JNull
               | Some request \<Rightarrow> (case rq_id request of None \<Rightarrow> JNull | Some i \<Rightarrow> i))) r
          \<and> (case r of Inl e \<Rightarrow> rf_code e \<in> rpc_codes | Inr _ \<Rightarrow> True))"
proof -
  have code: "rf_code e \<in> rpc_codes" if "mcp_method env context request w = (Inl e, v)" for request e v
    using mcp_method_stable [of env "context" request w] by (simp add: that)
  show ?thesis
    by (auto simp: mcp_handle_def mcp_notification_def Let_def dest: code split: option.splits prod.splits sum.splits)
qed

text \<open>
  C35: the engines are reached only through the two tools and only past admission, and only by the
  operation the tool stands for. When handling a message changes the backend's world, it was a request
  with an id calling \<open>transcribe_audio\<close> with audio that decodes to a valid recording within
  the limits, and the new world is the one the backend's transcription of that recording leaves, whose
  outcome is the reply; or \<open>synthesize_speech\<close> with a supported format, and the new world
  is the one the backend's synthesis of its text at its speed leaves.
\<close>

theorem mcp_reaches_backend:
  assumes "mcp_handle env context body w = (response, w')" and "w' \<noteq> w"
  shows "\<exists>v request ident name arguments. mc_parse (mv_codec env) body = Some v
    \<and> mc_request (mv_codec env) v = Some request \<and> rq_id request = Some ident
    \<and> rq_method request = ''tools/call''
    \<and> mc_tool_call (mv_codec env) (rq_params request) = Some (name, arguments)
    \<and> (name = ''transcribe_audio'' \<and> (\<exists>audio. mcp_decode_audio (mv_codec env) arguments = Inr audio
          \<and> wf_pcm audio \<and> validate_pcm audio_limits_default audio = Inr ()
          \<and> w' = snd (vb_transcribe (mv_backend env) audio context w)
          \<and> response = McpReply ident
              (map_ok text_content (fst (mcp_worker env (vb_transcribe (mv_backend env) audio context) w))))
       \<or> name = ''synthesize_speech'' \<and> (\<exists>a. mc_synthesize (mv_codec env) arguments = Some a
          \<and> (sa_format a = ''wav'' \<or> sa_format a = ''pcm16'')
          \<and> w' = snd (vb_synthesize (mv_backend env) (sa_text a) (sa_speed a) context w)))"
proof -
  from assms obtain v request ident r where q: "mc_parse (mv_codec env) body = Some v"
    "mc_request (mv_codec env) v = Some request" "rq_id request = Some ident"
    and m: "mcp_method env context request w = (r, w')" "response = McpReply ident r"
    by (auto simp: mcp_handle_def Let_def split: option.splits if_splits prod.splits)
  then have t: "rq_method request = ''tools/call''"
    and c: "mcp_call_tool env context (rq_params request) w = (r, w')"
    using assms(2) by (auto simp: mcp_method_def Let_def split: if_splits sum.splits)
  from mcp_call_tool_world [OF c assms(2)] mcp_audio_valid q t m(2) show ?thesis by blast
qed

definition speaking_codec :: mcp_codec where
  "speaking_codec =
     \<lparr>mc_parse = \<lambda>_. Some JNull,
      mc_request = \<lambda>_. Some \<lparr>rq_jsonrpc = ''2.0'', rq_id = Some (JInt 1), rq_method = ''tools/call'',
        rq_params = JNull\<rparr>,
      mc_protocol_version = \<lambda>_. None, mc_tool_call = \<lambda>_. Some (''synthesize_speech'', JNull),
      mc_transcribe = \<lambda>_. None,
      mc_synthesize = \<lambda>_. Some \<lparr>sa_text = [104], sa_speed = Fin 1, sa_format = ''pcm16''\<rparr>,
      mc_read_resource = \<lambda>_. None, mc_to_string = \<lambda>_. [], mc_base64_decode = \<lambda>_. None,
      mc_base64_encode = \<lambda>_. []\<rparr>"

definition counting_backend :: "(unit, nat) voice_backend" where
  "counting_backend = \<lparr>vb_transcribe = \<lambda>_ _ w. (Inr [], w + 1),
     vb_synthesize = \<lambda>_ _ _ w. (Inl BackendBusy, w + 1), vb_start = \<lambda>_ _. ret (),
     vb_push = \<lambda>_ _ w. (Inr [], (), w), vb_finish = \<lambda>_. fail BackendEngine, vb_drop = \<lambda>_ w. w\<rparr>"

theorem mcp_reaches_backend_witness:
  "\<exists>a. mc_synthesize speaking_codec JNull = Some a
     \<and> snd (vb_synthesize counting_backend (sa_text a) (sa_speed a) echo_context (0 :: nat)) = 1"
proof -
  let ?env = "\<lparr>mv_codec = speaking_codec, mv_backend = counting_backend, mv_panics = \<lambda>_. False,
    mv_version = ''0.1.0''\<rparr>"
  have "mcp_handle ?env echo_context [] 0 = (McpReply (JInt 1) (Inl (rpc_failure_of BackendBusy)), 1)"
    by (simp add: mcp_handle_def speaking_codec_def mcp_method_def mcp_call_tool_def
        mcp_synthesize_def counting_backend_def mcp_worker_def bind_lift bind_st_def Let_def)
  from mcp_reaches_backend [OF this] show ?thesis by (auto simp: speaking_codec_def)
qed

end
