(* ===== verification/Transports.thy ===== *)
theory Transports
  imports Grpc Mcp Realtime
begin

text \<open>
  The four transports serve one engine: HTTP, WebSocket, gRPC and MCP admit the same audio, return
  the same bytes for the same synthesis, and a WebSocket session transcribes exactly what the
  backend's session of \<open>Grpc\<close>'s reference does.
\<close>

section \<open>Admission\<close>

text \<open>What was admitted, forgetting how a refusal is worded.\<close>

definition admitted :: "'e + 'a \<Rightarrow> 'a option" where
  "admitted r = (case r of Inl _ \<Rightarrow> None | Inr a \<Rightarrow> Some a)"

lemma admitted_simps [simp]: "admitted (Inl e) = None" "admitted (Inr a) = Some a"
  "admitted (map_err f r) = admitted r"
  by (simp_all add: admitted_def map_err_def split: sum.split)

lemma media_types:
  "split_on (CHR '';'') ''audio/pcm'' = [''audio/pcm'']" "split_on (CHR '';'') ''audio/wav'' = [''audio/wav'']"
  "ascii_lower (ascii_trim ''audio/pcm'') = ''audio/pcm''"
  "ascii_lower (ascii_trim ''audio/wav'') = ''audio/wav''"
  by code_simp+

lemma http_admits:
  "admitted (decode_audio ''audio/pcm'' (Some rate) bytes) = admitted (from_pcm16_le bytes rate audio_limits_default)"
  "admitted (decode_audio ''audio/wav'' None bytes) = admitted (from_wav bytes audio_limits_default)"
  by (simp_all add: decode_audio_def media_types Let_def)

lemma raw_rate_zero: "admitted (from_pcm16_le bytes 0 limits) = None"
  by (cases "from_pcm16_le bytes 0 limits")
    (auto simp: from_pcm16_le_Inr_iff supported_sample_rates_def)

section \<open>A WebSocket transcription\<close>

definition text_input :: "client_event \<Rightarrow> ws_input" where
  "text_input e = Recv (Some (Inr (WsText (Some e))))"

definition frame_inputs :: "u8 list list \<Rightarrow> ws_input list" where
  "frame_inputs fs =
     concat (map (\<lambda>f. [text_input (AudioAppend (length f)), Recv (Some (Inr (WsBinary f)))]) fs)"

definition transcript_out :: "('t, 'w) ws_env \<Rightarrow> transcript \<Rightarrow> ws_out" where
  "transcript_out env u =
     OutEvent (plain_event env
       (case tr_kind u of Interim \<Rightarrow> ''transcript_interim'' | Final \<Rightarrow> ''transcript_final'')
       \<lparr>ev_text := Some (tr_text u)\<rparr>)"

text \<open>The end of a session that transcribed everything, or was stopped by an error.\<close>

definition last_event :: "('t, 'w) ws_env \<Rightarrow> backend_error option \<Rightarrow> ws_out" where
  "last_event env e =
     (case e of
        None \<Rightarrow> OutEvent (plain_event env ''session_completed'')
      | Some e \<Rightarrow> OutEvent (plain_event env ''error''\<lparr>ev_code := Some (ae_code (api_error_of e))\<rparr>))"

definition close_event :: "backend_error option \<Rightarrow> ws_out" where
  "close_event e =
     (case e of
        None \<Rightarrow> OutClose 1000 ''session closed''
      | Some e \<Rightarrow> OutClose (fst (close_of_failure (Some e))) (snd (close_of_failure (Some e))))"

definition quiet :: "('t, 'w) ws_env \<Rightarrow> bool" where
  "quiet env \<longleftrightarrow> we_send env = (\<lambda>_ w. (None, w))"

lemma quiet_send: "quiet env \<Longrightarrow> ws_send env out s = (Inr (), s\<lparr>ws_sent := ws_sent s @ [out]\<rparr>)"
  by (simp add: quiet_def ws_send_def)

lemma quiet_transcripts:
  "quiet env \<Longrightarrow>
     send_transcripts env us s = (Inr (), s\<lparr>ws_sent := ws_sent s @ map (transcript_out env) us\<rparr>)"
  by (induction us arbitrary: s)
    (simp_all add: send_transcript_def Let_def quiet_send transcript_out_def)

lemma quiet_fail:
  "quiet env \<Longrightarrow> fail_backend env e s =
     (Inl WsFail, s\<lparr>ws_failure := Some e, ws_sent := ws_sent s @ [last_event env (Some e)]\<rparr>)"
  by (simp add: fail_backend_def protocol_error_def send_error_def quiet_send last_event_def)

definition listening_to :: "'t \<Rightarrow> ('t, 'w) ws \<Rightarrow> bool" where
  "listening_to t s \<longleftrightarrow> ws_mode s = Some ModeStt \<and> ws_pending s = None \<and> ws_transcriber s = Some t
     \<and> \<not> ws_completed s"

text \<open>A declared frame is pushed to the transcriber.\<close>

lemma loop_frame:
  assumes q: "quiet env" and s: "listening_to t s"
    and f: "0 < length f" "length f \<le> max_ws_message_bytes"
    and inputs: "ws_inputs s = text_input (AudioAppend (length f)) # Recv (Some (Inr (WsBinary f))) # rest"
    and push: "vb_push (we_backend env) t f (ws_world s) = (r, t', w)"
  shows "websocket_loop env s =
    (let u = s\<lparr>ws_inputs := rest, ws_pending := None, ws_transcriber := Some t', ws_world := w\<rparr>
     in case r of
          Inl e \<Rightarrow> (Inl WsFail, u\<lparr>ws_failure := Some e, ws_sent := ws_sent u @ [last_event env (Some e)]\<rparr>)
        | Inr us \<Rightarrow> websocket_loop env (u\<lparr>ws_sent := ws_sent u @ map (transcript_out env) us\<rparr>))"
proof -
  let ?s = "s\<lparr>ws_inputs := Recv (Some (Inr (WsBinary f))) # rest, ws_pending := Some (length f)\<rparr>"
  have "websocket_loop env s = websocket_loop env ?s"
    using s f by (simp add: websocket_loop.simps [of env s] inputs text_input_def handle_input_def
        handle_client_event_def Let_def listening_to_def)
  moreover have "websocket_loop env ?s =
    (let u = s\<lparr>ws_inputs := rest, ws_pending := None, ws_transcriber := Some t', ws_world := w\<rparr>
     in case r of
          Inl e \<Rightarrow> (Inl WsFail, u\<lparr>ws_failure := Some e, ws_sent := ws_sent u @ [last_event env (Some e)]\<rparr>)
        | Inr us \<Rightarrow> websocket_loop env (u\<lparr>ws_sent := ws_sent u @ map (transcript_out env) us\<rparr>))"
    using s f push
    by (cases r) (simp_all add: websocket_loop.simps [of env ?s] handle_input_def handle_binary_def
        Let_def listening_to_def quiet_fail [OF q] quiet_transcripts [OF q] bind_st_def)
  ultimately show ?thesis by simp
qed

lemma loop_frames:
  assumes q: "quiet env" and frames: "\<forall>f\<in>set fs. 0 < length f \<and> length f \<le> max_ws_message_bytes"
    and s: "listening_to t s" "ws_failure s = None"
    and inputs: "ws_inputs s = frame_inputs fs @ [text_input AudioCommit, Recv None]"
    and r: "session_frames (we_backend env) t fs (ws_world s) = (us, e)"
  shows "\<exists>u. websocket_loop env s = ((case e of None \<Rightarrow> Inr () | Some _ \<Rightarrow> Inl WsFail), u)
    \<and> ws_sent u = ws_sent s @ map (transcript_out env) us @ [last_event env e] \<and> ws_failure u = e"
  using frames s inputs r
proof (induction fs arbitrary: s t us)
  case Nil
  obtain x w where fin: "vb_finish (we_backend env) t (ws_world s) = (x, w)" by fastforce
  let ?s = "s\<lparr>ws_inputs := [Recv None], ws_transcriber := None, ws_world := w\<rparr>"
  have step: "handle_input env (text_input AudioCommit) (s\<lparr>ws_inputs := [Recv None]\<rparr>) =
    (case x of
       Inl e \<Rightarrow> (Inl WsFail, ?s\<lparr>ws_failure := Some e, ws_sent := ws_sent s @ [last_event env (Some e)]\<rparr>)
     | Inr u \<Rightarrow> (Inr False, ?s\<lparr>ws_completed := True,
         ws_sent := ws_sent s @ [transcript_out env u, last_event env None]\<rparr>))"
    using Nil.prems fin
    by (cases x) (simp_all add: text_input_def handle_input_def handle_client_event_def Let_def
        audio_commit_def listening_to_def quiet_fail [OF q] send_transcript_def send_event_def
        quiet_send [OF q] transcript_out_def last_event_def)
  show ?case
  proof (cases x)
    case (Inl e')
    with Nil.prems fin step show ?thesis
      by (auto simp: websocket_loop.simps [of env s] frame_inputs_def)
  next
    case (Inr u)
    let ?t = "?s\<lparr>ws_completed := True, ws_sent := ws_sent s @ [transcript_out env u, last_event env None]\<rparr>"
    have "websocket_loop env ?t = (Inr (), ?t\<lparr>ws_inputs := []\<rparr>)"
      by (simp add: websocket_loop.simps [of env ?t] handle_input_def)
    with Inr Nil.prems fin step show ?thesis
      by (auto simp: websocket_loop.simps [of env s] frame_inputs_def)
  qed
next
  case (Cons f fs)
  obtain x t' w where push: "vb_push (we_backend env) t f (ws_world s) = (x, t', w)"
    by (metis prod_cases3)
  let ?rest = "frame_inputs fs @ [text_input AudioCommit, Recv None]"
  let ?u = "s\<lparr>ws_inputs := ?rest, ws_pending := None, ws_transcriber := Some t', ws_world := w\<rparr>"
  have inputs: "ws_inputs s = text_input (AudioAppend (length f)) # Recv (Some (Inr (WsBinary f))) # ?rest"
    using Cons.prems by (simp add: frame_inputs_def)
  note loop = loop_frame [OF q Cons.prems(2) _ _ inputs push]
  show ?case
  proof (cases x)
    case (Inl e')
    with Cons.prems push loop show ?thesis by (auto simp: Let_def)
  next
    case (Inr vs)
    obtain vs' e' where rest: "session_frames (we_backend env) t' fs w = (vs', e')" by fastforce
    let ?v = "?u\<lparr>ws_sent := ws_sent s @ map (transcript_out env) vs\<rparr>"
    have "listening_to t' ?v" "ws_failure ?v = None" using Cons.prems by (simp_all add: listening_to_def)
    from Cons.IH [OF _ this, of vs'] Cons.prems push loop Inr rest show ?thesis
      by (auto simp: Let_def)
  qed
qed

section \<open>Properties\<close>

text \<open>
  HTTP, gRPC and MCP admit the same audio. For the same bytes, within the smallest of their
  size limits, and the same rate, each of the three either refuses or decodes to the very
  recording that the audio library makes of the bytes, for raw PCM16 and for WAV.
\<close>

theorem transports_admit_alike:
  assumes "length bytes \<le> max_mcp_audio_bytes" and "length b64 \<le> max_mcp_base64_bytes"
    and "mc_base64_decode codec b64 = Some bytes"
    and "mc_transcribe codec raw = Some \<lparr>ta_audio_base64 = b64, ta_encoding = ''pcm16'', ta_sample_rate = Some rate\<rparr>"
    and "mc_transcribe codec wav = Some \<lparr>ta_audio_base64 = b64, ta_encoding = ''wav'', ta_sample_rate = None\<rparr>"
  shows "admitted (decode_audio ''audio/pcm'' (Some rate) bytes) = admitted (from_pcm16_le bytes rate audio_limits_default)
    \<and> admitted (grpc_decode_audio \<lparr>tq_audio = bytes, tq_encoding = 2, tq_sample_rate = rate\<rparr>)
      = admitted (from_pcm16_le bytes rate audio_limits_default)
    \<and> admitted (mcp_decode_audio codec raw) = admitted (from_pcm16_le bytes rate audio_limits_default)
    \<and> admitted (decode_audio ''audio/wav'' None bytes) = admitted (from_wav bytes audio_limits_default)
    \<and> admitted (grpc_decode_audio \<lparr>tq_audio = bytes, tq_encoding = 1, tq_sample_rate = 0\<rparr>)
      = admitted (from_wav bytes audio_limits_default)
    \<and> admitted (mcp_decode_audio codec wav) = admitted (from_wav bytes audio_limits_default)"
proof -
  have "length bytes \<le> max_grpc_message_bytes"
    using assms(1) by (simp add: max_mcp_audio_bytes_def max_grpc_message_bytes_def)
  then show ?thesis
    using assms raw_rate_zero [of bytes audio_limits_default]
    by (simp add: http_admits grpc_decode_audio_def encoding_of_i32_def mcp_decode_audio_def)
qed

text \<open>
  C36: HTTP, gRPC and MCP speak alike. When the HTTP route answers a request with a synthesis, the
  bytes it returns are those gRPC encodes for the same synthesis in the same format, and those MCP
  returns unless they exceed its limit.
\<close>

theorem transports_speak_alike:
  assumes "vb_synthesize backend (sr_input request) (sr_speed request) context w = (Inr y, w1)"
    and "speech backend context request w = (Inr response, w2)"
  shows "encode_synthesis y (if sr_format request = ''wav'' then EncWavPcm16 else EncRawPcm16)
      = Inr (sp_body response)
    \<and> mcp_encode_speech (if sr_format request = ''wav'' then ''wav'' else ''pcm16'') y =
        (if length (sp_body response) > max_mcp_audio_bytes
         then Inl \<lparr>rf_code = - 32003, rf_message = ''tool result exceeds the MCP limit''\<rparr>
         else Inr (sp_content_type response, sp_body response))"
  using assms
  by (auto simp: speech_def mcp_encode_speech_def res_simps split: if_splits)

text \<open>
  C37: a realtime transcription is the backend's session. With a client that starts a transcription,
  declares and sends frames of 1 to 65536 bytes and commits, on a transport that delivers, the
  server sends \<open>session_ready\<close>, the transcripts of that session in order, then
  \<open>session_completed\<close> and close 1000, or the error that stopped it and its close code.
\<close>

theorem realtime_equals_session:
  assumes "quiet env" and "\<forall>f\<in>set frames. 0 < length f \<and> length f \<le> max_ws_message_bytes"
    and "voice_session (we_backend env) (we_context env) rate frames w = (us, e)"
    and "vb_start (we_backend env) rate (we_context env) w = (Inr t, w')"
  shows "ws_sent (websocket_session env (ws_start
      (text_input (SessionStart ModeStt (Some rate)) # frame_inputs frames @ [text_input AudioCommit, Recv None]) w))
    = [OutEvent (plain_event env ''session_ready'')] @ map (transcript_out env) us
        @ [last_event env e, close_event e]"
proof -
  let ?inputs = "frame_inputs frames @ [text_input AudioCommit, Recv None]"
  let ?s = "ws_start (text_input (SessionStart ModeStt (Some rate)) # ?inputs) w"
  define s where "s = ?s\<lparr>ws_inputs := ?inputs, ws_mode := Some ModeStt, ws_transcriber := Some t,
    ws_world := w', ws_sent := [OutEvent (plain_event env ''session_ready'')]\<rparr>"
  have start: "websocket_loop env ?s = websocket_loop env s"
    using assms(4)
    by (subst websocket_loop.simps) (simp add: ws_start_def text_input_def handle_input_def
        handle_client_event_def session_start_def Let_def send_event_def quiet_send [OF assms(1)]
        bind_st_def s_def)
  have "session_frames (we_backend env) t frames (ws_world s) = (us, e)"
    using assms(3,4) by (simp add: voice_session_def s_def)
  from loop_frames [OF assms(1,2) _ _ _ this] obtain u where
    "websocket_loop env s = ((case e of None \<Rightarrow> Inr () | Some _ \<Rightarrow> Inl WsFail), u)"
    "ws_sent u = ws_sent s @ map (transcript_out env) us @ [last_event env e]" "ws_failure u = e"
    by (auto simp: s_def listening_to_def ws_start_def)
  with start show ?thesis
    by (cases e) (simp_all add: websocket_session_def Let_def cancel_token_def quiet_send [OF assms(1)]
        close_event_def s_def split: option.split)
qed

theorem transports_admit_alike_witness:
  "admitted (decode_audio ''audio/pcm'' (Some 8000) [1, 2]) = admitted (from_pcm16_le [1, 2] 8000 audio_limits_default)"
proof -
  let ?codec = "speaking_codec\<lparr>mc_base64_decode := \<lambda>_. Some [1, 2],
    mc_transcribe := \<lambda>j. Some \<lparr>ta_audio_base64 = ''AQI='',
      ta_encoding = (if j = JNull then ''pcm16'' else ''wav''),
      ta_sample_rate = (if j = JNull then Some 8000 else None)\<rparr>\<rparr>"
  show ?thesis
    by (rule conjunct1 [OF transports_admit_alike [of _ "''AQI=''" ?codec JNull _ "JBool True"]])
      (simp_all add: max_mcp_audio_bytes_def max_mcp_base64_bytes_def)
qed

theorem transports_speak_alike_witness:
  "\<exists>y (response :: speech_response). encode_synthesis y EncRawPcm16 = Inr (sp_body response) \<and> sp_content_type response = ''audio/pcm''"
proof -
  let ?r = "\<lparr>sr_input = [104], sr_speed = Fin 1, sr_format = ''pcm'', sr_model = None, sr_voice = None\<rparr>"
  obtain y where y: "vb_synthesize chime_backend (sr_input ?r) (sr_speed ?r) echo_context () = (Inr y, ())"
    by (simp add: chime_backend_def)
  then have s: "speech chime_backend echo_context ?r () = (Inr \<lparr>sp_body = synthesis_pcm16 y,
      sp_content_type = ''audio/pcm'', sp_sample_rate = pcm_rate (sy_audio y), sp_channels = ''1'',
      sp_format = ''pcm_s16le''\<rparr>, ())"
    by (simp add: speech_def)
  have "encode_synthesis y EncRawPcm16 = Inr (synthesis_pcm16 y)"
    using conjunct1 [OF transports_speak_alike [OF y s]] by simp
  then show ?thesis
    by (intro exI [of _ y] exI [of _ "\<lparr>sp_body = synthesis_pcm16 y, sp_content_type = ''audio/pcm'',
      sp_sample_rate = 8000, sp_channels = ''1'', sp_format = ''pcm_s16le''\<rparr>"] conjI) simp_all
qed

definition listening_env :: "(unit, nat) ws_env" where
  "listening_env = \<lparr>we_backend = counting_backend\<lparr>vb_push := \<lambda>_ _ w. (Inr [\<lparr>tr_kind = Final, tr_text = ''hi''\<rparr>], (), w)\<rparr>,
     we_send = \<lambda>_ w. (None, w), we_context = echo_context,
     we_abandoned = \<lambda>_. None\<rparr>"

theorem realtime_equals_session_witness:
  "ws_sent (websocket_session listening_env (ws_start
      (text_input (SessionStart ModeStt (Some 16000)) # frame_inputs [[1, 2]] @ [text_input AudioCommit, Recv None]) 0))
    = [OutEvent (plain_event listening_env ''session_ready''),
       transcript_out listening_env \<lparr>tr_kind = Final, tr_text = ''hi''\<rparr>,
       OutEvent (plain_event listening_env ''error''\<lparr>ev_code := Some ''engine_error''\<rparr>),
       OutClose 1011 ''voice engine failed'']"
  by (subst realtime_equals_session [where us = "[\<lparr>tr_kind = Final, tr_text = ''hi''\<rparr>]"
        and e = "Some BackendEngine" and t = "()" and w' = 0])
    (simp_all add: quiet_def listening_env_def max_ws_message_bytes_def voice_session_def
      counting_backend_def last_event_def close_event_def)

end
