(* ===== verification/Config.thy ===== *)
theory Config
  imports Core Voice_Api
begin

text \<open>
  \<open>crates/impossible-voice-server/src/config.rs\<close>: configuration layered from defaults, a
  TOML file, the environment and the command line. The file system, the TOML parser and
  \<open>SocketAddr::from_str\<close> are the functions of \<open>config_world\<close>; command-line
  parsing is clap's. Proved: the precedence of the layers field by field, that an accepted configuration
  listens on two distinct loopback addresses within the server limits, and exactly when values are
  accepted.
\<close>

section \<open>Addresses and texts of the system\<close>

datatype ip_addr = Ipv4 nat nat nat nat | Ipv6 "nat list"

record socket_addr =
  sa_ip :: ip_addr
  sa_port :: nat

text \<open>\<open>Ipv4Addr::is_loopback\<close> is 127.0.0.0/8, \<open>Ipv6Addr::is_loopback\<close> is ::1.\<close>

fun is_loopback :: "ip_addr \<Rightarrow> bool" where
  "is_loopback (Ipv4 a b c d) = (a = 127)"
| "is_loopback (Ipv6 segments) = (segments = [0, 0, 0, 0, 0, 0, 0, 1])"

text \<open>An \<open>OsString\<close> is valid Unicode or not; a path is one.\<close>

datatype os_string = Unicode string | NotUnicode "u8 list"

definition os_is_empty :: "os_string \<Rightarrow> bool" where
  "os_is_empty p = (case p of Unicode s \<Rightarrow> s = [] | NotUnicode b \<Rightarrow> b = [])"

record config_error =
  ce_field :: string
  ce_message :: string

definition config_error :: "string \<Rightarrow> string \<Rightarrow> config_error" where
  "config_error field message = \<lparr>ce_field = field, ce_message = message\<rparr>"

section \<open>Layers\<close>

record partial_config =
  pc_artifact_root :: "os_string option"
  pc_bind :: "socket_addr option"
  pc_grpc_bind :: "socket_addr option"
  pc_max_request_bytes :: "nat option"
  pc_queue_capacity :: "nat option"
  pc_max_concurrent_requests :: "nat option"
  pc_request_timeout_ms :: "nat option"
  pc_shutdown_timeout_ms :: "nat option"

definition partial_default :: partial_config where
  "partial_default =
     \<lparr>pc_artifact_root = None, pc_bind = None, pc_grpc_bind = None, pc_max_request_bytes = None,
      pc_queue_capacity = None, pc_max_concurrent_requests = None, pc_request_timeout_ms = None,
      pc_shutdown_timeout_ms = None\<rparr>"

record server_options =
  so_config :: "os_string option"
  so_artifact_root :: "os_string option"
  so_bind :: "socket_addr option"
  so_grpc_bind :: "socket_addr option"
  so_max_request_bytes :: "nat option"
  so_queue_capacity :: "nat option"
  so_max_concurrent_requests :: "nat option"
  so_request_timeout_ms :: "nat option"
  so_shutdown_timeout_ms :: "nat option"

text \<open>The macro \<open>replace!\<close> on one field.\<close>

definition replace :: "'a option \<Rightarrow> 'a option \<Rightarrow> 'a option" where
  "replace lower higher = (if higher \<noteq> None then higher else lower)"

definition overlay :: "partial_config \<Rightarrow> partial_config \<Rightarrow> partial_config" where
  "overlay lower higher =
     \<lparr>pc_artifact_root = replace (pc_artifact_root lower) (pc_artifact_root higher),
      pc_bind = replace (pc_bind lower) (pc_bind higher),
      pc_grpc_bind = replace (pc_grpc_bind lower) (pc_grpc_bind higher),
      pc_max_request_bytes = replace (pc_max_request_bytes lower) (pc_max_request_bytes higher),
      pc_queue_capacity = replace (pc_queue_capacity lower) (pc_queue_capacity higher),
      pc_max_concurrent_requests =
        replace (pc_max_concurrent_requests lower) (pc_max_concurrent_requests higher),
      pc_request_timeout_ms = replace (pc_request_timeout_ms lower) (pc_request_timeout_ms higher),
      pc_shutdown_timeout_ms = replace (pc_shutdown_timeout_ms lower) (pc_shutdown_timeout_ms higher)\<rparr>"

section \<open>The effective configuration\<close>

record runtime_config =
  rt_bind :: socket_addr
  rt_grpc_bind :: socket_addr
  rt_limits :: server_limits
  rt_artifact_root :: os_string

definition default_bind :: socket_addr where
  "default_bind = \<lparr>sa_ip = Ipv4 127 0 0 1, sa_port = 8080\<rparr>"

definition default_grpc_bind :: socket_addr where
  "default_grpc_bind = \<lparr>sa_ip = Ipv4 127 0 0 1, sa_port = 50051\<rparr>"

definition unwrap_or :: "'a \<Rightarrow> 'a option \<Rightarrow> 'a" where
  "unwrap_or d x = (case x of None \<Rightarrow> d | Some v \<Rightarrow> v)"

definition limit_error_field :: "limit_error \<Rightarrow> string" where
  "limit_error_field e = (case e of LimitError field \<Rightarrow> field)"

definition resolve_layers :: "partial_config \<Rightarrow> config_error + runtime_config" where
  "resolve_layers values =
     (let bind = unwrap_or default_bind (pc_bind values);
          grpc_bind = unwrap_or default_grpc_bind (pc_grpc_bind values);
          artifact_root = unwrap_or (Unicode ''runtime-artifacts'') (pc_artifact_root values)
      in if os_is_empty artifact_root then Inl (config_error ''artifact_root'' ''is malformed'')
         else if \<not> is_loopback (sa_ip bind) then Inl (config_error ''bind'' ''must be loopback'')
         else if \<not> is_loopback (sa_ip grpc_bind) \<or> grpc_bind = bind
         then Inl (config_error ''grpc_bind'' ''must be distinct and loopback'')
         else
           map_ok (\<lambda>limits. \<lparr>rt_bind = bind, rt_grpc_bind = grpc_bind, rt_limits = limits,
               rt_artifact_root = artifact_root\<rparr>)
             (map_err (\<lambda>e. config_error (limit_error_field e) ''is outside the supported bound'')
               (server_limits_new
                  (unwrap_or (16 * 1024 * 1024) (pc_max_request_bytes values))
                  (unwrap_or 128 (pc_queue_capacity values))
                  (unwrap_or 4 (pc_max_concurrent_requests values))
                  (millis (unwrap_or 60000 (pc_request_timeout_ms values)))
                  (millis (unwrap_or 10000 (pc_shutdown_timeout_ms values))))))"

section \<open>Reading the layers\<close>

text \<open>
  \<open>cw_metadata\<close> is whether the path is a regular file and its length,
  \<open>cw_read\<close> its contents when they are UTF-8.
\<close>

record config_world =
  cw_environment :: "string \<Rightarrow> os_string option"
  cw_metadata :: "os_string \<Rightarrow> (bool \<times> nat) option"
  cw_read :: "os_string \<Rightarrow> string option"
  cw_toml :: "string \<Rightarrow> partial_config option"
  cw_socket_addr :: "string \<Rightarrow> socket_addr option"

definition max_config_bytes :: nat where "max_config_bytes = 64 * 1024"

definition read_file :: "config_world \<Rightarrow> os_string \<Rightarrow> config_error + partial_config" where
  "read_file world path =
     and_then (ok_or (config_error ''config'' ''could not be read'') (cw_metadata world path)) (\<lambda>(is_file, len).
       if \<not> is_file \<or> len > max_config_bytes
       then Inl (config_error ''config'' ''is outside the supported bound'')
       else
         and_then (ok_or (config_error ''config'' ''could not be read'') (cw_read world path)) (\<lambda>contents.
           ok_or (config_error ''config'' ''is malformed'') (cw_toml world contents)))"

definition parse_environment ::
  "config_world \<Rightarrow> (string \<Rightarrow> 'a option) \<Rightarrow> string \<Rightarrow> string \<Rightarrow> config_error + 'a option"
where
  "parse_environment world parse name field =
     (case cw_environment world name of
        None \<Rightarrow> Inr None
      | Some v \<Rightarrow>
          and_then (case v of
                      Unicode s \<Rightarrow> Inr s
                    | NotUnicode _ \<Rightarrow> Inl (config_error field ''is malformed'')) (\<lambda>s.
            map_ok Some (ok_or (config_error field ''is malformed'') (parse s))))"

definition parse_u64 :: "string \<Rightarrow> nat option" where
  "parse_u64 = parse_unsigned u64_max"

definition read_environment :: "config_world \<Rightarrow> config_error + partial_config" where
  "read_environment world =
     and_then (parse_environment world (cw_socket_addr world) ''IMPOSSIBLE_VOICE_BIND'' ''bind'') (\<lambda>bind.
     and_then (parse_environment world (cw_socket_addr world) ''IMPOSSIBLE_VOICE_GRPC_BIND'' ''grpc_bind'') (\<lambda>grpc_bind.
     and_then (parse_environment world parse_u64 ''IMPOSSIBLE_VOICE_MAX_REQUEST_BYTES'' ''max_request_bytes'') (\<lambda>bytes.
     and_then (parse_environment world parse_u64 ''IMPOSSIBLE_VOICE_QUEUE_CAPACITY'' ''queue_capacity'') (\<lambda>queue.
     and_then (parse_environment world parse_u64 ''IMPOSSIBLE_VOICE_MAX_CONCURRENT_REQUESTS'' ''max_concurrent_requests'') (\<lambda>concurrent.
     and_then (parse_environment world parse_u64 ''IMPOSSIBLE_VOICE_REQUEST_TIMEOUT_MS'' ''request_timeout_ms'') (\<lambda>request.
     and_then (parse_environment world parse_u64 ''IMPOSSIBLE_VOICE_SHUTDOWN_TIMEOUT_MS'' ''shutdown_timeout_ms'') (\<lambda>shutdown.
       Inr \<lparr>pc_artifact_root = cw_environment world ''IMPOSSIBLE_VOICE_ARTIFACT_ROOT'',
            pc_bind = bind, pc_grpc_bind = grpc_bind, pc_max_request_bytes = bytes,
            pc_queue_capacity = queue, pc_max_concurrent_requests = concurrent,
            pc_request_timeout_ms = request, pc_shutdown_timeout_ms = shutdown\<rparr>)))))))"

definition cli_layer :: "server_options \<Rightarrow> partial_config" where
  "cli_layer options =
     \<lparr>pc_artifact_root = so_artifact_root options, pc_bind = so_bind options,
      pc_grpc_bind = so_grpc_bind options, pc_max_request_bytes = so_max_request_bytes options,
      pc_queue_capacity = so_queue_capacity options,
      pc_max_concurrent_requests = so_max_concurrent_requests options,
      pc_request_timeout_ms = so_request_timeout_ms options,
      pc_shutdown_timeout_ms = so_shutdown_timeout_ms options\<rparr>"

definition file_layer :: "config_world \<Rightarrow> server_options \<Rightarrow> config_error + partial_config" where
  "file_layer world options =
     (case (case so_config options of
              Some p \<Rightarrow> Some p
            | None \<Rightarrow> cw_environment world ''IMPOSSIBLE_VOICE_CONFIG'') of
        None \<Rightarrow> Inr partial_default
      | Some path \<Rightarrow> read_file world path)"

definition resolve :: "config_world \<Rightarrow> server_options \<Rightarrow> config_error + runtime_config" where
  "resolve world options =
     and_then (file_layer world options) (\<lambda>file.
     and_then (read_environment world) (\<lambda>environment.
       resolve_layers (overlay (overlay file environment) (cli_layer options))))"

record doctor_report =
  dr_status :: string
  dr_bind_scope :: string
  dr_grpc_bind_scope :: string
  dr_max_request_bytes :: nat
  dr_queue_capacity :: nat
  dr_max_concurrent_requests :: nat
  dr_request_timeout_ms :: nat
  dr_shutdown_timeout_ms :: nat
  dr_downloads_during_serve :: bool

definition doctor_report :: "runtime_config \<Rightarrow> doctor_report" where
  "doctor_report c =
     \<lparr>dr_status = ''ok'', dr_bind_scope = ''loopback'', dr_grpc_bind_scope = ''loopback'',
      dr_max_request_bytes = max_request_bytes (rt_limits c),
      dr_queue_capacity = queue_capacity (rt_limits c),
      dr_max_concurrent_requests = max_concurrent_requests (rt_limits c),
      dr_request_timeout_ms = request_timeout (rt_limits c) div 1000000,
      dr_shutdown_timeout_ms = shutdown_timeout (rt_limits c) div 1000000,
      dr_downloads_during_serve = False\<rparr>"

section \<open>How layers combine\<close>

fun first_some :: "'a option list \<Rightarrow> 'a option" where
  "first_some [] = None"
| "first_some (x # xs) = (case x of None \<Rightarrow> first_some xs | Some v \<Rightarrow> Some v)"

lemma replace_first_some: "replace (replace c b) a = first_some [a, b, c]"
  by (cases a; cases b; cases c) (simp_all add: replace_def)

lemma overlay_selectors [simp]:
  "pc_artifact_root (overlay l h) = replace (pc_artifact_root l) (pc_artifact_root h)"
  "pc_bind (overlay l h) = replace (pc_bind l) (pc_bind h)"
  "pc_grpc_bind (overlay l h) = replace (pc_grpc_bind l) (pc_grpc_bind h)"
  "pc_max_request_bytes (overlay l h) = replace (pc_max_request_bytes l) (pc_max_request_bytes h)"
  "pc_queue_capacity (overlay l h) = replace (pc_queue_capacity l) (pc_queue_capacity h)"
  "pc_max_concurrent_requests (overlay l h) =
     replace (pc_max_concurrent_requests l) (pc_max_concurrent_requests h)"
  "pc_request_timeout_ms (overlay l h) = replace (pc_request_timeout_ms l) (pc_request_timeout_ms h)"
  "pc_shutdown_timeout_ms (overlay l h) = replace (pc_shutdown_timeout_ms l) (pc_shutdown_timeout_ms h)"
  by (simp_all add: overlay_def)

lemma resolve_layers_Inr_iff:
  "resolve_layers v = Inr c \<longleftrightarrow>
     \<not> os_is_empty (rt_artifact_root c) \<and> is_loopback (sa_ip (rt_bind c))
     \<and> is_loopback (sa_ip (rt_grpc_bind c)) \<and> rt_grpc_bind c \<noteq> rt_bind c
     \<and> rt_artifact_root c = unwrap_or (Unicode ''runtime-artifacts'') (pc_artifact_root v)
     \<and> rt_bind c = unwrap_or default_bind (pc_bind v)
     \<and> rt_grpc_bind c = unwrap_or default_grpc_bind (pc_grpc_bind v)
     \<and> server_limits_new (unwrap_or (16 * 1024 * 1024) (pc_max_request_bytes v))
          (unwrap_or 128 (pc_queue_capacity v)) (unwrap_or 4 (pc_max_concurrent_requests v))
          (millis (unwrap_or 60000 (pc_request_timeout_ms v)))
          (millis (unwrap_or 10000 (pc_shutdown_timeout_ms v))) = Inr (rt_limits c)"
  by (cases c) (auto simp: resolve_layers_def Let_def res_simps)

section \<open>Properties\<close>

text \<open>
  C38: precedence. Every field of an accepted configuration comes from the command line if it is
  set there, else from the environment, else from the file, else it is the default; no field's
  source depends on another field.
\<close>

theorem config_precedence:
  assumes "file_layer world options = Inr file" and "read_environment world = Inr environment"
    and "resolve world options = Inr c"
  shows "rt_bind c = unwrap_or default_bind
        (first_some [so_bind options, pc_bind environment, pc_bind file])
    \<and> rt_grpc_bind c = unwrap_or default_grpc_bind
        (first_some [so_grpc_bind options, pc_grpc_bind environment, pc_grpc_bind file])
    \<and> rt_artifact_root c = unwrap_or (Unicode ''runtime-artifacts'')
        (first_some [so_artifact_root options, pc_artifact_root environment, pc_artifact_root file])
    \<and> rt_limits c =
        \<lparr>max_request_bytes = unwrap_or (16 * 1024 * 1024) (first_some
           [so_max_request_bytes options, pc_max_request_bytes environment, pc_max_request_bytes file]),
         queue_capacity = unwrap_or 128 (first_some
           [so_queue_capacity options, pc_queue_capacity environment, pc_queue_capacity file]),
         max_concurrent_requests = unwrap_or 4 (first_some
           [so_max_concurrent_requests options, pc_max_concurrent_requests environment,
            pc_max_concurrent_requests file]),
         request_timeout = millis (unwrap_or 60000 (first_some
           [so_request_timeout_ms options, pc_request_timeout_ms environment,
            pc_request_timeout_ms file])),
         shutdown_timeout = millis (unwrap_or 10000 (first_some
           [so_shutdown_timeout_ms options, pc_shutdown_timeout_ms environment,
            pc_shutdown_timeout_ms file]))\<rparr>"
proof -
  have "resolve_layers (overlay (overlay file environment) (cli_layer options)) = Inr c"
    using assms by (simp add: resolve_def)
  then show ?thesis
    unfolding resolve_layers_Inr_iff server_limits_new_Inr_iff
    by (simp add: replace_first_some cli_layer_def del: first_some.simps)
qed

text \<open>
  An accepted configuration is safe, and \<open>doctor\<close> reports it truly: both listeners are
  loopback and distinct, the artifact root is not empty, every limit is positive and within its
  bound, and the report repeats the limits, the timeouts exactly in milliseconds.
\<close>

theorem config_is_safe:
  assumes "resolve world options = Inr c"
  shows "is_loopback (sa_ip (rt_bind c)) \<and> is_loopback (sa_ip (rt_grpc_bind c))
    \<and> rt_grpc_bind c \<noteq> rt_bind c \<and> \<not> os_is_empty (rt_artifact_root c)
    \<and> 0 < max_request_bytes (rt_limits c) \<and> max_request_bytes (rt_limits c) \<le> 2 ^ 30
    \<and> 0 < queue_capacity (rt_limits c) \<and> queue_capacity (rt_limits c) \<le> 1000000
    \<and> 0 < max_concurrent_requests (rt_limits c) \<and> max_concurrent_requests (rt_limits c) \<le> 1000000
    \<and> 0 < request_timeout (rt_limits c) \<and> request_timeout (rt_limits c) \<le> max_timeout
    \<and> 0 < shutdown_timeout (rt_limits c) \<and> shutdown_timeout (rt_limits c) \<le> max_timeout
    \<and> millis (dr_request_timeout_ms (doctor_report c)) = request_timeout (rt_limits c)
    \<and> millis (dr_shutdown_timeout_ms (doctor_report c)) = shutdown_timeout (rt_limits c)
    \<and> dr_max_request_bytes (doctor_report c) = max_request_bytes (rt_limits c)"
proof -
  obtain v where "resolve_layers v = Inr c" using assms by (auto simp: resolve_def res_simps)
  then show ?thesis
    unfolding resolve_layers_Inr_iff server_limits_new_Inr_iff
    by (auto simp: doctor_report_def millis_def)
qed

text \<open>A world with nothing set, and one command line.\<close>

definition bare_world :: config_world where
  "bare_world = \<lparr>cw_environment = \<lambda>name. if name = ''IMPOSSIBLE_VOICE_QUEUE_CAPACITY'' then Some (Unicode ''7'') else None,
     cw_metadata = \<lambda>_. None, cw_read = \<lambda>_. None, cw_toml = \<lambda>_. None, cw_socket_addr = \<lambda>_. None\<rparr>"

definition queue_options :: server_options where
  "queue_options = \<lparr>so_config = None, so_artifact_root = None, so_bind = None, so_grpc_bind = None,
     so_max_request_bytes = None, so_queue_capacity = None, so_max_concurrent_requests = Some 2,
     so_request_timeout_ms = None, so_shutdown_timeout_ms = None\<rparr>"

lemma bare_resolves:
  "file_layer bare_world queue_options = Inr partial_default"
  "read_environment bare_world = Inr (partial_default\<lparr>pc_queue_capacity := Some 7\<rparr>)"
  "\<exists>c. resolve bare_world queue_options = Inr c"
proof -
  show f: "file_layer bare_world queue_options = Inr partial_default"
    by (simp add: file_layer_def bare_world_def queue_options_def)
  have "parse_u64 ''7'' = Some 7"
    by (simp add: parse_u64_def parse_unsigned_def digit_value_def u64_max_def)
  then show e: "read_environment bare_world = Inr (partial_default\<lparr>pc_queue_capacity := Some 7\<rparr>)"
    by (simp add: read_environment_def parse_environment_def bare_world_def partial_default_def)
  show "\<exists>c. resolve bare_world queue_options = Inr c"
    unfolding resolve_def f e
    by (simp add: resolve_layers_def overlay_def replace_def cli_layer_def queue_options_def
        partial_default_def unwrap_or_def os_is_empty_def default_bind_def default_grpc_bind_def
        server_limits_new_def bounded_size_def bounded_duration_def millis_def max_timeout_def nanos_def)
qed

theorem config_precedence_witness:
  "\<exists>c. resolve bare_world queue_options = Inr c \<and> queue_capacity (rt_limits c) = 7
    \<and> max_concurrent_requests (rt_limits c) = 2 \<and> rt_bind c = default_bind"
proof -
  obtain c where "resolve bare_world queue_options = Inr c" using bare_resolves(3) by blast
  with config_precedence [OF bare_resolves(1,2) this] show ?thesis
    by (auto simp: queue_options_def partial_default_def unwrap_or_def)
qed

theorem config_is_safe_witness:
  "\<exists>c. resolve bare_world queue_options = Inr c \<and> is_loopback (sa_ip (rt_bind c))"
  using bare_resolves(3) config_is_safe by blast

end
