(* ===== verification/Policy.thy ===== *)
theory Policy
  imports Shutdown Mcp
begin

text \<open>
  \<open>enforce_workload_policy\<close> of \<open>crates/impossible-voice-server/src/lib.rs\<close>:
  the admission boundary every workload request passes. Each of its sections between two awaits is a
  function on the shared state (the shutdown gate, the two semaphores, the identifier source); a step
  relation interleaves any number of requests with the passing of time and the shutdown of the server.
  Proved: the conservation of permits and guards, hence the bounds on concurrent and admitted requests;
  the uniqueness of live request identifiers; and what can still happen after the stop.
\<close>

section \<open>Responses\<close>

datatype response_body = ErrorBody string string | JsonBody json | OtherBody "u8 list"

record response =
  re_status :: nat
  re_content_type :: "string option"
  re_request_id :: "nat option"
  re_body :: response_body

definition public_error :: "nat \<Rightarrow> string \<Rightarrow> string \<Rightarrow> response" where
  "public_error status code message =
     \<lparr>re_status = status, re_content_type = Some ''application/json'', re_request_id = None,
      re_body = ErrorBody code message\<rparr>"

definition error_cancelled :: response where
  "error_cancelled = public_error 503 ''cancelled'' ''the request was cancelled''"

definition error_overloaded :: response where
  "error_overloaded = public_error 429 ''overloaded'' ''the service is temporarily overloaded''"

definition error_internal :: response where
  "error_internal = public_error 500 ''internal'' ''an internal server error occurred''"

definition error_too_large :: response where
  "error_too_large =
     public_error 413 ''invalid_request'' ''the request body exceeds the configured limit''"

definition error_deadline :: response where
  "error_deadline = public_error 504 ''deadline_exceeded'' ''the request deadline was exceeded''"

section \<open>The shared state\<close>

text \<open>A semaphore is the number of permits available.\<close>

record policy =
  po_limits :: server_limits
  po_ids :: nat
  po_gate :: gate
  po_execution :: nat
  po_admitted :: nat

definition policy_new :: "server_limits \<Rightarrow> policy" where
  "policy_new limits =
     \<lparr>po_limits = limits, po_ids = 0, po_gate = gate_new,
      po_execution = max_concurrent_requests limits,
      po_admitted = saturating_add64 (max_concurrent_requests limits) (queue_capacity limits)\<rparr>"

definition policy_enter :: "(policy, response, unit) action" where
  "policy_enter p =
     (case try_enter (po_gate p) of
        (entered, g) \<Rightarrow> (if entered then Inr () else Inl error_cancelled, p\<lparr>po_gate := g\<rparr>))"

definition policy_admit :: "(policy, response, unit) action" where
  "policy_admit p =
     (if po_admitted p = 0 then (Inl error_overloaded, p)
      else (Inr (), p\<lparr>po_admitted := po_admitted p - 1\<rparr>))"

text \<open>The request's context and its deadline, both from the current instant.\<close>

definition policy_context :: "nat \<Rightarrow> (policy, response, request_context \<times> nat) action" where
  "policy_context now p =
     (case next_request_id (po_ids p) of
        (Inl _, ids) \<Rightarrow> (Inl error_internal, p\<lparr>po_ids := ids\<rparr>)
      | (Inr ident, ids) \<Rightarrow>
          (map_ok (\<lambda>context. (context, now + request_timeout (po_limits p)))
             (map_err (\<lambda>_. error_internal)
                (request_context_new now ident token_new (Some (request_timeout (po_limits p))))),
           p\<lparr>po_ids := ids\<rparr>))"

text \<open>
  What a select yields: the stop token (polled first), the deadline, or the awaited result. A body
  is its bytes, or \<open>None\<close> when reading it failed.
\<close>

datatype 'a selected = SelStop | SelDeadline | SelResult 'a

definition policy_body :: "policy \<Rightarrow> u8 list option selected \<Rightarrow> response + u8 list" where
  "policy_body p sel =
     (case sel of
        SelStop \<Rightarrow> Inl error_cancelled
      | SelDeadline \<Rightarrow> Inl error_deadline
      | SelResult None \<Rightarrow> Inl error_too_large
      | SelResult (Some bytes) \<Rightarrow>
          if length bytes > max_request_bytes (po_limits p) then Inl error_too_large else Inr bytes)"

definition policy_execute :: "unit selected \<Rightarrow> (policy, response, unit) action" where
  "policy_execute sel p =
     (case sel of
        SelStop \<Rightarrow> (Inl error_cancelled, p)
      | SelDeadline \<Rightarrow> (Inl error_deadline, p)
      | SelResult _ \<Rightarrow> (Inr (), p\<lparr>po_execution := po_execution p - 1\<rparr>))"

text \<open>The response of the handler, or of the branch that pre-empted it, with the request id.\<close>

definition policy_respond :: "request_context \<Rightarrow> response selected \<Rightarrow> response" where
  "policy_respond context sel =
     (case sel of SelStop \<Rightarrow> error_cancelled | SelDeadline \<Rightarrow> error_deadline | SelResult r \<Rightarrow> r)
       \<lparr>re_request_id := Some (rc_id context)\<rparr>"

section \<open>Requests in flight\<close>

text \<open>
  Where a request stands. The guards a function drops when it returns are dropped one by one:
  first the execution permit, then the admission permit, then the gate's guard, whose drop may
  have to publish the end of the drain. They carry what the function returned; a function dropped
  at an await, because the client is gone, returns nothing.
\<close>

datatype task =
  Entered
| Admitted
| Reading request_context nat
| Queued request_context nat
| Executing request_context nat
| DropExecution "response option"
| DropAdmission "response option"
| DropGuard "response option"
| Publish "response option"
| Answered "response option"

record host =
  ho_policy :: policy
  ho_now :: nat
  ho_tasks :: "task multiset"

definition host_start :: "server_limits \<Rightarrow> host \<Rightarrow> bool" where
  "host_start limits h \<longleftrightarrow> h = \<lparr>ho_policy = policy_new limits, ho_now = 0, ho_tasks = {#}\<rparr>"

text \<open>Which results a select may yield at an instant; the stop wins whenever it is published.\<close>

fun selectable :: "policy \<Rightarrow> nat \<Rightarrow> nat \<Rightarrow> 'a selected \<Rightarrow> bool" where
  "selectable p now deadline SelStop \<longleftrightarrow> stop_published (po_gate p)"
| "selectable p now deadline SelDeadline \<longleftrightarrow> \<not> stop_published (po_gate p) \<and> deadline \<le> now"
| "selectable p now deadline (SelResult r) \<longleftrightarrow> \<not> stop_published (po_gate p)"

text \<open>The last select polls the deadline before the handler.\<close>

fun respondable :: "policy \<Rightarrow> nat \<Rightarrow> nat \<Rightarrow> 'a selected \<Rightarrow> bool" where
  "respondable p now deadline (SelResult r) \<longleftrightarrow> \<not> stop_published (po_gate p) \<and> now < deadline"
| "respondable p now deadline sel \<longleftrightarrow> selectable p now deadline sel"

text \<open>One request moving from one await to the next.\<close>

inductive task_step :: "nat \<Rightarrow> policy \<times> task \<Rightarrow> policy \<times> task \<Rightarrow> bool" where
  admit: "policy_admit p = (Inr (), q) \<Longrightarrow> task_step now (p, Entered) (q, Admitted)"
| rejected: "policy_admit p = (Inl r, q) \<Longrightarrow> task_step now (p, Entered) (q, DropGuard (Some r))"
| contextual: "policy_context now p = (Inr (c, deadline), q) \<Longrightarrow>
    task_step now (p, Admitted) (q, Reading c deadline)"
| no_context: "policy_context now p = (Inl r, q) \<Longrightarrow> task_step now (p, Admitted) (q, DropAdmission (Some r))"
| read: "selectable p now deadline sel \<Longrightarrow> policy_body p sel = Inr bytes \<Longrightarrow>
    task_step now (p, Reading c deadline) (p, Queued c deadline)"
| unread: "selectable p now deadline sel \<Longrightarrow> policy_body p sel = Inl r \<Longrightarrow>
    task_step now (p, Reading c deadline) (p, DropAdmission (Some r))"
| execute: "selectable p now deadline sel \<Longrightarrow> (sel = SelResult () \<longrightarrow> 0 < po_execution p) \<Longrightarrow>
    policy_execute sel p = (Inr (), q) \<Longrightarrow>
    task_step now (p, Queued c deadline) (q, Executing c deadline)"
| unexecuted: "selectable p now deadline sel \<Longrightarrow> policy_execute sel p = (Inl r, q) \<Longrightarrow>
    task_step now (p, Queued c deadline) (q, DropAdmission (Some r))"
| respond: "respondable p now deadline sel \<Longrightarrow>
    task_step now (p, Executing c deadline) (p, DropExecution (Some (policy_respond c sel)))"
| abandon_reading: "task_step now (p, Reading c deadline) (p, DropAdmission None)"
| abandon_queued: "task_step now (p, Queued c deadline) (p, DropAdmission None)"
| abandon_executing: "task_step now (p, Executing c deadline) (p, DropExecution None)"
| drop_execution:
    "task_step now (p, DropExecution r) (p\<lparr>po_execution := po_execution p + 1\<rparr>, DropAdmission r)"
| drop_admission:
    "task_step now (p, DropAdmission r) (p\<lparr>po_admitted := po_admitted p + 1\<rparr>, DropGuard r)"
| drop_guard: "drop_guard_locked (po_gate p) = (False, g) \<Longrightarrow>
    task_step now (p, DropGuard r) (p\<lparr>po_gate := g\<rparr>, Answered r)"
| drop_last_guard: "drop_guard_locked (po_gate p) = (True, g) \<Longrightarrow>
    task_step now (p, DropGuard r) (p\<lparr>po_gate := g\<rparr>, Publish r)"
| publish: "task_step now (p, Publish r) (p\<lparr>po_gate := cancel_stopped (po_gate p)\<rparr>, Answered r)"

text \<open>The server: requests arrive and move, time passes, the server drains and stops.\<close>

inductive host_step :: "host \<Rightarrow> host \<Rightarrow> bool" where
  arrive: "policy_enter p = (Inr (), q) \<Longrightarrow>
    host_step \<lparr>ho_policy = p, ho_now = n, ho_tasks = T\<rparr> \<lparr>ho_policy = q, ho_now = n, ho_tasks = add_mset Entered T\<rparr>"
| refuse: "policy_enter p = (Inl r, q) \<Longrightarrow>
    host_step \<lparr>ho_policy = p, ho_now = n, ho_tasks = T\<rparr> \<lparr>ho_policy = q, ho_now = n, ho_tasks = add_mset (Answered (Some r)) T\<rparr>"
| move: "task_step n (p, t) (q, u) \<Longrightarrow>
    host_step \<lparr>ho_policy = p, ho_now = n, ho_tasks = add_mset t T\<rparr> \<lparr>ho_policy = q, ho_now = n, ho_tasks = add_mset u T\<rparr>"
| tick: "n \<le> m \<Longrightarrow>
    host_step \<lparr>ho_policy = p, ho_now = n, ho_tasks = T\<rparr> \<lparr>ho_policy = p, ho_now = m, ho_tasks = T\<rparr>"
| drain: "begin_drain_locked (po_gate p) = (r, b, g) \<Longrightarrow>
    host_step \<lparr>ho_policy = p, ho_now = n, ho_tasks = T\<rparr> \<lparr>ho_policy = p\<lparr>po_gate := g\<rparr>, ho_now = n, ho_tasks = T\<rparr>"
| stop: "host_step \<lparr>ho_policy = p, ho_now = n, ho_tasks = T\<rparr>
    \<lparr>ho_policy = p\<lparr>po_gate := stop_now_locked (po_gate p)\<rparr>, ho_now = n, ho_tasks = T\<rparr>"
| stopped: "gate_phase (po_gate p) = Stopped outcome \<Longrightarrow>
    host_step \<lparr>ho_policy = p, ho_now = n, ho_tasks = T\<rparr>
      \<lparr>ho_policy = p\<lparr>po_gate := cancel_stopped (po_gate p)\<rparr>, ho_now = n, ho_tasks = T\<rparr>"

inductive_cases task_stepE: "task_step n (p, t) (q, u)"
inductive_cases host_stepE: "host_step h h'"

section \<open>What each request holds\<close>

fun holds_guard :: "task \<Rightarrow> nat" where
  "holds_guard (Publish r) = 0" | "holds_guard (Answered r) = 0" | "holds_guard _ = 1"

fun holds_admission :: "task \<Rightarrow> nat" where
  "holds_admission Admitted = 1" | "holds_admission (Reading c d) = 1"
| "holds_admission (Queued c d) = 1" | "holds_admission (Executing c d) = 1"
| "holds_admission (DropExecution r) = 1" | "holds_admission (DropAdmission r) = 1"
| "holds_admission _ = 0"

fun holds_execution :: "task \<Rightarrow> nat" where
  "holds_execution (Executing c d) = 1" | "holds_execution (DropExecution r) = 1"
| "holds_execution _ = 0"

fun live_ids :: "task \<Rightarrow> nat multiset" where
  "live_ids (Reading c d) = {#rc_id c#}" | "live_ids (Queued c d) = {#rc_id c#}"
| "live_ids (Executing c d) = {#rc_id c#}" | "live_ids _ = {#}"

definition total_of :: "(task \<Rightarrow> nat) \<Rightarrow> task multiset \<Rightarrow> nat" where
  "total_of f T = sum_mset (image_mset f T)"

definition ids_of :: "task multiset \<Rightarrow> nat multiset" where
  "ids_of T = sum_mset (image_mset live_ids T)"

lemma total_of_simps [simp]:
  "total_of f {#} = 0" "total_of f (add_mset t T) = f t + total_of f T"
  by (simp_all add: total_of_def)

lemma ids_of_simps [simp]: "ids_of {#} = {#}" "ids_of (add_mset t T) = live_ids t + ids_of T"
  by (simp_all add: ids_of_def)

definition admission_bound :: "server_limits \<Rightarrow> nat" where
  "admission_bound limits = saturating_add64 (max_concurrent_requests limits) (queue_capacity limits)"

text \<open>
  Only a stopped gate is published or about to be, and a graceful stop means no guard is left.
\<close>

definition stopped :: "gate \<Rightarrow> bool" where
  "stopped g \<longleftrightarrow> (case gate_phase g of Stopped r \<Rightarrow> True | _ \<Rightarrow> False)"

definition gate_settled :: "gate \<Rightarrow> task multiset \<Rightarrow> bool" where
  "gate_settled g T \<longleftrightarrow>
     (stop_published g \<or> (\<exists>r. Publish r \<in># T) \<longrightarrow> stopped g)
     \<and> (gate_phase g = Stopped Graceful \<longrightarrow> gate_active g = 0)"

definition host_inv :: "server_limits \<Rightarrow> host \<Rightarrow> bool" where
  "host_inv limits h \<longleftrightarrow>
     po_limits (ho_policy h) = limits
     \<and> po_execution (ho_policy h) + total_of holds_execution (ho_tasks h) = max_concurrent_requests limits
     \<and> po_admitted (ho_policy h) + total_of holds_admission (ho_tasks h) = admission_bound limits
     \<and> gate_active (po_gate (ho_policy h)) = total_of holds_guard (ho_tasks h)
     \<and> (\<forall>i. count (ids_of (ho_tasks h)) i \<le> 1)
     \<and> (\<forall>i\<in>#ids_of (ho_tasks h). i \<le> po_ids (ho_policy h))
     \<and> gate_settled (po_gate (ho_policy h)) (ho_tasks h)"

section \<open>Every step keeps the accounts\<close>

lemma policy_context_Inr:
  "policy_context now p = (Inr (c, d), q) \<Longrightarrow>
     q = p\<lparr>po_ids := po_ids p + 1\<rparr> \<and> rc_id c = po_ids p + 1 \<and> d = now + request_timeout (po_limits p)"
  by (auto simp: policy_context_def next_request_id_def request_context_new_def checked_add64_def
      res_simps split: prod.splits sum.splits option.splits if_splits)

lemma policy_context_Inl:
  "policy_context now p = (Inl r, q) \<Longrightarrow> q = p\<lparr>po_ids := po_ids q\<rparr> \<and> po_ids p \<le> po_ids q"
  by (auto simp: policy_context_def next_request_id_def checked_add64_def
      split: prod.splits sum.splits option.splits if_splits)

lemma policy_simps:
  "policy_admit p = (Inr (), q) \<longleftrightarrow> 0 < po_admitted p \<and> q = p\<lparr>po_admitted := po_admitted p - 1\<rparr>"
  "policy_admit p = (Inl r, q) \<longleftrightarrow> po_admitted p = 0 \<and> q = p \<and> r = error_overloaded"
  "policy_execute sel p = (Inr (), q) \<longleftrightarrow>
     sel = SelResult () \<and> q = p\<lparr>po_execution := po_execution p - 1\<rparr>"
  "policy_execute sel p = (Inl r, q) \<longleftrightarrow> q = p \<and>
     (sel = SelStop \<and> r = error_cancelled \<or> sel = SelDeadline \<and> r = error_deadline)"
  "policy_enter p = (Inr (), q) \<longleftrightarrow> (\<exists>g. try_enter (po_gate p) = (True, g) \<and> q = p\<lparr>po_gate := g\<rparr>)"
  "policy_enter p = (Inl r, q) \<longleftrightarrow>
     (\<exists>g. try_enter (po_gate p) = (False, g) \<and> q = p\<lparr>po_gate := g\<rparr> \<and> r = error_cancelled)"
  by (auto simp: policy_admit_def policy_execute_def policy_enter_def
      split: selected.splits prod.splits if_splits)

lemma task_step_accounts:
  assumes "task_step n (p, t) (q, u)"
  shows "po_limits q = po_limits p"
    "po_execution q + holds_execution u = po_execution p + holds_execution t"
    "po_admitted q + holds_admission u = po_admitted p + holds_admission t"
    "holds_guard t \<le> gate_active (po_gate p) \<Longrightarrow>
       gate_active (po_gate q) + holds_guard t = gate_active (po_gate p) + holds_guard u"
    "po_ids p \<le> po_ids q"
    "live_ids u = live_ids t \<or> live_ids u = {#} \<or>
       live_ids u = {#po_ids p + 1#} \<and> po_ids q = po_ids p + 1"
proof -
  have "po_limits q = po_limits p
    \<and> po_execution q + holds_execution u = po_execution p + holds_execution t
    \<and> po_admitted q + holds_admission u = po_admitted p + holds_admission t
    \<and> (holds_guard t \<le> gate_active (po_gate p) \<longrightarrow>
        gate_active (po_gate q) + holds_guard t = gate_active (po_gate p) + holds_guard u)
    \<and> po_ids p \<le> po_ids q
    \<and> (live_ids u = live_ids t \<or> live_ids u = {#} \<or>
        live_ids u = {#po_ids p + 1#} \<and> po_ids q = po_ids p + 1)"
    using assms
  proof (cases rule: task_step.cases)
    case (contextual c deadline)
    from policy_context_Inr [OF contextual(3)] contextual(1,2) show ?thesis by simp
  next
    case (no_context r)
    from policy_context_Inl [OF no_context(3)] obtain ids where
      "q = p\<lparr>po_ids := ids\<rparr>" "po_ids p \<le> ids" by blast
    with no_context(1,2) show ?thesis by simp
  next
    case (drop_guard g r)
    then have "gate_active g = gate_active (po_gate p) - 1" by (auto simp: drop_guard_False)
    with drop_guard show ?thesis by simp
  next
    case (drop_last_guard g r)
    then have "gate_active g = 0" "gate_active (po_gate p) \<le> 1" by (auto simp: drop_guard_True)
    with drop_last_guard show ?thesis by simp
  qed (simp_all add: policy_simps)
  then show "po_limits q = po_limits p"
    "po_execution q + holds_execution u = po_execution p + holds_execution t"
    "po_admitted q + holds_admission u = po_admitted p + holds_admission t"
    "holds_guard t \<le> gate_active (po_gate p) \<Longrightarrow>
       gate_active (po_gate q) + holds_guard t = gate_active (po_gate p) + holds_guard u"
    "po_ids p \<le> po_ids q"
    "live_ids u = live_ids t \<or> live_ids u = {#} \<or>
       live_ids u = {#po_ids p + 1#} \<and> po_ids q = po_ids p + 1"
    by simp_all
qed

text \<open>What a request's step may do to the gate.\<close>

definition gate_moves :: "gate \<Rightarrow> gate \<Rightarrow> task \<Rightarrow> task \<Rightarrow> bool" where
  "gate_moves g g' t u \<longleftrightarrow>
     (stopped g \<longrightarrow> gate_phase g' = gate_phase g)
     \<and> (stop_published g \<longrightarrow> stop_published g')
     \<and> (stop_published g' \<longrightarrow> stop_published g \<or> (\<exists>r. t = Publish r))
     \<and> ((\<exists>r. u = Publish r) \<longrightarrow> stopped g')
     \<and> (gate_phase g' = Stopped Graceful \<longrightarrow> gate_active g' = 0
         \<or> gate_phase g = Stopped Graceful \<and> gate_active g' \<le> gate_active g)"

lemma gate_moves_refl: "(\<forall>r. u \<noteq> Publish r) \<Longrightarrow> gate_moves g g t u"
  by (simp add: gate_moves_def)

lemma task_step_gate:
  assumes "task_step n (p, t) (q, u)"
  shows "gate_moves (po_gate p) (po_gate q) t u"
  using assms
proof (cases rule: task_step.cases)
  case (contextual c deadline)
  with policy_context_Inr [OF contextual(3)] show ?thesis by (simp add: gate_moves_refl)
next
  case (no_context r)
  from policy_context_Inl [OF no_context(3)] obtain ids where "q = p\<lparr>po_ids := ids\<rparr>" by blast
  with no_context show ?thesis by (simp add: gate_moves_refl)
next
  case (drop_guard g r)
  then show ?thesis by (auto simp: gate_moves_def drop_guard_False)
next
  case (drop_last_guard g r)
  then show ?thesis by (auto simp: gate_moves_def drop_guard_True stopped_def)
next
  case (publish r)
  then show ?thesis by (simp add: gate_moves_def)
qed (simp_all add: policy_simps gate_moves_refl)

lemma gate_settled_task:
  assumes "gate_settled (po_gate p) (add_mset t T)" and "task_step n (p, t) (q, u)"
  shows "gate_settled (po_gate q) (add_mset u T)"
  using assms(1) task_step_gate [OF assms(2)]
  by (auto simp: gate_settled_def gate_moves_def stopped_def)

lemma try_enter_gate:
  assumes "try_enter g = (entered, g')"
  shows "gate_active g' = gate_active g + of_bool entered" "gate_phase g' = gate_phase g"
    "gate_stopped g' = gate_stopped g" "entered \<Longrightarrow> gate_phase g = Accepting"
  using assms by (cases entered; auto simp: try_enter_True try_enter_False)+

lemma begin_drain_gate:
  assumes "begin_drain_locked g = (r, b, g')"
  shows "gate_active g' = gate_active g" "gate_stopped g' = gate_stopped g"
    "stopped g \<Longrightarrow> gate_phase g' = gate_phase g"
    "gate_phase g' = Stopped Graceful \<Longrightarrow> gate_active g = 0 \<or> gate_phase g = Stopped Graceful"
  using assms by (auto simp: begin_drain_locked_def Let_def stopped_def
      split: gate_phase.splits if_splits)

lemma host_start_inv: "host_start limits h \<Longrightarrow> host_inv limits h"
  by (simp add: host_start_def host_inv_def policy_new_def admission_bound_def gate_new_def ids_of_def
      gate_settled_def token_new_def)

lemma host_inv_task:
  assumes inv: "host_inv limits \<lparr>ho_policy = p, ho_now = n, ho_tasks = add_mset t T\<rparr>"
    and step: "task_step n (p, t) (q, u)"
  shows "host_inv limits \<lparr>ho_policy = q, ho_now = n, ho_tasks = add_mset u T\<rparr>"
proof -
  note acc = task_step_accounts [OF step]
  have ids: "count (live_ids t + ids_of T) i \<le> 1" "i \<in># live_ids t + ids_of T \<Longrightarrow> i \<le> po_ids p" for i
    using inv by (simp_all add: host_inv_def)
  have fresh: "po_ids p + 1 \<notin># ids_of T" using ids(2) [of "po_ids p + 1"] by auto
  have "count (live_ids u + ids_of T) i \<le> 1 \<and> (i \<in># live_ids u + ids_of T \<longrightarrow> i \<le> po_ids q)" for i
    using acc(5,6) ids [of i] fresh by (auto simp: not_in_iff)
  moreover have "holds_guard t \<le> gate_active (po_gate p)" using inv by (simp add: host_inv_def)
  moreover have "gate_settled (po_gate q) (add_mset u T)"
    using inv gate_settled_task [OF _ step] by (simp add: host_inv_def)
  ultimately show ?thesis
    using inv acc by (auto simp: host_inv_def)
qed

text \<open>A step that only changes the gate.\<close>

lemma host_inv_gate:
  assumes "host_inv limits \<lparr>ho_policy = p, ho_now = n, ho_tasks = T\<rparr>"
    and "gate_active g = gate_active (po_gate p)"
    and "gate_settled (po_gate p) T \<Longrightarrow> gate_settled g T"
  shows "host_inv limits \<lparr>ho_policy = p\<lparr>po_gate := g\<rparr>, ho_now = n, ho_tasks = T\<rparr>"
  using assms by (simp add: host_inv_def)

lemma host_step_inv:
  assumes inv: "host_inv limits h" and step: "host_step h h'"
  shows "host_inv limits h'"
  using step
proof cases
  case (arrive p q n T)
  then obtain g where g: "try_enter (po_gate p) = (True, g)" "q = p\<lparr>po_gate := g\<rparr>"
    by (auto simp: policy_simps)
  show ?thesis
    using inv arrive g try_enter_gate [OF g(1)]
    by (auto simp: host_inv_def gate_settled_def stopped_def)
next
  case (refuse p r q n T)
  then obtain g where g: "try_enter (po_gate p) = (False, g)" "q = p\<lparr>po_gate := g\<rparr>"
    by (auto simp: policy_simps)
  show ?thesis
    using inv refuse g try_enter_gate [OF g(1)]
    by (auto simp: host_inv_def gate_settled_def stopped_def)
next
  case move
  with inv host_inv_task show ?thesis by simp
next
  case tick
  with inv show ?thesis by (simp add: host_inv_def)
next
  case (drain p r b g n T)
  note g = begin_drain_gate [OF drain(3)]
  show ?thesis
    using inv drain g host_inv_gate [of limits p n T g]
    by (auto simp: gate_settled_def stopped_def)
next
  case (stop p n T)
  then show ?thesis
    using inv host_inv_gate [of limits p n T "stop_now_locked (po_gate p)"]
    by (auto simp: gate_settled_def stopped_def stop_now_phase split: gate_phase.splits)
next
  case (stopped p x n T)
  then show ?thesis
    using inv host_inv_gate [of limits p n T "cancel_stopped (po_gate p)"]
    by (auto simp: gate_settled_def stopped_def split: gate_phase.splits)
qed

interpretation host: step_invariant "host_start limits" host_step "host_inv limits"
  for limits
  by unfold_locales (auto intro: host_start_inv host_step_inv)

section \<open>After the stop\<close>

fun executing :: "task \<Rightarrow> bool" where
  "executing (Executing c d) = True" | "executing _ = False"

text \<open>What the function returned, once it has.\<close>

fun carries :: "task \<Rightarrow> response option" where
  "carries (DropExecution r) = r" | "carries (DropAdmission r) = r" | "carries (DropGuard r) = r"
| "carries (Publish r) = r" | "carries (Answered r) = r" | "carries _ = None"

definition refusal :: "response \<Rightarrow> bool" where
  "refusal r \<longleftrightarrow> r\<lparr>re_request_id := None\<rparr> \<in> {error_cancelled, error_overloaded, error_internal}"

lemma policy_context_refuses: "policy_context now p = (Inl r, q) \<Longrightarrow> r = error_internal"
  by (auto simp: policy_context_def res_simps split: prod.splits sum.splits)

lemma refusals [simp]:
  "refusal error_cancelled" "refusal error_overloaded" "refusal error_internal"
  "refusal (error_cancelled\<lparr>re_request_id := i\<rparr>)"
  by (simp_all add: refusal_def error_cancelled_def error_overloaded_def error_internal_def public_error_def)

lemma selectable_stopped:
  "stop_published (po_gate p) \<Longrightarrow> selectable p now d sel \<longleftrightarrow> sel = SelStop"
  "stop_published (po_gate p) \<Longrightarrow> respondable p now d sel \<longleftrightarrow> sel = SelStop"
  by (cases sel; simp)+

lemma task_step_stopped:
  assumes "task_step n (p, t) (q, u)" and "stop_published (po_gate p)"
  shows "\<not> executing u \<and> (\<forall>r. carries u = Some r \<longrightarrow> carries t = Some r \<or> refusal r)"
  using assms
  by (cases rule: task_step.cases)
    (auto simp: policy_simps policy_body_def policy_respond_def selectable_stopped
      dest: policy_context_refuses split: selected.splits)

definition settling :: "host \<Rightarrow> host \<Rightarrow> bool" where
  "settling h h' \<longleftrightarrow>
     stop_published (po_gate (ho_policy h'))
     \<and> filter_mset executing (ho_tasks h') \<subseteq># filter_mset executing (ho_tasks h)
     \<and> (\<forall>t\<in>#ho_tasks h'. \<forall>r. carries t = Some r \<longrightarrow>
          (\<exists>u\<in>#ho_tasks h. carries u = Some r) \<or> refusal r)"

lemma settling_trans: "settling h h' \<Longrightarrow> settling h' h'' \<Longrightarrow> settling h h''"
  unfolding settling_def by (meson subset_mset.order_trans)

lemma settling_move:
  assumes "task_step n (p, t) (q, u)" and "stop_published (po_gate p)"
  shows "settling \<lparr>ho_policy = p, ho_now = n, ho_tasks = add_mset t T\<rparr>
    \<lparr>ho_policy = q, ho_now = n, ho_tasks = add_mset u T\<rparr>"
  using task_step_stopped [OF assms] task_step_gate [OF assms(1)] assms(2)
  by (auto simp: settling_def gate_moves_def)

lemma host_step_settles:
  assumes "host_step h h'" and "stop_published (po_gate (ho_policy h))"
  shows "settling h h'"
  using assms(1)
proof cases
  case move
  with settling_move assms(2) show ?thesis by simp
next
  case (arrive p q n T)
  then obtain g where "try_enter (po_gate p) = (True, g)" "q = p\<lparr>po_gate := g\<rparr>"
    by (auto simp: policy_simps)
  with arrive assms(2) try_enter_gate(3) [of "po_gate p" True g] show ?thesis
    by (auto simp: settling_def)
next
  case (refuse p r q n T)
  then obtain g where "try_enter (po_gate p) = (False, g)" "q = p\<lparr>po_gate := g\<rparr>" "r = error_cancelled"
    by (auto simp: policy_simps)
  with refuse assms(2) try_enter_gate(3) [of "po_gate p" False g] show ?thesis
    by (auto simp: settling_def)
next
  case (drain p r b g n T)
  with assms(2) begin_drain_gate(2) [OF drain(3)] show ?thesis by (auto simp: settling_def)
qed (use assms(2) in \<open>auto simp: settling_def stop_now_phase\<close>)

lemma host_steps_settle:
  "host_step\<^sup>*\<^sup>* h h' \<Longrightarrow> stop_published (po_gate (ho_policy h)) \<Longrightarrow> settling h h'"
proof (induction rule: rtranclp_induct)
  case base
  then show ?case by (auto simp: settling_def)
next
  case (step h' h'')
  then show ?case using host_step_settles settling_trans settling_def by blast
qed

section \<open>What moves and what ends\<close>

text \<open>How many steps a request can still take, at most.\<close>

fun task_rank :: "task \<Rightarrow> nat" where
  "task_rank Entered = 9" | "task_rank Admitted = 8" | "task_rank (Reading c d) = 7"
| "task_rank (Queued c d) = 6" | "task_rank (Executing c d) = 5" | "task_rank (DropExecution r) = 4"
| "task_rank (DropAdmission r) = 3" | "task_rank (DropGuard r) = 2" | "task_rank (Publish r) = 1"
| "task_rank (Answered r) = 0"

lemma task_step_rank: "task_step n (p, t) (q, u) \<Longrightarrow> task_rank u < task_rank t"
  by (cases rule: task_step.cases) auto

text \<open>Nothing the request waits for is still needed: the stop, its deadline, or it has returned.\<close>

fun overdue :: "nat \<Rightarrow> policy \<times> task \<Rightarrow> bool" where
  "overdue n (p, Entered) \<longleftrightarrow> stop_published (po_gate p)"
| "overdue n (p, Admitted) \<longleftrightarrow> stop_published (po_gate p)"
| "overdue n (p, Reading c d) \<longleftrightarrow> stop_published (po_gate p) \<or> d \<le> n"
| "overdue n (p, Queued c d) \<longleftrightarrow> stop_published (po_gate p) \<or> d \<le> n"
| "overdue n (p, Executing c d) \<longleftrightarrow> stop_published (po_gate p) \<or> d \<le> n"
| "overdue n (p, t) \<longleftrightarrow> carries t \<noteq> None"

text \<open>
  The steps a request takes unaided: its task runs on without waiting, the stop token or the timer
  wakes it, its guards are dropped. What others have to supply is left out: the body the client sends or
  breaks off, the client that goes away, the execution permit, and the response of the handler.
\<close>

definition by_timer :: "'a selected \<Rightarrow> bool" where
  "by_timer sel \<longleftrightarrow> (case sel of SelResult r \<Rightarrow> False | _ \<Rightarrow> True)"

inductive unaided :: "nat \<Rightarrow> policy \<times> task \<Rightarrow> policy \<times> task \<Rightarrow> bool" where
  admit: "policy_admit p = (Inr (), q) \<Longrightarrow> unaided now (p, Entered) (q, Admitted)"
| rejected: "policy_admit p = (Inl r, q) \<Longrightarrow> unaided now (p, Entered) (q, DropGuard (Some r))"
| contextual: "policy_context now p = (Inr (c, deadline), q) \<Longrightarrow>
    unaided now (p, Admitted) (q, Reading c deadline)"
| no_context: "policy_context now p = (Inl r, q) \<Longrightarrow> unaided now (p, Admitted) (q, DropAdmission (Some r))"
| unread: "selectable p now deadline sel \<Longrightarrow> by_timer sel \<Longrightarrow> policy_body p sel = Inl r \<Longrightarrow>
    unaided now (p, Reading c deadline) (p, DropAdmission (Some r))"
| unexecuted: "selectable p now deadline sel \<Longrightarrow> by_timer sel \<Longrightarrow> policy_execute sel p = (Inl r, q) \<Longrightarrow>
    unaided now (p, Queued c deadline) (q, DropAdmission (Some r))"
| respond: "respondable p now deadline sel \<Longrightarrow> by_timer sel \<Longrightarrow>
    unaided now (p, Executing c deadline) (p, DropExecution (Some (policy_respond c sel)))"
| drop_execution:
    "unaided now (p, DropExecution r) (p\<lparr>po_execution := po_execution p + 1\<rparr>, DropAdmission r)"
| drop_admission:
    "unaided now (p, DropAdmission r) (p\<lparr>po_admitted := po_admitted p + 1\<rparr>, DropGuard r)"
| drop_guard: "drop_guard_locked (po_gate p) = (False, g) \<Longrightarrow>
    unaided now (p, DropGuard r) (p\<lparr>po_gate := g\<rparr>, Answered r)"
| drop_last_guard: "drop_guard_locked (po_gate p) = (True, g) \<Longrightarrow>
    unaided now (p, DropGuard r) (p\<lparr>po_gate := g\<rparr>, Publish r)"
| publish: "unaided now (p, Publish r) (p\<lparr>po_gate := cancel_stopped (po_gate p)\<rparr>, Answered r)"

lemma unaided_task_step: "unaided n x y \<Longrightarrow> task_step n x y"
  by (induction rule: unaided.induct) (blast intro: task_step.intros)+

lemma selected_by_stop:
  assumes "stop_published (po_gate p) \<or> d \<le> n"
  obtains sel :: "'a selected"
  where "by_timer sel" "selectable p n d sel" "respondable p n d sel"
proof (cases "stop_published (po_gate p)")
  case True
  then show ?thesis using that [of SelStop] by (simp add: by_timer_def)
next
  case False
  then show ?thesis using assms that [of SelDeadline] by (simp add: by_timer_def)
qed

lemma by_timer_refuses:
  "by_timer sel \<Longrightarrow> \<exists>r. policy_body p sel = Inl r" "by_timer sel' \<Longrightarrow> \<exists>r. policy_execute sel' p = (Inl r, p)"
  by (auto simp: by_timer_def policy_body_def policy_execute_def split: selected.splits)

text \<open>An overdue request is never stuck, and stays overdue until it is answered.\<close>

lemma unaided_enabled:
  assumes overdue: "overdue n (p, t)" and pending: "\<forall>r. t \<noteq> Answered r"
  shows "\<exists>y. unaided n (p, t) y"
proof (cases t)
  case Entered
  obtain r q where "policy_admit p = (r, q)" by fastforce
  then show ?thesis unfolding Entered by (cases r) (auto intro: unaided.admit unaided.rejected)
next
  case Admitted
  obtain r q where "policy_context n p = (r, q)" by fastforce
  then show ?thesis unfolding Admitted by (cases r) (auto intro: unaided.contextual unaided.no_context)
next
  case (Reading c d)
  with overdue have "stop_published (po_gate p) \<or> d \<le> n" by simp
  then show ?thesis unfolding Reading
    by (rule selected_by_stop) (blast dest: by_timer_refuses(1) intro: unaided.unread)
next
  case (Queued c d)
  with overdue have "stop_published (po_gate p) \<or> d \<le> n" by simp
  then show ?thesis unfolding Queued
    by (rule selected_by_stop) (blast dest: by_timer_refuses(2) intro: unaided.unexecuted)
next
  case (Executing c d)
  with overdue have "stop_published (po_gate p) \<or> d \<le> n" by simp
  then show ?thesis unfolding Executing by (rule selected_by_stop) (blast intro: unaided.respond)
next
  case (DropGuard r)
  obtain final g where "drop_guard_locked (po_gate p) = (final, g)" by fastforce
  then show ?thesis unfolding DropGuard
    by (cases final) (auto intro: unaided.drop_guard unaided.drop_last_guard)
qed (use pending in \<open>auto intro: unaided.drop_execution unaided.drop_admission unaided.publish\<close>)

lemma unaided_overdue: "unaided n x y \<Longrightarrow> overdue n x \<Longrightarrow> overdue n y"
proof (induction rule: unaided.induct)
  case (admit p q now)
  then show ?case by (simp add: policy_simps)
next
  case (contextual now p c deadline q)
  with policy_context_Inr [OF contextual(1)] show ?case by simp
qed simp_all

lemma unaided_steps_overdue: "(unaided n)\<^sup>*\<^sup>* x y \<Longrightarrow> overdue n x \<Longrightarrow> overdue n y"
  by (induction rule: rtranclp_induct) (auto intro: unaided_overdue)

lemma overdue_answered:
  "overdue n (p, t) \<Longrightarrow> \<exists>q r. (unaided n)\<^sup>*\<^sup>* (p, t) (q, Answered (Some r))"
proof (induction "task_rank t" arbitrary: p t rule: less_induct)
  case less
  show ?case
  proof (cases "\<exists>r. t = Answered r")
    case True
    with less.prems obtain r where "t = Answered (Some r)" by auto
    then show ?thesis by blast
  next
    case False
    with unaided_enabled [OF less.prems] obtain q u where step: "unaided n (p, t) (q, u)" by auto
    from less.hyps [OF task_step_rank [OF unaided_task_step [OF step]] unaided_overdue [OF step less.prems]] step
    show ?thesis by (blast intro: converse_rtranclp_into_rtranclp)
  qed
qed

section \<open>Properties\<close>

text \<open>
  C24: whatever the arrivals, their order, disconnected clients, time-outs and the shutdown, the
  execution permits in the semaphore and those held by running handlers always add up to
  \<open>max_concurrent_requests\<close>, and the admission permits to that plus the queue; so no more handlers
  run and no more requests are admitted. The gate counts exactly the requests holding its guard,
  no two live requests share an identifier, and once a drain ended gracefully no request is left
  in any section of the policy.
\<close>

theorem policy_conserves:
  assumes "host_start limits h0" and "host_step\<^sup>*\<^sup>* h0 h"
  shows "po_execution (ho_policy h) + total_of holds_execution (ho_tasks h) = max_concurrent_requests limits
    \<and> po_admitted (ho_policy h) + total_of holds_admission (ho_tasks h) = admission_bound limits
    \<and> size (filter_mset executing (ho_tasks h)) \<le> max_concurrent_requests limits
    \<and> gate_active (po_gate (ho_policy h)) = total_of holds_guard (ho_tasks h)
    \<and> count (ids_of (ho_tasks h)) i \<le> 1
    \<and> (gate_phase (po_gate (ho_policy h)) = Stopped Graceful
        \<longrightarrow> total_of holds_guard (ho_tasks h) = 0)"
proof -
  have inv: "host_inv limits h" using host.reachable_inv assms .
  have "size (filter_mset executing T) \<le> total_of holds_execution T" for T
    by (induction T) (auto elim: executing.elims)
  from order_trans [OF this, of "ho_tasks h"] inv show ?thesis
    by (auto simp: host_inv_def gate_settled_def)
qed

text \<open>
  C26: once the stop token is published on a reachable server, and whatever happens next: the
  token stays published, no request is let in, no handler is started (those running are among those
  that ran), and every response still produced is a refusal: 503 \<open>cancelled\<close> for every request
  past its admission, never the answer of a handler. The others are 429 and 500, for requests
  between the gate and their context.
\<close>

theorem policy_stop_fences:
  assumes "host_start limits h0" and "host_step\<^sup>*\<^sup>* h0 h"
    and "stop_published (po_gate (ho_policy h))" and "host_step\<^sup>*\<^sup>* h h'"
  shows "stop_published (po_gate (ho_policy h'))
    \<and> policy_enter (ho_policy h') = (Inl error_cancelled, ho_policy h')
    \<and> filter_mset executing (ho_tasks h') \<subseteq># filter_mset executing (ho_tasks h)
    \<and> (\<forall>t\<in>#ho_tasks h'. \<forall>r. carries t = Some r \<longrightarrow>
          (\<exists>u\<in>#ho_tasks h. carries u = Some r) \<or> refusal r)"
proof -
  have settled: "settling h h'" using host_steps_settle assms(4,3) .
  have "host_inv limits h'" using host.reachable_inv assms(1) rtranclp_trans [OF assms(2,4)] .
  with settled have "stopped (po_gate (ho_policy h'))"
    by (simp add: host_inv_def gate_settled_def settling_def)
  then have "policy_enter (ho_policy h') = (Inl error_cancelled, ho_policy h')"
    by (simp add: policy_enter_def try_enter_def stopped_def split: gate_phase.splits)
  with settled show ?thesis by (simp add: settling_def)
qed

text \<open>
  C27: an overdue request ends by itself. Once the stop is published, or its deadline has passed,
  or its response is decided, a request reaches an answer through its own steps alone: without the client
  (which may stop sending the body), the semaphore or its handler. Wherever such
  steps have brought it, it is answered or has another one, so none of them is a dead end. They are steps
  of the policy, and every step of the policy, whatever the others did to the shared state, lowers
  the request's rank, so it takes at most nine.
\<close>

theorem policy_requests_end:
  assumes "overdue n (p, t)"
  shows "(\<exists>q r. (unaided n)\<^sup>*\<^sup>* (p, t) (q, Answered (Some r)))
    \<and> (\<forall>q u. (unaided n)\<^sup>*\<^sup>* (p, t) (q, u) \<longrightarrow> (\<exists>r. u = Answered (Some r)) \<or> (\<exists>y. unaided n (q, u) y))
    \<and> (\<forall>x y. unaided n x y \<longrightarrow> task_step n x y)
    \<and> task_rank t \<le> 9
    \<and> (\<forall>m p' u q v. task_step m (p', u) (q, v) \<longrightarrow> task_rank v < task_rank u)"
proof -
  have "task_rank t \<le> 9" by (cases t) simp_all
  moreover have "(\<exists>r. u = Answered (Some r)) \<or> (\<exists>y. unaided n (q, u) y)"
    if "(unaided n)\<^sup>*\<^sup>* (p, t) (q, u)" for q u
  proof (cases "\<exists>r. u = Answered r")
    case True
    with unaided_steps_overdue [OF that assms] show ?thesis by auto
  next
    case False
    with unaided_enabled unaided_steps_overdue [OF that assms] show ?thesis by blast
  qed
  ultimately show ?thesis
    using overdue_answered [OF assms] task_step_rank unaided_task_step by blast
qed

section \<open>Witnesses\<close>

definition small_limits :: server_limits where
  "small_limits = \<lparr>max_request_bytes = 1024, queue_capacity = 1, max_concurrent_requests = 1,
     request_timeout = 1000, shutdown_timeout = 1000\<rparr>"

definition small_host :: "gate \<Rightarrow> task multiset \<Rightarrow> host" where
  "small_host g T = \<lparr>ho_policy = (policy_new small_limits)\<lparr>po_gate := g\<rparr>, ho_now = 0, ho_tasks = T\<rparr>"

definition busy_gate :: gate where "busy_gate = gate_new\<lparr>gate_active := 1\<rparr>"
definition closed_gate :: gate where "closed_gate = gate_new\<lparr>gate_phase := Stopped Forced\<rparr>"
definition ended_gate :: gate where "ended_gate = cancel_stopped closed_gate"

lemmas small_defs = small_host_def policy_new_def busy_gate_def closed_gate_def ended_gate_def
  gate_new_def token_new_def

lemma small_host_start: "host_start small_limits (small_host gate_new {#})"
  by (simp add: host_start_def small_defs)

lemma small_host_arrives: "host_step (small_host gate_new {#}) (small_host busy_gate {#Entered#})"
  unfolding small_host_def
  by (rule host_step.arrive) (simp add: policy_simps try_enter_True small_defs u64_max_def)

lemma small_host_closes: "host_step (small_host gate_new {#}) (small_host closed_gate {#})"
proof -
  have "stop_now_locked gate_new = closed_gate" by (simp add: stop_now_locked_def small_defs)
  with host_step.stop [of "policy_new small_limits" 0 "{#}"] show ?thesis
    by (simp add: small_host_def policy_new_def)
qed

lemma small_host_ends: "host_step (small_host closed_gate {#}) (small_host ended_gate {#})"
  using host_step.stopped [of "(policy_new small_limits)\<lparr>po_gate := closed_gate\<rparr>" Forced 0 "{#}"]
  by (simp add: small_host_def ended_gate_def closed_gate_def)

lemma small_host_refuses:
  "host_step (small_host ended_gate {#}) (small_host ended_gate {#Answered (Some error_cancelled)#})"
  unfolding small_host_def
  by (rule host_step.refuse) (simp add: policy_simps try_enter_False small_defs cancel_stopped_def)

theorem policy_conserves_witness:
  "size (filter_mset executing (ho_tasks (small_host busy_gate {#Entered#}))) \<le> 1
   \<and> gate_active (po_gate (ho_policy (small_host busy_gate {#Entered#}))) = 1"
  using policy_conserves [OF small_host_start r_into_rtranclp [of host_step, OF small_host_arrives]]
  by (simp add: small_limits_def small_host_def)

theorem policy_stop_fences_witness:
  "policy_enter (ho_policy (small_host ended_gate {#Answered (Some error_cancelled)#}))
     = (Inl error_cancelled, ho_policy (small_host ended_gate {#Answered (Some error_cancelled)#}))"
proof -
  have "host_step\<^sup>*\<^sup>* (small_host gate_new {#}) (small_host ended_gate {#})"
    using small_host_closes small_host_ends by (meson converse_rtranclp_into_rtranclp r_into_rtranclp)
  moreover have "stop_published (po_gate (ho_policy (small_host ended_gate {#})))"
    by (simp add: small_host_def ended_gate_def)
  ultimately show ?thesis
    using policy_stop_fences [OF small_host_start _ _ r_into_rtranclp [of host_step, OF small_host_refuses]] by blast
qed

theorem policy_requests_end_witness:
  "\<exists>q r. (unaided 5)\<^sup>*\<^sup>*
     (policy_new small_limits, Queued \<lparr>rc_id = 1, rc_cancellation = token_new, rc_deadline = Some 3\<rparr> 3)
     (q, Answered (Some r))"
  by (rule conjunct1 [OF policy_requests_end]) simp

end
