(* ===== verification/Files.thy ===== *)
theory Files
  imports Strings "HOL-Library.Multiset" "HOL-Library.Sublist" "HOL-Library.AList"
begin

text \<open>
  The part of \<open>std::fs\<close> and \<open>std::path\<close> on Unix that
  \<open>crates/impossible-voice-artifacts\<close> uses: paths and their components, a file system of
  files, directories, symbolic links and other objects, and its operations, each of which may also fail
  for reasons of its own (permissions, a full disk).
\<close>

section \<open>Paths\<close>

datatype path_component = RootDir | CurDir | ParentDir | Normal string

text \<open>
  \<open>Path::components\<close>: separators repeat without effect, and \<open>.\<close> counts only at
  the start of a relative path.
\<close>

definition component_of :: "string \<Rightarrow> path_component" where
  "component_of piece = (if piece = ''..'' then ParentDir else Normal piece)"

definition is_absolute :: "string \<Rightarrow> bool" where
  "is_absolute p = (case p of [] \<Rightarrow> False | c # _ \<Rightarrow> c = CHR ''/'')"

definition path_components :: "string \<Rightarrow> path_component list" where
  "path_components p =
     (let pieces = split_on (CHR ''/'') p;
          body = map component_of (filter (\<lambda>s. s \<noteq> [] \<and> s \<noteq> ''.'') pieces)
      in (if is_absolute p then [RootDir] else if hd pieces = ''.'' then [CurDir] else []) @ body)"

text \<open>
  A place in the file system: the names on the way to it from the root, none of them \<open>.\<close> or
  \<open>..\<close>.
\<close>

type_synonym path = "string list"

text \<open>
  Where a relative path leads from a directory: a parent component goes back to the directory that
  holds the one reached so far, and a root component starts again at the root. This is what the
  system does when the directories it passes are no links.
\<close>

fun descend :: "path \<Rightarrow> path_component list \<Rightarrow> path" where
  "descend base [] = base"
| "descend base (Normal n # cs) = descend (base @ [n]) cs"
| "descend base (ParentDir # cs) = descend (butlast base) cs"
| "descend base (CurDir # cs) = descend base cs"
| "descend base (RootDir # cs) = descend [] cs"

text \<open>\<open>base.join(p)\<close>\<close>

definition join_path :: "path \<Rightarrow> string \<Rightarrow> path" where
  "join_path base p = descend base (path_components p)"

lemma descend_names: "descend base (map Normal ns) = base @ ns"
  by (induction ns arbitrary: base) simp_all

fun joined :: "char \<Rightarrow> string list \<Rightarrow> string" where
  "joined c [] = []"
| "joined c [s] = s"
| "joined c (s # ss) = s @ c # joined c ss"

section \<open>The file system\<close>

text \<open>A link is kept with its target as a path from the root.\<close>

datatype entry = EFile "u8 list" | EDir | ELink path | EOther

type_synonym entries = "(path \<times> entry) list"

definition entry_at :: "entries \<Rightarrow> path \<Rightarrow> entry option" where
  "entry_at E p = (if p = [] then Some EDir else map_of E p)"

text \<open>Resolution follows at most 40 links, as on Linux.\<close>

definition max_links :: nat where "max_links = 40"

function canon :: "nat \<Rightarrow> entries \<Rightarrow> path \<Rightarrow> path \<Rightarrow> path option" where
  "canon k E walked [] = Some walked"
| "canon k E walked (n # rest) =
     (case entry_at E (walked @ [n]) of
        None \<Rightarrow> None
      | Some (ELink target) \<Rightarrow> (if k = 0 then None else canon (k - 1) E [] (target @ rest))
      | Some EDir \<Rightarrow> canon k E (walked @ [n]) rest
      | Some _ \<Rightarrow> (if rest = [] then Some (walked @ [n]) else None))"
  by pat_completeness auto
termination
  by (relation "measures [\<lambda>(k, E, walked, p). k, \<lambda>(k, E, walked, p). length p]") auto

definition resolve :: "entries \<Rightarrow> path \<Rightarrow> path option" where
  "resolve E p = canon max_links E [] p"

definition lookup :: "entries \<Rightarrow> path \<Rightarrow> entry option" where
  "lookup E p = (case resolve E p of None \<Rightarrow> None | Some q \<Rightarrow> entry_at E q)"

text \<open>Where a new name would be created: its parent resolves to a directory.\<close>

definition place :: "entries \<Rightarrow> path \<Rightarrow> path option" where
  "place E p =
     (if p = [] \<or> lookup E (butlast p) \<noteq> Some EDir then None
      else map_option (\<lambda>d. d @ [List.last p]) (resolve E (butlast p)))"

definition put :: "path \<Rightarrow> entry \<Rightarrow> entries \<Rightarrow> entries" where
  "put p e E = AList.update p e E"

text \<open>The operations: \<open>None\<close> is an error.\<close>

type_synonym 'a fs_op = "entries \<Rightarrow> ('a \<times> entries) option"

definition fs_metadata :: "path \<Rightarrow> (bool \<times> nat) fs_op" where
  "fs_metadata p E =
     (case lookup E p of
        None \<Rightarrow> None
      | Some (EFile b) \<Rightarrow> Some ((True, length b), E)
      | Some _ \<Rightarrow> Some ((False, 0), E))"

definition fs_read :: "path \<Rightarrow> u8 list fs_op" where
  "fs_read p E = (case lookup E p of Some (EFile b) \<Rightarrow> Some (b, E) | _ \<Rightarrow> None)"

definition child_names :: "entries \<Rightarrow> path \<Rightarrow> string list" where
  "child_names E d =
     map List.last (filter (\<lambda>p. p \<noteq> [] \<and> butlast p = d) (map fst E))"

definition fs_read_dir :: "path \<Rightarrow> string list fs_op" where
  "fs_read_dir p E =
     (if lookup E p = Some EDir then map_option (\<lambda>d. (child_names E d, E)) (resolve E p) else None)"

text \<open>\<open>DirEntry::file_type\<close>: the entry itself, a link unfollowed.\<close>

definition fs_file_type :: "path \<Rightarrow> string \<Rightarrow> entry fs_op" where
  "fs_file_type dir n E =
     (case resolve E dir of None \<Rightarrow> None | Some d \<Rightarrow> map_option (\<lambda>e. (e, E)) (entry_at E (d @ [n])))"

definition fs_mkdir :: "path \<Rightarrow> unit fs_op" where
  "fs_mkdir p E =
     (case place E p of
        None \<Rightarrow> None
      | Some q \<Rightarrow> if entry_at E q = None then Some ((), put q EDir E) else None)"

fun fs_mkdirs :: "path \<Rightarrow> path \<Rightarrow> unit fs_op" where
  "fs_mkdirs walked [] E = Some ((), E)"
| "fs_mkdirs walked (n # rest) E =
     (if lookup E (walked @ [n]) = Some EDir then fs_mkdirs (walked @ [n]) rest E
      else (case fs_mkdir (walked @ [n]) E of
              None \<Rightarrow> None
            | Some ((), E') \<Rightarrow> fs_mkdirs (walked @ [n]) rest E'))"

definition fs_create_dir_all :: "path \<Rightarrow> unit fs_op" where
  "fs_create_dir_all p = fs_mkdirs [] p"

text \<open>\<open>create_new(true).write(true)\<close>, and \<open>create(true)\<close> without truncation.\<close>

definition fs_create_new :: "path \<Rightarrow> unit fs_op" where
  "fs_create_new p E =
     (case place E p of
        None \<Rightarrow> None
      | Some q \<Rightarrow> if entry_at E q = None then Some ((), put q (EFile []) E) else None)"

definition fs_open_or_create :: "path \<Rightarrow> unit fs_op" where
  "fs_open_or_create p E =
     (case lookup E p of
        Some (EFile b) \<Rightarrow> Some ((), E)
      | Some _ \<Rightarrow> None
      | None \<Rightarrow> fs_create_new p E)"

definition fs_write :: "path \<Rightarrow> u8 list \<Rightarrow> unit fs_op" where
  "fs_write p bytes E =
     (case resolve E p of
        None \<Rightarrow> None
      | Some q \<Rightarrow>
          (case entry_at E q of Some (EFile b) \<Rightarrow> Some ((), put q (EFile (b @ bytes)) E) | _ \<Rightarrow> None))"

text \<open>
  \<open>rename\<close> moves the entry with all below it. An existing target is replaced when it is not a
  directory, or when it is an empty directory and the source is a directory.
\<close>

definition move_entries :: "path \<Rightarrow> path \<Rightarrow> entries \<Rightarrow> entries" where
  "move_entries p q E =
     map (\<lambda>(k, e). (if prefix p k then q @ drop (length p) k else k, e))
       (filter (\<lambda>(k, e). k \<noteq> q) E)"

definition replaceable :: "entries \<Rightarrow> entry \<Rightarrow> path \<Rightarrow> bool" where
  "replaceable E e q =
     (case entry_at E q of
        None \<Rightarrow> True
      | Some EDir \<Rightarrow> e = EDir \<and> child_names E q = []
      | Some _ \<Rightarrow> e \<noteq> EDir)"

definition fs_rename :: "path \<Rightarrow> path \<Rightarrow> unit fs_op" where
  "fs_rename from to E =
     (case (place E from, place E to) of
        (Some p, Some q) \<Rightarrow>
          (case entry_at E p of
             None \<Rightarrow> None
           | Some e \<Rightarrow>
               if p = q then Some ((), E)
               else if prefix p q \<or> \<not> replaceable E e q then None
               else Some ((), move_entries p q E))
      | _ \<Rightarrow> None)"

section \<open>Operations that may fail\<close>

text \<open>
  A disk is a file system with the failures still to come: each operation takes the next one.
  Running out of failures means that the operations succeed whenever they can.
\<close>

record disk =
  dk_entries :: entries
  dk_faults :: "bool list"

definition io :: "'e \<Rightarrow> 'a fs_op \<Rightarrow> (disk, 'e, 'a) action" where
  "io e f d =
     (let faults = tl (dk_faults d) in
      if dk_faults d \<noteq> [] \<and> hd (dk_faults d) then (Inl e, d\<lparr>dk_faults := faults\<rparr>)
      else case f (dk_entries d) of
             None \<Rightarrow> (Inl e, d\<lparr>dk_faults := faults\<rparr>)
           | Some (a, E) \<Rightarrow> (Inr a, \<lparr>dk_entries = E, dk_faults = faults\<rparr>))"

text \<open>\<open>Path::exists\<close> is false when the metadata cannot be read.\<close>

definition fs_exists :: "path \<Rightarrow> (disk, 'e, bool) action" where
  "fs_exists p d =
     (case io () (fs_metadata p) d of (Inl _, d) \<Rightarrow> (Inr False, d) | (Inr _, d) \<Rightarrow> (Inr True, d))"

lemma io_Inr: "io e f d = (Inr a, d') \<Longrightarrow> f (dk_entries d) = Some (a, dk_entries d')"
  by (auto simp: io_def Let_def split: if_splits option.splits)

lemma io_Inl: "io e f d = (Inl e', d') \<Longrightarrow> e' = e \<and> dk_entries d' = dk_entries d"
  by (auto simp: io_def Let_def split: if_splits option.splits)

section \<open>Well-formed file systems\<close>

definition wf_fs :: "entries \<Rightarrow> bool" where
  "wf_fs E \<longleftrightarrow> distinct (map fst E) \<and> [] \<notin> set (map fst E)
     \<and> (\<forall>p\<in>set (map fst E). entry_at E (butlast p) = Some EDir)"

lemma wf_fs_parent:
  assumes "wf_fs E" and "entry_at E (p @ [n]) \<noteq> None"
  shows "entry_at E p = Some EDir"
proof -
  have "p @ [n] \<in> set (map fst E)"
    using assms(2) by (auto simp: entry_at_def map_of_eq_None_iff)
  then have "entry_at E (butlast (p @ [n])) = Some EDir"
    using assms(1) unfolding wf_fs_def by blast
  then show ?thesis by simp
qed

lemma wf_fs_prefix:
  assumes "wf_fs E" and "entry_at E (p @ q) \<noteq> None" and "q \<noteq> []"
  shows "entry_at E p = Some EDir"
  using assms(2,3)
proof (induction q rule: rev_induct)
  case (snoc n q)
  then have "entry_at E (p @ q) = Some EDir" using wf_fs_parent [OF assms(1), of "p @ q" n] by simp
  with snoc.IH show ?case by (cases q) auto
qed simp

lemma entry_at_put:
  "p \<noteq> [] \<Longrightarrow> entry_at (put p e E) q = (if q = p then Some e else entry_at E q)"
  by (simp add: entry_at_def put_def update_conv')

lemma entry_at_root [simp]: "entry_at E [] = Some EDir"
  by (simp add: entry_at_def)

lemma wf_fs_put:
  assumes wf: "wf_fs E" and p: "p \<noteq> []" "entry_at E (butlast p) = Some EDir"
    and e: "entry_at E p = None \<or> e = EDir \<or> (\<exists>b. entry_at E p = Some (EFile b))"
  shows "wf_fs (put p e E)"
proof -
  have keys: "set (map fst (put p e E)) = insert p (set (map fst E))"
    by (simp add: put_def dom_update)
  have "butlast p \<noteq> p" using p(1) by (metis append_butlast_last_id not_Cons_self2 self_append_conv)
  then have parent: "entry_at (put p e E) (butlast p) = Some EDir" using p by (simp add: entry_at_put)
  have "entry_at (put p e E) (butlast q) = Some EDir" if "q \<in> set (map fst E)" for q
  proof -
    have q: "entry_at E (butlast q) = Some EDir" using wf that unfolding wf_fs_def by blast
    with e show ?thesis
      by (auto simp: entry_at_put [OF p(1)])
  qed
  then have "\<forall>q\<in>set (map fst (put p e E)). entry_at (put p e E) (butlast q) = Some EDir"
    unfolding keys using parent by blast
  moreover have "distinct (map fst (put p e E))" "[] \<notin> set (map fst (put p e E))"
    using wf p(1) unfolding keys by (simp_all add: wf_fs_def put_def distinct_update)
  ultimately show ?thesis by (simp add: wf_fs_def)
qed

text \<open>Without links below a directory, resolution there is the identity.\<close>

definition no_links_below :: "entries \<Rightarrow> path \<Rightarrow> bool" where
  "no_links_below E w \<longleftrightarrow> (\<forall>q t. entry_at E (w @ q) \<noteq> Some (ELink t))"

lemma no_links_belowD: "no_links_below E w \<Longrightarrow> no_links_below E (w @ [n])"
  by (auto simp: no_links_below_def)

lemma canon_below:
  "no_links_below E w \<Longrightarrow> canon k E w p = Some r \<Longrightarrow> r = w @ p"
proof (induction k E w p rule: canon.induct)
  case (2 k E w n rest)
  have "entry_at E (w @ [n]) \<noteq> Some (ELink t)" for t
    using "2.prems"(1) by (simp add: no_links_below_def)
  with 2 no_links_belowD show ?case by (auto split: option.splits entry.splits if_splits)
qed simp

lemma canon_exists:
  "wf_fs E \<Longrightarrow> no_links_below E w \<Longrightarrow> entry_at E (w @ p) \<noteq> None \<Longrightarrow> canon k E w p = Some (w @ p)"
proof (induction k E w p rule: canon.induct)
  case (2 k E w n rest)
  show ?case
  proof (cases "rest = []")
    case True
    with "2.prems" show ?thesis
      by (auto simp: no_links_below_def split: entry.splits option.splits)
  next
    case False
    then have "entry_at E (w @ [n]) = Some EDir"
      using wf_fs_prefix [OF "2.prems"(1), of "w @ [n]" rest] "2.prems"(3) by simp
    with 2 no_links_belowD show ?thesis by simp
  qed
qed simp

lemma canon_none:
  "wf_fs E \<Longrightarrow> no_links_below E w \<Longrightarrow> entry_at E (w @ p) = None \<Longrightarrow> p \<noteq> [] \<Longrightarrow> canon k E w p = None"
proof (induction k E w p rule: canon.induct)
  case (2 k E w n rest)
  have "\<forall>t. entry_at E (w @ [n]) \<noteq> Some (ELink t)"
    using "2.prems"(2) by (simp add: no_links_below_def)
  with 2 no_links_belowD show ?case by (cases rest) (auto split: option.splits entry.splits)
qed simp

text \<open>A directory reached through directories only.\<close>

definition real_dir :: "entries \<Rightarrow> path \<Rightarrow> bool" where
  "real_dir E p \<longleftrightarrow> (\<forall>q. prefix q p \<longrightarrow> entry_at E q = Some EDir)"

lemma real_dir_snoc: "real_dir E (p @ [n]) \<longleftrightarrow> real_dir E p \<and> entry_at E (p @ [n]) = Some EDir"
  by (auto simp: real_dir_def)

lemma wf_fs_real: "wf_fs E \<Longrightarrow> entry_at E p = Some EDir \<Longrightarrow> real_dir E p"
  using wf_fs_prefix by (fastforce simp: real_dir_def prefix_def)

lemma canon_real: "real_dir E (w @ p) \<Longrightarrow> canon k E w (p @ rest) = canon k E (w @ p) rest"
proof (induction p arbitrary: w)
  case (Cons n p)
  then have "entry_at E (w @ [n]) = Some EDir" by (auto simp: real_dir_def)
  with Cons.IH [of "w @ [n]"] Cons.prems show ?case by simp
qed simp

lemma resolve_real:
  "real_dir E p \<Longrightarrow> resolve E (p @ rest) = canon max_links E p rest"
  "real_dir E p \<Longrightarrow> resolve E p = Some p" "real_dir E p \<Longrightarrow> lookup E p = Some EDir"
proof -
  show r: "resolve E (p @ rest) = canon max_links E p rest" if "real_dir E p" for rest
    using canon_real [of E "[]" p] that by (simp add: resolve_def)
  show "resolve E p = Some p" if "real_dir E p" using r [of "[]"] that by simp
  then show "lookup E p = Some EDir" if "real_dir E p"
    using that by (simp add: lookup_def real_dir_def)
qed

section \<open>Directories\<close>

lemma entry_at_keys: "p \<noteq> [] \<Longrightarrow> entry_at E p \<noteq> None \<longleftrightarrow> p \<in> set (map fst E)"
  unfolding entry_at_def by (simp only: if_False map_of_eq_None_iff set_map not_not)

lemma child_names_iff: "n \<in> set (child_names E d) \<longleftrightarrow> entry_at E (d @ [n]) \<noteq> None"
proof -
  have "n \<in> set (child_names E d) \<longleftrightarrow> (\<exists>p\<in>set (map fst E). p \<noteq> [] \<and> butlast p = d \<and> List.last p = n)"
    unfolding child_names_def by auto
  also have "\<dots> \<longleftrightarrow> d @ [n] \<in> set (map fst E)"
    by (metis append_butlast_last_id append_is_Nil_conv butlast_snoc last_snoc not_Cons_self2)
  finally show ?thesis using entry_at_keys [of "d @ [n]" E] by simp
qed

section \<open>File systems without links\<close>

definition tree :: "entries \<Rightarrow> bool" where
  "tree E \<longleftrightarrow> wf_fs E \<and> no_links_below E []"

lemma tree_resolve: "tree E \<Longrightarrow> resolve E p = (if entry_at E p = None then None else Some p)"
  using canon_exists [of E "[]" p max_links] canon_none [of E "[]" p max_links]
  by (cases "p = []") (auto simp: tree_def resolve_def)

lemma tree_lookup: "tree E \<Longrightarrow> lookup E p = entry_at E p"
  by (simp add: lookup_def tree_resolve)

lemma tree_place:
  "tree E \<Longrightarrow> place E p = Some q \<longleftrightarrow> q = p \<and> p \<noteq> [] \<and> entry_at E (butlast p) = Some EDir"
  by (auto simp: place_def tree_lookup tree_resolve)

lemma tree_put:
  assumes "tree E" and "p \<noteq> []" and "entry_at E (butlast p) = Some EDir"
    and "entry_at E p = None \<or> (\<exists>b. entry_at E p = Some (EFile b))" and "\<And>t. e \<noteq> ELink t"
  shows "tree (put p e E)"
  using assms wf_fs_put [of E p e] by (auto simp: tree_def no_links_below_def entry_at_put)

lemma tree_parent: "tree E \<Longrightarrow> entry_at E p \<noteq> None \<Longrightarrow> p \<noteq> [] \<Longrightarrow> entry_at E (butlast p) = Some EDir"
  using wf_fs_parent [of E "butlast p" "List.last p"] by (simp add: tree_def)

text \<open>
  What an operation may do: it keeps the file system a tree, and changes only entries that satisfy
  \<open>P\<close>.
\<close>

definition confined :: "(path \<Rightarrow> bool) \<Rightarrow> entries \<Rightarrow> entries \<Rightarrow> bool" where
  "confined P E E' \<longleftrightarrow> tree E' \<and> (\<forall>q. entry_at E' q = entry_at E q \<or> P q)"

lemma confined_refl: "tree E \<Longrightarrow> confined P E E" by (simp add: confined_def)

lemma confined_trans: "confined P E E' \<Longrightarrow> confined P E' E'' \<Longrightarrow> confined P E E''"
  unfolding confined_def by metis

lemma confined_mono: "confined P E E' \<Longrightarrow> (\<And>q. P q \<Longrightarrow> Q q) \<Longrightarrow> confined Q E E'"
  unfolding confined_def by blast

lemma mkdir_effect:
  assumes "tree E" and "fs_mkdir p E = Some ((), E')"
  shows "confined (\<lambda>q. q = p) E E'" "entry_at E p = None" "entry_at E' p = Some EDir" "p \<noteq> []"
proof -
  from assms have p: "p \<noteq> []" "entry_at E (butlast p) = Some EDir" "entry_at E p = None" "E' = put p EDir E"
    by (auto simp: fs_mkdir_def tree_place split: option.splits if_splits)
  with tree_put [OF assms(1) p(1,2), of EDir] show "confined (\<lambda>q. q = p) E E'" "entry_at E p = None"
    "entry_at E' p = Some EDir" "p \<noteq> []"
    by (auto simp: confined_def entry_at_put)
qed

lemma create_new_effect:
  assumes "tree E" and "fs_create_new p E = Some ((), E')"
  shows "confined (\<lambda>q. q = p) E E'" "entry_at E p = None" "entry_at E' p = Some (EFile [])" "p \<noteq> []"
proof -
  from assms have p: "p \<noteq> []" "entry_at E (butlast p) = Some EDir" "entry_at E p = None"
    "E' = put p (EFile []) E"
    by (auto simp: fs_create_new_def tree_place split: option.splits if_splits)
  with tree_put [OF assms(1) p(1,2), of "EFile []"] show "confined (\<lambda>q. q = p) E E'" "entry_at E p = None"
    "entry_at E' p = Some (EFile [])" "p \<noteq> []"
    by (auto simp: confined_def entry_at_put)
qed

lemma write_effect:
  assumes "tree E" and "fs_write p bytes E = Some ((), E')"
  shows "confined (\<lambda>q. q = p) E E'"
    "\<exists>b. entry_at E p = Some (EFile b) \<and> entry_at E' p = Some (EFile (b @ bytes))"
proof -
  from assms obtain b where b: "entry_at E p = Some (EFile b)" "E' = put p (EFile (b @ bytes)) E"
    by (auto simp: fs_write_def tree_resolve split: option.splits entry.splits if_splits)
  then have "p \<noteq> []" by auto
  then have "entry_at E (butlast p) = Some EDir" using tree_parent [OF assms(1)] b(1) by simp
  with b \<open>p \<noteq> []\<close> tree_put [OF assms(1), of p "EFile (b @ bytes)"]
  show "confined (\<lambda>q. q = p) E E'"
    "\<exists>b. entry_at E p = Some (EFile b) \<and> entry_at E' p = Some (EFile (b @ bytes))"
    by (auto simp: confined_def entry_at_put)
qed

lemma mkdirs_effect:
  assumes "tree E" and "fs_mkdirs w p E = Some ((), E')"
  shows "confined (\<lambda>q. entry_at E q = None \<and> prefix q (w @ p) \<and> \<not> prefix q w \<and> entry_at E' q = Some EDir) E E'"
    "p \<noteq> [] \<Longrightarrow> entry_at E' (w @ p) = Some EDir"
proof -
  have "confined (\<lambda>q. entry_at E q = None \<and> prefix q (w @ p) \<and> \<not> prefix q w \<and> entry_at E' q = Some EDir) E E'
    \<and> (p \<noteq> [] \<longrightarrow> entry_at E' (w @ p) = Some EDir)"
    using assms
  proof (induction w p E arbitrary: E' rule: fs_mkdirs.induct)
    case (1 w E)
    then show ?case by (simp add: confined_def)
  next
    case (2 w n rest E)
    obtain M where M: "fs_mkdirs (w @ [n]) rest M = Some ((), E')" "tree M" "entry_at M (w @ [n]) = Some EDir"
      "\<forall>q. entry_at M q = entry_at E q \<or> q = w @ [n] \<and> entry_at E q = None"
      and IH: "confined (\<lambda>q. entry_at M q = None \<and> prefix q ((w @ [n]) @ rest) \<and> \<not> prefix q (w @ [n])
          \<and> entry_at E' q = Some EDir) M E' \<and> (rest \<noteq> [] \<longrightarrow> entry_at E' ((w @ [n]) @ rest) = Some EDir)"
    proof (cases "lookup E (w @ [n]) = Some EDir")
      case True
      with "2.prems" "2.IH"(1) that [of E] show ?thesis by (simp add: tree_lookup)
    next
      case False
      then have "(case fs_mkdir (w @ [n]) E of None \<Rightarrow> None
          | Some ((), M) \<Rightarrow> fs_mkdirs (w @ [n]) rest M) = Some ((), E')"
        using "2.prems"(2) unfolding fs_mkdirs.simps(2) by (simp only: False if_False)
      then obtain M where m: "fs_mkdir (w @ [n]) E = Some ((), M)"
        "fs_mkdirs (w @ [n]) rest M = Some ((), E')"
        by (cases "fs_mkdir (w @ [n]) E") (simp_all split: prod.splits unit.splits)
      note e = mkdir_effect [OF "2.prems"(1) m(1)]
      have t: "tree M" and c: "\<forall>q. entry_at M q = entry_at E q \<or> q = w @ [n] \<and> entry_at E q = None"
        using e by (auto simp: confined_def)
      have "confined (\<lambda>q. entry_at M q = None \<and> prefix q ((w @ [n]) @ rest) \<and> \<not> prefix q (w @ [n])
          \<and> entry_at E' q = Some EDir) M E' \<and> (rest \<noteq> [] \<longrightarrow> entry_at E' ((w @ [n]) @ rest) = Some EDir)"
        by (rule "2.IH"(2) [OF False m(1) refl refl t m(2)])
      from that [OF m(2) t e(3) c this] show ?thesis .
    qed
    have here: "entry_at E' (w @ [n]) = Some EDir"
    proof -
      have "entry_at E' (w @ [n]) = entry_at M (w @ [n]) \<or> entry_at E' (w @ [n]) = Some EDir"
        using IH unfolding confined_def by blast
      with M(3) show ?thesis by simp
    qed
    have "entry_at E' q = entry_at E q
        \<or> entry_at E q = None \<and> prefix q (w @ n # rest) \<and> \<not> prefix q w \<and> entry_at E' q = Some EDir" for q
    proof (cases "q = w @ [n]")
      case True
      from M(3,4) have "entry_at E (w @ [n]) = Some EDir \<or> entry_at E (w @ [n]) = None" by metis
      with here True show ?thesis by (auto simp: prefix_def)
    next
      case False
      with M(4) have q: "entry_at M q = entry_at E q" by blast
      from IH have "entry_at E' q = entry_at M q \<or> entry_at M q = None \<and> prefix q (w @ n # rest)
          \<and> \<not> prefix q (w @ [n]) \<and> entry_at E' q = Some EDir"
        by (simp add: confined_def)
      moreover have "prefix q w \<Longrightarrow> prefix q (w @ [n])" by simp
      ultimately show ?thesis using q by metis
    qed
    with IH here show ?case by (cases rest) (auto simp: confined_def)
  qed
  then show "confined (\<lambda>q. entry_at E q = None \<and> prefix q (w @ p) \<and> \<not> prefix q w \<and> entry_at E' q = Some EDir) E E'"
    "p \<noteq> [] \<Longrightarrow> entry_at E' (w @ p) = Some EDir"
    by blast+
qed

section \<open>Renaming\<close>

lemma map_of_map_keys:
  "inj_on f (insert k (fst ` set L)) \<Longrightarrow> map_of (map (\<lambda>(k, e). (f k, e)) L) (f k) = map_of L k"
  by (induction L) (auto simp: inj_on_def split: if_splits)

lemma map_of_filter_key: "k \<noteq> q \<Longrightarrow> map_of (filter (\<lambda>(k, e). k \<noteq> q) L) k = map_of L k"
  by (induction L) auto

text \<open>What may be moved where: \<open>q\<close> is free to be taken, and not below \<open>p\<close>.\<close>

definition movable :: "entries \<Rightarrow> path \<Rightarrow> path \<Rightarrow> bool" where
  "movable E p q \<longleftrightarrow> p \<noteq> [] \<and> entry_at E p \<noteq> None \<and> q \<noteq> [] \<and> entry_at E (butlast q) = Some EDir
     \<and> \<not> prefix p q \<and> (\<forall>n. entry_at E (q @ [n]) = None)"

lemma below_leaf:
  assumes "tree E" and "\<forall>n. entry_at E (q @ [n]) = None" and "entry_at E k \<noteq> None" and "prefix q k"
  shows "k = q"
proof -
  obtain r where k: "k = q @ r" using assms(4) by (auto simp: prefix_def)
  show ?thesis
  proof (cases r)
    case (Cons n r')
    then have "entry_at E ((q @ [n]) @ r') \<noteq> None" using assms(3) k by simp
    then have "entry_at E (q @ [n]) \<noteq> None"
      using wf_fs_prefix [of E "q @ [n]" r'] assms(1) by (cases r') (auto simp: tree_def)
    with assms(2) show ?thesis by simp
  qed (simp add: k)
qed

lemma move_entries_effect:
  assumes "tree E" and mv: "movable E p q"
  shows "tree (move_entries p q E)"
    "entry_at (move_entries p q E) k = (if k = [] then Some EDir
      else if prefix q k then entry_at E (p @ drop (length q) k)
      else if prefix p k then None else entry_at E k)"
proof -
  define f where "f = (\<lambda>k. if prefix p k then q @ drop (length p) k else k)"
  define L where "L = filter (\<lambda>(k, e). k \<noteq> q) E"
  have E': "move_entries p q E = map (\<lambda>(k, e). (f k, e)) L"
    by (simp add: move_entries_def f_def L_def)
  have f_moved: "f (p @ r) = q @ r" for r by (simp add: f_def)
  have f_kept: "\<not> prefix p k \<Longrightarrow> f k = k" for k by (simp add: f_def)
  have pq: "p \<noteq> []" "q \<noteq> []" "\<not> prefix p q" using mv by (simp_all add: movable_def)
  have key: "k \<noteq> [] \<and> \<not> prefix q k \<and> entry_at E k \<noteq> None" if "k \<in> fst ` set L" for k
  proof -
    from that have k: "k \<noteq> q" "k \<in> set (map fst E)" by (auto simp: L_def)
    have "[] \<notin> set (map fst E)" using assms(1) unfolding tree_def wf_fs_def by blast
    with k(2) have "k \<noteq> []" by metis
    with k(2) have "entry_at E k \<noteq> None" using entry_at_keys by blast
    then show ?thesis using below_leaf [OF assms(1)] mv k(1) \<open>k \<noteq> []\<close> unfolding movable_def by blast
  qed
  have f_inj: "k' = k" if "k' \<in> fst ` set L" "f k' = f k" "\<not> prefix q k \<or> prefix p k" for k k'
  proof (cases "prefix p k'")
    case True
    then have "prefix q (f k')" by (simp add: f_def)
    with that have "prefix p k" using f_kept by metis
    with True that(2) show ?thesis by (auto simp: f_def prefix_def)
  next
    case False
    then have "f k' = k'" by (rule f_kept)
    moreover have "prefix p k \<Longrightarrow> prefix q (f k)" by (simp add: f_def)
    ultimately show ?thesis using that key [OF that(1)] f_kept by metis
  qed
  have inj: "inj_on f (insert k (fst ` set L))" if k: "\<not> prefix q k \<or> prefix p k" for k
  proof (rule inj_onI)
    fix x y assume "x \<in> insert k (fst ` set L)" "y \<in> insert k (fst ` set L)" "f x = f y"
    then show "x = y" using f_inj [of x y] f_inj [of y x] k key by (metis insertE)
  qed
  have at_f: "map_of (move_entries p q E) (f k) = map_of L k" if "\<not> prefix q k \<or> prefix p k" for k
    unfolding E' using map_of_map_keys [OF inj [OF that]] .
  have image: "set (map fst (move_entries p q E)) = f ` fst ` set L"
    unfolding E' by (simp add: case_prod_beta image_image)
  have eq: "entry_at (move_entries p q E) k = (if k = [] then Some EDir
      else if prefix q k then entry_at E (p @ drop (length q) k)
      else if prefix p k then None else entry_at E k)" for k
  proof -
    consider "k = []" | "k \<noteq> []" "prefix q k" | "k \<noteq> []" "\<not> prefix q k" "prefix p k"
      | "k \<noteq> []" "\<not> prefix q k" "\<not> prefix p k" by blast
    then show ?thesis
    proof cases
      case 1
      then show ?thesis by simp
    next
      case 2
      then obtain r where k: "k = q @ r" by (auto simp: prefix_def)
      have "p @ r \<noteq> q" using pq by (auto simp: prefix_def)
      then have "map_of (move_entries p q E) k = map_of E (p @ r)"
        using at_f [of "p @ r"] by (simp add: k f_moved L_def map_of_filter_key)
      with 2 k pq show ?thesis by (simp add: entry_at_def)
    next
      case 3
      have "k \<noteq> f k'" if "k' \<in> fst ` set L" for k'
        using key [OF that] 3 by (cases "prefix p k'") (auto simp: f_def)
      then have "k \<notin> set (map fst (move_entries p q E))" unfolding image by blast
      then have "map_of (move_entries p q E) k = None" by (simp add: map_of_eq_None_iff)
      with 3 show ?thesis by (simp add: entry_at_def)
    next
      case 4
      then have "k \<noteq> q" by auto
      with at_f [of k] 4 show ?thesis by (simp add: entry_at_def L_def map_of_filter_key f_kept)
    qed
  qed
  show "entry_at (move_entries p q E) k = (if k = [] then Some EDir
      else if prefix q k then entry_at E (p @ drop (length q) k)
      else if prefix p k then None else entry_at E k)" by (fact eq)
  have keys: "map fst (move_entries p q E) = map f (map fst L)"
    unfolding E' by (simp add: case_prod_beta comp_def)
  have "distinct (map fst E)" using assms(1) by (simp add: tree_def wf_fs_def)
  then have "distinct (map fst L)" by (simp add: L_def distinct_map inj_on_def)
  moreover have "inj_on f (set (map fst L))"
    using inj [of p] by (simp add: inj_on_def)
  ultimately have dist: "distinct (map fst (move_entries p q E))"
    unfolding keys distinct_map [of f] by blast
  have "f k' \<noteq> []" if "k' \<in> fst ` set L" for k'
    using key [OF that] pq by (simp add: f_def)
  then have ne: "[] \<notin> set (map fst (move_entries p q E))" unfolding image by force
  have par: "entry_at (move_entries p q E) (butlast k) = Some EDir"
    if k: "k \<in> set (map fst (move_entries p q E))" for k
  proof -
    from k obtain k' where k': "k' \<in> fst ` set L" "k = f k'" unfolding image by blast
    note K = key [OF k'(1)]
    have parent: "entry_at E (butlast k') = Some EDir" using tree_parent [OF assms(1)] K by blast
    show ?thesis
    proof (cases "prefix p k'")
      case True
      then obtain r where r: "k' = p @ r" by (auto simp: prefix_def)
      show ?thesis
      proof (cases "r = []")
        case True
        have "\<not> prefix q (butlast q)"
          using pq(2) prefix_length_le [of q "butlast q"] by (cases q) auto
        moreover have "\<not> prefix p (butlast q)"
          using pq(3) prefixeq_butlast [of q] prefix_order.trans by blast
        ultimately show ?thesis using r True k' mv by (simp add: eq f_def movable_def)
      next
        case False
        then show ?thesis using r k' parent by (simp add: eq f_moved butlast_append)
      qed
    next
      case False
      then have "\<not> prefix p (butlast k')" "\<not> prefix q (butlast k')"
        using K prefixeq_butlast [of k'] prefix_order.trans by blast+
      then show ?thesis using False k' parent by (simp add: eq f_kept)
    qed
  qed
  have "no_links_below (move_entries p q E) []"
    using assms(1) by (auto simp: no_links_below_def tree_def eq)
  with dist ne par show "tree (move_entries p q E)"
    by (simp add: tree_def wf_fs_def)
qed

lemma rename_effect:
  assumes "tree E" and "fs_rename p q E = Some ((), E')"
  shows "p = q \<and> E' = E \<or> movable E p q \<and> E' = move_entries p q E"
proof -
  from assms obtain e where e: "entry_at E p = Some e" "p \<noteq> []" "q \<noteq> []" "entry_at E (butlast q) = Some EDir"
    "p = q \<and> E' = E \<or> \<not> prefix p q \<and> replaceable E e q \<and> E' = move_entries p q E"
    by (auto simp: fs_rename_def tree_place split: option.splits if_splits)
  have "entry_at E (q @ [n]) = None" if "replaceable E e q" for n
  proof (rule ccontr)
    assume n: "entry_at E (q @ [n]) \<noteq> None"
    then have "entry_at E q = Some EDir" "n \<in> set (child_names E q)"
      using wf_fs_parent assms(1) child_names_iff by (auto simp: tree_def)
    with that show False by (auto simp: replaceable_def)
  qed
  with e show ?thesis by (auto simp: movable_def)
qed

lemma rename_confined:
  assumes "tree E" and "fs_rename p q E = Some ((), E')"
  shows "confined (\<lambda>k. prefix p k \<or> prefix q k) E E'"
  using rename_effect [OF assms] move_entries_effect [OF assms(1), of p q] assms(1)
  by (auto simp: confined_def split: if_splits)

end
