(* ===== verification/Artifacts.thy ===== *)
theory Artifacts
  imports Files
begin

text \<open>
  The pure part of \<open>crates/impossible-voice-artifacts/src/lib.rs\<close>: the curated manifest and its
  validation, the selection of a platform's profile, relative paths, and the layout of the store.
  Parsing the manifest's JSON is serde's; \<open>curated_v1\<close> is the manifest compiled into the crate.
\<close>

section \<open>Data\<close>

datatype artifact_error = ArtifactError string

record license_spec =
  li_scope :: string
  li_spdx :: string
  li_source :: string
  li_revision :: string

record artifact_spec =
  ar_id :: string
  ar_kind :: string
  ar_platforms :: "string list"
  ar_url :: string
  ar_size :: nat
  ar_sha256 :: string
  ar_archive_root :: string
  ar_max_unpacked_bytes :: nat
  ar_required_paths :: "string list"
  ar_licenses :: "license_spec list"

record curated_manifest =
  cm_schema_version :: nat
  cm_profile :: string
  cm_artifacts :: "artifact_spec list"

record installed_file =
  if_path :: string
  if_size :: nat
  if_sha256 :: string

record installation =
  in_schema_version :: nat
  in_artifact_id :: string
  in_archive_sha256 :: string
  in_files :: "installed_file list"

section \<open>Relative paths\<close>

definition is_normal :: "path_component \<Rightarrow> bool" where
  "is_normal c = (case c of Normal _ \<Rightarrow> True | _ \<Rightarrow> False)"

definition safe_relative_path :: "string \<Rightarrow> artifact_error + unit" where
  "safe_relative_path p =
     (if p = [] \<or> is_absolute p \<or> list_ex (\<lambda>c. \<not> is_normal c) (path_components p)
      then Inl (ArtifactError ''artifact relative path is invalid'')
      else Inr ())"

fun relative_names :: "path_component list \<Rightarrow> artifact_error + string list" where
  "relative_names [] = Inr []"
| "relative_names (Normal n # cs) = map_ok (\<lambda>ns. n # ns) (relative_names cs)"
| "relative_names (_ # cs) = Inl (ArtifactError ''artifact archive path is invalid'')"

text \<open>The relative path is its names; an empty list is the archive root itself.\<close>

definition strip_archive_root :: "string \<Rightarrow> string \<Rightarrow> artifact_error + string list" where
  "strip_archive_root p archive_root =
     (case path_components p of
        Normal v # cs \<Rightarrow>
          if v = archive_root then relative_names cs
          else Inl (ArtifactError ''artifact archive root is invalid'')
      | _ \<Rightarrow> Inl (ArtifactError ''artifact archive root is invalid''))"

section \<open>Text\<close>

text \<open>
  A path is bytes, here the codes of its characters; \<open>to_str\<close> succeeds when they are UTF-8.
\<close>

fun utf8_codes :: "nat list \<Rightarrow> bool" where
  "utf8_codes [] = True"
| "utf8_codes (a # rest) =
     (if a < 128 then utf8_codes rest
      else if 194 \<le> a \<and> a \<le> 223 then
        (case rest of b # rest \<Rightarrow> 128 \<le> b \<and> b \<le> 191 \<and> utf8_codes rest | _ \<Rightarrow> False)
      else if 224 \<le> a \<and> a \<le> 239 then
        (case rest of b # c # rest \<Rightarrow>
             (if a = 224 then 160 else 128) \<le> b \<and> b \<le> (if a = 237 then 159 else 191)
             \<and> 128 \<le> c \<and> c \<le> 191 \<and> utf8_codes rest
         | _ \<Rightarrow> False)
      else if 240 \<le> a \<and> a \<le> 244 then
        (case rest of b # c # d # rest \<Rightarrow>
             (if a = 240 then 144 else 128) \<le> b \<and> b \<le> (if a = 244 then 143 else 191)
             \<and> 128 \<le> c \<and> c \<le> 191 \<and> 128 \<le> d \<and> d \<le> 191 \<and> utf8_codes rest
         | _ \<Rightarrow> False)
      else False)"

definition utf8 :: "string \<Rightarrow> bool" where
  "utf8 s = utf8_codes (map of_char s)"

section \<open>The manifest\<close>

definition ascii_alphanumeric :: "char \<Rightarrow> bool" where
  "ascii_alphanumeric c =
     (let n = (of_char c :: nat) in (48 \<le> n \<and> n \<le> 57) \<or> (65 \<le> n \<and> n \<le> 90) \<or> (97 \<le> n \<and> n \<le> 122))"

definition ascii_hexdigit :: "char \<Rightarrow> bool" where
  "ascii_hexdigit c =
     (let n = (of_char c :: nat) in (48 \<le> n \<and> n \<le> 57) \<or> (65 \<le> n \<and> n \<le> 70) \<or> (97 \<le> n \<and> n \<le> 102))"

fun validate_licenses :: "license_spec list \<Rightarrow> artifact_error + unit" where
  "validate_licenses [] = Inr ()"
| "validate_licenses (l # ls) =
     (if li_scope l = [] \<or> li_spdx l = [] \<or> li_source l = [] \<or> li_revision l = []
      then Inl (ArtifactError ''curated artifact license metadata is incomplete'')
      else validate_licenses ls)"

fun validate_paths :: "string list \<Rightarrow> artifact_error + unit" where
  "validate_paths [] = Inr ()"
| "validate_paths (p # ps) = and_then (safe_relative_path p) (\<lambda>_. validate_paths ps)"

definition validate_artifact :: "artifact_spec \<Rightarrow> artifact_error + unit" where
  "validate_artifact a =
     (if ar_id a = []
         \<or> \<not> list_all (\<lambda>c. ascii_alphanumeric c \<or> c \<in> {CHR ''-'', CHR ''_'', CHR ''.''}) (ar_id a)
         \<or> ar_kind a \<notin> {''runtime'', ''stt-model'', ''tts-model''}
         \<or> ar_size a = 0
         \<or> ar_max_unpacked_bytes a = 0
         \<or> length (ar_sha256 a) \<noteq> 64
         \<or> \<not> list_all ascii_hexdigit (ar_sha256 a)
         \<or> ar_archive_root a = []
         \<or> ar_required_paths a = []
         \<or> ar_licenses a = []
      then Inl (ArtifactError ''curated artifact manifest contains an invalid entry'')
      else and_then (validate_licenses (ar_licenses a)) (\<lambda>_. validate_paths (ar_required_paths a)))"

fun validate_artifacts :: "string set \<Rightarrow> artifact_spec list \<Rightarrow> artifact_error + unit" where
  "validate_artifacts ids [] = Inr ()"
| "validate_artifacts ids (a # as) =
     and_then (validate_artifact a) (\<lambda>_.
       if ar_id a \<in> ids
       then Inl (ArtifactError ''curated artifact manifest contains duplicate identifiers'')
       else validate_artifacts (insert (ar_id a) ids) as)"

text \<open>\<open>decoded\<close> is what serde made of the compiled-in JSON.\<close>

definition parse_manifest :: "curated_manifest option \<Rightarrow> artifact_error + curated_manifest" where
  "parse_manifest decoded =
     and_then (ok_or (ArtifactError ''curated artifact manifest is malformed'') decoded) (\<lambda>m.
       if cm_schema_version m \<noteq> 1 \<or> cm_profile m \<noteq> ''impossible-voice-en-cpu-v1''
       then Inl (ArtifactError ''curated artifact manifest identity is invalid'')
       else map_ok (\<lambda>_. m) (validate_artifacts {} (cm_artifacts m)))"

section \<open>The platform's profile\<close>

definition current_platform :: "string \<Rightarrow> string \<Rightarrow> artifact_error + string" where
  "current_platform os arch =
     (if os = ''windows'' \<and> arch = ''x86_64'' then Inr ''windows-x86_64''
      else if os = ''linux'' \<and> arch = ''x86_64'' then Inr ''linux-x86_64''
      else Inl (ArtifactError ''the curated artifact profile does not support this platform''))"

definition kind_count :: "artifact_spec list \<Rightarrow> string \<Rightarrow> nat" where
  "kind_count selected kind = length (filter (\<lambda>a. ar_kind a = kind) selected)"

definition select_artifacts :: "curated_manifest \<Rightarrow> string \<Rightarrow> artifact_error + artifact_spec list" where
  "select_artifacts m platform =
     (let selected = filter (\<lambda>a. platform \<in> set (ar_platforms a)) (cm_artifacts m) in
      if length selected \<noteq> 3 \<or> kind_count selected ''runtime'' \<noteq> 1
         \<or> kind_count selected ''stt-model'' \<noteq> 1 \<or> kind_count selected ''tts-model'' \<noteq> 1
      then Inl (ArtifactError ''curated artifact profile is incomplete for this platform'')
      else Inr selected)"

definition find_kind :: "artifact_spec list \<Rightarrow> string \<Rightarrow> artifact_error + artifact_spec" where
  "find_kind selected kind =
     ok_or (ArtifactError ''curated artifact profile is incomplete'')
       (find (\<lambda>a. ar_kind a = kind) selected)"

section \<open>The layout of the store\<close>

definition object_path :: "path \<Rightarrow> artifact_spec \<Rightarrow> path" where
  "object_path base a = base @ [''objects'', ar_id a @ ''-'' @ take 16 (ar_sha256 a)]"

record verified_profile =
  vp_runtime :: path
  vp_stt :: path
  vp_tts :: path

definition vp_stt_model :: "verified_profile \<Rightarrow> path" where
  "vp_stt_model v = vp_stt v @ [''model.int8.onnx'']"

definition vp_stt_tokens :: "verified_profile \<Rightarrow> path" where
  "vp_stt_tokens v = vp_stt v @ [''tokens.txt'']"

definition vp_tts_model :: "verified_profile \<Rightarrow> path" where
  "vp_tts_model v = vp_tts v @ [''en_US-kristin-medium.onnx'']"

definition vp_tts_tokens :: "verified_profile \<Rightarrow> path" where
  "vp_tts_tokens v = vp_tts v @ [''tokens.txt'']"

definition vp_tts_data_dir :: "verified_profile \<Rightarrow> path" where
  "vp_tts_data_dir v = vp_tts v @ [''espeak-ng-data'']"

section \<open>Digests\<close>

definition hex_char :: "nat \<Rightarrow> char" where
  "hex_char n = char_of (if n < 10 then 48 + n else 87 + n)"

definition hex_digest :: "u8 list \<Rightarrow> string" where
  "hex_digest bytes = concat (map (\<lambda>b. [hex_char (unat b div 16), hex_char (unat b mod 16)]) bytes)"

lemma hex_char_inject: "m < 16 \<Longrightarrow> n < 16 \<Longrightarrow> hex_char m = hex_char n \<Longrightarrow> m = n"
proof -
  assume "m < 16" "n < 16" "hex_char m = hex_char n"
  then have "(of_char (hex_char m) :: nat) = of_char (hex_char n)" by simp
  with \<open>m < 16\<close> \<open>n < 16\<close> show "m = n" by (auto simp: hex_char_def split: if_splits)
qed

lemma hex_digest_inject: "hex_digest xs = hex_digest ys \<Longrightarrow> xs = ys"
proof (induction xs arbitrary: ys)
  case Nil
  then show ?case by (cases ys) (auto simp: hex_digest_def)
next
  case (Cons x xs)
  then obtain y ys' where ys: "ys = y # ys'" by (cases ys) (auto simp: hex_digest_def)
  have "unat x < 16 * 16" "unat y < 16 * 16" using unsigned_less [of x] unsigned_less [of y] by simp_all
  then have lt: "unat x div 16 < 16" "unat y div 16 < 16" by (simp_all add: div_less_iff_less_mult)
  from Cons.prems ys have "hex_char (unat x div 16) = hex_char (unat y div 16)"
    "hex_char (unat x mod 16) = hex_char (unat y mod 16)" "hex_digest xs = hex_digest ys'"
    by (simp_all add: hex_digest_def)
  then have "unat x div 16 = unat y div 16" "unat x mod 16 = unat y mod 16" "xs = ys'"
    using hex_char_inject lt Cons.IH by simp_all
  then have "unat x = unat y" by (metis div_mult_mod_eq)
  with \<open>xs = ys'\<close> ys show ?case by (simp add: word_unat_eq_iff)
qed

section \<open>The names on a relative path\<close>

definition safe_name :: "string \<Rightarrow> bool" where
  "safe_name n \<longleftrightarrow> n \<noteq> [] \<and> n \<noteq> ''.'' \<and> n \<noteq> ''..'' \<and> CHR ''/'' \<notin> set n"

lemma split_on_pieces: "n \<in> set (split_on c s) \<Longrightarrow> c \<notin> set n"
  by (induction c s arbitrary: n rule: split_on.induct) (auto split: if_splits list.splits)

lemma component_names: "Normal n \<in> set (path_components p) \<Longrightarrow> safe_name n"
  by (auto simp: path_components_def Let_def component_of_def safe_name_def dest: split_on_pieces
      split: if_splits)

lemma safe_relative_path_iff:
  "safe_relative_path p = Inr () \<longleftrightarrow> p \<noteq> [] \<and> (\<forall>c\<in>set (path_components p). \<exists>n. c = Normal n)"
proof -
  have "is_absolute p \<Longrightarrow> RootDir \<in> set (path_components p)"
    by (simp add: path_components_def Let_def)
  moreover have "is_normal c \<longleftrightarrow> (\<exists>n. c = Normal n)" for c by (cases c) (simp_all add: is_normal_def)
  moreover have "safe_relative_path p = Inr () \<longleftrightarrow>
      p \<noteq> [] \<and> \<not> is_absolute p \<and> (\<forall>c\<in>set (path_components p). is_normal c)"
    by (auto simp: safe_relative_path_def list_ex_iff)
  ultimately show ?thesis by fastforce
qed

text \<open>A safe relative path is its names, and leads below any directory it is joined to.\<close>

lemma safe_relative_path_names:
  assumes "safe_relative_path p = Inr ()"
  obtains ns where "path_components p = map Normal ns" "list_all safe_name ns"
    "\<And>base. join_path base p = base @ ns"
proof -
  have "\<exists>ns. cs = map Normal ns" if "\<forall>c\<in>set cs. \<exists>n. c = Normal n" for cs
    using that
  proof (induction cs)
    case (Cons c cs)
    then obtain n ns where "c # cs = map Normal (n # ns)" by auto
    then show ?case by (rule exI)
  qed simp
  then obtain ns where ns: "path_components p = map Normal ns"
    using assms by (auto simp: safe_relative_path_iff)
  then have "list_all safe_name ns" by (auto simp: list_all_iff intro: component_names [of _ p])
  with that ns show ?thesis by (simp add: join_path_def descend_names)
qed

lemma relative_names_Inr: "relative_names cs = Inr ns \<longleftrightarrow> cs = map Normal ns"
  by (induction cs arbitrary: ns rule: relative_names.induct) (auto simp: res_simps)

lemma strip_archive_root_Inr:
  "strip_archive_root p r = Inr ns \<longleftrightarrow> path_components p = Normal r # map Normal ns"
  by (auto simp: strip_archive_root_def relative_names_Inr split: list.splits path_component.splits)

lemma strip_archive_root_safe: "strip_archive_root p r = Inr ns \<Longrightarrow> list_all safe_name ns"
  by (auto simp: strip_archive_root_Inr list_all_iff intro!: component_names [of _ p])

lemma joined_eq_Nil: "joined c q = [] \<longleftrightarrow> q = [] \<or> q = [[]]"
  by (cases "(c, q)" rule: joined.cases) auto

lemma split_on_none: "c \<notin> set s \<Longrightarrow> split_on c s = [s]"
  by (induction s) auto

lemma split_on_sep: "c \<notin> set s \<Longrightarrow> split_on c (s @ c # t) = s # split_on c t"
  by (induction s) auto

lemma split_joined: "q \<noteq> [] \<Longrightarrow> list_all (\<lambda>n. c \<notin> set n) q \<Longrightarrow> split_on c (joined c q) = q"
  by (induction c q rule: joined.induct) (auto simp: split_on_none split_on_sep)

lemma hd_joined: "list_all safe_name (n # q) \<Longrightarrow> \<exists>x xs. joined (CHR ''/'') (n # q) = x # xs \<and> x \<noteq> CHR ''/''"
  by (cases q; cases n) (auto simp: safe_name_def)

text \<open>Printing safe names as a path and reading it back.\<close>

lemma components_joined:
  assumes "q \<noteq> []" and "list_all safe_name q"
  shows "path_components (joined (CHR ''/'') q) = map Normal q"
proof -
  obtain n r where q: "q = n # r" using assms(1) by (cases q) auto
  have split: "split_on (CHR ''/'') (joined (CHR ''/'') q) = q"
    using assms by (intro split_joined) (auto simp: list_all_iff safe_name_def)
  have "\<not> is_absolute (joined (CHR ''/'') q)"
    using hd_joined [of n r] assms(2) q by (auto simp: is_absolute_def)
  moreover have "hd q \<noteq> ''.''" using assms q by (simp add: safe_name_def)
  moreover have "filter (\<lambda>s. s \<noteq> [] \<and> s \<noteq> ''.'') q = q" "map component_of q = map Normal q"
    using assms(2) by (auto simp: filter_id_conv list_all_iff safe_name_def component_of_def)
  ultimately show ?thesis by (simp add: path_components_def split)
qed

lemma join_joined: "q \<noteq> [] \<Longrightarrow> list_all safe_name q \<Longrightarrow> join_path base (joined (CHR ''/'') q) = base @ q"
  by (simp add: join_path_def components_joined descend_names)

section \<open>Accepted manifests\<close>

lemma validate_artifact_Inr:
  assumes "validate_artifact a = Inr ()"
  shows "ar_kind a \<in> {''runtime'', ''stt-model'', ''tts-model''}" "length (ar_sha256 a) = 64"
    "0 < ar_size a" "CHR ''/'' \<notin> set (ar_id a)" "ar_id a \<noteq> []"
    "list_all (\<lambda>p. safe_relative_path p = Inr ()) (ar_required_paths a)"
proof -
  have paths: "validate_paths ps = Inr () \<Longrightarrow> list_all (\<lambda>p. safe_relative_path p = Inr ()) ps" for ps
    by (induction ps) (auto simp: res_simps)
  have slash: "\<not> ascii_alphanumeric (CHR ''/'')" by (simp add: ascii_alphanumeric_def)
  show "ar_kind a \<in> {''runtime'', ''stt-model'', ''tts-model''}" "length (ar_sha256 a) = 64"
    "0 < ar_size a" "ar_id a \<noteq> []"
    using assms by (auto simp: validate_artifact_def split: if_splits)
  show "list_all (\<lambda>p. safe_relative_path p = Inr ()) (ar_required_paths a)"
    using assms paths by (auto simp: validate_artifact_def res_simps split: if_splits)
  have "list_all (\<lambda>c. ascii_alphanumeric c \<or> c \<in> {CHR ''-'', CHR ''_'', CHR ''.''}) (ar_id a)"
    using assms unfolding validate_artifact_def by (meson sum.distinct(1))
  with slash show "CHR ''/'' \<notin> set (ar_id a)" by (auto simp: list_all_iff)
qed

lemma validate_artifacts_Inr:
  "validate_artifacts ids as = Inr () \<Longrightarrow>
     distinct (map ar_id as) \<and> (\<forall>a\<in>set as. ar_id a \<notin> ids \<and> validate_artifact a = Inr ())"
  by (induction ids as rule: validate_artifacts.induct) (auto simp: res_simps split: if_splits)

lemma object_path_inject:
  assumes "validate_artifact a = Inr ()" and "validate_artifact b = Inr ()"
    and "object_path base a = object_path base b"
  shows "ar_id a = ar_id b"
proof -
  have "ar_id a @ ''-'' @ take 16 (ar_sha256 a) = ar_id b @ ''-'' @ take 16 (ar_sha256 b)"
    using assms(3) by (simp add: object_path_def)
  moreover have "length (take 16 (ar_sha256 a)) = length (take 16 (ar_sha256 b))"
    using assms(1,2) validate_artifact_Inr(2) by simp
  ultimately show ?thesis by simp
qed

lemma distinct_object_paths:
  assumes "\<forall>a\<in>set as. validate_artifact a = Inr ()" and "distinct (map ar_id as)"
  shows "distinct (map (object_path base) as)"
  using assms object_path_inject by (auto simp: distinct_map inj_on_def)

lemma parse_manifest_Inr:
  assumes "parse_manifest decoded = Inr m"
  shows "decoded = Some m" "distinct (map ar_id (cm_artifacts m))"
    "\<forall>a\<in>set (cm_artifacts m). validate_artifact a = Inr ()"
  using assms validate_artifacts_Inr [of "{}"]
  by (auto simp: parse_manifest_def res_simps split: if_splits)

lemma find_kind_unique:
  assumes "kind_count selected kind = 1"
  shows "\<exists>a. find_kind selected kind = Inr a \<and> filter (\<lambda>b. ar_kind b = kind) selected = [a]"
proof -
  have one: "\<exists>a. filter (\<lambda>b. ar_kind b = kind) selected = [a]"
    using assms by (auto simp: kind_count_def length_Suc_conv)
  have "filter P xs = [a] \<Longrightarrow> find P xs = Some a" for P :: "artifact_spec \<Rightarrow> bool" and xs a
    by (induction xs) (auto split: if_splits)
  with one show ?thesis by (auto simp: find_kind_def ok_or_def)
qed

text \<open>The manifest compiled into the crate, \<open>manifests/curated-v1.json\<close>.\<close>

definition license :: "string \<Rightarrow> string \<Rightarrow> string \<Rightarrow> string \<Rightarrow> license_spec" where
  "license scope spdx source revision =
     \<lparr>li_scope = scope, li_spdx = spdx, li_source = source, li_revision = revision\<rparr>"

definition runtime_licenses :: "license_spec list" where
  "runtime_licenses =
    [license ''runtime'' ''Apache-2.0''
       ''https://github.com/k2-fsa/sherpa-onnx/blob/v1.13.8/LICENSE''
       ''v1.13.8'',
     license ''embedded-onnx-runtime'' ''MIT''
       ''https://github.com/microsoft/onnxruntime/blob/v1.28.2/LICENSE''
       ''v1.28.2'',
     license ''embedded-piper-phonemize'' ''MIT''
       ''https://github.com/csukuangfj/piper-phonemize/blob/f3ff95afc03640bc1399e113e83361192a2fafb4/LICENSE.md''
       ''f3ff95afc03640bc1399e113e83361192a2fafb4'',
     license ''embedded-espeak-ng'' ''GPL-3.0-or-later''
       ''https://github.com/csukuangfj/espeak-ng/blob/ed530aa113046142eb5115cf2fc9157854d0ffe1/COPYING''
       ''ed530aa113046142eb5115cf2fc9157854d0ffe1'']"

definition linux_runtime :: artifact_spec where
  "linux_runtime =
     \<lparr>ar_id = ''sherpa-onnx-runtime-linux-x86_64-v1.13.8'',
      ar_kind = ''runtime'', ar_platforms = [''linux-x86_64''],
      ar_url = ''https://github.com/k2-fsa/sherpa-onnx/releases/download/v1.13.8/sherpa-onnx-v1.13.8-linux-x64-shared-lib.tar.bz2'',
      ar_size = 9816899,
      ar_sha256 = ''3892d184be41027e18165e67f549cd4e4cdd8dcd73ac5579e97afd55e14e30b6'',
      ar_archive_root = ''sherpa-onnx-v1.13.8-linux-x64-shared-lib'',
      ar_max_unpacked_bytes = 134217728,
      ar_required_paths = [''lib/libonnxruntime.so'', ''lib/libsherpa-onnx-c-api.so''],
      ar_licenses = runtime_licenses\<rparr>"

definition windows_runtime :: artifact_spec where
  "windows_runtime =
     \<lparr>ar_id = ''sherpa-onnx-runtime-windows-x86_64-v1.13.8'',
      ar_kind = ''runtime'', ar_platforms = [''windows-x86_64''],
      ar_url = ''https://github.com/k2-fsa/sherpa-onnx/releases/download/v1.13.8/sherpa-onnx-v1.13.8-win-x64-shared-MD-Release-lib.tar.bz2'',
      ar_size = 7383373,
      ar_sha256 = ''3c43d1efba780d7ae7f5d64cae08803dcecf417109a5f593684e536f3cbd5cf1'',
      ar_archive_root = ''sherpa-onnx-v1.13.8-win-x64-shared-MD-Release-lib'',
      ar_max_unpacked_bytes = 134217728,
      ar_required_paths = [''lib/onnxruntime.dll'', ''lib/onnxruntime_providers_shared.dll'', ''lib/sherpa-onnx-c-api.dll''],
      ar_licenses = runtime_licenses\<rparr>"

definition stt_artifact :: artifact_spec where
  "stt_artifact =
     \<lparr>ar_id = ''sherpa-onnx-nemo-streaming-fast-conformer-ctc-en-80ms-int8'',
      ar_kind = ''stt-model'', ar_platforms = [''linux-x86_64'', ''windows-x86_64''],
      ar_url = ''https://github.com/k2-fsa/sherpa-onnx/releases/download/asr-models/sherpa-onnx-nemo-streaming-fast-conformer-ctc-en-80ms-int8.tar.bz2'',
      ar_size = 99459493,
      ar_sha256 = ''479759fbd5c69c909e7175d7773105a1bfabf82fa533de68c546c89d85f234e8'',
      ar_archive_root = ''sherpa-onnx-nemo-streaming-fast-conformer-ctc-en-80ms-int8'',
      ar_max_unpacked_bytes = 268435456,
      ar_required_paths = [''model.int8.onnx'', ''tokens.txt''],
      ar_licenses = 
    [license ''upstream-model'' ''CC-BY-4.0''
       ''https://huggingface.co/nvidia/stt_en_fastconformer_hybrid_large_streaming_multi''
       ''ae98143333690bd7ced4bc8ec16769bcb8918374'']\<rparr>"

definition tts_artifact :: artifact_spec where
  "tts_artifact =
     \<lparr>ar_id = ''vits-piper-en_US-kristin-medium-int8'',
      ar_kind = ''tts-model'', ar_platforms = [''linux-x86_64'', ''windows-x86_64''],
      ar_url = ''https://github.com/k2-fsa/sherpa-onnx/releases/download/tts-models/vits-piper-en_US-kristin-medium-int8.tar.bz2'',
      ar_size = 20882061,
      ar_sha256 = ''16289d7ee8e6b2311a0a0af6531a55f498f82499644a1bb6fddb991fe6fa950c'',
      ar_archive_root = ''vits-piper-en_US-kristin-medium-int8'',
      ar_max_unpacked_bytes = 268435456,
      ar_required_paths = [''MODEL_CARD'', ''en_US-kristin-medium.onnx'', ''en_US-kristin-medium.onnx.json'', ''tokens.txt'', ''espeak-ng-data''],
      ar_licenses = 
    [license ''voice-model-repository'' ''MIT''
       ''https://huggingface.co/rhasspy/piper-voices''
       ''1162a9173d0ce503555aed757976b7a9912eae4c'',
     license ''training-recordings'' ''LicenseRef-Public-Domain''
       ''https://huggingface.co/rhasspy/piper-voices/blob/1162a9173d0ce503555aed757976b7a9912eae4c/en/en_US/kristin/medium/MODEL_CARD''
       ''1162a9173d0ce503555aed757976b7a9912eae4c'',
     license ''bundled-espeak-ng-data'' ''GPL-3.0-or-later''
       ''https://github.com/csukuangfj/espeak-ng/blob/ed530aa113046142eb5115cf2fc9157854d0ffe1/COPYING''
       ''ed530aa113046142eb5115cf2fc9157854d0ffe1'']\<rparr>"

definition curated_v1 :: curated_manifest where
  "curated_v1 =
     \<lparr>cm_schema_version = 1, cm_profile = ''impossible-voice-en-cpu-v1'',
      cm_artifacts = [linux_runtime, windows_runtime, stt_artifact, tts_artifact]\<rparr>"

section \<open>Properties\<close>

text \<open>
  An accepted manifest gives a complete profile for a supported platform. Exactly one runtime,
  one speech-recognition model and one voice are selected, each found by its kind; all are entries
  of the manifest for this platform; their objects are at distinct places of the store, each one
  safe name below \<open>objects\<close>; and every required path stays below the object.
\<close>

theorem profile_is_complete:
  assumes "parse_manifest decoded = Inr m" and "current_platform os arch = Inr platform"
    and "select_artifacts m platform = Inr selected"
  shows "list_all (\<lambda>kind. \<exists>a. find_kind selected kind = Inr a \<and> filter (\<lambda>b. ar_kind b = kind) selected = [a])
      [''runtime'', ''stt-model'', ''tts-model'']
    \<and> length selected = 3
    \<and> list_all (\<lambda>a. a \<in> set (cm_artifacts m) \<and> platform \<in> set (ar_platforms a)
        \<and> (\<exists>n. object_path base a = base @ [''objects'', n] \<and> safe_name n)
        \<and> list_all (\<lambda>p. \<exists>ns. join_path obj p = obj @ ns \<and> list_all safe_name ns) (ar_required_paths a)) selected
    \<and> distinct (map (object_path base) selected)"
proof -
  note m = parse_manifest_Inr [OF assms(1)]
  from assms(3) have sel: "selected = filter (\<lambda>a. platform \<in> set (ar_platforms a)) (cm_artifacts m)"
    and count: "length selected = 3" "kind_count selected ''runtime'' = 1"
      "kind_count selected ''stt-model'' = 1" "kind_count selected ''tts-model'' = 1"
    by (auto simp: select_artifacts_def Let_def split: if_splits)
  have "safe_name (ar_id a @ ''-'' @ take 16 (ar_sha256 a))" if "validate_artifact a = Inr ()" for a
  proof -
    have "list_all ascii_hexdigit (ar_sha256 a)"
      using that unfolding validate_artifact_def by (meson sum.distinct(1))
    moreover have "\<not> ascii_hexdigit (CHR ''/'')" by (simp add: ascii_hexdigit_def)
    ultimately have "CHR ''/'' \<notin> set (take 16 (ar_sha256 a))" by (auto simp: list_all_iff dest: in_set_takeD)
    moreover have "length (ar_id a @ ''-'' @ take 16 (ar_sha256 a)) > 2"
      using validate_artifact_Inr(2) [OF that] by simp
    then have "ar_id a @ ''-'' @ take 16 (ar_sha256 a) \<notin> {[], ''.'', ''..''}"
      by (metis (no_types, lifting) empty_iff insert_iff less_numeral_extra(3) list.size(3,4)
          not_less_eq not_less_zero numeral_2_eq_2 One_nat_def add_0 plus_1_eq_Suc add.commute)
    ultimately show ?thesis using validate_artifact_Inr(4) [OF that] by (simp add: safe_name_def)
  qed
  moreover have "distinct (map (object_path base) selected)"
    using m sel by (intro distinct_object_paths) (auto intro: distinct_map_filter)
  moreover have "\<forall>a\<in>set selected. a \<in> set (cm_artifacts m) \<and> platform \<in> set (ar_platforms a)"
    using sel by simp
  moreover have "list_all (\<lambda>a. list_all (\<lambda>p. \<exists>ns. join_path obj p = obj @ ns \<and> list_all safe_name ns)
      (ar_required_paths a)) selected"
  proof -
    have "\<exists>ns. join_path obj p = obj @ ns \<and> list_all safe_name ns" if "safe_relative_path p = Inr ()" for p
      using that by (blast elim: safe_relative_path_names)
    moreover have "list_all (\<lambda>p. safe_relative_path p = Inr ()) (ar_required_paths a)" if "a \<in> set selected" for a
      using validate_artifact_Inr(6) m(3) sel that by simp
    ultimately show ?thesis by (simp add: list_all_iff)
  qed
  ultimately show ?thesis
    using m(3) count(1) find_kind_unique [OF count(2)] find_kind_unique [OF count(3)]
      find_kind_unique [OF count(4)]
    by (simp add: list_all_iff object_path_def)
qed

lemma curated_artifacts_valid:
  "validate_artifact linux_runtime = Inr ()" "validate_artifact windows_runtime = Inr ()"
  "validate_artifact stt_artifact = Inr ()" "validate_artifact tts_artifact = Inr ()"
  by (simp_all add: validate_artifact_def linux_runtime_def windows_runtime_def stt_artifact_def
      tts_artifact_def runtime_licenses_def license_def ascii_alphanumeric_def ascii_hexdigit_def
      safe_relative_path_def path_components_def component_of_def is_normal_def is_absolute_def)

lemma curated_fields:
  "ar_id linux_runtime = ''sherpa-onnx-runtime-linux-x86_64-v1.13.8''"
  "ar_id windows_runtime = ''sherpa-onnx-runtime-windows-x86_64-v1.13.8''"
  "ar_id stt_artifact = ''sherpa-onnx-nemo-streaming-fast-conformer-ctc-en-80ms-int8''"
  "ar_id tts_artifact = ''vits-piper-en_US-kristin-medium-int8''"
  "ar_kind linux_runtime = ''runtime''" "ar_kind windows_runtime = ''runtime''"
  "ar_kind stt_artifact = ''stt-model''" "ar_kind tts_artifact = ''tts-model''"
  "ar_platforms linux_runtime = [''linux-x86_64'']"
  "ar_platforms windows_runtime = [''windows-x86_64'']"
  "ar_platforms stt_artifact = [''linux-x86_64'', ''windows-x86_64'']"
  "ar_platforms tts_artifact = [''linux-x86_64'', ''windows-x86_64'']"
  by (simp_all add: linux_runtime_def windows_runtime_def stt_artifact_def tts_artifact_def)

lemma curated_parses: "parse_manifest (Some curated_v1) = Inr curated_v1"
  by (simp add: parse_manifest_def curated_v1_def curated_artifacts_valid curated_fields)

theorem profile_is_complete_witness:
  "(\<exists>a. find_kind [linux_runtime, stt_artifact, tts_artifact] ''runtime'' = Inr a)
    \<and> distinct (map (object_path []) [linux_runtime, stt_artifact, tts_artifact])"
proof -
  have platform: "current_platform ''linux'' ''x86_64'' = Inr ''linux-x86_64''"
    by (simp add: current_platform_def)
  have select: "select_artifacts curated_v1 ''linux-x86_64'' = Inr [linux_runtime, stt_artifact, tts_artifact]"
    by (simp add: select_artifacts_def curated_v1_def kind_count_def curated_fields)
  from profile_is_complete [OF curated_parses platform select, of "[]"] show ?thesis by auto
qed

end
