(* ===== verification/Artifact_Store.thy ===== *)
theory Artifact_Store
  imports Artifacts "HOL-Library.List_Lexorder"
begin

text \<open>
  The effectful part of \<open>crates/impossible-voice-artifacts/src/lib.rs\<close> on the file systems of
  \<open>Files\<close>: verification of installed objects, extraction of archives, downloads, recovery, setup
  and inspection. SHA-256, JSON, bzip2 and tar, URL parsing and HTTP are libraries: the functions of
  \<open>artifact_env\<close>.
\<close>

section \<open>Libraries and state\<close>

datatype item_kind = ItemDir | ItemFile | ItemOther

text \<open>
  A tar entry: its path if it has one, its type, the buffers its reads yield, and whether a read
  fails after them.
\<close>

record archive_item =
  ai_path :: "string option"
  ai_kind :: item_kind
  ai_reads :: "u8 list list"
  ai_broken :: bool

text \<open>
  A successful response: its declared length, and its body until a chunk fails. A server may answer
  with a redirect instead, to a URL.
\<close>

record http_response =
  hr_content_length :: "nat option"
  hr_chunks :: "u8 list option list"

datatype http_answer = Redirect string | Success http_response

text \<open>
  \<open>en_http\<close> answers the request of a URL after the number of requests made so far, if with a
  success or a redirect; \<open>en_url\<close> is the scheme and the host of a URL.
\<close>

record artifact_env =
  en_manifest :: "curated_manifest option"
  en_os :: string
  en_arch :: string
  en_sha256 :: "u8 list \<Rightarrow> u8 list"
  en_decode :: "u8 list \<Rightarrow> installation option"
  en_encode :: "installation \<Rightarrow> u8 list option"
  en_untar :: "u8 list \<Rightarrow> archive_item option list option"
  en_url :: "string \<Rightarrow> (string \<times> string option) option"
  en_http :: "string \<Rightarrow> nat \<Rightarrow> http_answer option"
  en_process :: nat
  en_clock :: "nat \<Rightarrow> nat"

definition installation_file :: string where
  "installation_file = ''.impossible-voice-installation.json''"

definition max_archive_entries :: nat where "max_archive_entries = 16384"

section \<open>Verification\<close>

definition digest :: "artifact_env \<Rightarrow> u8 list \<Rightarrow> string" where
  "digest env bytes = hex_digest (en_sha256 env bytes)"

definition verify_archive_file ::
  "artifact_env \<Rightarrow> path \<Rightarrow> nat \<Rightarrow> string \<Rightarrow> (disk, artifact_error, unit) action"
where
  "verify_archive_file env p expected sha =
     (let inspect = ArtifactError ''artifact archive could not be inspected'' in
      bind_st (io inspect (fs_metadata p)) (\<lambda>(is_file, len).
        if \<not> is_file \<or> len \<noteq> expected then fail (ArtifactError ''artifact archive size mismatch'')
        else bind_st (io inspect (fs_read p)) (\<lambda>bytes.
          if digest env bytes \<noteq> sha then fail (ArtifactError ''artifact archive digest mismatch'')
          else ret ())))"

text \<open>The text of a path below a directory: separators are slashes; it must be UTF-8.\<close>

definition path_text :: "string list \<Rightarrow> artifact_error + string" where
  "path_text names =
     (let joined = joined (CHR ''/'') names in
      if utf8 joined then Inr (map (\<lambda>c. if c = CHR 0x5C then CHR ''/'' else c) joined)
      else Inl (ArtifactError ''installed artifact path is invalid''))"

text \<open>
  One directory of the inventory: the directories it adds to the stack, and the files found.
\<close>

fun inventory_entries ::
  "path \<Rightarrow> path \<Rightarrow> string list \<Rightarrow> path list \<times> string set \<Rightarrow>
    (disk, artifact_error, path list \<times> string set) action"
where
  "inventory_entries base dir [] found = ret found"
| "inventory_entries base dir (n # ns) (pending, files) =
     bind_st (io (ArtifactError ''installed artifact could not be inventoried'') (fs_file_type dir n)) (\<lambda>e.
       case e of
         ELink _ \<Rightarrow> fail (ArtifactError ''installed artifact contains a redirected path'')
       | EDir \<Rightarrow> inventory_entries base dir ns ((dir @ [n]) # pending, files)
       | EFile _ \<Rightarrow>
           bind_st (lift_res (path_text (drop (length base) (dir @ [n])))) (\<lambda>relative.
             inventory_entries base dir ns
               (pending, if relative \<noteq> installation_file then insert relative files else files))
       | EOther \<Rightarrow> fail (ArtifactError ''installed artifact contains an unsupported entry''))"

text \<open>
  How far a directory is from the deepest path. Each directory taken from the stack is replaced by
  deeper ones, so the multiset of distances decreases.
\<close>

definition depth_left :: "entries \<Rightarrow> path \<Rightarrow> nat" where
  "depth_left E p =
     (case resolve E p of None \<Rightarrow> 0 | Some q \<Rightarrow> Max (insert 0 (length ` set (map fst E))) - length q)"

lemma inventory_entries_Inr:
  assumes "inventory_entries base dir ns (pending, files) d = (Inr (pending', files'), d')"
  shows "dk_entries d' = dk_entries d
    \<and> (\<exists>new. pending' = map (\<lambda>n. dir @ [n]) new @ pending
        \<and> (\<forall>n\<in>set new. \<exists>q. resolve (dk_entries d) dir = Some q \<and> entry_at (dk_entries d) (q @ [n]) = Some EDir))"
  using assms
proof (induction ns arbitrary: pending files d)
  case Nil
  then show ?case by simp
next
  case (Cons n ns)
  from Cons.prems [unfolded inventory_entries.simps bind_st_Inr_iff [where b = "(pending', files')"]]
  obtain e d1 where io: "io (ArtifactError ''installed artifact could not be inventoried'')
      (fs_file_type dir n) d = (Inr e, d1)"
    and rest: "(case e of
         ELink _ \<Rightarrow> fail (ArtifactError ''installed artifact contains a redirected path'')
       | EDir \<Rightarrow> inventory_entries base dir ns ((dir @ [n]) # pending, files)
       | EFile _ \<Rightarrow>
           bind_st (lift_res (path_text (drop (length base) (dir @ [n])))) (\<lambda>relative.
             inventory_entries base dir ns
               (pending, if relative \<noteq> installation_file then insert relative files else files))
       | EOther \<Rightarrow> fail (ArtifactError ''installed artifact contains an unsupported entry'')) d1
      = (Inr (pending', files'), d')"
    by blast
  note e = io_Inr [OF io]
  from e have E: "dk_entries d1 = dk_entries d"
    and q: "\<exists>q. resolve (dk_entries d) dir = Some q \<and> entry_at (dk_entries d) (q @ [n]) = Some e"
    by (auto simp: fs_file_type_def split: option.splits)
  show ?case
  proof (cases e)
    case (EFile b)
    with rest obtain relative where
      "inventory_entries base dir ns
         (pending, if relative \<noteq> installation_file then insert relative files else files) d1
       = (Inr (pending', files'), d')"
      by (auto simp: bind_st_Inr_iff)
    from Cons.IH [OF this] E show ?thesis by simp
  next
    case EDir
    then have "inventory_entries base dir ns ((dir @ [n]) # pending, files) d1 = (Inr (pending', files'), d')"
      using rest by simp
    from Cons.IH [OF this] obtain new where
      "dk_entries d' = dk_entries d1" "pending' = map (\<lambda>n. dir @ [n]) new @ (dir @ [n]) # pending"
      "\<forall>n\<in>set new. \<exists>q. resolve (dk_entries d) dir = Some q \<and> entry_at (dk_entries d) (q @ [n]) = Some EDir"
      using E by auto
    with E q EDir show ?thesis by (intro conjI exI [of _ "new @ [n]"]) auto
  qed (use rest in auto)
qed

lemma canon_snoc:
  "canon k E w p = Some q \<Longrightarrow> entry_at E q = Some EDir \<Longrightarrow> entry_at E (q @ [n]) = Some EDir \<Longrightarrow>
     canon k E w (p @ [n]) = Some (q @ [n])"
  by (induction k E w p rule: canon.induct) (auto split: option.splits entry.splits if_splits)

lemma depth_left_child:
  assumes "resolve E dir = Some q" and "entry_at E q = Some EDir" and "entry_at E (q @ [n]) = Some EDir"
  shows "depth_left E (dir @ [n]) < depth_left E dir"
proof -
  have "resolve E (dir @ [n]) = Some (q @ [n])"
    using canon_snoc assms by (simp add: resolve_def)
  moreover have "q @ [n] \<in> set (map fst E)" using entry_at_keys [of "q @ [n]" E] assms(3) by simp
  then have "length (q @ [n]) \<le> Max (insert 0 (length ` set (map fst E)))"
    by (intro Max_ge) (simp_all only: finite_insert finite_imageI finite_set image_eqI insertI2)
  ultimately show ?thesis using assms(1) by (simp add: depth_left_def)
qed

function inventory ::
  "path \<Rightarrow> path list \<Rightarrow> string set \<Rightarrow> (disk, artifact_error, string set) action"
where
  "inventory base [] files d = (Inr files, d)"
| "inventory base (dir # pending) files d =
     (case io (ArtifactError ''installed artifact could not be inventoried'') (fs_read_dir dir) d of
        (Inl e, d) \<Rightarrow> (Inl e, d)
      | (Inr names, d) \<Rightarrow>
          (case inventory_entries base dir names (pending, files) d of
             (Inl e, d) \<Rightarrow> (Inl e, d)
           | (Inr (pending, files), d) \<Rightarrow> inventory base pending files d))"
  by pat_completeness auto
termination
proof (relation "inv_image (mult less_than)
    (\<lambda>(base, pending, files, d). image_mset (depth_left (dk_entries d)) (mset pending))")
  show "wf (inv_image (mult less_than) (\<lambda>(base :: path, pending, files :: string set, d).
      image_mset (depth_left (dk_entries d)) (mset pending)))"
    by (intro wf_inv_image wf_mult wf_less_than)
next
  fix base dir :: path and pending files d
    and x and d1 :: disk and names y and d2 :: disk and w pending' files'
  assume "(x, d1) = io (ArtifactError ''installed artifact could not be inventoried'') (fs_read_dir dir) d"
    and "x = Inr names"
    and "(y, d2) = inventory_entries base dir names (pending, files) d1"
    and "y = Inr w" "(pending', files') = w"
  then have io: "io (ArtifactError ''installed artifact could not be inventoried'') (fs_read_dir dir) d
      = (Inr names, d1)"
    and entries: "inventory_entries base dir names (pending, files) d1 = (Inr (pending', files'), d2)"
    by simp_all
  from io_Inr [OF io] obtain q where E1: "dk_entries d1 = dk_entries d"
    and q: "resolve (dk_entries d) dir = Some q" "entry_at (dk_entries d) q = Some EDir"
    by (auto simp: fs_read_dir_def lookup_def split: if_splits option.splits)
  from inventory_entries_Inr [OF entries] E1 q obtain new where E2: "dk_entries d2 = dk_entries d"
    and new: "pending' = map (\<lambda>n. dir @ [n]) new @ pending"
      "\<forall>n\<in>set new. entry_at (dk_entries d) (q @ [n]) = Some EDir"
    by auto
  let ?f = "depth_left (dk_entries d)"
  have "(image_mset ?f (mset pending) + image_mset ?f (mset (map (\<lambda>n. dir @ [n]) new)),
      image_mset ?f (mset pending) + {#?f dir#}) \<in> mult less_than"
    by (rule one_step_implies_mult) (use depth_left_child q new(2) in auto)
  then show "((base, pending', files', d2), base, dir # pending, files, d)
      \<in> inv_image (mult less_than) (\<lambda>(base, pending, files, d).
          image_mset (depth_left (dk_entries d)) (mset pending))"
    by (simp add: E2 new(1) add.commute)
qed

definition inventory_files :: "path \<Rightarrow> (disk, artifact_error, string set) action" where
  "inventory_files base = inventory base [base] {}"

fun verify_files ::
  "artifact_env \<Rightarrow> path \<Rightarrow> installed_file list \<Rightarrow> string set \<Rightarrow> (disk, artifact_error, string set) action"
where
  "verify_files env base [] expected = ret expected"
| "verify_files env base (f # fs) expected =
     bind_st (lift_res (safe_relative_path (if_path f))) (\<lambda>_.
       if if_path f \<in> expected
       then fail (ArtifactError ''installation inventory contains duplicate files'')
       else bind_st (verify_archive_file env (join_path base (if_path f)) (if_size f) (if_sha256 f)) (\<lambda>_.
         verify_files env base fs (insert (if_path f) expected)))"

fun verify_required :: "path \<Rightarrow> string list \<Rightarrow> (disk, artifact_error, unit) action" where
  "verify_required base [] = ret ()"
| "verify_required base (p # ps) =
     bind_st (fs_exists (join_path base p)) (\<lambda>present.
       if present then verify_required base ps
       else fail (ArtifactError ''installed artifact is missing a required path''))"

definition identity_matches :: "artifact_spec \<Rightarrow> installation \<Rightarrow> bool" where
  "identity_matches a i \<longleftrightarrow>
     in_schema_version i = 1 \<and> in_artifact_id i = ar_id a \<and> in_archive_sha256 i = ar_sha256 a
     \<and> in_files i \<noteq> []"

definition verify_object ::
  "artifact_env \<Rightarrow> path \<Rightarrow> artifact_spec \<Rightarrow> (disk, artifact_error, unit) action"
where
  "verify_object env base a =
     bind_st (io (ArtifactError ''installation inventory is missing'') (fs_read (base @ [installation_file]))) (\<lambda>marker.
     bind_st (lift_res (ok_or (ArtifactError ''installation inventory is malformed'') (en_decode env marker))) (\<lambda>i.
       if \<not> identity_matches a i then fail (ArtifactError ''installation identity is invalid'')
       else
         bind_st (verify_files env base (in_files i) {}) (\<lambda>expected.
         bind_st (inventory_files base) (\<lambda>actual.
           if actual \<noteq> expected
           then fail (ArtifactError ''installed artifact inventory does not match'')
           else verify_required base (ar_required_paths a)))))"

section \<open>Extraction\<close>

definition fs_sync :: "unit fs_op" where "fs_sync E = Some ((), E)"

text \<open>
  The copy loop: the size of the file, the bytes unpacked so far from the whole archive, and what
  has been hashed. An empty read is the end of the file.
\<close>

fun copy_reads ::
  "path \<Rightarrow> nat \<Rightarrow> bool \<Rightarrow> nat \<Rightarrow> nat \<Rightarrow> u8 list \<Rightarrow> u8 list list \<Rightarrow>
    (disk, artifact_error, nat \<times> nat \<times> u8 list) action"
where
  "copy_reads p limit broken len total_bytes hashed [] =
     (if broken then fail (ArtifactError ''artifact file extraction failed'')
      else ret (len, total_bytes, hashed))"
| "copy_reads p limit broken len total_bytes hashed (c # cs) =
     (if c = [] then ret (len, total_bytes, hashed)
      else
        bind_st (lift_res (ok_or (ArtifactError ''artifact extraction exceeded its bound'')
          (checked_add64 len (length c)))) (\<lambda>len.
        bind_st (lift_res (ok_or (ArtifactError ''artifact extraction exceeded its bound'')
          (checked_add64 total_bytes (length c)))) (\<lambda>total_bytes.
          if total_bytes > limit
          then fail (ArtifactError ''artifact extraction exceeded its bound'')
          else bind_st (io (ArtifactError ''artifact file extraction failed'') (fs_write p c)) (\<lambda>_.
            copy_reads p limit broken len total_bytes (hashed @ c) cs))))"

definition write_extracted_file ::
  "artifact_env \<Rightarrow> archive_item \<Rightarrow> path \<Rightarrow> string \<Rightarrow> nat \<Rightarrow> nat \<Rightarrow>
    (disk, artifact_error, installed_file \<times> nat) action"
where
  "write_extracted_file env item destination relative total_bytes limit =
     bind_st (io (ArtifactError ''artifact directory extraction failed'')
       (fs_create_dir_all (butlast destination))) (\<lambda>_.
     bind_st (io (ArtifactError ''artifact file extraction failed'') (fs_create_new destination)) (\<lambda>_.
     bind_st (copy_reads destination limit (ai_broken item) 0 total_bytes [] (ai_reads item))
       (\<lambda>(len, total_bytes, hashed).
     bind_st (io (ArtifactError ''artifact file extraction failed'') fs_sync) (\<lambda>_.
       ret (\<lparr>if_path = relative, if_size = len, if_sha256 = digest env hashed\<rparr>, total_bytes)))))"

definition archive_text :: "string list \<Rightarrow> artifact_error + string" where
  "archive_text names =
     map_err (\<lambda>_. ArtifactError ''artifact archive path is invalid'') (path_text names)"

text \<open>\<open>staging.join(relative)\<close>, for the names that \<open>strip_archive_root\<close> pushed on \<open>relative\<close>.\<close>

definition join_names :: "path \<Rightarrow> string list \<Rightarrow> path" where
  "join_names base names = descend base (map component_of names)"

lemma join_names_safe: "list_all safe_name names \<Longrightarrow> join_names base names = base @ names"
proof -
  assume "list_all safe_name names"
  then have "map component_of names = map Normal names"
    by (auto simp: list_all_iff safe_name_def component_of_def)
  then show ?thesis unfolding join_names_def by (simp only: descend_names)
qed

fun extract_items ::
  "artifact_env \<Rightarrow> path \<Rightarrow> artifact_spec \<Rightarrow> nat \<Rightarrow> nat \<Rightarrow> string set \<Rightarrow> installed_file list \<Rightarrow>
    archive_item option list \<Rightarrow> (disk, artifact_error, installed_file list) action"
where
  "extract_items env staging a index total_bytes seen installed [] = ret installed"
| "extract_items env staging a index total_bytes seen installed (entry # rest) =
     (if index \<ge> max_archive_entries then fail (ArtifactError ''artifact archive has too many entries'')
      else
        bind_st (lift_res (ok_or (ArtifactError ''artifact archive is malformed'') entry)) (\<lambda>item.
        bind_st (lift_res (ok_or (ArtifactError ''artifact archive path is invalid'') (ai_path item))) (\<lambda>p.
        bind_st (lift_res (strip_archive_root p (ar_archive_root a))) (\<lambda>names.
          if names = [] then extract_items env staging a (index + 1) total_bytes seen installed rest
          else
            bind_st (lift_res (archive_text names)) (\<lambda>relative.
              if ai_kind item = ItemDir then
                bind_st (io (ArtifactError ''artifact directory extraction failed'')
                  (fs_create_dir_all (join_names staging names))) (\<lambda>_.
                  extract_items env staging a (index + 1) total_bytes seen installed rest)
              else if ai_kind item \<noteq> ItemFile \<or> ascii_lower relative \<in> seen
              then fail (ArtifactError ''artifact archive contains an unsupported or duplicate entry'')
              else
                bind_st (write_extracted_file env item (join_names staging names) relative total_bytes
                  (ar_max_unpacked_bytes a)) (\<lambda>(file, total_bytes).
                  extract_items env staging a (index + 1) total_bytes
                    (insert (ascii_lower relative) seen) (installed @ [file]) rest))))))"

definition extract_verified_archive ::
  "artifact_env \<Rightarrow> path \<Rightarrow> path \<Rightarrow> artifact_spec \<Rightarrow> (disk, artifact_error, unit) action"
where
  "extract_verified_archive env archive staging a =
     bind_st (verify_archive_file env archive (ar_size a) (ar_sha256 a)) (\<lambda>_.
     bind_st (io (ArtifactError ''artifact archive could not be opened'') (fs_read archive)) (\<lambda>bytes.
     bind_st (lift_res (ok_or (ArtifactError ''artifact archive is malformed'') (en_untar env bytes))) (\<lambda>items.
     bind_st (extract_items env staging a 0 0 {} [] items) (\<lambda>installed.
       if installed = [] then fail (ArtifactError ''artifact archive contained no files'')
       else
         bind_st (lift_res (ok_or (ArtifactError ''installation inventory could not be encoded'')
           (en_encode env \<lparr>in_schema_version = 1, in_artifact_id = ar_id a,
              in_archive_sha256 = ar_sha256 a, in_files = sort_key if_path installed\<rparr>))) (\<lambda>marker.
         bind_st (io (ArtifactError ''installation inventory could not be written'')
           (fs_create_new (staging @ [installation_file]))) (\<lambda>_.
         bind_st (io (ArtifactError ''installation inventory could not be written'')
           (fs_write (staging @ [installation_file]) marker)) (\<lambda>_.
           io (ArtifactError ''installation inventory could not be written'') fs_sync)))))))"

end
