(* ===== verification/Artifact_Setup.thy ===== *)
theory Artifact_Setup
  imports Artifact_Store
begin

text \<open>
  \<open>ArtifactStore\<close> of \<open>crates/impossible-voice-artifacts/src/lib.rs\<close>: recovery,
  download, installation of one artifact, setup, status and the verified profile. The setup lock
  excludes other processes, so one setup runs on a disk nobody else changes.
\<close>

section \<open>The store\<close>

text \<open>\<open>st_requests\<close> are the URLs requested so far, \<open>st_ticks\<close> how often the clock was read.\<close>

record store =
  st_disk :: disk
  st_requests :: "string list"
  st_ticks :: nat

definition on_disk :: "(disk, 'e, 'a) action \<Rightarrow> (store, 'e, 'a) action" where
  "on_disk m s = (case m (st_disk s) of (r, d) \<Rightarrow> (r, s\<lparr>st_disk := d\<rparr>))"

definition unique_suffix :: "artifact_env \<Rightarrow> (store, artifact_error, nat) action" where
  "unique_suffix env s = (Inr (en_clock env (st_ticks s)), s\<lparr>st_ticks := st_ticks s + 1\<rparr>)"

text \<open>\<open>label-process-suffix\<close>\<close>

definition unique_name :: "artifact_env \<Rightarrow> string \<Rightarrow> nat \<Rightarrow> string" where
  "unique_name env label tick = label @ ''-'' @ decimal (en_process env) @ ''-'' @ decimal tick"

definition recover_path ::
  "artifact_env \<Rightarrow> path \<Rightarrow> path \<Rightarrow> string \<Rightarrow> (store, artifact_error, unit) action"
where
  "recover_path env p recovery label =
     bind_st (on_disk (fs_exists p)) (\<lambda>present.
       if \<not> present then ret ()
       else
         bind_st (on_disk (io (ArtifactError ''artifact recovery directory could not be created'')
           (fs_create_dir_all recovery))) (\<lambda>_.
         bind_st (unique_suffix env) (\<lambda>tick.
           on_disk (io (ArtifactError ''invalid artifact could not be preserved for recovery'')
             (fs_rename p (recovery @ [unique_name env label tick]))))))"

text \<open>
  \<open>spawn_blocking(work).await\<close>: the join fails only if the worker was lost; the outcome of the
  work is a value.
\<close>

definition blocking ::
  "string \<Rightarrow> (disk, artifact_error, 'a) action \<Rightarrow> (store, artifact_error, artifact_error + 'a) action"
where
  "blocking lost work =
     bind_st (on_disk (\<lambda>d. case work d of (r, d) \<Rightarrow> (Inr r, d))) (\<lambda>r.
     bind_st (on_disk (io (ArtifactError lost) (\<lambda>E. Some ((), E)))) (\<lambda>_. ret r))"

section \<open>Download\<close>

text \<open>\<open>Path::with_extension\<close> on a name that has an extension: what follows its last dot.\<close>

definition with_extension :: "string \<Rightarrow> string \<Rightarrow> string" where
  "with_extension name extension =
     (let stem = rev (tl (dropWhile (\<lambda>c. c \<noteq> CHR ''.'') (rev name)))
      in (if CHR ''.'' \<in> set name \<and> stem \<noteq> [] then stem else name) @ ''.'' @ extension)"

fun receive ::
  "path \<Rightarrow> nat \<Rightarrow> nat \<Rightarrow> u8 list \<Rightarrow> u8 list option list \<Rightarrow> (disk, artifact_error, nat \<times> u8 list) action"
where
  "receive p limit len hashed [] = ret (len, hashed)"
| "receive p limit len hashed (chunk # rest) =
     bind_st (lift_res (ok_or (ArtifactError ''artifact download failed'') chunk)) (\<lambda>bytes.
     bind_st (lift_res (ok_or (ArtifactError ''artifact download exceeded its bound'')
       (checked_add64 len (length bytes)))) (\<lambda>len.
       if len > limit then fail (ArtifactError ''artifact download exceeded its bound'')
       else bind_st (io (ArtifactError ''artifact download staging failed'') (fs_write p bytes)) (\<lambda>_.
         receive p limit len (hashed @ bytes) rest)))"

text \<open>
  The client: it follows redirects, five at most, to \<open>https\<close> URLs only. A redirect beyond
  that, another status and a failed connection are errors. The argument is how many redirects are left.
\<close>

definition max_redirects :: nat where "max_redirects = 5"

definition https_url :: "artifact_env \<Rightarrow> string \<Rightarrow> bool" where
  "https_url env url \<longleftrightarrow> (case en_url env url of Some (scheme, _) \<Rightarrow> scheme = ''https'' | None \<Rightarrow> False)"

fun send_request ::
  "artifact_env \<Rightarrow> nat \<Rightarrow> string \<Rightarrow> (store, artifact_error, http_response) action"
where
  "send_request env redirects url s =
     (let failed = Inl (ArtifactError ''artifact download failed'');
          t = s\<lparr>st_requests := st_requests s @ [url]\<rparr> in
      case en_http env url (length (st_requests s)) of
        None \<Rightarrow> (failed, t)
      | Some (Success response) \<Rightarrow> (Inr response, t)
      | Some (Redirect to) \<Rightarrow>
          (case redirects of
             0 \<Rightarrow> (failed, t)
           | Suc n \<Rightarrow> if https_url env to then send_request env n to t else (failed, t)))"

definition request ::
  "artifact_env \<Rightarrow> string \<Rightarrow> (store, artifact_error, http_response) action"
where
  "request env url =
     (if https_url env url then send_request env max_redirects url
      else fail (ArtifactError ''artifact download failed''))"

definition check_origin :: "artifact_env \<Rightarrow> artifact_spec \<Rightarrow> artifact_error + unit" where
  "check_origin env a =
     and_then (ok_or (ArtifactError ''curated artifact URL is invalid'') (en_url env (ar_url a))) (\<lambda>(scheme, host).
       if scheme \<noteq> ''https'' \<or> host \<noteq> Some ''github.com''
       then Inl (ArtifactError ''curated artifact origin is not permitted'')
       else Inr ())"

definition download ::
  "artifact_env \<Rightarrow> path \<Rightarrow> artifact_spec \<Rightarrow> string \<Rightarrow> (store, artifact_error, unit) action"
where
  "download env base a archive =
     (let downloads = base @ [''downloads''];
          staging_failed = ArtifactError ''artifact download staging failed'' in
      bind_st (lift_res (check_origin env a)) (\<lambda>_.
      bind_st (request env (ar_url a)) (\<lambda>response.
        if hr_content_length response \<noteq> None \<and> hr_content_length response \<noteq> Some (ar_size a)
        then fail (ArtifactError ''artifact download size mismatch'')
        else
          bind_st (unique_suffix env) (\<lambda>tick.
          let partial = downloads @ [with_extension archive (unique_name env ''partial'' tick)] in
          bind_st (on_disk (io staging_failed (fs_create_new partial))) (\<lambda>_.
          bind_st (on_disk (receive partial (ar_size a) 0 [] (hr_chunks response))) (\<lambda>(len, hashed).
          bind_st (on_disk (io staging_failed fs_sync)) (\<lambda>_.
            if len \<noteq> ar_size a \<or> digest env hashed \<noteq> ar_sha256 a
            then bind_st (recover_path env partial (base @ [''recovery'']) ''download'') (\<lambda>_.
                   fail (ArtifactError ''artifact download integrity mismatch''))
            else on_disk (io (ArtifactError ''artifact archive activation failed'')
                   (fs_rename partial (downloads @ [archive]))))))))))"

section \<open>Installation\<close>

definition archive_name :: "artifact_spec \<Rightarrow> string" where
  "archive_name a = ar_id a @ ''-'' @ ar_sha256 a @ ''.tar.bz2''"

text \<open>
  The archive is in \<open>downloads\<close>, verified if it was there already; an invalid one is set aside.
\<close>

definition ensure_archive ::
  "artifact_env \<Rightarrow> path \<Rightarrow> artifact_spec \<Rightarrow> (store, artifact_error, unit) action"
where
  "ensure_archive env base a =
     (let archive = base @ [''downloads'', archive_name a] in
      bind_st (on_disk (fs_exists archive)) (\<lambda>present.
      bind_st
        (if present then
           bind_st (blocking ''archive verification worker failed''
             (verify_archive_file env archive (ar_size a) (ar_sha256 a))) (\<lambda>valid.
             case valid of
               Inr _ \<Rightarrow> ret ()
             | Inl _ \<Rightarrow> recover_path env archive (base @ [''recovery'']) ''archive'')
         else ret ()) (\<lambda>_.
      bind_st (on_disk (fs_exists archive)) (\<lambda>present.
        if present then ret () else download env base a (archive_name a)))))"

text \<open>A step on the staging directory, which is set aside when the step fails.\<close>

definition staged ::
  "artifact_env \<Rightarrow> path \<Rightarrow> path \<Rightarrow> artifact_error + unit \<Rightarrow> (store, artifact_error, unit) action"
where
  "staged env base staging outcome =
     (case outcome of
        Inr _ \<Rightarrow> ret ()
      | Inl e \<Rightarrow> bind_st (recover_path env staging (base @ [''recovery'']) ''staging'') (\<lambda>_. fail e))"

definition unpack_object ::
  "artifact_env \<Rightarrow> path \<Rightarrow> artifact_spec \<Rightarrow> (store, artifact_error, path) action"
where
  "unpack_object env base a =
     bind_st (unique_suffix env) (\<lambda>tick.
     let staging = base @ [''staging'', unique_name env (ar_id a) tick] in
     bind_st (on_disk (io (ArtifactError ''artifact staging directory could not be created'')
       (fs_mkdir staging))) (\<lambda>_.
     bind_st (blocking ''artifact extraction worker failed''
       (extract_verified_archive env (base @ [''downloads'', archive_name a]) staging a)) (\<lambda>extraction.
     bind_st (staged env base staging extraction) (\<lambda>_.
       ret staging))))"

definition install ::
  "artifact_env \<Rightarrow> path \<Rightarrow> artifact_spec \<Rightarrow> (store, artifact_error, unit) action"
where
  "install env base a =
     bind_st (unpack_object env base a) (\<lambda>staging.
     bind_st (blocking ''artifact verification worker failed'' (verify_object env staging a)) (\<lambda>verification.
     bind_st (staged env base staging verification) (\<lambda>_.
       on_disk (io (ArtifactError ''artifact activation failed'')
         (fs_rename staging (object_path base a))))))"

definition ensure_artifact ::
  "artifact_env \<Rightarrow> path \<Rightarrow> bool \<Rightarrow> artifact_spec \<Rightarrow> (store, artifact_error, string) action"
where
  "ensure_artifact env base offline a =
     (let target = object_path base a in
      bind_st (on_disk (fs_exists target)) (\<lambda>present.
      bind_st
        (if present then
           bind_st (blocking ''artifact verification worker failed'' (verify_object env target a)) (\<lambda>valid.
             case valid of
               Inr _ \<Rightarrow> ret True
             | Inl _ \<Rightarrow>
                 bind_st (recover_path env target (base @ [''recovery'']) ''object'') (\<lambda>_. ret False))
         else ret False) (\<lambda>verified.
        if verified then ret ''verified''
        else if offline
        then fail (ArtifactError ''offline setup requires a complete verified artifact profile'')
        else bind_st (ensure_archive env base a) (\<lambda>_.
             bind_st (install env base a) (\<lambda>_. ret ''installed'')))))"

section \<open>Setup and inspection\<close>

record artifact_result =
  re_id :: string
  re_kind :: string
  re_state :: string

record setup_report =
  rp_profile :: string
  rp_platform :: string
  rp_status :: string
  rp_artifacts :: "artifact_result list"

definition profile_of :: "artifact_env \<Rightarrow> artifact_error + curated_manifest \<times> string \<times> artifact_spec list" where
  "profile_of env =
     and_then (parse_manifest (en_manifest env)) (\<lambda>m.
     and_then (current_platform (en_os env) (en_arch env)) (\<lambda>platform.
     and_then (select_artifacts m platform) (\<lambda>selected. Inr (m, platform, selected))))"

fun ensure_all ::
  "artifact_env \<Rightarrow> path \<Rightarrow> bool \<Rightarrow> artifact_spec list \<Rightarrow> (store, artifact_error, artifact_result list) action"
where
  "ensure_all env base offline [] = ret []"
| "ensure_all env base offline (a # as) =
     bind_st (ensure_artifact env base offline a) (\<lambda>state.
     bind_st (ensure_all env base offline as) (\<lambda>results.
       ret (\<lparr>re_id = ar_id a, re_kind = ar_kind a, re_state = state\<rparr> # results)))"

definition setup_storage :: "path \<Rightarrow> (store, artifact_error, unit) action" where
  "setup_storage base =
     (let create = (\<lambda>n. on_disk (io (ArtifactError ''artifact storage initialization failed'')
            (fs_create_dir_all (base @ [n])))) in
      bind_st (create ''objects'') (\<lambda>_.
      bind_st (create ''downloads'') (\<lambda>_.
      bind_st (create ''staging'') (\<lambda>_.
      bind_st (create ''recovery'') (\<lambda>_.
      bind_st (on_disk (io (ArtifactError ''artifact setup lock could not be opened'')
        (fs_open_or_create (base @ [''.setup.lock''])))) (\<lambda>_.
        on_disk (io (ArtifactError ''artifact setup lock could not be acquired'') fs_sync)))))))"

definition store_setup ::
  "artifact_env \<Rightarrow> path \<Rightarrow> bool \<Rightarrow> (store, artifact_error, setup_report) action"
where
  "store_setup env base offline =
     bind_st (lift_res (profile_of env)) (\<lambda>(m, platform, selected).
     bind_st (setup_storage base) (\<lambda>_.
     bind_st (ensure_all env base offline selected) (\<lambda>results.
       ret \<lparr>rp_profile = cm_profile m, rp_platform = platform, rp_status = ''ready'',
            rp_artifacts = results\<rparr>)))"

text \<open>The state of one object, and whether it leaves the profile ready.\<close>

definition object_state ::
  "artifact_env \<Rightarrow> path \<Rightarrow> artifact_spec \<Rightarrow> (disk, artifact_error, string) action"
where
  "object_state env base a =
     bind_st (fs_exists (object_path base a)) (\<lambda>present d.
       if \<not> present then (Inr ''missing'', d)
       else case verify_object env (object_path base a) a d of
              (Inr _, d) \<Rightarrow> (Inr ''verified'', d)
            | (Inl _, d) \<Rightarrow> (Inr ''invalid'', d))"

fun object_states ::
  "artifact_env \<Rightarrow> path \<Rightarrow> artifact_spec list \<Rightarrow> (disk, artifact_error, artifact_result list) action"
where
  "object_states env base [] = ret []"
| "object_states env base (a # as) =
     bind_st (object_state env base a) (\<lambda>state.
     bind_st (object_states env base as) (\<lambda>results.
       ret (\<lparr>re_id = ar_id a, re_kind = ar_kind a, re_state = state\<rparr> # results)))"

definition store_status :: "artifact_env \<Rightarrow> path \<Rightarrow> (disk, artifact_error, setup_report) action" where
  "store_status env base =
     bind_st (lift_res (profile_of env)) (\<lambda>(m, platform, selected).
     bind_st (object_states env base selected) (\<lambda>results.
       ret \<lparr>rp_profile = cm_profile m, rp_platform = platform,
            rp_status = (if \<forall>r\<in>set results. re_state r = ''verified'' then ''ready'' else ''not-ready''),
            rp_artifacts = results\<rparr>))"

definition verified_kind_path ::
  "artifact_env \<Rightarrow> path \<Rightarrow> artifact_spec list \<Rightarrow> string \<Rightarrow> (disk, artifact_error, path) action"
where
  "verified_kind_path env base selected kind =
     bind_st (lift_res (find_kind selected kind)) (\<lambda>a.
     bind_st (verify_object env (object_path base a) a) (\<lambda>_. ret (object_path base a)))"

definition verified_profile_of ::
  "artifact_env \<Rightarrow> path \<Rightarrow> (disk, artifact_error, verified_profile) action"
where
  "verified_profile_of env base =
     bind_st (lift_res (profile_of env)) (\<lambda>(m, platform, selected).
     bind_st (verified_kind_path env base selected ''runtime'') (\<lambda>runtime.
     bind_st (verified_kind_path env base selected ''stt-model'') (\<lambda>stt.
     bind_st (verified_kind_path env base selected ''tts-model'') (\<lambda>tts.
       ret \<lparr>vp_runtime = runtime, vp_stt = stt, vp_tts = tts\<rparr>))))"

end
