(* ===== verification/Artifact_Verify.thy ===== *)
theory Artifact_Verify
  imports Artifact_Store
begin

text \<open>
  What a successful \<open>verify_object\<close> of
  \<open>crates/impossible-voice-artifacts/src/lib.rs\<close> guarantees about the directory it was
  asked about.
\<close>

section \<open>Reading leaves the disk alone\<close>

definition reads_only :: "(disk, 'e, 'a) action \<Rightarrow> bool" where
  "reads_only m \<longleftrightarrow> (\<forall>d. dk_entries (snd (m d)) = dk_entries d)"

named_theorems reading \<open>actions that read only\<close>

lemma reads_only_basic [reading]: "reads_only (ret a)" "reads_only (fail e)" "reads_only (lift_res r)"
  by (simp_all add: reads_only_def)

lemma reads_only_bind [reading]:
  "reads_only m \<Longrightarrow> (\<And>a. reads_only (f a)) \<Longrightarrow> reads_only (bind_st m f)"
  unfolding reads_only_def by (auto simp: bind_st_def split: prod.split sum.split) (metis snd_conv)+

lemma reads_only_io: "(\<And>E a E'. f E = Some (a, E') \<Longrightarrow> E' = E) \<Longrightarrow> reads_only (io e f)"
  by (auto simp: reads_only_def io_def Let_def split: option.splits)

lemma reads_only_ops [reading]:
  "reads_only (io e (fs_metadata p))" "reads_only (io e (fs_read p))" "reads_only (io e (fs_read_dir p))"
  "reads_only (io e (fs_file_type p n))" "reads_only (io e fs_sync)"
  by (rule reads_only_io; auto simp: fs_metadata_def fs_read_def fs_read_dir_def fs_file_type_def fs_sync_def
      split: option.splits entry.splits if_splits)+

lemma reads_only_exists [reading]: "reads_only (fs_exists p)"
  using reads_only_ops(1) [of "()" p]
  by (auto simp: reads_only_def fs_exists_def split: prod.split sum.split) (metis snd_conv)+

lemma reads_only_if [reading]: "reads_only m \<Longrightarrow> reads_only m' \<Longrightarrow> reads_only (if b then m else m')"
  by simp

lemma reads_only_entries:
  "reads_only (inventory_entries base dir ns found)"
proof (induction ns arbitrary: found)
  case Nil
  then show ?case by (auto simp: reads_only_def)
next
  case (Cons n ns)
  obtain pending files where found: "found = (pending, files)" by fastforce
  show ?case
    unfolding found inventory_entries.simps
    by (intro reading) (auto intro!: reading Cons.IH split: entry.split)
qed

lemma reads_only_inventory: "dk_entries (snd (inventory base pending files d)) = dk_entries d"
proof (induction base pending files d rule: inventory.induct)
  case (2 base dir pending files d)
  show ?case
    using 2 reads_only_ops(3) [of "ArtifactError ''installed artifact could not be inventoried''" dir]
      reads_only_entries [of base dir _ "(pending, files)"]
    by (auto simp: reads_only_def split: prod.split sum.split) (metis snd_conv)+
qed simp

lemma reads_only_verify [reading]:
  "reads_only (verify_archive_file env p n sha)" "reads_only (inventory_files base)"
  "reads_only (verify_files env base fs expected)" "reads_only (verify_required base ps)"
proof -
  show v: "reads_only (verify_archive_file env p n sha)" for p n sha
    unfolding verify_archive_file_def Let_def split_beta by (intro reading)
  show "reads_only (inventory_files base)"
    unfolding reads_only_def inventory_files_def using reads_only_inventory by blast
  show "reads_only (verify_files env base fs expected)"
    by (induction fs arbitrary: expected) (auto intro!: reading v)
  show "reads_only (verify_required base ps)"
  proof (induction ps)
    case Nil
    show ?case by (simp add: reads_only_def)
  next
    case (Cons p ps)
    then show ?case unfolding verify_required.simps by (intro reading)
  qed
qed

lemma reads_only_object [reading]: "reads_only (verify_object env base a)"
  unfolding verify_object_def by (intro reading)

lemma reads_onlyD: "reads_only m \<Longrightarrow> m d = (r, d') \<Longrightarrow> dk_entries d' = dk_entries d"
  by (metis reads_only_def snd_conv)

section \<open>What the inventory finds\<close>

abbreviation relative_to :: "path \<Rightarrow> path \<Rightarrow> artifact_error + string" where
  "relative_to base p \<equiv> path_text (drop (length base) p)"

definition listed :: "entries \<Rightarrow> path \<Rightarrow> path \<Rightarrow> string \<Rightarrow> bool" where
  "listed E base p t \<longleftrightarrow>
     (\<exists>b. entry_at E p = Some (EFile b)) \<and> relative_to base p = Inr t \<and> t \<noteq> installation_file"

definition counted :: "entries \<Rightarrow> path \<Rightarrow> string set \<Rightarrow> path \<Rightarrow> bool" where
  "counted E base files p \<longleftrightarrow>
     (case entry_at E p of
        Some EDir \<Rightarrow> True
      | Some (EFile b) \<Rightarrow> (case relative_to base p of Inr t \<Rightarrow> t = installation_file \<or> t \<in> files | Inl _ \<Rightarrow> False)
      | _ \<Rightarrow> False)"

lemma counted_mono: "counted E base files p \<Longrightarrow> files \<subseteq> files' \<Longrightarrow> counted E base files' p"
  by (auto simp: counted_def split: option.splits entry.splits sum.splits)

lemma inventory_entries_found:
  assumes "inventory_entries base dir ns (pending, files) d = (Inr (pending', files'), d')"
    and "real_dir (dk_entries d) dir"
  shows "(\<forall>n\<in>set ns. counted (dk_entries d) base files' (dir @ [n])
        \<and> (entry_at (dk_entries d) (dir @ [n]) = Some EDir \<longrightarrow> dir @ [n] \<in> set pending'))
    \<and> set pending \<subseteq> set pending' \<and> files \<subseteq> files'
    \<and> (\<forall>p\<in>set pending'. p \<in> set pending \<or> (\<exists>n. p = dir @ [n] \<and> entry_at (dk_entries d) p = Some EDir))
    \<and> (\<forall>t\<in>files'. t \<in> files \<or> (\<exists>n. listed (dk_entries d) base (dir @ [n]) t))"
  using assms
proof (induction ns arbitrary: pending files d)
  case Nil
  then show ?case by simp
next
  case (Cons n ns)
  from Cons.prems(1) [unfolded inventory_entries.simps bind_st_Inr_iff [where b = "(pending', files')"]]
  obtain e d1 where io: "io (ArtifactError ''installed artifact could not be inventoried'')
      (fs_file_type dir n) d = (Inr e, d1)"
    and rest: "(case e of
         ELink _ \<Rightarrow> fail (ArtifactError ''installed artifact contains a redirected path'')
       | EDir \<Rightarrow> inventory_entries base dir ns ((dir @ [n]) # pending, files)
       | EFile _ \<Rightarrow>
           bind_st (lift_res (relative_to base (dir @ [n]))) (\<lambda>t.
             inventory_entries base dir ns
               (pending, if t \<noteq> installation_file then insert t files else files))
       | EOther \<Rightarrow> fail (ArtifactError ''installed artifact contains an unsupported entry'')) d1
      = (Inr (pending', files'), d')"
    by blast
  have E: "dk_entries d1 = dk_entries d" using reads_onlyD [OF reads_only_ops(4) io] .
  have e: "entry_at (dk_entries d) (dir @ [n]) = Some e"
    using io_Inr [OF io] resolve_real(2) [OF Cons.prems(2)]
    by (auto simp: fs_file_type_def split: option.splits)
  note IH = Cons.IH [of _ _ d1, unfolded E, OF _ Cons.prems(2)]
  show ?case
  proof (cases e)
    case (EFile b)
    with rest obtain t where t: "relative_to base (dir @ [n]) = Inr t"
      "inventory_entries base dir ns
         (pending, if t \<noteq> installation_file then insert t files else files) d1
       = (Inr (pending', files'), d')"
      by (auto simp: bind_st_Inr_iff simp del: drop_append)
    from IH [OF t(2)] have ih: "\<forall>n\<in>set ns. counted (dk_entries d) base files' (dir @ [n])
        \<and> (entry_at (dk_entries d) (dir @ [n]) = Some EDir \<longrightarrow> dir @ [n] \<in> set pending')"
      "set pending \<subseteq> set pending'" "(if t \<noteq> installation_file then insert t files else files) \<subseteq> files'"
      "\<forall>p\<in>set pending'. p \<in> set pending \<or> (\<exists>n. p = dir @ [n] \<and> entry_at (dk_entries d) p = Some EDir)"
      "\<forall>t'\<in>files'. t' \<in> (if t \<noteq> installation_file then insert t files else files)
         \<or> (\<exists>n. listed (dk_entries d) base (dir @ [n]) t')"
      by blast+
    have "counted (dk_entries d) base files' (dir @ [n])"
      using e EFile t(1) ih(3) by (auto simp: counted_def simp del: drop_append split: if_splits)
    moreover have "t \<noteq> installation_file \<Longrightarrow> listed (dk_entries d) base (dir @ [n]) t"
      using e EFile t(1) by (simp add: listed_def del: drop_append)
    ultimately show ?thesis using ih e EFile by (auto split: if_splits)
  next
    case EDir
    with rest have "inventory_entries base dir ns ((dir @ [n]) # pending, files) d1
        = (Inr (pending', files'), d')" by simp
    from IH [OF this] show ?thesis
      using e EDir by (auto simp: counted_def)
  qed (use rest in auto)
qed

lemma inventory_found:
  assumes "inventory base pending files d = (Inr found, d')" and "wf_fs (dk_entries d)"
    and "\<forall>p\<in>set pending. real_dir (dk_entries d) p \<and> prefix base p"
  shows "(\<forall>p\<in>set pending. \<forall>q. q \<noteq> [] \<longrightarrow> entry_at (dk_entries d) (p @ q) \<noteq> None
        \<longrightarrow> counted (dk_entries d) base found (p @ q))
    \<and> files \<subseteq> found
    \<and> (\<forall>t\<in>found. t \<in> files \<or> (\<exists>p\<in>set pending. \<exists>q. q \<noteq> [] \<and> listed (dk_entries d) base (p @ q) t))"
  using assms
proof (induction base pending files d rule: inventory.induct)
  case (1 base files d)
  then show ?case by simp
next
  case (2 base dir pending files d)
  let ?E = "dk_entries d"
  from "2.prems"(1) obtain names d1 pending1 files1 d2 where
    io: "io (ArtifactError ''installed artifact could not be inventoried'') (fs_read_dir dir) d = (Inr names, d1)"
    and entries: "inventory_entries base dir names (pending, files) d1 = (Inr (pending1, files1), d2)"
    and rest: "inventory base pending1 files1 d2 = (Inr found, d')"
    by (auto split: prod.splits sum.splits)
  have E1: "dk_entries d1 = ?E" using reads_onlyD [OF reads_only_ops(3) io] .
  have E2: "dk_entries d2 = ?E" using reads_onlyD [OF reads_only_entries entries] E1 by simp
  have dir: "real_dir ?E dir" "prefix base dir" using "2.prems"(3) by simp_all
  have names: "n \<in> set names \<longleftrightarrow> entry_at ?E (dir @ [n]) \<noteq> None" for n
    using io_Inr [OF io] resolve_real(2) [OF dir(1)] child_names_iff [of n ?E dir]
    by (auto simp: fs_read_dir_def split: if_splits option.splits)
  from inventory_entries_found [OF entries, unfolded E1, OF dir(1)]
  have here: "\<forall>n\<in>set names. counted ?E base files1 (dir @ [n])
        \<and> (entry_at ?E (dir @ [n]) = Some EDir \<longrightarrow> dir @ [n] \<in> set pending1)"
    and sub: "set pending \<subseteq> set pending1" "files \<subseteq> files1"
    and new: "\<forall>p\<in>set pending1. p \<in> set pending \<or> (\<exists>n. p = dir @ [n] \<and> entry_at ?E p = Some EDir)"
    and listed: "\<forall>t\<in>files1. t \<in> files \<or> (\<exists>n. listed ?E base (dir @ [n]) t)"
    by blast+
  have "\<forall>p\<in>set pending1. real_dir ?E p \<and> prefix base p"
    using new "2.prems"(3) dir real_dir_snoc prefix_order.trans by fastforce
  from "2.IH" [OF io [symmetric] refl entries [symmetric] refl refl rest, unfolded E2, OF "2.prems"(2) this]
  have IH: "\<forall>p\<in>set pending1. \<forall>q. q \<noteq> [] \<longrightarrow> entry_at ?E (p @ q) \<noteq> None \<longrightarrow> counted ?E base found (p @ q)"
    and found: "files1 \<subseteq> found"
      "\<forall>t\<in>found. t \<in> files1 \<or> (\<exists>p\<in>set pending1. \<exists>q. q \<noteq> [] \<and> listed ?E base (p @ q) t)"
    by blast+
  have below: "counted ?E base found (dir @ q)" if "q \<noteq> []" "entry_at ?E (dir @ q) \<noteq> None" for q
  proof -
    obtain n r where q: "q = n # r" using \<open>q \<noteq> []\<close> by (cases q) auto
    show ?thesis
    proof (cases "r = []")
      case True
      with that q names here have "counted ?E base files1 (dir @ q)" by auto
      then show ?thesis using found(1) by (rule counted_mono)
    next
      case False
      then have sub: "entry_at ?E (dir @ [n]) = Some EDir"
        using wf_fs_prefix [OF "2.prems"(2), of "dir @ [n]" r] that q by simp
      with names here have "dir @ [n] \<in> set pending1" by auto
      with IH False that q show ?thesis by (metis append.assoc append_Cons append_Nil)
    qed
  qed
  have "t \<in> files \<or> (\<exists>p\<in>set (dir # pending). \<exists>q. q \<noteq> [] \<and> listed ?E base (p @ q) t)" if t: "t \<in> found" for t
  proof -
    from found(2) t consider "t \<in> files1" | p q where "p \<in> set pending1" "q \<noteq> []" "listed ?E base (p @ q) t"
      by blast
    then show ?thesis
    proof cases
      case 1
      with listed show ?thesis by (metis list.set_intros(1) not_Cons_self2)
    next
      case 2
      with new consider "p \<in> set pending" | n where "p = dir @ [n]" by blast
      then show ?thesis
      proof cases
        case 1
        with 2 show ?thesis by auto
      next
        case (2 n)
        with \<open>listed ?E base (p @ q) t\<close> have "listed ?E base (dir @ ([n] @ q)) t" by simp
        then show ?thesis by (metis append_is_Nil_conv list.set_intros(1) not_Cons_self2)
      qed
    qed
  qed
  with below IH sub found(1) show ?case by (auto 0 3)
qed

section \<open>Intact objects\<close>

text \<open>
  An object is intact when its inventory belongs to the artifact, the files it lists exist with the
  recorded sizes and digests, nothing else is there (no link, no other object, no file with an
  unlisted name), and the required paths exist.
\<close>

definition listed_file_intact :: "artifact_env \<Rightarrow> entries \<Rightarrow> path \<Rightarrow> installed_file \<Rightarrow> bool" where
  "listed_file_intact env E base f \<longleftrightarrow>
     (case entry_at E (join_path base (if_path f)) of
        Some (EFile b) \<Rightarrow> length b = if_size f \<and> digest env b = if_sha256 f
      | _ \<Rightarrow> False)
     \<and> safe_relative_path (if_path f) = Inr ()"

definition object_intact :: "artifact_env \<Rightarrow> entries \<Rightarrow> path \<Rightarrow> artifact_spec \<Rightarrow> bool" where
  "object_intact env E base a \<longleftrightarrow>
     (\<exists>marker i. entry_at E (base @ [installation_file]) = Some (EFile marker)
        \<and> en_decode env marker = Some i \<and> identity_matches a i
        \<and> list_all (listed_file_intact env E base) (in_files i)
        \<and> (\<forall>q. q \<noteq> [] \<longrightarrow> entry_at E (base @ q) \<noteq> None \<longrightarrow> counted E base (if_path ` set (in_files i)) (base @ q))
        \<and> list_all (\<lambda>p. entry_at E (join_path base p) \<noteq> None) (ar_required_paths a))"

text \<open>The manifest is accepted only when the required paths are safe relative paths.\<close>

definition paths_safe :: "artifact_spec \<Rightarrow> bool" where
  "paths_safe a \<longleftrightarrow> list_all (\<lambda>p. safe_relative_path p = Inr ()) (ar_required_paths a)"

lemma no_links_counted:
  assumes "entry_at E base = Some EDir"
    and "\<forall>q. q \<noteq> [] \<longrightarrow> entry_at E (base @ q) \<noteq> None \<longrightarrow> counted E base files (base @ q)"
  shows "no_links_below E base"
  unfolding no_links_below_def
proof (intro allI notI)
  fix q t assume "entry_at E (base @ q) = Some (ELink t)"
  with assms show False by (cases "q = []") (auto simp: counted_def)
qed

lemma lookup_below:
  assumes "real_dir E base" and "no_links_below E base" and "lookup E (base @ q) = Some e"
  shows "entry_at E (base @ q) = Some e"
  using assms canon_below [OF assms(2)] resolve_real(1) [OF assms(1)]
  by (auto simp: lookup_def split: option.splits)

lemma lookup_safe:
  assumes "real_dir E base" and "no_links_below E base" and "safe_relative_path p = Inr ()"
    and "lookup E (join_path base p) = Some e"
  shows "entry_at E (join_path base p) = Some e"
  using assms(3) by (rule safe_relative_path_names) (use lookup_below [OF assms(1,2)] assms(4) in simp)

lemma verify_archive_file_Inr:
  assumes "verify_archive_file env p n sha d = (Inr (), d')"
  shows "\<exists>b. lookup (dk_entries d) p = Some (EFile b) \<and> length b = n \<and> digest env b = sha"
proof -
  from assms obtain is_file len d1 b d2 where
    m: "io (ArtifactError ''artifact archive could not be inspected'') (fs_metadata p) d = (Inr (is_file, len), d1)"
    and r: "io (ArtifactError ''artifact archive could not be inspected'') (fs_read p) d1 = (Inr b, d2)"
    and c: "is_file" "len = n" "digest env b = sha"
    by (auto simp: verify_archive_file_def Let_def bind_st_Inr_iff split: if_splits)
  have "dk_entries d1 = dk_entries d" using reads_onlyD [OF reads_only_ops(1) m] .
  with io_Inr [OF m] io_Inr [OF r] c show ?thesis
    by (auto simp: fs_metadata_def fs_read_def split: option.splits entry.splits)
qed

lemma verify_files_Inr:
  assumes "verify_files env base fs expected d = (Inr found, d')"
  shows "found = expected \<union> if_path ` set fs
    \<and> (\<forall>f\<in>set fs. safe_relative_path (if_path f) = Inr ()
        \<and> (\<exists>b. lookup (dk_entries d) (join_path base (if_path f)) = Some (EFile b)
             \<and> length b = if_size f \<and> digest env b = if_sha256 f))"
  using assms
proof (induction fs arbitrary: expected d)
  case (Cons f fs)
  then obtain d1 where v: "verify_archive_file env (join_path base (if_path f)) (if_size f) (if_sha256 f) d = (Inr (), d1)"
    and rest: "verify_files env base fs (insert (if_path f) expected) d1 = (Inr found, d')"
    and safe: "safe_relative_path (if_path f) = Inr ()"
    by (auto simp: bind_st_Inr_iff split: if_splits)
  have "dk_entries d1 = dk_entries d" using reads_onlyD [OF reads_only_verify(1) v] .
  with Cons.IH [OF rest] verify_archive_file_Inr [OF v] safe show ?case by auto
qed simp

lemma verify_required_Inr:
  "verify_required base ps d = (Inr (), d') \<Longrightarrow> \<forall>p\<in>set ps. lookup (dk_entries d) (join_path base p) \<noteq> None"
proof (induction ps arbitrary: d)
  case (Cons p ps)
  then obtain d1 where x: "fs_exists (join_path base p) d = ((Inr True :: artifact_error + bool), d1)"
    and rest: "verify_required base ps d1 = (Inr (), d')"
    by (auto simp: bind_st_Inr_iff split: if_splits)
  have "dk_entries d1 = dk_entries d" using reads_onlyD [OF reads_only_exists x] .
  moreover have "lookup (dk_entries d) (join_path base p) \<noteq> None"
    using x by (auto simp: fs_exists_def fs_metadata_def dest!: io_Inr split: prod.splits sum.splits option.splits)
  ultimately show ?case using Cons.IH [OF rest] by auto
qed simp

lemma verify_object_intact:
  assumes "verify_object env base a d = (Inr (), d')" and "wf_fs (dk_entries d)"
    and "real_dir (dk_entries d) base" and "paths_safe a"
  shows "object_intact env (dk_entries d) base a"
proof -
  let ?E = "dk_entries d"
  from assms(1) obtain marker d1 i expected d2 actual d3 where
    marker: "io (ArtifactError ''installation inventory is missing'') (fs_read (base @ [installation_file])) d = (Inr marker, d1)"
    and i: "en_decode env marker = Some i" "identity_matches a i"
    and files: "verify_files env base (in_files i) {} d1 = (Inr expected, d2)"
    and inv: "inventory_files base d2 = (Inr actual, d3)" "actual = expected"
    and required: "verify_required base (ar_required_paths a) d3 = (Inr (), d')"
    unfolding verify_object_def
    by (auto simp: bind_st_Inr_iff ok_or_def split: if_splits option.splits)
  have E1: "dk_entries d1 = ?E" using reads_onlyD [OF reads_only_ops(2) marker] .
  have E2: "dk_entries d2 = ?E" using reads_onlyD [OF reads_only_verify(3) files] E1 by simp
  have E3: "dk_entries d3 = ?E" using reads_onlyD [OF reads_only_verify(2) inv(1)] E2 by simp
  have base: "entry_at ?E base = Some EDir" using assms(3) by (simp add: real_dir_def)
  from verify_files_Inr [OF files, unfolded E1] have paths: "expected = if_path ` set (in_files i)"
    and vf: "\<forall>f\<in>set (in_files i). safe_relative_path (if_path f) = Inr ()
        \<and> (\<exists>b. lookup ?E (join_path base (if_path f)) = Some (EFile b)
             \<and> length b = if_size f \<and> digest env b = if_sha256 f)"
    by auto
  have counted: "\<forall>q. q \<noteq> [] \<longrightarrow> entry_at ?E (base @ q) \<noteq> None \<longrightarrow> counted ?E base expected (base @ q)"
    using inventory_found [OF inv(1) [unfolded inventory_files_def], unfolded E2, OF assms(2)] assms(3) inv(2)
    by simp
  note below = lookup_below [OF assms(3) no_links_counted [OF base counted]]
  note safe = lookup_safe [OF assms(3) no_links_counted [OF base counted]]
  have "lookup ?E (base @ [installation_file]) = Some (EFile marker)"
    using io_Inr [OF marker] by (auto simp: fs_read_def split: option.splits entry.splits)
  moreover have "list_all (listed_file_intact env ?E base) (in_files i)"
    using vf safe by (fastforce simp: list_all_iff listed_file_intact_def)
  moreover have "list_all (\<lambda>p. entry_at ?E (join_path base p) \<noteq> None) (ar_required_paths a)"
    using verify_required_Inr [OF required, unfolded E3] safe assms(4)
    by (fastforce simp: list_all_iff paths_safe_def)
  ultimately show ?thesis
    using i below counted paths unfolding object_intact_def by blast
qed

section \<open>Properties\<close>

definition ordinary_name :: "string \<Rightarrow> bool" where
  "ordinary_name n \<longleftrightarrow> safe_name n \<and> CHR 0x5C \<notin> set n"

lemma path_text_ordinary:
  assumes "list_all ordinary_name q" and "path_text q = Inr t"
  shows "t = joined (CHR ''/'') q"
proof -
  have "CHR 0x5C \<notin> set (joined (CHR ''/'') q)"
    using assms(1) by (induction "CHR ''/''" q rule: joined.induct) (auto simp: ordinary_name_def)
  then have "map (\<lambda>c. if c = CHR 0x5C then CHR ''/'' else c) (joined (CHR ''/'') q) = joined (CHR ''/'') q"
    by (intro map_idI) auto
  with assms(2) show ?thesis by (simp add: path_text_def Let_def split: if_splits)
qed

text \<open>A file with ordinary names is listed under its own path.\<close>

lemma ordinary_file_listed:
  assumes counted: "\<forall>q. q \<noteq> [] \<longrightarrow> entry_at E (base @ q) \<noteq> None
      \<longrightarrow> counted E base (if_path ` set fs) (base @ q)"
    and intact: "list_all (listed_file_intact env E base) fs" and dir: "entry_at E base = Some EDir"
    and q: "entry_at E (base @ q) = Some (EFile b)" "q \<noteq> [installation_file]" "list_all ordinary_name q"
  shows "\<exists>f\<in>set fs. if_path f = joined (CHR ''/'') q \<and> if_size f = length b \<and> if_sha256 f = digest env b"
proof -
  have ne: "q \<noteq> []" using q(1) dir by auto
  have safe: "list_all safe_name q" using q(3) by (auto simp: list_all_iff ordinary_name_def)
  have "counted E base (if_path ` set fs) (base @ q)" using counted ne q(1) by simp
  then obtain t where t: "path_text q = Inr t" "t = installation_file \<or> t \<in> if_path ` set fs"
    using q(1) by (auto simp: counted_def split: sum.splits)
  have tq: "t = joined (CHR ''/'') q" using path_text_ordinary q(3) t(1) by blast
  have "t \<noteq> installation_file"
  proof
    assume "t = installation_file"
    then have "split_on (CHR ''/'') (joined (CHR ''/'') q) = [installation_file]"
      using tq by (simp add: installation_file_def)
    moreover have "split_on (CHR ''/'') (joined (CHR ''/'') q) = q"
      using ne safe by (intro split_joined) (auto simp: list_all_iff safe_name_def)
    ultimately show False using q(2) by simp
  qed
  with t(2) obtain f where f: "f \<in> set fs" "if_path f = t" by blast
  with intact have "listed_file_intact env E base f" by (simp add: list_all_iff)
  then have "if_size f = length b" "if_sha256 f = digest env b"
    using q(1) by (simp_all add: listed_file_intact_def f(2) tq join_joined [OF ne safe])
  with f tq show ?thesis by blast
qed

text \<open>
  C23: verification is sound. When \<open>verify_object\<close> accepts a directory reached without
  links, it has changed nothing, and the directory is intact for the inventory its marker file decodes
  to: the inventory names the artifact and its archive's digest; every file it lists is there below the
  directory, with the recorded size and digest; the required paths exist; and nothing else is there: no
  link, no special file, and every file with ordinary names (no backslash, which the inventory reads as
  a separator) is the marker itself or has an entry of its own path in that inventory, so its content
  has the recorded size and digest.
\<close>

definition marked_installation :: "artifact_env \<Rightarrow> entries \<Rightarrow> path \<Rightarrow> installation option" where
  "marked_installation env E base =
     (case entry_at E (base @ [installation_file]) of
        Some (EFile marker) \<Rightarrow> en_decode env marker
      | _ \<Rightarrow> None)"

theorem verified_object_is_intact:
  assumes "verify_object env base a d = (Inr (), d')" and "wf_fs (dk_entries d)"
    and "real_dir (dk_entries d) base" and "paths_safe a"
  shows "dk_entries d' = dk_entries d \<and> object_intact env (dk_entries d) base a
    \<and> no_links_below (dk_entries d) base
    \<and> (\<exists>i. marked_installation env (dk_entries d) base = Some i \<and> identity_matches a i
        \<and> list_all (listed_file_intact env (dk_entries d) base) (in_files i)
        \<and> (\<forall>q b. entry_at (dk_entries d) (base @ q) = Some (EFile b) \<and> q \<noteq> [installation_file]
              \<and> list_all ordinary_name q
            \<longrightarrow> (\<exists>f\<in>set (in_files i). if_path f = joined (CHR ''/'') q
                  \<and> if_size f = length b \<and> if_sha256 f = digest env b)))"
proof -
  let ?E = "dk_entries d"
  have intact: "object_intact env ?E base a" using verify_object_intact [OF assms] .
  then obtain i where i: "marked_installation env ?E base = Some i" "identity_matches a i"
      "list_all (listed_file_intact env ?E base) (in_files i)"
    and counted: "\<forall>q. q \<noteq> [] \<longrightarrow> entry_at ?E (base @ q) \<noteq> None
        \<longrightarrow> counted ?E base (if_path ` set (in_files i)) (base @ q)"
    unfolding object_intact_def by (auto simp: marked_installation_def)
  have "\<exists>f\<in>set (in_files i). if_path f = joined (CHR ''/'') q
      \<and> if_size f = length b \<and> if_sha256 f = digest env b"
    if q: "entry_at ?E (base @ q) = Some (EFile b)" "q \<noteq> [installation_file]" "list_all ordinary_name q" for q b
    by (rule ordinary_file_listed [OF counted i(3) _ q]) (use assms(3) in \<open>simp add: real_dir_def\<close>)
  moreover have "no_links_below ?E base"
    using no_links_counted counted assms(3) by (simp add: real_dir_def)
  moreover have "dk_entries d' = dk_entries d" using reads_onlyD [OF reads_only_object assms(1)] .
  ultimately show ?thesis using intact i by blast
qed

text \<open>A small object: one file, hashed by the identity.\<close>

definition tiny_spec :: artifact_spec where
  "tiny_spec = linux_runtime\<lparr>ar_id := ''t'', ar_sha256 := ''00'', ar_required_paths := [''f'']\<rparr>"

definition tiny_installation :: installation where
  "tiny_installation = \<lparr>in_schema_version = 1, in_artifact_id = ''t'', in_archive_sha256 = ''00'',
     in_files = [\<lparr>if_path = ''f'', if_size = 1, if_sha256 = ''07''\<rparr>]\<rparr>"

definition tiny_env :: artifact_env where
  "tiny_env = \<lparr>en_manifest = None, en_os = ''linux'', en_arch = ''x86_64'', en_sha256 = (\<lambda>b. b),
     en_decode = (\<lambda>_. Some tiny_installation), en_encode = (\<lambda>_. None), en_untar = (\<lambda>_. None),
     en_url = (\<lambda>_. None), en_http = (\<lambda>_ _. None), en_process = 1, en_clock = (\<lambda>_. 0)\<rparr>"

definition tiny_disk :: disk where
  "tiny_disk = \<lparr>dk_entries = [([''o''], EDir), ([''o'', installation_file], EFile []), ([''o'', ''f''], EFile [7])],
     dk_faults = []\<rparr>"

lemma tiny_verifies: "verify_object tiny_env [''o''] tiny_spec tiny_disk = (Inr (), tiny_disk)"
  by (simp add: verify_object_def bind_st_def io_def Let_def fs_read_def lookup_def resolve_def max_links_def
      tiny_disk_def tiny_env_def tiny_spec_def tiny_installation_def entry_at_def installation_file_def
      identity_matches_def ok_or_def safe_relative_path_def path_components_def component_of_def
      is_absolute_def is_normal_def verify_archive_file_def fs_metadata_def join_path_def digest_def
      hex_digest_def hex_char_def inventory_files_def fs_read_dir_def child_names_def fs_file_type_def
      path_text_def utf8_def fs_exists_def char_of_def bit_0)

theorem verified_object_is_intact_witness:
  "object_intact tiny_env (dk_entries tiny_disk) [''o''] tiny_spec"
proof -
  have "wf_fs (dk_entries tiny_disk)"
    by (simp add: wf_fs_def tiny_disk_def entry_at_def installation_file_def)
  moreover have "real_dir (dk_entries tiny_disk) [''o'']"
    by (auto simp: real_dir_def prefix_Cons tiny_disk_def entry_at_def)
  moreover have "paths_safe tiny_spec"
    by (simp add: paths_safe_def tiny_spec_def safe_relative_path_def path_components_def component_of_def
        is_absolute_def is_normal_def)
  ultimately show ?thesis using verified_object_is_intact [OF tiny_verifies] by blast
qed

text \<open>
  Ordinary names matter: on Unix a backslash is part of a name, but the inventory reads it as a
  separator. A file whose name aliases a listed path that way is accepted, whatever it holds.
\<close>

definition alias_disk :: "u8 list \<Rightarrow> disk" where
  "alias_disk bytes =
     \<lparr>dk_entries = [([''o''], EDir), ([''o'', installation_file], EFile []), ([''o'', ''d''], EDir),
        ([''o'', ''d'', ''f''], EFile [7]), ([''o'', ''d'' @ [CHR 0x5C] @ ''f''], EFile bytes)],
      dk_faults = []\<rparr>"

lemma backslash_alias_accepted:
  "verify_object
     (tiny_env\<lparr>en_decode := \<lambda>_. Some (tiny_installation\<lparr>in_files := [\<lparr>if_path = ''d/f'', if_size = 1, if_sha256 = ''07''\<rparr>]\<rparr>)\<rparr>)
     [''o''] (tiny_spec\<lparr>ar_required_paths := [''d'']\<rparr>) (alias_disk bytes) = (Inr (), alias_disk bytes)"
  by (simp add: verify_object_def bind_st_def io_def Let_def fs_read_def lookup_def resolve_def max_links_def
      alias_disk_def tiny_env_def tiny_spec_def tiny_installation_def entry_at_def installation_file_def
      identity_matches_def ok_or_def safe_relative_path_def path_components_def component_of_def
      is_absolute_def is_normal_def verify_archive_file_def fs_metadata_def join_path_def digest_def
      hex_digest_def hex_char_def inventory_files_def fs_read_dir_def child_names_def fs_file_type_def
      path_text_def utf8_def fs_exists_def char_of_def bit_0)

end
