(* ===== verification/Artifact_Extract.thy ===== *)
theory Artifact_Extract
  imports Artifact_Verify
begin

text \<open>
  What the extraction of an archive may do to the disk, whatever the archive holds: write below the
  staging directory only, and no more bytes than the artifact's bound.
\<close>

section \<open>Where actions write\<close>

text \<open>
  An action on a file system without links, where the directories \<open>D\<close> exist, keeps it so and
  writes only where \<open>P\<close> says.
\<close>

definition dirs_exist :: "path set \<Rightarrow> entries \<Rightarrow> bool" where
  "dirs_exist D E \<longleftrightarrow> tree E \<and> (\<forall>w\<in>D. entry_at E w = Some EDir)"

definition writes :: "path set \<Rightarrow> (path \<Rightarrow> bool) \<Rightarrow> (disk, 'e, 'a) action \<Rightarrow> bool" where
  "writes D P m \<longleftrightarrow> (\<forall>d. dirs_exist D (dk_entries d) \<longrightarrow>
     confined P (dk_entries d) (dk_entries (snd (m d))) \<and> dirs_exist D (dk_entries (snd (m d))))"

named_theorems writing \<open>where actions write\<close>

lemma writes_reads: "reads_only m \<Longrightarrow> writes D P m"
  by (simp add: writes_def reads_only_def confined_refl dirs_exist_def)

lemma writes_basic [writing]: "writes D P (ret a)" "writes D P (fail e)" "writes D P (lift_res r)"
  by (simp_all add: writes_reads reads_only_basic)

lemma writes_bind [writing]:
  assumes "writes D P m" and "\<And>a. writes D P (f a)"
  shows "writes D P (bind_st m f)"
  unfolding writes_def
proof (intro allI impI)
  fix d :: disk assume d: "dirs_exist D (dk_entries d)"
  obtain r d1 where m: "m d = (r, d1)" by fastforce
  have "confined P (dk_entries d) (dk_entries (snd (m d))) \<and> dirs_exist D (dk_entries (snd (m d)))"
    using assms(1) d unfolding writes_def by blast
  then have c: "confined P (dk_entries d) (dk_entries d1)" "dirs_exist D (dk_entries d1)"
    by (simp_all add: m)
  show "confined P (dk_entries d) (dk_entries (snd (bind_st m f d)))
    \<and> dirs_exist D (dk_entries (snd (bind_st m f d)))"
  proof (cases r)
    case (Inl e)
    with m c show ?thesis by simp
  next
    case (Inr a)
    from assms(2) c(2) have "confined P (dk_entries d1) (dk_entries (snd (f a d1)))"
      "dirs_exist D (dk_entries (snd (f a d1)))" by (simp_all add: writes_def)
    with confined_trans [OF c(1)] m Inr show ?thesis by simp
  qed
qed

lemma writes_if [writing]:
  "(b \<Longrightarrow> writes D P m) \<Longrightarrow> (\<not> b \<Longrightarrow> writes D P m') \<Longrightarrow> writes D P (if b then m else m')"
  by simp

lemma writes_io:
  assumes "\<And>E a E'. dirs_exist D E \<Longrightarrow> f E = Some (a, E') \<Longrightarrow> confined P E E' \<and> dirs_exist D E'"
  shows "writes D P (io e f)"
  unfolding writes_def
proof (intro allI impI)
  fix d :: disk assume d: "dirs_exist D (dk_entries d)"
  obtain r d1 where m: "io e f d = (r, d1)" by fastforce
  show "confined P (dk_entries d) (dk_entries (snd (io e f d))) \<and> dirs_exist D (dk_entries (snd (io e f d)))"
  proof (cases r)
    case (Inl e')
    with m io_Inl [of e f d e' d1] d show ?thesis by (simp add: confined_refl dirs_exist_def)
  next
    case (Inr a)
    with m io_Inr [of e f d a d1] assms [OF d, of a "dk_entries d1"] show ?thesis by simp
  qed
qed

lemma writes_bind_lift:
  "(\<And>x. r = Inr x \<Longrightarrow> writes D P (f x)) \<Longrightarrow> writes D P (bind_st (lift_res r) f)"
  by (cases r) (auto simp: writes_def confined_refl dirs_exist_def bind_st_def)

lemma writes_read_ops [writing]:
  "writes D P (io e (fs_metadata p))" "writes D P (io e (fs_read p))" "writes D P (io e fs_sync)"
  "writes D P (fs_exists p)" "writes D P (verify_archive_file env p n sha)" "writes D P (verify_object env base a)"
  by (intro writes_reads reading)+

text \<open>Creating and appending never touch an existing directory.\<close>

lemma dirs_exist_confined:
  "dirs_exist D E \<Longrightarrow> confined (\<lambda>q. q = p) E E' \<Longrightarrow> entry_at E p \<noteq> Some EDir \<Longrightarrow> dirs_exist D E'"
  unfolding dirs_exist_def confined_def
proof (elim conjE, intro conjI ballI)
  fix w assume D: "\<forall>w\<in>D. entry_at E w = Some EDir" and w: "w \<in> D" and p: "entry_at E p \<noteq> Some EDir"
    and c: "\<forall>q. entry_at E' q = entry_at E q \<or> q = p"
  from D w p have "w \<noteq> p" by blast
  with c have "entry_at E' w = entry_at E w" by blast
  with D w show "entry_at E' w = Some EDir" by simp
qed

lemma writes_ops:
  assumes "P p"
  shows "writes D P (io e (fs_mkdir p))" "writes D P (io e (fs_create_new p))"
    "writes D P (io e (fs_write p b))"
proof -
  have P: "confined P E E' \<and> dirs_exist D E'"
    if "dirs_exist D E" "confined (\<lambda>q. q = p) E E'" "entry_at E p \<noteq> Some EDir" for E E'
    using that dirs_exist_confined confined_mono [OF that(2), of P] assms by simp
  show "writes D P (io e (fs_mkdir p))"
  proof (rule writes_io, rule P)
    fix E E' a assume "dirs_exist D E" "fs_mkdir p E = Some (a, E')"
    then show "confined (\<lambda>q. q = p) E E'" "entry_at E p \<noteq> Some EDir"
      using mkdir_effect(1,2) [of E p E'] by (simp_all add: dirs_exist_def)
  qed
  show "writes D P (io e (fs_create_new p))"
  proof (rule writes_io, rule P)
    fix E E' a assume "dirs_exist D E" "fs_create_new p E = Some (a, E')"
    then show "confined (\<lambda>q. q = p) E E'" "entry_at E p \<noteq> Some EDir"
      using create_new_effect(1,2) [of E p E'] by (simp_all add: dirs_exist_def)
  qed
  show "writes D P (io e (fs_write p b))"
  proof (rule writes_io, rule P)
    fix E E' a assume "dirs_exist D E" "fs_write p b E = Some (a, E')"
    then show "confined (\<lambda>q. q = p) E E'" "entry_at E p \<noteq> Some EDir"
      using write_effect [of E p b E'] by (auto simp: dirs_exist_def)
  qed
qed

text \<open>\<open>create_dir_all\<close> creates only what is missing on the way.\<close>

lemma create_dir_all_effect:
  assumes "tree E" and "fs_create_dir_all p E = Some ((), E')"
  shows "confined (\<lambda>q. prefix q p \<and> entry_at E q = None \<and> entry_at E' q = Some EDir) E E'"
    "entry_at E' p = Some EDir"
proof -
  note e = mkdirs_effect [OF assms(1), of "[]" p E']
  show "confined (\<lambda>q. prefix q p \<and> entry_at E q = None \<and> entry_at E' q = Some EDir) E E'"
    using confined_mono [OF e(1)] assms(2) by (simp add: fs_create_dir_all_def)
  show "entry_at E' p = Some EDir"
    using e(2) assms(2) by (cases p) (simp_all add: fs_create_dir_all_def)
qed

lemma writes_create_dir_all:
  assumes "\<And>E q. dirs_exist D E \<Longrightarrow> prefix q p \<Longrightarrow> entry_at E q = None \<Longrightarrow> P q"
  shows "writes D P (io e (fs_create_dir_all p))"
proof (rule writes_io)
  fix E E' a assume E: "dirs_exist D E" "fs_create_dir_all p E = Some (a, E')"
  then have c: "confined (\<lambda>q. prefix q p \<and> entry_at E q = None \<and> entry_at E' q = Some EDir) E E'"
    using create_dir_all_effect(1) [of E p E'] by (simp add: dirs_exist_def)
  have "entry_at E' w = Some EDir" if "w \<in> D" for w
  proof -
    from c have "entry_at E' w = entry_at E w \<or> entry_at E' w = Some EDir" by (auto simp: confined_def)
    with that E(1) show ?thesis by (simp add: dirs_exist_def)
  qed
  with c have "dirs_exist D E'" by (simp add: dirs_exist_def confined_def)
  with confined_mono [OF c] assms E(1) show "confined P E E' \<and> dirs_exist D E'" by blast
qed

text \<open>Above an existing directory nothing is missing.\<close>

lemma prefix_exists:
  assumes "dirs_exist D E" and "w \<in> D" and "prefix q w"
  shows "entry_at E q = Some EDir"
  using assms wf_fs_prefix [of E q] by (auto simp: dirs_exist_def tree_def prefix_def)
    (metis append_Nil2 option.distinct(1))

section \<open>Bytes below a directory\<close>

definition file_bytes :: "path \<Rightarrow> path \<Rightarrow> entry option \<Rightarrow> nat" where
  "file_bytes p k e = (case e of Some (EFile b) \<Rightarrow> if prefix p k then length b else 0 | _ \<Rightarrow> 0)"

definition unpacked :: "entries \<Rightarrow> path \<Rightarrow> nat" where
  "unpacked E p = (\<Sum>k\<in>set (map fst E). file_bytes p k (entry_at E k))"

lemma unpacked_put:
  assumes "k \<noteq> []"
  shows "unpacked (put k e E) p + file_bytes p k (entry_at E k) = unpacked E p + file_bytes p k (Some e)"
proof -
  let ?K = "set (map fst E) - {k}"
  have keys: "set (map fst (put k e E)) = insert k ?K"
    by (simp add: put_def dom_update)
  have "(\<Sum>x\<in>?K. file_bytes p x (entry_at (put k e E) x)) = (\<Sum>x\<in>?K. file_bytes p x (entry_at E x))"
    by (rule sum.cong) (simp_all add: entry_at_put [OF assms])
  then have "unpacked (put k e E) p = file_bytes p k (Some e) + (\<Sum>x\<in>?K. file_bytes p x (entry_at E x))"
    unfolding unpacked_def keys by (subst sum.insert) (simp_all add: entry_at_put [OF assms])
  moreover have "(\<Sum>x\<in>?K. file_bytes p x (entry_at E x)) + file_bytes p k (entry_at E k) = unpacked E p"
  proof (cases "k \<in> set (map fst E)")
    case True
    then show ?thesis unfolding unpacked_def by (subst sum.remove [of "set (map fst E)" k]) simp_all
  next
    case False
    then have "entry_at E k = None" using entry_at_keys [OF assms] by blast
    with False show ?thesis by (simp add: unpacked_def file_bytes_def)
  qed
  ultimately show ?thesis by simp
qed

lemma mkdir_unpacked: "tree E \<Longrightarrow> fs_mkdir p E = Some ((), E') \<Longrightarrow> unpacked E' w = unpacked E w"
  using unpacked_put [of p EDir E w]
  by (auto simp: fs_mkdir_def tree_place file_bytes_def split: option.splits if_splits)

lemma create_new_unpacked: "tree E \<Longrightarrow> fs_create_new p E = Some ((), E') \<Longrightarrow> unpacked E' w = unpacked E w"
  using unpacked_put [of p "EFile []" E w]
  by (auto simp: fs_create_new_def tree_place file_bytes_def split: option.splits if_splits)

lemma write_unpacked:
  assumes "tree E" and "fs_write p b E = Some ((), E')"
  shows "unpacked E' w \<le> unpacked E w + length b"
proof -
  from assms obtain c where c: "entry_at E p = Some (EFile c)" "E' = put p (EFile (c @ b)) E"
    by (auto simp: fs_write_def tree_resolve split: option.splits entry.splits if_splits)
  then have "p \<noteq> []" by auto
  with c unpacked_put [of p "EFile (c @ b)" E w] show ?thesis by (auto simp: file_bytes_def split: if_splits)
qed

lemma mkdirs_unpacked:
  "tree E \<Longrightarrow> fs_mkdirs w p E = Some ((), E') \<Longrightarrow> unpacked E' u = unpacked E u"
proof (induction w p E arbitrary: E' rule: fs_mkdirs.induct)
  case (2 w n rest E)
  show ?case
  proof (cases "lookup E (w @ [n]) = Some EDir")
    case True
    with 2 show ?thesis by simp
  next
    case False
    then have "(case fs_mkdir (w @ [n]) E of None \<Rightarrow> None
        | Some ((), M) \<Rightarrow> fs_mkdirs (w @ [n]) rest M) = Some ((), E')"
      using "2.prems"(2) unfolding fs_mkdirs.simps(2) by (simp only: False if_False)
    then obtain M where m: "fs_mkdir (w @ [n]) E = Some ((), M)" "fs_mkdirs (w @ [n]) rest M = Some ((), E')"
      by (cases "fs_mkdir (w @ [n]) E") (simp_all split: prod.splits unit.splits)
    have "tree M" using mkdir_effect(1) [OF "2.prems"(1) m(1)] by (simp add: confined_def)
    from "2.IH"(2) [OF False m(1) refl refl this m(2)] mkdir_unpacked [OF "2.prems"(1) m(1)]
    show ?thesis by simp
  qed
qed simp

section \<open>Copying a file\<close>

lemma copy_reads_writes: "P p \<Longrightarrow> writes D P (copy_reads p limit broken len total_bytes hashed cs)"
  by (induction cs arbitrary: len total_bytes hashed)
    (auto intro!: writing writes_ops simp del: action_simps)

text \<open>The bytes on the disk grow by what is added to the total, which never passes the limit.\<close>

definition grows :: "path \<Rightarrow> nat \<Rightarrow> nat \<Rightarrow> disk \<Rightarrow> disk \<Rightarrow> bool" where
  "grows w before now d d' \<longleftrightarrow> unpacked (dk_entries d') w + before \<le> unpacked (dk_entries d) w + now"

lemma grows_trans: "grows w a b d d' \<Longrightarrow> grows w b c d' d'' \<Longrightarrow> grows w a c d d''"
  by (simp add: grows_def)

lemma grows_weaken: "grows w a b d d' \<Longrightarrow> b \<le> c \<Longrightarrow> grows w a c d d'"
  by (simp add: grows_def)

lemma grows_same: "unpacked (dk_entries d') w = unpacked (dk_entries d) w \<Longrightarrow> a \<le> b \<Longrightarrow> grows w a b d d'"
  by (simp add: grows_def)

lemma lift_Some: "bind_st (lift_res (ok_or e (Some x))) f = f x"
  by (rule ext) (simp add: bind_st_def ok_or_def)

lemma copy_reads_grows:
  assumes "copy_reads p limit broken len total_bytes hashed cs d = (r, d')"
    and "tree (dk_entries d)" and "total_bytes \<le> limit"
  shows "grows w total_bytes (case r of Inl _ \<Rightarrow> limit | Inr (_, now, _) \<Rightarrow> now) d d'
    \<and> (case r of Inl _ \<Rightarrow> True | Inr (_, now, _) \<Rightarrow> now \<le> limit)"
  using assms
proof (induction cs arbitrary: len total_bytes hashed d)
  case Nil
  then show ?case by (auto simp: grows_def split: if_splits)
next
  case (Cons c cs)
  let ?e = "ArtifactError ''artifact file extraction failed''"
  consider "c = []" | "c \<noteq> []" "checked_add64 len (length c) = None \<or> checked_add64 total_bytes (length c) = None"
    | l t where "c \<noteq> []" "checked_add64 len (length c) = Some l" "checked_add64 total_bytes (length c) = Some t"
    by (cases "checked_add64 len (length c)"; cases "checked_add64 total_bytes (length c)"; cases "c = []") auto
  then show ?case
  proof cases
    case 1
    with Cons.prems show ?thesis by (auto simp: grows_def)
  next
    case 2
    with Cons.prems show ?thesis
      by (auto simp: grows_def bind_st_def ok_or_def split: option.splits sum.splits)
  next
    case (3 l t)
    have l: "l = len + length c" and t: "t = total_bytes + length c"
      using 3(2,3) by simp_all
    show ?thesis
    proof (cases "t > limit")
      case True
      with Cons.prems 3 show ?thesis by (auto simp: grows_def bind_st_def ok_or_def)
    next
      case False
      obtain r1 d1 where w: "io ?e (fs_write p c) d = (r1, d1)" by fastforce
      have step: "bind_st (io ?e (fs_write p c))
          (\<lambda>_. copy_reads p limit broken l t (hashed @ c) cs) d = (r, d')"
        using Cons.prems(1) 3(1) False unfolding copy_reads.simps(2) 3(2,3) lift_Some
        by (simp only: if_False if_True simp_thms)
      show ?thesis
      proof (cases r1)
        case (Inl e)
        have "(r, d') = (Inl e, d1)"
          unfolding step [symmetric] by (rule bind_st_eq(2)) (simp only: w Inl)
        then have "r = Inl e" "d' = d1" by simp_all
        moreover have "dk_entries d1 = dk_entries d" using io_Inl [OF w [unfolded Inl]] by simp
        ultimately show ?thesis using Cons.prems(3) by (simp add: grows_def)
      next
        case (Inr u)
        then have f: "fs_write p c (dk_entries d) = Some ((), dk_entries d1)" using io_Inr [OF w [unfolded Inr]] by simp
        have "tree (dk_entries d1)" using write_effect(1) [OF Cons.prems(2) f] by (simp add: confined_def)
        moreover have "copy_reads p limit broken l t (hashed @ c) cs d1 = (r, d')"
          unfolding step [symmetric] by (rule bind_st_eq(1) [symmetric]) (simp only: w Inr)
        ultimately have "grows w t (case r of Inl _ \<Rightarrow> limit | Inr (_, now, _) \<Rightarrow> now) d1 d'
            \<and> (case r of Inl _ \<Rightarrow> True | Inr (_, now, _) \<Rightarrow> now \<le> limit)"
          using Cons.IH False by simp
        moreover have "grows w total_bytes t d d1"
          using write_unpacked [OF Cons.prems(2) f, of w] t by (simp add: grows_def)
        ultimately show ?thesis using grows_trans by blast
      qed
    qed
  qed
qed

section \<open>The archive loop\<close>

definition staging_below :: "path \<Rightarrow> path \<Rightarrow> bool" where
  "staging_below staging q \<longleftrightarrow> strict_prefix staging q"

lemma below_staging_or_above:
  assumes "staging_below staging p" and "prefix q p"
  shows "prefix q staging \<or> staging_below staging q"
  using prefix_same_cases [OF assms(2), of staging] assms(1)
  by (auto simp: staging_below_def strict_prefix_def)

text \<open>
  What lies above the staging directory exists, or may be written.
\<close>

definition staging_area :: "path set \<Rightarrow> (path \<Rightarrow> bool) \<Rightarrow> path \<Rightarrow> bool" where
  "staging_area D P staging \<longleftrightarrow>
     (\<forall>q. staging_below staging q \<longrightarrow> P q) \<and> (\<forall>q. prefix q staging \<longrightarrow> P q \<or> (\<exists>w\<in>D. prefix q w))"

lemma staging_area_self: "staging \<in> D \<Longrightarrow> staging_area D (staging_below staging) staging"
  by (auto simp: staging_area_def)

lemma writes_mkdirs_below:
  assumes "staging_area D P staging" and "\<And>q. prefix q p \<Longrightarrow> prefix q staging \<or> staging_below staging q"
  shows "writes D P (io e (fs_create_dir_all p))"
proof (rule writes_create_dir_all)
  fix E q assume E: "dirs_exist D E" "prefix q p" "entry_at E q = None"
  from assms E(2) have "P q \<or> (\<exists>w\<in>D. prefix q w)" by (auto simp: staging_area_def)
  with prefix_exists [OF E(1)] E(3) show "P q" by fastforce
qed

lemma write_extracted_file_writes:
  assumes "staging_below staging destination" and "staging_area D P staging"
  shows "writes D P (write_extracted_file env item destination written total_bytes limit)"
proof -
  have "prefix q staging \<or> staging_below staging q" if "prefix q (butlast destination)" for q
    using below_staging_or_above assms(1) prefix_order.trans [OF that prefixeq_butlast] .
  note dirs = writes_mkdirs_below [OF assms(2) this]
  have "P destination" using assms by (simp add: staging_area_def)
  with dirs show ?thesis
    unfolding write_extracted_file_def split_beta
    by (intro writing writes_ops copy_reads_writes)
qed

lemma extract_items_writes:
  assumes "staging_area D P staging"
  shows "writes D P (extract_items env staging a index total_bytes seen installed items)"
proof (induction items arbitrary: index total_bytes seen installed)
  case Nil
  show ?case unfolding extract_items.simps by (rule writing)
next
  case (Cons entry items)
  have below: "staging_below staging (join_names staging names)"
    if "strip_archive_root p r = Inr names" "names \<noteq> []" for p r names
    using strip_archive_root_safe [OF that(1)] that(2)
    by (simp add: join_names_safe staging_below_def strict_prefix_def)
  have dir: "writes D P (io e (fs_create_dir_all (join_names staging names)))"
    if "strip_archive_root p r = Inr names" "names \<noteq> []" for p r names and e :: artifact_error
    by (rule writes_mkdirs_below [OF assms], rule below_staging_or_above [OF below [OF that]])
  have copied: "writes D P (write_extracted_file env item (join_names staging names) written n limit)"
    if "strip_archive_root p r = Inr names" "names \<noteq> []" for p r names item written n limit
    by (rule write_extracted_file_writes [OF below [OF that] assms])
  show ?case
    unfolding extract_items.simps split_beta
    by (intro writing writes_bind_lift Cons.IH dir copied; assumption)
qed

lemma extract_verified_archive_writes:
  assumes "staging_area D P staging"
  shows "writes D P (extract_verified_archive env archive staging a)"
proof -
  have "staging_below staging (staging @ [installation_file])"
    by (simp add: staging_below_def strict_prefix_def)
  with assms have "P (staging @ [installation_file])" by (simp add: staging_area_def)
  with assms show ?thesis
    unfolding extract_verified_archive_def by (intro writing writes_ops extract_items_writes)
qed

section \<open>The bound on what is unpacked\<close>

text \<open>
  An action that has \<open>total_bytes\<close> of the limit used, and \<open>now\<close> after a
  result: the bytes below \<open>w\<close> grow by the difference, and by what is left of the limit when
  the action fails.
\<close>

definition spends ::
  "path \<Rightarrow> nat \<Rightarrow> nat \<Rightarrow> (disk, 'e, 'a) action \<Rightarrow> ('a \<Rightarrow> nat) \<Rightarrow> bool"
where
  "spends w limit total_bytes m now \<longleftrightarrow> total_bytes \<le> limit \<longrightarrow> (\<forall>d r d'. tree (dk_entries d) \<longrightarrow> m d = (r, d') \<longrightarrow>
     tree (dk_entries d')
     \<and> grows w total_bytes (case r of Inl _ \<Rightarrow> limit | Inr a \<Rightarrow> now a) d d'
     \<and> (case r of Inl _ \<Rightarrow> True | Inr a \<Rightarrow> now a \<le> limit))"

lemma spends_bind:
  assumes "spends w limit n m now" and "\<And>a. spends w limit (now a) (f a) now'"
  shows "spends w limit n (bind_st m f) now'"
  unfolding spends_def
proof (intro impI allI)
  fix d :: disk and r d' assume n: "n \<le> limit" and d: "tree (dk_entries d)" "bind_st m f d = (r, d')"
  obtain r1 d1 where m: "m d = (r1, d1)" by fastforce
  from assms(1) n d(1) m have m': "tree (dk_entries d1)"
    "grows w n (case r1 of Inl _ \<Rightarrow> limit | Inr a \<Rightarrow> now a) d d1"
    "case r1 of Inl _ \<Rightarrow> True | Inr a \<Rightarrow> now a \<le> limit"
    unfolding spends_def by blast+
  show "tree (dk_entries d') \<and> grows w n (case r of Inl _ \<Rightarrow> limit | Inr a \<Rightarrow> now' a) d d'
      \<and> (case r of Inl _ \<Rightarrow> True | Inr a \<Rightarrow> now' a \<le> limit)"
  proof (cases r1)
    case (Inl e)
    with d(2) m have "r = Inl e" "d' = d1" by simp_all
    with m' Inl show ?thesis by simp
  next
    case (Inr a)
    with d(2) m have f: "f a d1 = (r, d')" by simp
    from m' Inr have a: "now a \<le> limit" "grows w n (now a) d d1" by simp_all
    with assms(2) [of a] m'(1) f have "tree (dk_entries d')"
      "grows w (now a) (case r of Inl _ \<Rightarrow> limit | Inr a \<Rightarrow> now' a) d1 d'"
      "case r of Inl _ \<Rightarrow> True | Inr a \<Rightarrow> now' a \<le> limit"
      unfolding spends_def by blast+
    with grows_trans [OF a(2)] show ?thesis by blast
  qed
qed

lemma spends_if:
  "(b \<Longrightarrow> spends w limit n m now) \<Longrightarrow> (\<not> b \<Longrightarrow> spends w limit n m' now) \<Longrightarrow>
     spends w limit n (if b then m else m') now"
  by simp

lemma spends_ret: "now a = n \<Longrightarrow> spends w limit n (ret a) now"
  by (simp add: spends_def grows_def)

lemma spends_fail: "spends w limit n (fail e) now"
  by (simp add: spends_def grows_def)

lemma spends_lift: "spends w limit n (lift_res r) (\<lambda>_. n)"
  by (auto simp: spends_def grows_def split: sum.splits)

lemma spends_io:
  assumes "\<And>E a E'. tree E \<Longrightarrow> f E = Some (a, E') \<Longrightarrow> tree E' \<and> unpacked E' w = unpacked E w"
  shows "spends w limit n (io e f) (\<lambda>_. n)"
  unfolding spends_def
proof (intro impI allI)
  fix d :: disk and r d' assume n: "n \<le> limit" and d: "tree (dk_entries d)" "io e f d = (r, d')"
  show "tree (dk_entries d') \<and> grows w n (case r of Inl _ \<Rightarrow> limit | Inr _ \<Rightarrow> n) d d'
      \<and> (case r of Inl _ \<Rightarrow> True | Inr _ \<Rightarrow> n \<le> limit)"
  proof (cases r)
    case (Inl e')
    with io_Inl [of e f d e' d'] d n show ?thesis by (simp add: grows_def)
  next
    case (Inr a)
    with io_Inr [of e f d a d'] d n assms [of "dk_entries d" a "dk_entries d'"] show ?thesis
      by (simp add: grows_def)
  qed
qed

lemma spends_ops:
  "spends w limit n (io e (fs_create_dir_all p)) (\<lambda>_. n)"
  "spends w limit n (io e (fs_create_new p)) (\<lambda>_. n)" "spends w limit n (io e fs_sync) (\<lambda>_. n)"
proof -
  show "spends w limit n (io e (fs_create_dir_all p)) (\<lambda>_. n)"
  proof (rule spends_io)
    fix E E' a assume "tree E" "fs_create_dir_all p E = Some (a, E')"
    then show "tree E' \<and> unpacked E' w = unpacked E w"
      using create_dir_all_effect(1) [of E p E'] mkdirs_unpacked [of E "[]" p E' w]
      by (simp add: confined_def fs_create_dir_all_def)
  qed
  show "spends w limit n (io e (fs_create_new p)) (\<lambda>_. n)"
  proof (rule spends_io)
    fix E E' a assume "tree E" "fs_create_new p E = Some (a, E')"
    then show "tree E' \<and> unpacked E' w = unpacked E w"
      using create_new_effect(1) [of E p E'] create_new_unpacked [of E p E' w]
      by (simp add: confined_def)
  qed
  show "spends w limit n (io e fs_sync) (\<lambda>_. n)"
    by (rule spends_io) (simp add: fs_sync_def)
qed

lemma spends_copy:
  "spends w limit n (copy_reads p limit broken len n hashed cs) (\<lambda>x. fst (snd x))"
  unfolding spends_def
proof (intro impI allI)
  fix d :: disk and r d'
  assume n: "n \<le> limit" and d: "tree (dk_entries d)" "copy_reads p limit broken len n hashed cs d = (r, d')"
  have "writes {} (\<lambda>_. True) (copy_reads p limit broken len n hashed cs)" by (rule copy_reads_writes) simp
  with d have "tree (dk_entries d')" unfolding writes_def dirs_exist_def by (metis empty_iff snd_conv)
  with copy_reads_grows [OF d(2,1) n, of w]
  show "tree (dk_entries d') \<and> grows w n (case r of Inl _ \<Rightarrow> limit | Inr x \<Rightarrow> fst (snd x)) d d'
      \<and> (case r of Inl _ \<Rightarrow> True | Inr x \<Rightarrow> fst (snd x) \<le> limit)"
    by (cases r) auto
qed

lemma spends_write_extracted_file:
  "spends w limit n (write_extracted_file env item destination written n limit) snd"
  unfolding write_extracted_file_def split_beta
  by (rule spends_bind spends_ops spends_copy)+ (simp add: spends_ret del: action_simps)

lemma spends_done: "spends w limit n (ret a) (\<lambda>_. limit)"
  by (simp add: spends_def grows_def)

lemma spends_extract_items:
  "spends w (ar_max_unpacked_bytes a) n (extract_items env staging a index n seen installed items)
     (\<lambda>_. ar_max_unpacked_bytes a)"
proof (induction items arbitrary: index n seen installed)
  case Nil
  show ?case unfolding extract_items.simps by (rule spends_done)
next
  case (Cons entry items)
  show ?case
    unfolding extract_items.simps split_beta
    by (rule spends_if spends_fail spends_bind spends_lift spends_ops spends_write_extracted_file Cons.IH)+
qed

section \<open>Properties\<close>

text \<open>
  C22: unpacking is contained. On a disk without symbolic links, whatever an archive holds (absolute
  paths, parent components, links, duplicates, any number of any sizes) and wherever the disk fails, the
  archive loop and the whole extraction change nothing but entries strictly below the staging directory,
  leave no link behind, and the loop adds at most \<open>max_unpacked_bytes\<close> bytes of files
  there.
\<close>

theorem extraction_is_contained:
  assumes "tree (dk_entries d)" and "entry_at (dk_entries d) staging = Some EDir"
    and "extract_items env staging a 0 0 {} [] items d = (r, d')"
    and "extract_verified_archive env archive staging a d = (r2, d2)"
  shows "unpacked (dk_entries d') staging \<le> unpacked (dk_entries d) staging + ar_max_unpacked_bytes a
    \<and> tree (dk_entries d') \<and> tree (dk_entries d2)
    \<and> (\<forall>q. strict_prefix staging q
          \<or> entry_at (dk_entries d') q = entry_at (dk_entries d) q
            \<and> entry_at (dk_entries d2) q = entry_at (dk_entries d) q)"
proof -
  have D: "dirs_exist {staging} (dk_entries d)" using assms(1,2) by (simp add: dirs_exist_def)
  have "confined (staging_below staging) (dk_entries d) (dk_entries d')"
    using extract_items_writes [OF staging_area_self [of staging "{staging}"], of env a 0 0 "{}" "[]" items]
      D assms(3)
    unfolding writes_def by (metis singletonI snd_conv)
  moreover have "confined (staging_below staging) (dk_entries d) (dk_entries d2)"
    using extract_verified_archive_writes [OF staging_area_self [of staging "{staging}"], of env archive a]
      D assms(4)
    unfolding writes_def by (metis singletonI snd_conv)
  moreover have "grows staging 0 (case r of Inl _ \<Rightarrow> ar_max_unpacked_bytes a | Inr _ \<Rightarrow> ar_max_unpacked_bytes a) d d'"
    using spends_extract_items [of staging a 0 env staging 0 "{}" "[]" items] assms(1,3)
    unfolding spends_def by blast
  ultimately show ?thesis
    by (auto simp: confined_def staging_below_def grows_def split: sum.splits)
qed

definition staging_disk :: disk where
  "staging_disk = \<lparr>dk_entries = [([''s''], EDir), ([''x''], EFile [1])], dk_faults = []\<rparr>"

definition hostile_item :: archive_item where
  "hostile_item = \<lparr>ai_path = Some ''r/../../x'', ai_kind = ItemFile, ai_reads = [[2]], ai_broken = False\<rparr>"

theorem extraction_is_contained_witness:
  "entry_at (dk_entries (snd (extract_items tiny_env [''s''] tiny_spec 0 0 {} [] [Some hostile_item] staging_disk)))
     [''x''] = Some (EFile [1])"
proof -
  have "tree (dk_entries staging_disk)" "entry_at (dk_entries staging_disk) [''s''] = Some EDir"
    by (auto simp: tree_def wf_fs_def no_links_below_def staging_disk_def entry_at_def)
  moreover obtain r d' where "extract_items tiny_env [''s''] tiny_spec 0 0 {} [] [Some hostile_item] staging_disk = (r, d')"
    by fastforce
  moreover obtain r2 d2 where "extract_verified_archive tiny_env [''a''] [''s''] tiny_spec staging_disk = (r2, d2)"
    by fastforce
  ultimately have "strict_prefix [''s''] [''x''] \<or> entry_at (dk_entries d') [''x''] = entry_at (dk_entries staging_disk) [''x'']"
    using extraction_is_contained by blast
  with \<open>extract_items _ _ _ _ _ _ _ _ _ = (r, d')\<close> show ?thesis
    by (simp add: staging_disk_def entry_at_def)
qed

end
