(* ===== verification/Artifact_Changes.thy ===== *)
theory Artifact_Changes
  imports Artifact_Setup Artifact_Extract
begin

text \<open>
  Which paths each action of \<open>ArtifactStore\<close> in
  \<open>crates/impossible-voice-artifacts/src/lib.rs\<close> may change, and which URLs it may request:
  an artifact's object and fresh names in the store's \<open>downloads\<close>, \<open>staging\<close>
  and \<open>recovery\<close>, and the artifact's own URL if its origin is permitted, and then up to
  five that the answers redirect to.
\<close>

section \<open>What a store action may change\<close>

abbreviation files_of :: "store \<Rightarrow> entries" where
  "files_of s \<equiv> dk_entries (st_disk s)"

text \<open>
  A sequence of requests that starts after \<open>n\<close> earlier ones is lawful when each is either
  of a URL of \<open>R\<close>, or of the \<open>https\<close> URL that the answer to the request before
  it redirected to, and no more than five such in a row. The other arguments are where the last answer
  redirected to and how many redirects may still follow.
\<close>

definition redirect_of :: "artifact_env \<Rightarrow> string \<Rightarrow> nat \<Rightarrow> string option" where
  "redirect_of env url n = (case en_http env url n of Some (Redirect to) \<Rightarrow> Some to | _ \<Rightarrow> None)"

fun lawful :: "artifact_env \<Rightarrow> string set \<Rightarrow> nat \<Rightarrow> nat \<Rightarrow> string option \<Rightarrow> string list \<Rightarrow> bool" where
  "lawful env R n left to [] \<longleftrightarrow> True"
| "lawful env R n left to (u # us) \<longleftrightarrow>
     u \<in> R \<and> https_url env u \<and> lawful env R (n + 1) max_redirects (redirect_of env u n) us
     \<or> 0 < left \<and> to = Some u \<and> https_url env u \<and> lawful env R (n + 1) (left - 1) (redirect_of env u n) us"

lemma lawful_fresh: "lawful env R n 0 None us \<Longrightarrow> lawful env R n left to us"
  by (cases us) auto

lemma lawful_append:
  "lawful env R n left to us \<Longrightarrow> lawful env R (n + length us) 0 None vs \<Longrightarrow> lawful env R n left to (us @ vs)"
  by (induction env R n left to us rule: lawful.induct) (auto intro: lawful_fresh)

lemma lawful_mono: "lawful env R n left to us \<Longrightarrow> R \<subseteq> T \<Longrightarrow> lawful env T n left to us"
  by (induction env R n left to us rule: lawful.induct) auto

lemma lawful_none: "lawful env {} n 0 None us \<longleftrightarrow> us = []"
  by (cases us) simp_all

definition requests_within :: "artifact_env \<Rightarrow> string set \<Rightarrow> store \<Rightarrow> store \<Rightarrow> bool" where
  "requests_within env R s s' \<longleftrightarrow>
     (\<exists>us. st_requests s' = st_requests s @ us \<and> lawful env R (length (st_requests s)) 0 None us)"

lemma requests_within_refl: "st_requests s' = st_requests s \<Longrightarrow> requests_within env R s s'"
  by (simp add: requests_within_def)

lemma requests_within_trans:
  assumes "requests_within env R s s'" and "requests_within env R s' s''"
  shows "requests_within env R s s''"
proof -
  from assms obtain us vs where u: "st_requests s' = st_requests s @ us" "lawful env R (length (st_requests s)) 0 None us"
    and v: "st_requests s'' = st_requests s' @ vs" "lawful env R (length (st_requests s')) 0 None vs"
    unfolding requests_within_def by blast
  have "lawful env R (length (st_requests s)) 0 None (us @ vs)" using u v by (intro lawful_append) simp_all
  with u v show ?thesis unfolding requests_within_def by (intro exI [of _ "us @ vs"]) simp
qed

lemma requests_within_mono: "requests_within env R s s' \<Longrightarrow> R \<subseteq> T \<Longrightarrow> requests_within env T s s'"
  unfolding requests_within_def using lawful_mono by blast

lemma send_request_lawful:
  "send_request env left url s = (r, s') \<Longrightarrow>
     st_disk s' = st_disk s \<and> (\<exists>us. st_requests s' = st_requests s @ url # us
       \<and> lawful env R (length (st_requests s) + 1) left (redirect_of env url (length (st_requests s))) us)"
proof (induction env left url s arbitrary: rule: send_request.induct)
  case (1 env left url s)
  let ?t = "s\<lparr>st_requests := st_requests s @ [url]\<rparr>"
  have stop: ?case if "s' = ?t" using that by simp
  show ?case
  proof (cases "\<exists>to n. en_http env url (length (st_requests s)) = Some (Redirect to) \<and> left = Suc n \<and> https_url env to")
    case True
    then obtain to n where x: "en_http env url (length (st_requests s)) = Some (Redirect to)" "left = Suc n"
      "https_url env to" by blast
    with "1.prems" have f: "send_request env n to ?t = (r, s')" by simp
    from "1.IH" [OF refl refl x(1) refl x(2,3) f]
    obtain us where "st_disk s' = st_disk s" "st_requests s' = (st_requests s @ [url]) @ to # us"
      "lawful env R (length (st_requests s) + 2) n (redirect_of env to (length (st_requests s) + 1)) us"
      by auto
    then show ?thesis using x by (intro conjI exI [of _ "to # us"]) (simp_all add: redirect_of_def)
  next
    case False
    have "s' = ?t"
      using "1.prems" False by (auto simp: Let_def split: option.splits http_answer.splits nat.splits if_splits)
    with stop show ?thesis .
  qed
qed

text \<open>
  Where the directories \<open>D\<close> exist, the action writes only where \<open>P\<close> says and
  its requests are lawful for \<open>R\<close>.
\<close>

definition changes ::
  "artifact_env \<Rightarrow> path set \<Rightarrow> (path \<Rightarrow> bool) \<Rightarrow> string set \<Rightarrow> (store, 'e, 'a) action \<Rightarrow> bool"
where
  "changes env D P R m \<longleftrightarrow> (\<forall>s. dirs_exist D (files_of s) \<longrightarrow>
     confined P (files_of s) (files_of (snd (m s))) \<and> dirs_exist D (files_of (snd (m s)))
     \<and> requests_within env R s (snd (m s)))"

named_theorems changing \<open>what store actions change\<close>

lemma changesD:
  assumes "changes env D P R m" and "m s = (r, s')" and "dirs_exist D (files_of s)"
  shows "confined P (files_of s) (files_of s')" "dirs_exist D (files_of s')"
    "requests_within env R s s'"
  using assms unfolding changes_def by (metis snd_conv)+

lemma changes_same:
  "(\<And>s. files_of (snd (m s)) = files_of s \<and> st_requests (snd (m s)) = st_requests s) \<Longrightarrow> changes env D P R m"
  by (simp add: changes_def confined_refl dirs_exist_def requests_within_refl)

lemma changes_basic [changing]:
  "changes env D P R (ret a)" "changes env D P R (fail e)" "changes env D P R (lift_res r)" "changes env D P R (unique_suffix env)"
  by (rule changes_same; simp add: unique_suffix_def)+

lemma changes_bind [changing]:
  assumes "changes env D P R m" and "\<And>a. changes env D P R (f a)"
  shows "changes env D P R (bind_st m f)"
  unfolding changes_def
proof (intro allI impI)
  fix s :: store assume s: "dirs_exist D (files_of s)"
  obtain r s1 where m: "m s = (r, s1)" by fastforce
  note c = changesD [OF assms(1) m s]
  show "confined P (files_of s) (files_of (snd (bind_st m f s))) \<and> dirs_exist D (files_of (snd (bind_st m f s)))
    \<and> requests_within env R s (snd (bind_st m f s))"
  proof (cases r)
    case (Inl e)
    with m have "snd (bind_st m f s) = s1" by simp
    with c show ?thesis by simp
  next
    case (Inr a)
    obtain r2 s2 where f: "f a s1 = (r2, s2)" by fastforce
    note c2 = changesD [OF assms(2) f c(2)]
    from m Inr f have "snd (bind_st m f s) = s2" by simp
    with confined_trans [OF c(1) c2(1)] c2(2) requests_within_trans [OF c(3) c2(3)] show ?thesis by simp
  qed
qed

lemma changes_if [changing]:
  "(b \<Longrightarrow> changes env D P R m) \<Longrightarrow> (\<not> b \<Longrightarrow> changes env D P R m') \<Longrightarrow> changes env D P R (if b then m else m')"
  by simp

lemma changes_on_disk [changing]: "writes D P m \<Longrightarrow> changes env D P R (on_disk m)"
  by (auto simp: changes_def writes_def on_disk_def requests_within_refl split: prod.splits)

lemma changes_result [changing]:
  "(\<And>e. changes env D P R (f e)) \<Longrightarrow> (\<And>a. changes env D P R (g a)) \<Longrightarrow>
     changes env D P R (case r of Inl e \<Rightarrow> f e | Inr a \<Rightarrow> g a)"
  by (simp split: sum.split)

lemma changes_blocking [changing]:
  assumes "writes D P work"
  shows "changes env D P R (blocking lost work)"
proof -
  have "writes D P (\<lambda>d. case work d of (r, d) \<Rightarrow> ((Inr r :: artifact_error + _), d))"
    using assms by (simp add: writes_def split_beta)
  moreover have "writes D P (io e (\<lambda>E. Some ((), E)))" for e :: artifact_error
    by (rule writes_io) (auto simp: confined_refl dirs_exist_def)
  ultimately show ?thesis unfolding blocking_def by (intro changing)
qed

lemma changes_request [changing]: "url \<in> R \<Longrightarrow> changes env D P R (request env url)"
proof (cases "https_url env url")
  case True
  assume "url \<in> R"
  have "st_disk (snd (send_request env max_redirects url s)) = st_disk s
      \<and> requests_within env R s (snd (send_request env max_redirects url s))" for s
    using send_request_lawful [of env max_redirects url s _ "snd (send_request env max_redirects url s)" R]
      True \<open>url \<in> R\<close>
    by (metis lawful.simps(2) prod.collapse requests_within_def)
  with True show ?thesis by (auto simp: changes_def request_def confined_refl dirs_exist_def)
next
  case False
  then show ?thesis by (simp add: request_def changing)
qed

lemma writes_rename:
  assumes "\<And>k. prefix p k \<Longrightarrow> P k" and "\<And>k. prefix q k \<Longrightarrow> P k"
    and "\<And>w. w \<in> D \<Longrightarrow> \<not> prefix p w \<and> \<not> prefix q w"
  shows "writes D P (io e (fs_rename p q))"
proof (rule writes_io)
  fix E E' a assume E: "dirs_exist D E" "fs_rename p q E = Some (a, E')"
  then have c: "confined (\<lambda>k. prefix p k \<or> prefix q k) E E'"
    using rename_confined [of E p q E'] by (simp add: dirs_exist_def)
  have "entry_at E' w = Some EDir" if "w \<in> D" for w
    using c assms(3) [OF that] that E(1) unfolding confined_def dirs_exist_def by metis
  with confined_mono [OF c, of P] assms(1,2) c show "confined P E E' \<and> dirs_exist D E'"
    by (auto simp: confined_def dirs_exist_def)
qed

section \<open>The area of an artifact\<close>

definition store_dirs :: "path \<Rightarrow> path set" where
  "store_dirs base = {base @ [''objects''], base @ [''downloads''], base @ [''staging''], base @ [''recovery'']}"

definition area :: "path \<Rightarrow> artifact_spec \<Rightarrow> path \<Rightarrow> bool" where
  "area base a q \<longleftrightarrow> prefix (object_path base a) q
     \<or> (\<exists>d\<in>{''downloads'', ''staging'', ''recovery''}. strict_prefix (base @ [d]) q)"

lemma area_in: "d \<in> {''downloads'', ''staging'', ''recovery''} \<Longrightarrow> prefix (base @ [d, n]) k \<Longrightarrow> area base a k"
  by (auto simp: area_def prefix_def strict_prefix_def)

lemma area_object: "prefix (object_path base a) k \<Longrightarrow> area base a k"
  by (simp add: area_def)

lemma not_above_dirs: "w \<in> store_dirs base \<Longrightarrow> \<not> prefix (base @ [x, y]) w"
  by (auto simp: store_dirs_def)

lemma changes_recover:
  assumes "\<And>k. prefix p k \<Longrightarrow> area base a k" and "\<And>w. w \<in> store_dirs base \<Longrightarrow> \<not> prefix p w"
  shows "changes env (store_dirs base) (area base a) R (recover_path env p (base @ [''recovery'']) label)"
proof -
  have "writes (store_dirs base) (area base a) (io e (fs_create_dir_all (base @ [''recovery''])))"
    for e :: artifact_error
  proof (rule writes_create_dir_all)
    fix E q assume "dirs_exist (store_dirs base) E" "prefix q (base @ [''recovery''])" "entry_at E q = None"
    with prefix_exists [of "store_dirs base" E "base @ [''recovery'']" q] show "area base a q"
      by (simp add: store_dirs_def)
  qed
  moreover have "writes (store_dirs base) (area base a) (io e (fs_rename p ((base @ [''recovery'']) @ [n])))"
    for e :: artifact_error and n
    using assms area_in [of "''recovery''" base n _ a] not_above_dirs [of _ base "''recovery''" n]
    by (intro writes_rename) auto
  ultimately show ?thesis
    unfolding recover_path_def by (intro changing writing)
qed

lemma changes_bind_lift:
  "(\<And>x. r = Inr x \<Longrightarrow> changes env D P R (f x)) \<Longrightarrow> changes env D P R (bind_st (lift_res r) f)"
  by (cases r) (auto simp: changes_def confined_refl dirs_exist_def bind_st_def requests_within_refl)

lemma changes_bind_result:
  assumes "changes env D P R m" and "\<And>s a s'. m s = (Inr a, s') \<Longrightarrow> changes env D P R (f a)"
  shows "changes env D P R (bind_st m f)"
proof -
  let ?f = "\<lambda>a. if \<exists>s s'. m s = (Inr a, s') then f a else fail undefined"
  have "bind_st m f = bind_st m ?f"
    by (rule ext) (auto simp: bind_st_def split: prod.split sum.split)
  moreover have "changes env D P R (bind_st m ?f)"
    using assms by (intro changing) auto
  ultimately show ?thesis by simp
qed

text \<open>The origins an artifact may be downloaded from.\<close>

definition origins :: "artifact_env \<Rightarrow> artifact_spec \<Rightarrow> string set" where
  "origins env a = (if check_origin env a = Inr () then {ar_url a} else {})"

lemma receive_writes: "P p \<Longrightarrow> writes D P (receive p limit len hashed cs)"
proof (induction cs arbitrary: len hashed)
  case Nil
  show ?case unfolding receive.simps by (rule writing)
next
  case (Cons c cs)
  then show ?case unfolding receive.simps by (intro writing writes_ops)
qed

lemma changes_download:
  "changes env (store_dirs base) (area base a) (origins env a) (download env base a name)"
proof -
  let ?D = "store_dirs base" and ?P = "area base a"
  have inside: "?P (base @ [''downloads'', n])" "prefix (base @ [''downloads'', n]) k \<Longrightarrow> ?P k" for n k
    using area_in [of "''downloads''" base n _ a] by auto
  have rename: "writes ?D ?P (io e (fs_rename (base @ [''downloads'', x]) (base @ [''downloads'', y])))"
    for e :: artifact_error and x y
    using inside not_above_dirs by (intro writes_rename) blast+
  have recover: "changes env ?D ?P R (recover_path env (base @ [''downloads'', x]) (base @ [''recovery'']) label)"
    for R x label
    using inside not_above_dirs by (intro changes_recover) blast+
  show ?thesis
    unfolding download_def Let_def split_beta append_assoc append_Cons append_Nil
    by (intro changes_bind_lift changing)
      (auto simp: origins_def intro!: changing writing writes_ops receive_writes inside rename recover
        simp del: action_simps)
qed

lemma changes_ensure_archive:
  "changes env (store_dirs base) (area base a) (origins env a) (ensure_archive env base a)"
proof -
  have "changes env (store_dirs base) (area base a) R
      (recover_path env (base @ [''downloads'', x]) (base @ [''recovery'']) label)" for R x label
    using area_in [of "''downloads''" base x _ a] not_above_dirs by (intro changes_recover) blast+
  then show ?thesis
    unfolding ensure_archive_def Let_def by (intro changing writing changes_download)
qed

definition staging_path :: "path \<Rightarrow> path \<Rightarrow> bool" where
  "staging_path base p \<longleftrightarrow> (\<exists>n. p = base @ [''staging'', n])"

lemma staging_pathD:
  assumes "staging_path base p"
  shows "prefix p k \<Longrightarrow> area base a k" "w \<in> store_dirs base \<Longrightarrow> \<not> prefix p w"
    "staging_area (store_dirs base) (area base a) p"
proof -
  obtain n where p: "p = base @ [''staging'', n]" using assms by (auto simp: staging_path_def)
  show k: "prefix p k \<Longrightarrow> area base a k" for k using area_in [of "''staging''" base n k a] p by simp
  show "w \<in> store_dirs base \<Longrightarrow> \<not> prefix p w" using not_above_dirs p by simp
  have "prefix q p \<Longrightarrow> q = p \<or> prefix q (base @ [''staging''])" for q
    using prefix_snoc [of q "base @ [''staging'']" n] p by auto
  then show "staging_area (store_dirs base) (area base a) p"
    using k by (auto simp: staging_area_def staging_below_def strict_prefix_def store_dirs_def)
qed

lemma changes_staged:
  "staging_path base p \<Longrightarrow> changes env (store_dirs base) (area base a) R (staged env base p outcome)"
  unfolding staged_def by (intro changing changes_recover staging_pathD)

lemma unpack_object_Inr: "unpack_object env base a s = (Inr p, s') \<Longrightarrow> staging_path base p"
  by (auto simp: unpack_object_def Let_def res_simps staging_path_def)

lemma changes_unpack: "changes env (store_dirs base) (area base a) R (unpack_object env base a)"
proof -
  have s: "staging_path base (base @ [''staging'', n])" for n by (simp add: staging_path_def)
  have "area base a (base @ [''staging'', n])" for n
    by (rule staging_pathD(1) [OF s prefix_order.order_refl])
  then show ?thesis
    unfolding unpack_object_def Let_def
    by (intro changing writes_ops extract_verified_archive_writes staging_pathD(3) [OF s] changes_staged s)
qed

lemma changes_install: "changes env (store_dirs base) (area base a) R (install env base a)"
proof -
  have "writes (store_dirs base) (area base a) (io e (fs_rename p (object_path base a)))"
    if "staging_path base p" for p and e :: artifact_error
    using staging_pathD [OF that] area_object not_above_dirs
    by (intro writes_rename) (auto simp: object_path_def)
  then show ?thesis
    unfolding install_def
    by (intro changes_bind_result changes_unpack)
      (auto intro!: changing writing changes_staged dest!: unpack_object_Inr)
qed

lemma changes_ensure_artifact:
  "changes env (store_dirs base) (area base a) (if offline then {} else origins env a)
     (ensure_artifact env base offline a)"
proof -
  have "changes env (store_dirs base) (area base a) R
      (recover_path env (object_path base a) (base @ [''recovery'']) label)" for R label
    using area_object not_above_dirs by (intro changes_recover) (auto simp: object_path_def)
  moreover have "changes env (store_dirs base) (area base a) (if offline then {} else origins env a)
      (ensure_archive env base a)" if "\<not> offline"
    using changes_ensure_archive that by simp
  ultimately show ?thesis
    unfolding ensure_artifact_def Let_def by (intro changing writing changes_install)
qed

end
