(* ===== verification/Artifact_Guarantees.thy ===== *)
theory Artifact_Guarantees
  imports Artifact_Changes
begin

text \<open>
  What \<open>setup\<close> of \<open>crates/impossible-voice-artifacts/src/lib.rs\<close> guarantees:
  which paths and which origins it may touch, and that a successful one leaves every selected object
  intact.
\<close>

section \<open>Objects that move or stay\<close>

definition same_below :: "entries \<Rightarrow> path \<Rightarrow> entries \<Rightarrow> path \<Rightarrow> bool" where
  "same_below E p E' q \<longleftrightarrow> (\<forall>r. entry_at E (p @ r) = entry_at E' (q @ r))"

lemma object_intact_same:
  assumes "same_below E p E' q" and "paths_safe a" and "object_intact env E p a"
  shows "object_intact env E' q a"
proof -
  have e: "entry_at E' (q @ r) = entry_at E (p @ r)" for r using assms(1) by (simp add: same_below_def)
  have "counted E' q files (q @ r) = counted E p files (p @ r)" for files r
    by (simp add: counted_def e split: option.split entry.split)
  moreover have joined: "entry_at E' (join_path q s) = entry_at E (join_path p s)"
    if "safe_relative_path s = Inr ()" for s
    using that by (rule safe_relative_path_names) (simp add: e)
  then have "listed_file_intact env E' q f = listed_file_intact env E p f" for f
    by (cases "safe_relative_path (if_path f) = Inr ()") (simp_all add: listed_file_intact_def)
  moreover have "list_all (\<lambda>p'. entry_at E' (join_path q p') \<noteq> None) (ar_required_paths a)
      = list_all (\<lambda>p'. entry_at E (join_path p p') \<noteq> None) (ar_required_paths a)"
    using assms(2) joined by (auto simp: list_all_iff paths_safe_def)
  ultimately show ?thesis using assms(3) unfolding object_intact_def e by presburger
qed

lemma rename_moves:
  assumes "tree E" and "fs_rename p q E = Some ((), E')"
  shows "same_below E p E' q"
  using rename_effect [OF assms] move_entries_effect(2) [OF assms(1), of p q]
  by (auto simp: same_below_def movable_def)

lemma confined_same: "confined P E E' \<Longrightarrow> (\<And>r. \<not> P (p @ r)) \<Longrightarrow> same_below E p E' p"
  unfolding confined_def same_below_def by metis

lemma verify_object_tree:
  assumes "verify_object env p a d = (Inr (), d')" and "tree (dk_entries d)" and "paths_safe a"
  shows "object_intact env (dk_entries d') p a"
proof -
  obtain marker where "lookup (dk_entries d) (p @ [installation_file]) = Some (EFile marker)"
    using assms(1) unfolding verify_object_def
    by (auto simp: bind_st_Inr_iff fs_read_def dest!: io_Inr split: option.splits entry.splits)
  then have "entry_at (dk_entries d) (p @ [installation_file]) \<noteq> None"
    using assms(2) by (simp add: tree_lookup)
  then have "real_dir (dk_entries d) p"
    using wf_fs_parent [of "dk_entries d" p] wf_fs_real [of "dk_entries d" p] assms(2)
    by (simp add: tree_def)
  then have "object_intact env (dk_entries d) p a"
    using verify_object_intact [OF assms(1)] assms(2,3) by (simp add: tree_def)
  then show ?thesis using reads_onlyD [OF reads_only_object assms(1)] by simp
qed

section \<open>One artifact\<close>

lemma blocking_Inr:
  assumes "blocking lost work s = (Inr r, s')"
  shows "\<exists>d. work (st_disk s) = (r, d) \<and> files_of s' = dk_entries d"
proof -
  have id: "io e (\<lambda>E. Some ((), E)) d = (Inr u, d') \<Longrightarrow> dk_entries d' = dk_entries d"
    for e :: artifact_error and u d d'
    using io_Inr [of e "\<lambda>E. Some ((), E)" d u d'] by simp
  from assms show ?thesis
    by (auto simp: blocking_def bind_st_Inr_iff on_disk_def dest!: id split: prod.splits)
qed

lemma on_disk_Inr: "on_disk m s = (Inr a, s') \<Longrightarrow> \<exists>d. m (st_disk s) = (Inr a, d) \<and> files_of s' = dk_entries d"
  by (auto simp: on_disk_def split: prod.splits)

lemma staged_Inr: "staged env base p outcome s = (Inr (), s') \<Longrightarrow> outcome = Inr () \<and> s' = s"
  by (cases outcome) (auto simp: staged_def bind_st_Inr_iff)

lemma verified_intact:
  assumes "blocking lost (verify_object env p a) s = (Inr (Inr ()), s')" and "tree (files_of s)"
    and "paths_safe a"
  shows "object_intact env (files_of s') p a"
proof -
  from blocking_Inr [OF assms(1)] obtain d where
    "verify_object env p a (st_disk s) = (Inr (), d)" "files_of s' = dk_entries d" by blast
  with verify_object_tree assms(2,3) show ?thesis by fastforce
qed

lemma install_intact:
  assumes "install env base a s = (Inr (), s')" and "dirs_exist (store_dirs base) (files_of s)"
    and "paths_safe a"
  shows "object_intact env (files_of s') (object_path base a) a"
proof -
  from assms(1) obtain p s1 v s2 s3 where u: "unpack_object env base a s = (Inr p, s1)"
    and v: "blocking ''artifact verification worker failed'' (verify_object env p a) s1 = (Inr v, s2)"
    and st: "staged env base p v s2 = (Inr (), s3)"
    and mv: "on_disk (io (ArtifactError ''artifact activation failed'') (fs_rename p (object_path base a))) s3
      = (Inr (), s')"
    by (auto simp: install_def bind_st_Inr_iff)
  have s1: "dirs_exist (store_dirs base) (files_of s1)"
    using changesD(2) [OF changes_unpack u assms(2)] .
  have "v = Inr ()" and s3: "s3 = s2" using staged_Inr [OF st] by simp_all
  then have intact: "object_intact env (files_of s2) p a"
    using verified_intact [OF v [unfolded \<open>v = Inr ()\<close>]] s1 assms(3) by (simp add: dirs_exist_def)
  have "changes env (store_dirs base) (area base a) {}
      (blocking ''artifact verification worker failed'' (verify_object env p a))"
    by (intro changing writing)
  from changesD(2) [OF this v s1] have "tree (files_of s2)" by (simp add: dirs_exist_def)
  moreover from on_disk_Inr [OF mv] obtain d where
    "io (ArtifactError ''artifact activation failed'') (fs_rename p (object_path base a)) (st_disk s3) = (Inr (), d)"
    "files_of s' = dk_entries d" by blast
  then have "fs_rename p (object_path base a) (files_of s2) = Some ((), files_of s')"
    using io_Inr s3 by fastforce
  ultimately show ?thesis using rename_moves object_intact_same [OF _ assms(3)] intact by blast
qed

lemma ensure_artifact_intact:
  assumes "ensure_artifact env base offline a s = (Inr state, s')"
    and "dirs_exist (store_dirs base) (files_of s)" and safe: "paths_safe a"
  shows "object_intact env (files_of s') (object_path base a) a"
    and "offline \<Longrightarrow> state = ''verified''"
proof -
  let ?t = "object_path base a" and ?D = "store_dirs base" and ?P = "area base a"
  let ?worker = "blocking ''artifact verification worker failed'' (verify_object env ?t a)"
  let ?check = "\<lambda>present. if present then bind_st ?worker (\<lambda>valid. case valid of
      Inr _ \<Rightarrow> ret True | Inl _ \<Rightarrow> bind_st (recover_path env ?t (base @ [''recovery'']) ''object'') (\<lambda>_. ret False))
    else ret False"
  from assms(1) obtain present s1 v s2 where x: "on_disk (fs_exists ?t) s = ((Inr present :: artifact_error + bool), s1)"
    and y: "?check present s1 = (Inr v, s2)"
    and z: "(if v then ret ''verified''
        else if offline
        then fail (ArtifactError ''offline setup requires a complete verified artifact profile'')
        else bind_st (ensure_archive env base a) (\<lambda>_.
             bind_st (install env base a) (\<lambda>_. ret ''installed''))) s2 = (Inr state, s')"
    unfolding ensure_artifact_def Let_def bind_st_Inr_iff [where b = state] by blast
  have "changes env ?D ?P {} (on_disk (fs_exists ?t) :: (store, artifact_error, bool) action)" by (intro changing writing)
  note s1 = changesD(2) [OF this x assms(2)]
  have "changes env ?D ?P {} (recover_path env ?t (base @ [''recovery'']) label)" for label
    using area_object not_above_dirs by (intro changes_recover) (auto simp: object_path_def)
  then have "changes env ?D ?P {} (?check present)" by (intro changing writing)
  note s2 = changesD(2) [OF this y s1]
  show "object_intact env (files_of s') ?t a"
  proof (cases v)
    case True
    then have "present" using y by (cases present) simp_all
    with y True have "?worker s1 = (Inr (Inr ()), s2)"
      by (auto simp: bind_st_Inr_iff split: sum.splits) (metis old.unit.exhaust sum.exhaust)
    with verified_intact [OF _ _ safe] s1 z True show ?thesis by (auto simp: dirs_exist_def)
  next
    case False
    with z obtain s3 where e: "ensure_archive env base a s2 = (Inr (), s3)"
      and i: "install env base a s3 = (Inr (), s')"
      by (auto simp: bind_st_Inr_iff split: if_splits)
    show ?thesis using install_intact [OF i changesD(2) [OF changes_ensure_archive e s2] safe] .
  qed
  show "offline \<Longrightarrow> state = ''verified''" using z by (auto split: if_splits)
qed

section \<open>The selected artifacts\<close>

lemma changes_mono:
  assumes "changes env D P R m" and "\<And>q. P q \<Longrightarrow> Q q" and "R \<subseteq> T"
  shows "changes env D Q T m"
  unfolding changes_def
proof (intro allI impI conjI)
  fix s :: store assume s: "dirs_exist D (files_of s)"
  obtain r s' where m: "m s = (r, s')" by fastforce
  note c = changesD [OF assms(1) m s]
  show "confined Q (files_of s) (files_of (snd (m s)))" using confined_mono [OF c(1) assms(2)] m by simp
  show "dirs_exist D (files_of (snd (m s)))" using c(2) m by simp
  show "requests_within env T s (snd (m s))" using requests_within_mono [OF c(3) assms(3)] m by simp
qed

abbreviation any_area :: "path \<Rightarrow> artifact_spec list \<Rightarrow> path \<Rightarrow> bool" where
  "any_area base as q \<equiv> \<exists>a\<in>set as. area base a q"

abbreviation any_origin :: "artifact_env \<Rightarrow> bool \<Rightarrow> artifact_spec list \<Rightarrow> string set" where
  "any_origin env offline as \<equiv> if offline then {} else (\<Union>a\<in>set as. origins env a)"

lemma changes_ensure_all:
  "changes env (store_dirs base) (any_area base as) (any_origin env offline as) (ensure_all env base offline as)"
proof (induction as)
  case Nil
  show ?case unfolding ensure_all.simps by (rule changing)
next
  case (Cons a as)
  have "changes env (store_dirs base) (any_area base (a # as)) (any_origin env offline (a # as))
      (ensure_artifact env base offline a)"
    by (rule changes_mono [OF changes_ensure_artifact]) auto
  moreover have "changes env (store_dirs base) (any_area base (a # as)) (any_origin env offline (a # as))
      (ensure_all env base offline as)"
    by (rule changes_mono [OF Cons.IH]) auto
  ultimately show ?case unfolding ensure_all.simps by (intro changing)
qed

lemma area_disjoint: "object_path base a \<noteq> object_path base b \<Longrightarrow> \<not> area base b (object_path base a @ r)"
  by (auto simp: area_def object_path_def strict_prefix_def)

lemma ensure_all_sound:
  assumes "ensure_all env base offline as s = (Inr results, s')"
    and "dirs_exist (store_dirs base) (files_of s)" and "distinct (map (object_path base) as)"
    and "\<forall>a\<in>set as. paths_safe a"
  shows "(\<forall>a\<in>set as. object_intact env (files_of s') (object_path base a) a)
    \<and> map re_id results = map ar_id as \<and> (offline \<longrightarrow> (\<forall>r\<in>set results. re_state r = ''verified''))"
  using assms
proof (induction as arbitrary: s results)
  case Nil
  then show ?case by simp
next
  case (Cons a as)
  from Cons.prems(1) obtain state s1 rs where e: "ensure_artifact env base offline a s = (Inr state, s1)"
    and rest: "ensure_all env base offline as s1 = (Inr rs, s')"
    and results: "results = \<lparr>re_id = ar_id a, re_kind = ar_kind a, re_state = state\<rparr> # rs"
    by (auto simp: bind_st_Inr_iff)
  note s1 = changesD(2) [OF changes_ensure_artifact e Cons.prems(2)]
  have safe: "paths_safe a" using Cons.prems(4) by simp
  note here = ensure_artifact_intact [OF e Cons.prems(2) safe]
  have "\<not> any_area base as (object_path base a @ r)" for r
    using area_disjoint Cons.prems(3) by (simp add: image_iff)
  then have "same_below (files_of s1) (object_path base a) (files_of s') (object_path base a)"
    using confined_same [OF changesD(1) [OF changes_ensure_all rest s1]] by blast
  with object_intact_same [OF _ safe] here(1) have "object_intact env (files_of s') (object_path base a) a" by blast
  with Cons.IH [OF rest s1] Cons.prems(3,4) here(2) results show ?case by simp
qed

section \<open>The storage\<close>

definition around :: "path \<Rightarrow> path \<Rightarrow> bool" where
  "around base q \<longleftrightarrow> prefix base q \<or> prefix q base"

lemma around_below: "prefix q (base @ [n]) \<Longrightarrow> around base q" "around base (base @ q)"
  using prefix_same_cases [of q "base @ [n]" base] by (auto simp: around_def)

lemma writes_lock: "P p \<Longrightarrow> writes D P (io e (fs_open_or_create p))"
proof (rule writes_io)
  fix E E' a assume P: "P p" and E: "dirs_exist D E" "fs_open_or_create p E = Some (a, E')"
  show "confined P E E' \<and> dirs_exist D E'"
  proof (cases "lookup E p")
    case None
    with E have new: "fs_create_new p E = Some ((), E')" by (simp add: fs_open_or_create_def)
    with E(1) create_new_effect(1,2) [of E p E'] have c: "confined (\<lambda>q. q = p) E E'" "entry_at E p = None"
      by (simp_all add: dirs_exist_def)
    with dirs_exist_confined [OF E(1) c(1)] confined_mono [OF c(1), of P] P show ?thesis by simp
  next
    case (Some e)
    with E have "E' = E" by (cases e) (simp_all add: fs_open_or_create_def)
    with E(1) show ?thesis by (simp add: confined_refl dirs_exist_def)
  qed
qed

lemma writes_create_storage: "writes D (around base) (io e (fs_create_dir_all (base @ [n])))"
  by (rule writes_create_dir_all) (rule around_below)

lemma changes_setup_storage: "changes env D (around base) R (setup_storage base)"
  unfolding setup_storage_def Let_def
  by (intro changing writing writes_create_storage writes_lock around_below)

lemma create_storage:
  assumes "on_disk (io e (fs_create_dir_all p)) s = (Inr u, s')" and "dirs_exist D (files_of s)"
  shows "dirs_exist (insert p D) (files_of s')"
proof -
  from on_disk_Inr [OF assms(1)] obtain d where d: "io e (fs_create_dir_all p) (st_disk s) = (Inr u, d)"
    "files_of s' = dk_entries d" by blast
  then have f: "fs_create_dir_all p (files_of s) = Some ((), files_of s')" using io_Inr by fastforce
  have "writes D (\<lambda>_. True) (io e (fs_create_dir_all p))" by (rule writes_create_dir_all) simp
  with assms(2) d have "dirs_exist D (files_of s')" unfolding writes_def by (metis snd_conv)
  with create_dir_all_effect(2) [OF _ f] assms(2) show ?thesis by (simp add: dirs_exist_def)
qed

lemma setup_storage_dirs:
  assumes "setup_storage base s = (Inr (), s')" and "tree (files_of s)"
  shows "dirs_exist (store_dirs base) (files_of s')"
proof -
  let ?D = "store_dirs base"
  let ?create = "\<lambda>n. on_disk (io (ArtifactError ''artifact storage initialization failed'')
    (fs_create_dir_all (base @ [n])))"
  let ?lock = "bind_st (on_disk (io (ArtifactError ''artifact setup lock could not be opened'')
        (fs_open_or_create (base @ [''.setup.lock''])))) (\<lambda>_.
        on_disk (io (ArtifactError ''artifact setup lock could not be acquired'') fs_sync))"
  from assms(1) obtain s1 s2 s3 s4 u1 u2 u3 u4 where c: "?create ''objects'' s = (Inr u1, s1)"
    "?create ''downloads'' s1 = (Inr u2, s2)" "?create ''staging'' s2 = (Inr u3, s3)"
    "?create ''recovery'' s3 = (Inr u4, s4)" and l: "?lock s4 = (Inr (), s')"
    unfolding setup_storage_def Let_def bind_st_Inr_iff [where f = "\<lambda>_. bind_st (?create _) _"]
      bind_st_Inr_iff [where f = "\<lambda>_. ?lock"] by blast
  have "dirs_exist {} (files_of s)" using assms(2) by (simp add: dirs_exist_def)
  then have "dirs_exist ?D (files_of s4)"
    using create_storage [OF c(4) create_storage [OF c(3) create_storage [OF c(2) create_storage [OF c(1)]]]]
    unfolding store_dirs_def by (simp only: insert_commute)
  moreover have "changes env ?D (around base) {} ?lock" by (intro changing writing writes_lock around_below)
  ultimately show ?thesis using l changesD(2) [of _ ?D "around base" "{}" ?lock s4 "Inr ()" s'] by blast
qed

section \<open>Properties\<close>

lemma profile_of_Inr:
  assumes "profile_of env = Inr (m, platform, selected)"
  shows "en_manifest env = Some m" "set selected \<subseteq> set (cm_artifacts m)" "length selected = 3"
    "distinct (map (object_path base) selected)" "\<forall>a\<in>set selected. paths_safe a"
proof -
  from assms have m: "parse_manifest (en_manifest env) = Inr m" and s: "select_artifacts m platform = Inr selected"
    by (auto simp: profile_of_def res_simps)
  note p = parse_manifest_Inr [OF m]
  from s have sel: "selected = filter (\<lambda>a. platform \<in> set (ar_platforms a)) (cm_artifacts m)"
    by (auto simp: select_artifacts_def Let_def split: if_splits)
  show "en_manifest env = Some m" "set selected \<subseteq> set (cm_artifacts m)" using p sel by auto
  show "\<forall>a\<in>set selected. paths_safe a" using p(3) sel validate_artifact_Inr(6) by (simp add: paths_safe_def)
  show "length selected = 3" using s by (auto simp: select_artifacts_def Let_def split: if_splits)
  show "distinct (map (object_path base) selected)"
    using distinct_object_paths [of selected base] p(2,3) sel by (simp add: distinct_map_filter)
qed

definition permitted_url :: "artifact_env \<Rightarrow> string \<Rightarrow> bool" where
  "permitted_url env u \<longleftrightarrow> en_url env u = Some (''https'', Some ''github.com'')
     \<and> (\<exists>m. en_manifest env = Some m \<and> u \<in> ar_url ` set (cm_artifacts m))"

lemma origins_permitted: "profile_of env = Inr (m, platform, selected) \<Longrightarrow> a \<in> set selected \<Longrightarrow>
    u \<in> origins env a \<Longrightarrow> permitted_url env u"
  using profile_of_Inr(1,2) [of env m platform selected]
  by (auto simp: origins_def check_origin_def permitted_url_def res_simps ok_or_def split: if_splits option.splits)

text \<open>
  C21: a setup stays in its place. On a disk without symbolic links, whatever the archives hold (paths
  with parent components among them), whatever the servers answer and the clock says, and wherever it
  stops, a setup changes only what is below its directory or a directory above it, and makes no link.
  Every URL it requests is either an \<open>https\<close> URL of \<open>github.com\<close> that the
  manifest names, or one of at most five \<open>https\<close> URLs in a row, of any host, that the
  answers after such a request redirect to; offline it requests nothing.
\<close>

theorem setup_is_contained:
  assumes "tree (files_of s)" and "store_setup env base offline s = (r, s')"
  shows "tree (files_of s')
    \<and> (\<forall>q. prefix base q \<or> prefix q base \<or> entry_at (files_of s') q = entry_at (files_of s) q)
    \<and> (\<exists>us. st_requests s' = st_requests s @ us
          \<and> lawful env {u. permitted_url env u} (length (st_requests s)) 0 None us
          \<and> (if offline then us = [] else True))"
proof -
  let ?R = "if offline then {} else {u. permitted_url env u}"
  have "confined (around base) (files_of s) (files_of s') \<and> requests_within env ?R s s'"
  proof (cases "profile_of env")
    case (Inl e)
    with assms show ?thesis by (auto simp: store_setup_def confined_refl requests_within_refl)
  next
    case (Inr x)
    obtain m platform selected where x: "x = (m, platform, selected)" by (cases x)
    obtain t s1 where t: "setup_storage base s = (t, s1)" by fastforce
    have "dirs_exist {} (files_of s)" using assms(1) by (simp add: dirs_exist_def)
    note c1 = changesD [OF changes_setup_storage [of env "{}" base ?R] t this]
    show ?thesis
    proof (cases t)
      case (Inl e)
      with assms(2) Inr x t have "s' = s1" by (simp add: store_setup_def)
      with c1(1,3) show ?thesis by simp
    next
      case (Inr u)
      obtain k s2 where k: "ensure_all env base offline selected s1 = (k, s2)" by fastforce
      have "s' = s2"
        using assms(2) \<open>profile_of env = Inr x\<close> x t Inr k by (cases k) (simp_all add: store_setup_def)
      moreover have "dirs_exist (store_dirs base) (files_of s1)"
        using setup_storage_dirs [of base s s1] t Inr assms(1) by simp
      note c2 = changesD [OF changes_ensure_all k this]
      have "around base q" if "any_area base selected q" for q
        using that by (auto simp: area_def around_def object_path_def strict_prefix_def prefix_def)
      then have "confined (around base) (files_of s1) (files_of s2)" by (rule confined_mono [OF c2(1)])
      moreover have "any_origin env offline selected \<subseteq> ?R"
        using origins_permitted \<open>profile_of env = Inr x\<close> x by (auto split: if_splits)
      from requests_within_mono [OF c2(3) this] have "requests_within env ?R s1 s2" .
      ultimately show ?thesis using confined_trans [OF c1(1)] requests_within_trans [OF c1(3)] by blast
    qed
  qed
  then show ?thesis
    by (cases offline) (auto simp: confined_def around_def requests_within_def lawful_none)
qed

text \<open>
  C20: setup is sound. When a setup succeeds, its report is ready and names the three artifacts of
  the platform's profile, and the object of each is intact on the disk it leaves: the ones it
  verified, the ones it unpacked, and the earlier ones after the later ones were installed. Offline
  it can succeed only by verifying all of them.
\<close>

theorem setup_is_sound:
  assumes "tree (files_of s)" and "store_setup env base offline s = (Inr report, s')"
  shows "\<exists>m platform selected. profile_of env = Inr (m, platform, selected) \<and> length selected = 3
    \<and> rp_status report = ''ready'' \<and> map re_id (rp_artifacts report) = map ar_id selected
    \<and> list_all (\<lambda>a. object_intact env (files_of s') (object_path base a) a) selected
    \<and> (if offline then list_all (\<lambda>x. re_state x = ''verified'') (rp_artifacts report) else True)"
proof -
  from assms(2) obtain m platform selected s1 results where p: "profile_of env = Inr (m, platform, selected)"
    and t: "setup_storage base s = (Inr (), s1)"
    and k: "ensure_all env base offline selected s1 = (Inr results, s')"
    and report: "report = \<lparr>rp_profile = cm_profile m, rp_platform = platform, rp_status = ''ready'',
      rp_artifacts = results\<rparr>"
    by (auto simp: store_setup_def bind_st_Inr_iff)
  from ensure_all_sound [OF k setup_storage_dirs [OF t assms(1)] profile_of_Inr(4,5) [OF p]] p report
    profile_of_Inr(3) [OF p]
  show ?thesis by (simp add: list_all_iff)
qed

text \<open>A store whose three objects are complete.\<close>

definition demo_spec :: "string \<Rightarrow> string \<Rightarrow> artifact_spec" where
  "demo_spec name kind =
     \<lparr>ar_id = name, ar_kind = kind, ar_platforms = [''linux-x86_64''],
      ar_url = ''https://github.com/demo'', ar_size = 1, ar_sha256 = replicate 64 (CHR ''0''),
      ar_archive_root = ''demo'', ar_max_unpacked_bytes = 1, ar_required_paths = [''f''],
      ar_licenses = [license ''code'' ''MIT'' ''https://github.com/demo'' ''v1'']\<rparr>"

definition demo_manifest :: curated_manifest where
  "demo_manifest = \<lparr>cm_schema_version = 1, cm_profile = ''impossible-voice-en-cpu-v1'',
     cm_artifacts = [demo_spec ''r'' ''runtime'', demo_spec ''s'' ''stt-model'', demo_spec ''t'' ''tts-model'']\<rparr>"

definition demo_installation :: "string \<Rightarrow> installation" where
  "demo_installation name = \<lparr>in_schema_version = 1, in_artifact_id = name,
     in_archive_sha256 = replicate 64 (CHR ''0''),
     in_files = [\<lparr>if_path = ''f'', if_size = 1, if_sha256 = ''07''\<rparr>]\<rparr>"

definition demo_env :: artifact_env where
  "demo_env = tiny_env\<lparr>en_manifest := Some demo_manifest,
     en_decode := (\<lambda>b. map_option demo_installation
       (map_of [([1], ''r''), ([2], ''s''), ([3], ''t'')] b))\<rparr>"

definition demo_object :: "string \<Rightarrow> u8 \<Rightarrow> entries" where
  "demo_object name marker =
     (let p = [''b'', ''objects'', name @ ''-'' @ replicate 16 (CHR ''0'')] in
      [(p, EDir), (p @ [installation_file], EFile [marker]), (p @ [''f''], EFile [7])])"

definition demo_store :: store where
  "demo_store = \<lparr>st_disk = \<lparr>dk_entries =
       [([''b''], EDir), ([''b'', ''objects''], EDir), ([''b'', ''downloads''], EDir),
        ([''b'', ''staging''], EDir), ([''b'', ''recovery''], EDir), ([''b'', ''.setup.lock''], EFile [])]
       @ demo_object ''r'' 1 @ demo_object ''s'' 2 @ demo_object ''t'' 3, dk_faults = []\<rparr>,
     st_requests = [], st_ticks = 0\<rparr>"

lemma demo_names: "ar_id (demo_spec n k) = n" "object_path [''b''] (demo_spec n k)
    = [''b'', ''objects'', n @ ''-'' @ replicate 16 (CHR ''0'')]"
  by (simp_all add: demo_spec_def object_path_def)

lemma demo_profile:
  "profile_of demo_env = Inr (demo_manifest, ''linux-x86_64'',
     [demo_spec ''r'' ''runtime'', demo_spec ''s'' ''stt-model'', demo_spec ''t'' ''tts-model''])"
proof -
  have v: "validate_artifact (demo_spec n k) = Inr ()"
    if "n \<in> {''r'', ''s'', ''t''}" "k \<in> {''runtime'', ''stt-model'', ''tts-model''}" for n k
    using that by (auto simp: validate_artifact_def demo_spec_def license_def ascii_alphanumeric_def
        ascii_hexdigit_def list_all_iff safe_relative_path_def path_components_def component_of_def
        is_normal_def is_absolute_def)
  have "parse_manifest (en_manifest demo_env) = Inr demo_manifest"
    by (simp add: parse_manifest_def demo_env_def demo_manifest_def v demo_names)
  moreover have "current_platform (en_os demo_env) (en_arch demo_env) = Inr ''linux-x86_64''"
    by (simp add: demo_env_def tiny_env_def current_platform_def)
  moreover have "select_artifacts demo_manifest ''linux-x86_64''
      = Inr [demo_spec ''r'' ''runtime'', demo_spec ''s'' ''stt-model'', demo_spec ''t'' ''tts-model'']"
    by (simp add: select_artifacts_def demo_manifest_def demo_spec_def kind_count_def)
  ultimately show ?thesis by (simp add: profile_of_def)
qed

lemmas demo_disk = io_def Let_def fs_read_def lookup_def resolve_def max_links_def entry_at_def
  demo_store_def demo_object_def installation_file_def

lemma demo_verifies:
  assumes "n \<in> {''r'', ''s'', ''t''}"
  shows "verify_object demo_env [''b'', ''objects'', n @ ''-'' @ replicate 16 (CHR ''0'')] (demo_spec n k)
      (st_disk demo_store) = (Inr (), st_disk demo_store)"
  using assms
  by (auto simp: verify_object_def bind_st_def demo_disk demo_env_def tiny_env_def demo_spec_def
      demo_installation_def identity_matches_def ok_or_def safe_relative_path_def path_components_def
      component_of_def is_absolute_def is_normal_def verify_archive_file_def fs_metadata_def join_path_def
      digest_def hex_digest_def hex_char_def inventory_files_def fs_read_dir_def child_names_def
      fs_file_type_def path_text_def utf8_def fs_exists_def char_of_def bit_0)

lemma demo_ensure:
  assumes "n \<in> {''r'', ''s'', ''t''}"
  shows "ensure_artifact demo_env [''b''] True (demo_spec n k) demo_store = (Inr ''verified'', demo_store)"
proof -
  let ?p = "[''b'', ''objects'', n @ ''-'' @ replicate 16 (CHR ''0'')]"
  have "fs_exists ?p (st_disk demo_store) = ((Inr True :: artifact_error + bool), st_disk demo_store)"
    using assms by (auto simp: fs_exists_def fs_metadata_def demo_disk)
  then have "on_disk (fs_exists ?p) demo_store = ((Inr True :: artifact_error + bool), demo_store)"
    by (simp add: on_disk_def)
  moreover have "io (ArtifactError e) (\<lambda>E. Some ((), E)) (st_disk demo_store) = (Inr (), st_disk demo_store)" for e
    by (simp add: io_def demo_store_def)
  then have "blocking lost (verify_object demo_env ?p (demo_spec n k)) demo_store = (Inr (Inr ()), demo_store)" for lost
    using demo_verifies [OF assms] by (simp add: blocking_def on_disk_def)
  ultimately show ?thesis
    unfolding ensure_artifact_def Let_def demo_names by simp
qed

lemma demo_storage: "setup_storage [''b''] demo_store = (Inr (), demo_store)"
proof -
  have "fs_create_dir_all [''b'', n] (dk_entries (st_disk demo_store)) = Some ((), dk_entries (st_disk demo_store))"
    if "n \<in> {''objects'', ''downloads'', ''staging'', ''recovery''}" for n
    using that by (auto simp: fs_create_dir_all_def demo_disk)
  then have "on_disk (io e (fs_create_dir_all [''b'', n])) demo_store = (Inr (), demo_store)"
    if "n \<in> {''objects'', ''downloads'', ''staging'', ''recovery''}" for n and e :: artifact_error
    using that by (simp add: on_disk_def io_def demo_store_def)
  moreover have "fs_open_or_create [''b'', ''.setup.lock''] (dk_entries (st_disk demo_store))
      = Some ((), dk_entries (st_disk demo_store))"
    by (simp add: fs_open_or_create_def demo_disk)
  then have "on_disk (io e (fs_open_or_create [''b'', ''.setup.lock''])) demo_store = (Inr (), demo_store)"
    for e :: artifact_error
    by (simp add: on_disk_def io_def demo_store_def)
  moreover have "on_disk (io e fs_sync) demo_store = (Inr (), demo_store)" for e :: artifact_error
    by (simp add: on_disk_def io_def demo_store_def fs_sync_def)
  ultimately show ?thesis by (simp add: setup_storage_def)
qed

lemma demo_setup:
  "store_setup demo_env [''b''] True demo_store = (Inr \<lparr>rp_profile = ''impossible-voice-en-cpu-v1'',
     rp_platform = ''linux-x86_64'', rp_status = ''ready'',
     rp_artifacts = [\<lparr>re_id = ''r'', re_kind = ''runtime'', re_state = ''verified''\<rparr>,
       \<lparr>re_id = ''s'', re_kind = ''stt-model'', re_state = ''verified''\<rparr>,
       \<lparr>re_id = ''t'', re_kind = ''tts-model'', re_state = ''verified''\<rparr>]\<rparr>, demo_store)"
proof -
  have "ar_id (demo_spec n k) = n" "ar_kind (demo_spec n k) = k" for n k by (simp_all add: demo_spec_def)
  then show ?thesis
    by (simp add: store_setup_def demo_profile demo_storage demo_ensure demo_manifest_def)
qed

lemma demo_tree: "tree (files_of demo_store)"
proof -
  have "wf_fs (files_of demo_store)" by (simp add: wf_fs_def demo_disk)
  moreover have "no_links_below (files_of demo_store) []"
    by (auto simp: no_links_below_def demo_disk)
  ultimately show ?thesis by (simp add: tree_def)
qed

definition empty_store :: store where
  "empty_store = \<lparr>st_disk = \<lparr>dk_entries = [], dk_faults = []\<rparr>, st_requests = [], st_ticks = 0\<rparr>"

theorem setup_is_contained_witness:
  "let s' = snd (store_setup demo_env [''b''] True empty_store)
   in tree (files_of s') \<and> entry_at (files_of s') [''c''] = None \<and> st_requests s' = []"
proof -
  have t: "tree (files_of empty_store)" by (auto simp: tree_def wf_fs_def no_links_below_def empty_store_def entry_at_def)
  have "store_setup demo_env [''b''] True empty_store = (fst (store_setup demo_env [''b''] True empty_store),
      snd (store_setup demo_env [''b''] True empty_store))" by simp
  note c = setup_is_contained [OF t this]
  have "prefix [''b''] [''c''] \<or> prefix [''c''] [''b'']
      \<or> entry_at (files_of (snd (store_setup demo_env [''b''] True empty_store))) [''c'']
        = entry_at (files_of empty_store) [''c'']"
    using c by blast
  with c show ?thesis by (simp add: Let_def) (simp add: empty_store_def entry_at_def)
qed

theorem setup_is_sound_witness:
  "object_intact demo_env (files_of demo_store) (object_path [''b''] (demo_spec ''s'' ''stt-model''))
     (demo_spec ''s'' ''stt-model'')"
  using setup_is_sound [OF demo_tree demo_setup] by (simp add: demo_profile)

end
