(* ===== verification/Artifact_Status.thy ===== *)
theory Artifact_Status
  imports Artifact_Guarantees
begin

text \<open>
  \<open>status\<close> and \<open>verified_profile\<close> of
  \<open>crates/impossible-voice-artifacts/src/lib.rs\<close> decide the same question by different
  routes: the first looks at every selected object and reports, the second looks up the three kinds and
  stops at the first object that does not verify.
\<close>

section \<open>Inspection of a steady disk\<close>

text \<open>While the disk does not fail, an action that only reads leaves it exactly as it was.\<close>

definition steady :: "(disk, 'e, 'a) action \<Rightarrow> bool" where
  "steady m \<longleftrightarrow> (\<forall>d. dk_faults d = [] \<longrightarrow> snd (m d) = d)"

named_theorems steadying \<open>actions that leave a steady disk as it was\<close>

lemma steadyD: "steady m \<Longrightarrow> m d = (r, d') \<Longrightarrow> dk_faults d = [] \<Longrightarrow> d' = d"
  by (simp add: steady_def) (metis snd_conv)

lemma steady_basic [steadying]: "steady (ret a)" "steady (fail e)" "steady (lift_res r)"
  by (simp_all add: steady_def)

lemma steady_bind [steadying]:
  assumes "steady m" and "\<And>a. steady (f a)"
  shows "steady (bind_st m f)"
  unfolding steady_def
proof (intro allI impI)
  fix d :: disk assume d: "dk_faults d = []"
  obtain r d1 where m: "m d = (r, d1)" by fastforce
  with steadyD [OF assms(1) m d] assms(2) d show "snd (bind_st m f d) = d"
    by (cases r) (simp_all add: steady_def)
qed

lemma steady_if [steadying]: "steady m \<Longrightarrow> steady m' \<Longrightarrow> steady (if b then m else m')"
  by simp

lemma steady_io:
  assumes "\<And>E a E'. f E = Some (a, E') \<Longrightarrow> E' = E"
  shows "steady (io e f)"
  using assms unfolding steady_def io_def by (auto split: option.split)

lemma steady_ops [steadying]:
  "steady (io e (fs_metadata p))" "steady (io e (fs_read p))" "steady (io e (fs_read_dir p))"
  "steady (io e (fs_file_type p n))"
  by (rule steady_io; auto simp: fs_metadata_def fs_read_def fs_read_dir_def fs_file_type_def
      split: option.splits entry.splits if_splits)+

lemma steady_exists [steadying]: "steady (fs_exists p)"
  using steady_ops(1) [of "()" p] unfolding steady_def fs_exists_def
  by (auto split: prod.split sum.split)

lemma steady_entries: "steady (inventory_entries base dir ns found)"
proof (induction ns arbitrary: found)
  case Nil
  then show ?case by (simp add: steady_def)
next
  case (Cons n ns)
  obtain pending files where found: "found = (pending, files)" by fastforce
  show ?case
    unfolding found inventory_entries.simps
    by (intro steadying) (auto intro!: steadying Cons.IH split: entry.split)
qed

lemma steady_inventory: "dk_faults d = [] \<Longrightarrow> snd (inventory base pending files d) = d"
proof (induction base pending files d rule: inventory.induct)
  case (2 base dir pending files d)
  obtain r d1 where io: "io (ArtifactError ''installed artifact could not be inventoried'') (fs_read_dir dir) d = (r, d1)"
    by fastforce
  have d1: "d1 = d" using steadyD [OF steady_ops(3) io "2.prems"] .
  show ?case
  proof (cases r)
    case (Inr names)
    obtain r2 d2 where en: "inventory_entries base dir names (pending, files) d1 = (r2, d2)" by fastforce
    have d2: "d2 = d" using steadyD [OF steady_entries en] "2.prems" d1 by simp
    show ?thesis
    proof (cases r2)
      case (Inr pf)
      obtain p' f' where pf: "pf = (p', f')" by fastforce
      from "2.IH" [OF io [symmetric] \<open>r = Inr names\<close> en [symmetric] Inr pf [symmetric]] "2.prems" d2
        io en \<open>r = Inr names\<close> Inr pf
      show ?thesis by simp
    qed (use io en Inr d2 in simp)
  qed (use io d1 in simp)
qed simp

lemma steady_verify [steadying]:
  "steady (verify_archive_file env p n sha)" "steady (inventory_files base)"
  "steady (verify_files env base fs expected)" "steady (verify_required base ps)"
proof -
  show v: "steady (verify_archive_file env p n sha)" for p n sha
    unfolding verify_archive_file_def Let_def split_beta by (intro steadying)
  show "steady (inventory_files base)"
    unfolding steady_def inventory_files_def using steady_inventory by blast
  show "steady (verify_files env base fs expected)"
  proof (induction fs arbitrary: expected)
    case Nil
    show ?case unfolding verify_files.simps by (rule steadying)
  next
    case (Cons f fs)
    then show ?case unfolding verify_files.simps by (intro steadying v)
  qed
  show "steady (verify_required base ps)"
  proof (induction ps)
    case Nil
    show ?case unfolding verify_required.simps by (rule steadying)
  next
    case (Cons p ps)
    then show ?case unfolding verify_required.simps by (intro steadying)
  qed
qed

lemma steady_object [steadying]: "steady (verify_object env base a)"
  unfolding verify_object_def by (intro steadying)

section \<open>What is reported\<close>

definition verifies :: "artifact_env \<Rightarrow> path \<Rightarrow> disk \<Rightarrow> artifact_spec \<Rightarrow> bool" where
  "verifies env base d a \<longleftrightarrow> verify_object env (object_path base a) a d = (Inr (), d)"

lemma verify_object_steady:
  assumes "dk_faults d = []"
  shows "verifies env base d a \<or> (\<exists>e. verify_object env (object_path base a) a d = (Inl e, d))"
proof -
  obtain r d' where v: "verify_object env (object_path base a) a d = (r, d')" by fastforce
  with steadyD [OF steady_object v assms] show ?thesis by (cases r) (auto simp: verifies_def)
qed

lemma verifies_present:
  assumes "verifies env base d a" and "tree (dk_entries d)" and "dk_faults d = []"
  shows "fs_exists (object_path base a) d = ((Inr True :: artifact_error + bool), d)"
proof -
  obtain marker where "lookup (dk_entries d) (object_path base a @ [installation_file]) = Some (EFile marker)"
    using assms(1) unfolding verifies_def verify_object_def
    by (auto simp: bind_st_Inr_iff fs_read_def dest!: io_Inr split: option.splits entry.splits)
  then have "entry_at (dk_entries d) (object_path base a) = Some EDir"
    using wf_fs_parent [of "dk_entries d" "object_path base a" installation_file] assms(2)
    by (simp add: tree_lookup) (simp add: tree_def)
  with assms(2,3) show ?thesis
    by (simp add: fs_exists_def io_def fs_metadata_def tree_lookup)
qed

lemma object_state_steady:
  assumes "tree (dk_entries d)" and "dk_faults d = []"
  shows "\<exists>state. object_state env base a d = (Inr state, d) \<and> (state = ''verified'' \<longleftrightarrow> verifies env base d a)"
proof -
  obtain r d' where x: "fs_exists (object_path base a) d = ((r :: artifact_error + bool), d')" by fastforce
  have d': "d' = d" using steadyD [OF steady_exists x assms(2)] .
  obtain present where r: "r = Inr present" using x by (auto simp: fs_exists_def split: prod.splits sum.splits)
  show ?thesis
  proof (cases "verifies env base d a")
    case True
    with verifies_present [OF True assms] show ?thesis by (auto simp: object_state_def verifies_def)
  next
    case False
    with verify_object_steady [OF assms(2)] obtain e where
      "verify_object env (object_path base a) a d = (Inl e, d)" by blast
    with x r d' False show ?thesis by (cases present) (auto simp: object_state_def)
  qed
qed

lemma object_states_steady:
  assumes "tree (dk_entries d)" and "dk_faults d = []"
  shows "\<exists>results. object_states env base as d = (Inr results, d)
    \<and> ((\<forall>r\<in>set results. re_state r = ''verified'') \<longleftrightarrow> (\<forall>a\<in>set as. verifies env base d a))"
proof (induction as)
  case (Cons a as)
  obtain state where "object_state env base a d = (Inr state, d)" "state = ''verified'' \<longleftrightarrow> verifies env base d a"
    using object_state_steady [OF assms] by blast
  with Cons.IH show ?case by auto
qed simp

lemma verified_kind_path_steady:
  assumes "find_kind selected kind = Inr a" and "dk_faults d = []"
  shows "if verifies env base d a
    then verified_kind_path env base selected kind d = (Inr (object_path base a), d)
    else \<exists>e. verified_kind_path env base selected kind d = (Inl e, d)"
  using verify_object_steady [OF assms(2), of env base a] assms(1)
  by (auto simp: verified_kind_path_def verifies_def)

lemma profile_kinds:
  assumes "profile_of env = Inr (m, platform, selected)"
  shows "\<exists>r s t. find_kind selected ''runtime'' = Inr r \<and> find_kind selected ''stt-model'' = Inr s
    \<and> find_kind selected ''tts-model'' = Inr t \<and> set selected = {r, s, t}"
proof -
  from assms have m: "parse_manifest (en_manifest env) = Inr m" and sel: "select_artifacts m platform = Inr selected"
    by (auto simp: profile_of_def res_simps)
  from sel have selected: "selected = filter (\<lambda>a. platform \<in> set (ar_platforms a)) (cm_artifacts m)"
    and counts: "kind_count selected ''runtime'' = 1" "kind_count selected ''stt-model'' = 1"
      "kind_count selected ''tts-model'' = 1"
    by (auto simp: select_artifacts_def Let_def split: if_splits)
  obtain r s t where f: "find_kind selected ''runtime'' = Inr r" "find_kind selected ''stt-model'' = Inr s"
    "find_kind selected ''tts-model'' = Inr t"
    and only: "filter (\<lambda>b. ar_kind b = ''runtime'') selected = [r]"
      "filter (\<lambda>b. ar_kind b = ''stt-model'') selected = [s]"
      "filter (\<lambda>b. ar_kind b = ''tts-model'') selected = [t]"
    using find_kind_unique [OF counts(1)] find_kind_unique [OF counts(2)] find_kind_unique [OF counts(3)] by blast
  have kinds: "ar_kind a \<in> {''runtime'', ''stt-model'', ''tts-model''}" if "a \<in> set selected" for a
    using that selected validate_artifact_Inr(1) parse_manifest_Inr(3) [OF m] by simp
  have "a \<in> set selected \<longleftrightarrow> a \<in> set (filter (\<lambda>b. ar_kind b = ''runtime'') selected)
      \<or> a \<in> set (filter (\<lambda>b. ar_kind b = ''stt-model'') selected)
      \<or> a \<in> set (filter (\<lambda>b. ar_kind b = ''tts-model'') selected)" for a
    using kinds [of a] by auto
  then have "set selected = {r, s, t}" unfolding only by auto
  with f show ?thesis by blast
qed

lemma steady_inspection:
  "steady (store_status env base)" "steady (verified_profile_of env base)"
proof -
  have state: "steady (object_state env base a)" for a
  proof (unfold object_state_def, rule steady_bind, rule steady_exists)
    fix present
    show "steady (\<lambda>d. if \<not> present then (Inr ''missing'', d)
        else case verify_object env (object_path base a) a d of
          (Inl e, d) \<Rightarrow> (Inr ''invalid'', d) | (Inr u, d) \<Rightarrow> (Inr ''verified'', d))"
      using steadyD [OF steady_object] by (auto simp: steady_def split: prod.split sum.split)
  qed
  have states: "steady (object_states env base as)" for as
    by (induction as) (auto intro!: steadying state simp del: action_simps)
  have path: "steady (verified_kind_path env base selected kind)" for selected kind
    unfolding verified_kind_path_def by (intro steadying)
  show "steady (store_status env base)"
    unfolding store_status_def split_beta by (intro steadying states)
  show "steady (verified_profile_of env base)"
    unfolding verified_profile_of_def split_beta by (intro steadying path)
qed

lemma ready_iff_verified:
  assumes "tree (dk_entries d)" and "dk_faults d = []"
  shows "(\<exists>report. store_status env base d = (Inr report, d) \<and> rp_status report = ''ready'')
    \<longleftrightarrow> (\<exists>profile. verified_profile_of env base d = (Inr profile, d))"
proof (cases "profile_of env")
  case (Inl e)
  then show ?thesis by (simp add: store_status_def verified_profile_of_def)
next
  case (Inr x)
  obtain m platform selected where x: "x = (m, platform, selected)" by (cases x)
  from profile_kinds Inr x obtain r s t where f: "find_kind selected ''runtime'' = Inr r"
    "find_kind selected ''stt-model'' = Inr s" "find_kind selected ''tts-model'' = Inr t"
    and set: "set selected = {r, s, t}"
    by metis
  obtain results where results: "object_states env base selected d = (Inr results, d)"
    "(\<forall>r\<in>set results. re_state r = ''verified'') \<longleftrightarrow> (\<forall>a\<in>set selected. verifies env base d a)"
    using object_states_steady [OF assms] by blast
  have "(\<exists>report. store_status env base d = (Inr report, d) \<and> rp_status report = ''ready'')
      \<longleftrightarrow> (\<forall>a\<in>set selected. verifies env base d a)"
    unfolding results(2) [symmetric] using results(1) Inr x
    by (cases "\<forall>r\<in>set results. re_state r = ''verified''") (simp_all add: store_status_def)
  also have "\<dots> \<longleftrightarrow> (\<exists>profile. verified_profile_of env base d = (Inr profile, d))"
    using verified_kind_path_steady [OF f(1) assms(2), of env base]
      verified_kind_path_steady [OF f(2) assms(2), of env base]
      verified_kind_path_steady [OF f(3) assms(2), of env base] Inr x
    by (cases "verifies env base d r"; cases "verifies env base d s"; cases "verifies env base d t")
      (auto simp: verified_profile_of_def set)
  finally show ?thesis .
qed

section \<open>Properties\<close>

text \<open>
  C39: \<open>status\<close> and \<open>verified_profile\<close> agree. On a disk that does not fail,
  the status of a store is \<open>ready\<close> exactly when the verified profile of the same store
  exists, and both leave the disk as it was.
\<close>

theorem status_ready_iff_profile:
  assumes "tree (dk_entries d)" and "dk_faults d = []"
  shows "(\<exists>report. store_status env base d = (Inr report, d) \<and> rp_status report = ''ready'')
    \<longleftrightarrow> (\<exists>profile. verified_profile_of env base d = (Inr profile, d))"
  using ready_iff_verified [OF assms] .

theorem status_ready_iff_profile_witness:
  "(\<exists>report. store_status demo_env [''b''] (st_disk demo_store) = (Inr report, st_disk demo_store)
      \<and> rp_status report = ''ready'')
    \<and> (\<exists>profile. verified_profile_of demo_env [''b''] (st_disk demo_store) = (Inr profile, st_disk demo_store))"
proof -
  have "dk_faults (st_disk demo_store) = []" by (simp add: demo_store_def)
  moreover have "\<exists>profile. verified_profile_of demo_env [''b''] (st_disk demo_store) = (Inr profile, st_disk demo_store)"
  proof -
    have "ar_kind (demo_spec n k) = k" for n k by (simp add: demo_spec_def)
    then show ?thesis
      by (simp add: verified_profile_of_def demo_profile verified_kind_path_def find_kind_def ok_or_def
          demo_names demo_verifies del: append.simps)
  qed
  ultimately show ?thesis using status_ready_iff_profile [OF demo_tree] by blast
qed

end
