(* ===== verification/Sherpa_Config.thy ===== *)
theory Sherpa_Config
  imports Wav
begin

text \<open>
  The C configurations of \<open>crates/impossible-voice-sherpa-sys/src/lib.rs\<close>, field by field,
  as \<open>std::mem::zeroed\<close> makes them and as the two constructors fill them. A \<open>*const
  c_char\<close> is the text up to its terminating zero, \<open>None\<close> the null pointer; an
  \<open>i32\<close> is an integer.
\<close>

type_synonym c_text = "string option"

section \<open>Recognition\<close>

record online_transducer_config =
  otr_encoder :: c_text
  otr_decoder :: c_text
  otr_joiner :: c_text

definition online_transducer_zero :: online_transducer_config where
  "online_transducer_zero =
     \<lparr>otr_encoder = None, otr_decoder = None, otr_joiner = None\<rparr>"

record online_paraformer_config =
  opa_encoder :: c_text
  opa_decoder :: c_text

definition online_paraformer_zero :: online_paraformer_config where
  "online_paraformer_zero =
     \<lparr>opa_encoder = None, opa_decoder = None\<rparr>"

record online_zipformer_config =
  ozi_model :: c_text

definition online_zipformer_zero :: online_zipformer_config where
  "online_zipformer_zero =
     \<lparr>ozi_model = None\<rparr>"

record online_nemo_config =
  one_model :: c_text

definition online_nemo_zero :: online_nemo_config where
  "online_nemo_zero =
     \<lparr>one_model = None\<rparr>"

record online_tone_config =
  oto_model :: c_text

definition online_tone_zero :: online_tone_config where
  "online_tone_zero =
     \<lparr>oto_model = None\<rparr>"

record online_model_config =
  omc_transducer :: online_transducer_config
  omc_paraformer :: online_paraformer_config
  omc_zipformer :: online_zipformer_config
  omc_tokens :: c_text
  omc_num_threads :: int
  omc_provider :: c_text
  omc_debug :: int
  omc_model_type :: c_text
  omc_modeling_unit :: c_text
  omc_bpe_vocab :: c_text
  omc_tokens_buf :: c_text
  omc_tokens_buf_size :: int
  omc_nemo_ctc :: online_nemo_config
  omc_t_one_ctc :: online_tone_config

definition online_model_zero :: online_model_config where
  "online_model_zero =
     \<lparr>omc_transducer = online_transducer_zero, omc_paraformer = online_paraformer_zero,
      omc_zipformer = online_zipformer_zero, omc_tokens = None, omc_num_threads = 0,
      omc_provider = None, omc_debug = 0, omc_model_type = None, omc_modeling_unit = None,
      omc_bpe_vocab = None, omc_tokens_buf = None, omc_tokens_buf_size = 0,
      omc_nemo_ctc = online_nemo_zero, omc_t_one_ctc = online_tone_zero\<rparr>"

record feature_config =
  fea_sample_rate :: int
  fea_feature_dim :: int

definition feature_zero :: feature_config where
  "feature_zero =
     \<lparr>fea_sample_rate = 0, fea_feature_dim = 0\<rparr>"

record ctc_fst_config =
  ctc_graph :: c_text
  ctc_max_active :: int

definition ctc_fst_zero :: ctc_fst_config where
  "ctc_fst_zero =
     \<lparr>ctc_graph = None, ctc_max_active = 0\<rparr>"

record homophone_config =
  hom_dict_dir :: c_text
  hom_lexicon :: c_text
  hom_rule_fsts :: c_text

definition homophone_zero :: homophone_config where
  "homophone_zero =
     \<lparr>hom_dict_dir = None, hom_lexicon = None, hom_rule_fsts = None\<rparr>"

record online_config =
  oc_feat :: feature_config
  oc_model :: online_model_config
  oc_decoding_method :: c_text
  oc_max_active_paths :: int
  oc_enable_endpoint :: int
  oc_rule1_silence :: f32
  oc_rule2_silence :: f32
  oc_rule3_length :: f32
  oc_hotwords_file :: c_text
  oc_hotwords_score :: f32
  oc_ctc_fst :: ctc_fst_config
  oc_rule_fsts :: c_text
  oc_rule_fars :: c_text
  oc_blank_penalty :: f32
  oc_hotwords_buf :: c_text
  oc_hotwords_buf_size :: int
  oc_hr :: homophone_config

definition online_zero :: online_config where
  "online_zero =
     \<lparr>oc_feat = feature_zero, oc_model = online_model_zero, oc_decoding_method = None,
      oc_max_active_paths = 0, oc_enable_endpoint = 0, oc_rule1_silence = Fin 0,
      oc_rule2_silence = Fin 0, oc_rule3_length = Fin 0, oc_hotwords_file = None,
      oc_hotwords_score = Fin 0, oc_ctc_fst = ctc_fst_zero, oc_rule_fsts = None,
      oc_rule_fars = None, oc_blank_penalty = Fin 0, oc_hotwords_buf = None,
      oc_hotwords_buf_size = 0, oc_hr = homophone_zero\<rparr>"

section \<open>Synthesis\<close>

record vits_model_config =
  ovi_model :: c_text
  ovi_lexicon :: c_text
  ovi_tokens :: c_text
  ovi_data_dir :: c_text
  ovi_noise_scale :: f32
  ovi_noise_scale_w :: f32
  ovi_length_scale :: f32
  ovi_dict_dir :: c_text

definition vits_model_zero :: vits_model_config where
  "vits_model_zero =
     \<lparr>ovi_model = None, ovi_lexicon = None, ovi_tokens = None, ovi_data_dir = None,
      ovi_noise_scale = Fin 0, ovi_noise_scale_w = Fin 0, ovi_length_scale = Fin 0,
      ovi_dict_dir = None\<rparr>"

record matcha_model_config =
  oma_acoustic_model :: c_text
  oma_vocoder :: c_text
  oma_lexicon :: c_text
  oma_tokens :: c_text
  oma_data_dir :: c_text
  oma_noise_scale :: f32
  oma_length_scale :: f32
  oma_dict_dir :: c_text

definition matcha_model_zero :: matcha_model_config where
  "matcha_model_zero =
     \<lparr>oma_acoustic_model = None, oma_vocoder = None, oma_lexicon = None,
      oma_tokens = None, oma_data_dir = None, oma_noise_scale = Fin 0,
      oma_length_scale = Fin 0, oma_dict_dir = None\<rparr>"

record kokoro_model_config =
  oko_model :: c_text
  oko_voices :: c_text
  oko_tokens :: c_text
  oko_data_dir :: c_text
  oko_length_scale :: f32
  oko_dict_dir :: c_text
  oko_lexicon :: c_text
  oko_lang :: c_text

definition kokoro_model_zero :: kokoro_model_config where
  "kokoro_model_zero =
     \<lparr>oko_model = None, oko_voices = None, oko_tokens = None, oko_data_dir = None,
      oko_length_scale = Fin 0, oko_dict_dir = None, oko_lexicon = None, oko_lang = None\<rparr>"

record kitten_model_config =
  oki_model :: c_text
  oki_voices :: c_text
  oki_tokens :: c_text
  oki_data_dir :: c_text
  oki_length_scale :: f32

definition kitten_model_zero :: kitten_model_config where
  "kitten_model_zero =
     \<lparr>oki_model = None, oki_voices = None, oki_tokens = None, oki_data_dir = None,
      oki_length_scale = Fin 0\<rparr>"

record zipvoice_model_config =
  ozv_tokens :: c_text
  ozv_encoder :: c_text
  ozv_decoder :: c_text
  ozv_vocoder :: c_text
  ozv_data_dir :: c_text
  ozv_lexicon :: c_text
  ozv_feat_scale :: f32
  ozv_t_shift :: f32
  ozv_target_rms :: f32
  ozv_guidance_scale :: f32

definition zipvoice_model_zero :: zipvoice_model_config where
  "zipvoice_model_zero =
     \<lparr>ozv_tokens = None, ozv_encoder = None, ozv_decoder = None, ozv_vocoder = None,
      ozv_data_dir = None, ozv_lexicon = None, ozv_feat_scale = Fin 0, ozv_t_shift = Fin 0,
      ozv_target_rms = Fin 0, ozv_guidance_scale = Fin 0\<rparr>"

record pocket_model_config =
  opo_lm_flow :: c_text
  opo_lm_main :: c_text
  opo_encoder :: c_text
  opo_decoder :: c_text
  opo_text_conditioner :: c_text
  opo_vocab_json :: c_text
  opo_token_scores_json :: c_text
  opo_cache_capacity :: int

definition pocket_model_zero :: pocket_model_config where
  "pocket_model_zero =
     \<lparr>opo_lm_flow = None, opo_lm_main = None, opo_encoder = None, opo_decoder = None,
      opo_text_conditioner = None, opo_vocab_json = None, opo_token_scores_json = None,
      opo_cache_capacity = 0\<rparr>"

record supertonic_model_config =
  osu_duration_predictor :: c_text
  osu_text_encoder :: c_text
  osu_vector_estimator :: c_text
  osu_vocoder :: c_text
  osu_tts_json :: c_text
  osu_unicode_indexer :: c_text
  osu_voice_style :: c_text

definition supertonic_model_zero :: supertonic_model_config where
  "supertonic_model_zero =
     \<lparr>osu_duration_predictor = None, osu_text_encoder = None,
      osu_vector_estimator = None, osu_vocoder = None, osu_tts_json = None,
      osu_unicode_indexer = None, osu_voice_style = None\<rparr>"

record tts_model_config =
  otm_vits :: vits_model_config
  otm_num_threads :: int
  otm_debug :: int
  otm_provider :: c_text
  otm_matcha :: matcha_model_config
  otm_kokoro :: kokoro_model_config
  otm_kitten :: kitten_model_config
  otm_zipvoice :: zipvoice_model_config
  otm_pocket :: pocket_model_config
  otm_supertonic :: supertonic_model_config

definition tts_model_zero :: tts_model_config where
  "tts_model_zero =
     \<lparr>otm_vits = vits_model_zero, otm_num_threads = 0, otm_debug = 0,
      otm_provider = None, otm_matcha = matcha_model_zero, otm_kokoro = kokoro_model_zero,
      otm_kitten = kitten_model_zero, otm_zipvoice = zipvoice_model_zero,
      otm_pocket = pocket_model_zero, otm_supertonic = supertonic_model_zero\<rparr>"

record offline_tts_config =
  oo_model :: tts_model_config
  oo_rule_fsts :: c_text
  oo_max_num_sentences :: int
  oo_rule_fars :: c_text
  oo_silence_scale :: f32

definition offline_tts_zero :: offline_tts_config where
  "offline_tts_zero =
     \<lparr>oo_model = tts_model_zero, oo_rule_fsts = None, oo_max_num_sentences = 0,
      oo_rule_fars = None, oo_silence_scale = Fin 0\<rparr>"

section \<open>The two configurations in use\<close>

definition nemo_config :: "string \<Rightarrow> string \<Rightarrow> nat \<Rightarrow> online_config" where
  "nemo_config model tokens num_threads =
     online_zero
      \<lparr>oc_feat := (oc_feat online_zero)\<lparr>fea_sample_rate := 16000, fea_feature_dim := 80\<rparr>,
       oc_model := (oc_model online_zero)
         \<lparr>omc_nemo_ctc := (omc_nemo_ctc (oc_model online_zero))\<lparr>one_model := Some model\<rparr>,
          omc_tokens := Some tokens, omc_num_threads := int num_threads, omc_provider := Some ''cpu''\<rparr>,
       oc_decoding_method := Some ''greedy_search'', oc_max_active_paths := 4\<rparr>"

definition vits_config :: "string \<Rightarrow> string \<Rightarrow> string \<Rightarrow> nat \<Rightarrow> offline_tts_config" where
  "vits_config model tokens data_dir num_threads =
     offline_tts_zero
      \<lparr>oo_model := (oo_model offline_tts_zero)
         \<lparr>otm_vits := (otm_vits (oo_model offline_tts_zero))
            \<lparr>ovi_model := Some model, ovi_tokens := Some tokens, ovi_data_dir := Some data_dir,
             ovi_noise_scale := f32_round (667 / 1000), ovi_noise_scale_w := f32_round (8 / 10),
             ovi_length_scale := f32_round 1\<rparr>,
          otm_num_threads := int num_threads, otm_provider := Some ''cpu''\<rparr>,
       oo_max_num_sentences := 1, oo_silence_scale := f32_round (2 / 10)\<rparr>"

lemmas zero_configs = online_transducer_zero_def online_paraformer_zero_def online_zipformer_zero_def
  online_nemo_zero_def online_tone_zero_def online_model_zero_def feature_zero_def ctc_fst_zero_def
  homophone_zero_def online_zero_def vits_model_zero_def matcha_model_zero_def kokoro_model_zero_def
  kitten_model_zero_def zipvoice_model_zero_def pocket_model_zero_def supertonic_model_zero_def
  tts_model_zero_def offline_tts_zero_def

text \<open>
  The texts that a configuration points to are the arguments and the constants of the constructors,
  and no model family but one is selected.
\<close>

definition online_texts :: "online_config \<Rightarrow> c_text list" where
  "online_texts c =
     (let m = oc_model c; t = omc_transducer m; p = omc_paraformer m; h = oc_hr c in
      [otr_encoder t, otr_decoder t, otr_joiner t, opa_encoder p, opa_decoder p,
       ozi_model (omc_zipformer m), one_model (omc_nemo_ctc m), oto_model (omc_t_one_ctc m),
       omc_tokens m, omc_provider m, omc_model_type m, omc_modeling_unit m, omc_bpe_vocab m,
       omc_tokens_buf m, oc_decoding_method c, oc_hotwords_file c, ctc_graph (oc_ctc_fst c),
       oc_rule_fsts c, oc_rule_fars c, oc_hotwords_buf c, hom_dict_dir h, hom_lexicon h, hom_rule_fsts h])"

lemma nemo_config_texts:
  "filter (\<lambda>t. t \<noteq> None) (online_texts (nemo_config model tokens n)) =
     [Some model, Some tokens, Some ''cpu'', Some ''greedy_search'']"
  by (simp add: online_texts_def nemo_config_def zero_configs Let_def)

lemma vits_config_others:
  "otm_matcha (oo_model (vits_config a b c n)) = matcha_model_zero"
  "otm_kokoro (oo_model (vits_config a b c n)) = kokoro_model_zero"
  "otm_kitten (oo_model (vits_config a b c n)) = kitten_model_zero"
  "otm_zipvoice (oo_model (vits_config a b c n)) = zipvoice_model_zero"
  "otm_pocket (oo_model (vits_config a b c n)) = pocket_model_zero"
  "otm_supertonic (oo_model (vits_config a b c n)) = supertonic_model_zero"
  by (simp_all add: vits_config_def offline_tts_zero_def tts_model_zero_def)

end
