(* ===== verification/Sherpa.thy ===== *)
theory Sherpa
  imports Tts Artifacts Sherpa_Config
begin

text \<open>
  \<open>crates/impossible-voice-sherpa-sys/src/lib.rs\<close>: the wrapper around the native speech
  library. The C functions are the fields of \<open>native_lib\<close> on an arbitrary native state;
  every call is recorded with the pointers it takes and returns. A pointer is a number, \<open>0\<close>
  the null pointer.
\<close>

section \<open>The native library\<close>

datatype native_error = NativeError string

type_synonym ptr = nat

text \<open>What a generated-audio pointer refers to; a null sample pointer is \<open>None\<close>.\<close>

record generated_audio_raw =
  raw_samples :: "f32 list option"
  raw_n :: int
  raw_rate :: int

datatype native_call =
  CreatedOnline ptr
| DestroyedOnline ptr
| CreatedStream ptr ptr
| DestroyedStream ptr
| AcceptedWaveform ptr int "f32 list" int
| AskedReady ptr ptr
| Decoded ptr ptr
| FinishedInput ptr
| GotResult ptr ptr ptr
| ReadText ptr
| DestroyedResult ptr
| CreatedTts ptr
| DestroyedTts ptr
| Generated ptr ptr
| ReadAudio ptr
| DestroyedAudio ptr

text \<open>
  \<open>nl_poisoned\<close> says of each native object whether the mutex beside it is poisoned. Texts are bytes
  up to the terminating zero, \<open>None\<close> for a null pointer.
\<close>

record 'n native_lib =
  nl_is_file :: "string \<Rightarrow> bool"
  nl_exists :: "string \<Rightarrow> bool"
  nl_opens :: "string \<Rightarrow> bool"
  nl_symbol :: "string \<Rightarrow> bool"
  nl_version :: "string option"
  nl_poisoned :: "ptr \<Rightarrow> bool"
  nl_create_online :: "online_config \<Rightarrow> 'n \<Rightarrow> ptr \<times> 'n"
  nl_destroy_online :: "ptr \<Rightarrow> 'n \<Rightarrow> 'n"
  nl_create_stream :: "ptr \<Rightarrow> 'n \<Rightarrow> ptr \<times> 'n"
  nl_destroy_stream :: "ptr \<Rightarrow> 'n \<Rightarrow> 'n"
  nl_accept_waveform :: "ptr \<Rightarrow> int \<Rightarrow> f32 list \<Rightarrow> int \<Rightarrow> 'n \<Rightarrow> 'n"
  nl_is_ready :: "ptr \<Rightarrow> ptr \<Rightarrow> 'n \<Rightarrow> int \<times> 'n"
  nl_decode :: "ptr \<Rightarrow> ptr \<Rightarrow> 'n \<Rightarrow> 'n"
  nl_input_finished :: "ptr \<Rightarrow> 'n \<Rightarrow> 'n"
  nl_get_result :: "ptr \<Rightarrow> ptr \<Rightarrow> 'n \<Rightarrow> ptr \<times> 'n"
  nl_result_text :: "ptr \<Rightarrow> 'n \<Rightarrow> string option"
  nl_destroy_result :: "ptr \<Rightarrow> 'n \<Rightarrow> 'n"
  nl_create_tts :: "offline_tts_config \<Rightarrow> 'n \<Rightarrow> ptr \<times> 'n"
  nl_destroy_tts :: "ptr \<Rightarrow> 'n \<Rightarrow> 'n"
  nl_generate_tts :: "ptr \<Rightarrow> ustr \<Rightarrow> int \<Rightarrow> f32 \<Rightarrow> 'n \<Rightarrow> ptr \<times> 'n"
  nl_generated_audio :: "ptr \<Rightarrow> 'n \<Rightarrow> generated_audio_raw"
  nl_destroy_audio :: "ptr \<Rightarrow> 'n \<Rightarrow> 'n"

record 'n native =
  nt_state :: 'n
  nt_calls :: "native_call list"

type_synonym ('n, 'a) native_action = "('n native, native_error, 'a) action"

definition invoke :: "('n \<Rightarrow> 'a \<times> 'n) \<Rightarrow> ('a \<Rightarrow> native_call) \<Rightarrow> ('n, 'a) native_action" where
  "invoke f c w =
     (case f (nt_state w) of (a, n) \<Rightarrow> (Inr a, \<lparr>nt_state = n, nt_calls = nt_calls w @ [c a]\<rparr>))"

definition invoke_unit :: "('n \<Rightarrow> 'n) \<Rightarrow> native_call \<Rightarrow> ('n, unit) native_action" where
  "invoke_unit f c = invoke (\<lambda>n. ((), f n)) (\<lambda>_. c)"

section \<open>Loading\<close>

definition expected_version :: string where "expected_version = ''1.13.8''"
definition max_decode_steps :: nat where "max_decode_steps = 100000"
definition i32_max :: int where "i32_max = 2147483647"

text \<open>The names on Linux.\<close>

definition sherpa_library_name :: string where "sherpa_library_name = ''libsherpa-onnx-c-api.so''"

definition dependency_names :: "string list" where
  "dependency_names = [''libonnxruntime.so'', ''libonnxruntime_providers_shared.so'']"

definition load_library :: "'n native_lib \<Rightarrow> string \<Rightarrow> native_error + unit" where
  "load_library lib p =
     (if \<not> nl_is_file lib p then Inl (NativeError ''native runtime library is missing'')
      else if nl_opens lib p then Inr ()
      else Inl (NativeError ''native runtime library could not be loaded''))"

definition load_symbol :: "'n native_lib \<Rightarrow> string \<Rightarrow> native_error + unit" where
  "load_symbol lib name =
     (if nl_symbol lib name then Inr () else Inl (NativeError ''native runtime symbol is missing''))"

definition api_symbols :: "string list" where
  "api_symbols =
     [''SherpaOnnxGetVersionStr'', ''SherpaOnnxCreateOnlineRecognizer'',
      ''SherpaOnnxDestroyOnlineRecognizer'', ''SherpaOnnxCreateOnlineStream'',
      ''SherpaOnnxDestroyOnlineStream'', ''SherpaOnnxOnlineStreamAcceptWaveform'',
      ''SherpaOnnxIsOnlineStreamReady'', ''SherpaOnnxDecodeOnlineStream'',
      ''SherpaOnnxOnlineStreamInputFinished'', ''SherpaOnnxGetOnlineStreamResult'',
      ''SherpaOnnxDestroyOnlineRecognizerResult'', ''SherpaOnnxCreateOfflineTts'',
      ''SherpaOnnxDestroyOfflineTts'', ''SherpaOnnxOfflineTtsGenerate'',
      ''SherpaOnnxDestroyOfflineTtsGeneratedAudio'']"

fun load_dependencies :: "'n native_lib \<Rightarrow> string \<Rightarrow> string list \<Rightarrow> native_error + unit" where
  "load_dependencies lib dir [] = Inr ()"
| "load_dependencies lib dir (d # ds) =
     (if nl_exists lib (dir @ ''/'' @ d)
      then and_then (load_library lib (dir @ ''/'' @ d)) (\<lambda>_. load_dependencies lib dir ds)
      else load_dependencies lib dir ds)"

fun load_symbols :: "'n native_lib \<Rightarrow> string list \<Rightarrow> native_error + unit" where
  "load_symbols lib [] = Inr ()"
| "load_symbols lib (s # ss) = and_then (load_symbol lib s) (\<lambda>_. load_symbols lib ss)"

definition api_load :: "'n native_lib \<Rightarrow> string \<Rightarrow> native_error + unit" where
  "api_load lib runtime_root =
     (let library_dir = runtime_root @ ''/lib'' in
      and_then (load_dependencies lib library_dir dependency_names) (\<lambda>_.
      and_then (load_library lib (library_dir @ ''/'' @ sherpa_library_name)) (\<lambda>_.
        load_symbols lib api_symbols)))"

definition read_owned_string :: "string option \<Rightarrow> native_error + string" where
  "read_owned_string pointer =
     (case pointer of
        None \<Rightarrow> Inl (NativeError ''native runtime returned invalid text'')
      | Some bytes \<Rightarrow>
          if utf8 bytes then Inr bytes else Inl (NativeError ''native runtime returned invalid text''))"

definition runtime_load :: "'n native_lib \<Rightarrow> string \<Rightarrow> native_error + unit" where
  "runtime_load lib runtime_root =
     and_then (api_load lib runtime_root) (\<lambda>_.
     and_then (read_owned_string (nl_version lib)) (\<lambda>version.
       if version \<noteq> expected_version
       then Inl (NativeError ''native runtime version is incompatible'') else Inr ()))"

definition path_to_cstring :: "string \<Rightarrow> native_error + string" where
  "path_to_cstring p =
     (if \<not> utf8 p \<or> CHR 0x00 \<in> set p then Inl (NativeError ''native artifact path is invalid'')
      else Inr p)"

definition create_nemo_recognizer ::
  "'n native_lib \<Rightarrow> string \<Rightarrow> string \<Rightarrow> nat \<Rightarrow> ('n, ptr) native_action"
where
  "create_nemo_recognizer lib model tokens num_threads =
     (if num_threads = 0 \<or> num_threads > 32
      then fail (NativeError ''native thread count is invalid'')
      else
        bind_st (lift_res (path_to_cstring model)) (\<lambda>model.
        bind_st (lift_res (path_to_cstring tokens)) (\<lambda>tokens.
        bind_st (invoke (nl_create_online lib (nemo_config model tokens num_threads)) CreatedOnline)
          (\<lambda>pointer.
            if pointer = 0 then fail (NativeError ''speech recognizer initialization failed'')
            else ret pointer))))"

definition create_vits_tts ::
  "'n native_lib \<Rightarrow> string \<Rightarrow> string \<Rightarrow> string \<Rightarrow> nat \<Rightarrow> ('n, ptr) native_action"
where
  "create_vits_tts lib model tokens data_dir num_threads =
     (if num_threads = 0 \<or> num_threads > 32
      then fail (NativeError ''native thread count is invalid'')
      else
        bind_st (lift_res (path_to_cstring model)) (\<lambda>model.
        bind_st (lift_res (path_to_cstring tokens)) (\<lambda>tokens.
        bind_st (lift_res (path_to_cstring data_dir)) (\<lambda>data_dir.
        bind_st (invoke (nl_create_tts lib (vits_config model tokens data_dir num_threads)) CreatedTts)
          (\<lambda>pointer.
            if pointer = 0 then fail (NativeError ''speech synthesizer initialization failed'')
            else ret pointer)))))"

section \<open>Recognition streams\<close>

definition lock_gate :: "'n native_lib \<Rightarrow> ptr \<Rightarrow> ('n, unit) native_action" where
  "lock_gate lib p =
     (if nl_poisoned lib p then fail (NativeError ''native engine lock is unavailable'') else ret ())"

record online_stream =
  os_recognizer :: ptr
  os_pointer :: ptr
  os_finished :: bool

definition create_stream :: "'n native_lib \<Rightarrow> ptr \<Rightarrow> ('n, online_stream) native_action" where
  "create_stream lib r =
     bind_st (lock_gate lib r) (\<lambda>_.
     bind_st (invoke (nl_create_stream lib r) (CreatedStream r)) (\<lambda>pointer.
       if pointer = 0 then fail (NativeError ''speech stream initialization failed'')
       else ret \<lparr>os_recognizer = r, os_pointer = pointer, os_finished = False\<rparr>))"

fun decode_steps :: "'n native_lib \<Rightarrow> online_stream \<Rightarrow> nat \<Rightarrow> ('n, unit) native_action" where
  "decode_steps lib s 0 = fail (NativeError ''speech decoder exceeded its work bound'')"
| "decode_steps lib s (Suc k) =
     bind_st (invoke (nl_is_ready lib (os_recognizer s) (os_pointer s))
       (\<lambda>_. AskedReady (os_recognizer s) (os_pointer s))) (\<lambda>ready.
       if ready = 0 then ret ()
       else
         bind_st (invoke_unit (nl_decode lib (os_recognizer s) (os_pointer s))
           (Decoded (os_recognizer s) (os_pointer s))) (\<lambda>_.
           decode_steps lib s k))"

definition decode_available :: "'n native_lib \<Rightarrow> online_stream \<Rightarrow> ('n, unit) native_action" where
  "decode_available lib s =
     bind_st (lock_gate lib (os_recognizer s)) (\<lambda>_. decode_steps lib s max_decode_steps)"

definition stream_accept :: "'n native_lib \<Rightarrow> online_stream \<Rightarrow> f32 list \<Rightarrow> ('n, unit) native_action" where
  "stream_accept lib s xs =
     (if os_finished s \<or> xs = [] \<or> int (length xs) > i32_max \<or> list_ex (\<lambda>x. \<not> is_finite x) xs
      then fail (NativeError ''speech stream input is invalid'')
      else
        bind_st (invoke_unit (nl_accept_waveform lib (os_pointer s) 16000 xs (int (length xs)))
          (AcceptedWaveform (os_pointer s) 16000 xs (int (length xs)))) (\<lambda>_.
          decode_available lib s))"

definition stream_text :: "'n native_lib \<Rightarrow> online_stream \<Rightarrow> ('n, string) native_action" where
  "stream_text lib s =
     bind_st (lock_gate lib (os_recognizer s)) (\<lambda>_.
     bind_st (invoke (nl_get_result lib (os_recognizer s) (os_pointer s))
       (GotResult (os_recognizer s) (os_pointer s))) (\<lambda>result.
       if result = 0 then fail (NativeError ''speech recognition result is unavailable'')
       else
         bind_st (invoke (\<lambda>n. (nl_result_text lib result n, n)) (\<lambda>_. ReadText result)) (\<lambda>bytes.
         bind_st (invoke_unit (nl_destroy_result lib result) (DestroyedResult result)) (\<lambda>_.
           lift_res (read_owned_string bytes)))))"

definition finish_body :: "'n native_lib \<Rightarrow> online_stream \<Rightarrow> ('n, string) native_action" where
  "finish_body lib s =
     bind_st (invoke_unit (nl_input_finished lib (os_pointer s)) (FinishedInput (os_pointer s))) (\<lambda>_.
     bind_st (decode_available lib s) (\<lambda>_.
       stream_text lib s))"

text \<open>The stream is marked finished before anything can fail.\<close>

definition stream_finish ::
  "'n native_lib \<Rightarrow> (online_stream \<times> 'n native, native_error, string) action"
where
  "stream_finish lib x =
     (case x of (s, w) \<Rightarrow>
        if os_finished s then (Inl (NativeError ''speech stream is already finished''), s, w)
        else
          let s = s\<lparr>os_finished := True\<rparr>
          in (case finish_body lib s w of (r, w) \<Rightarrow> (r, s, w)))"

section \<open>Synthesis\<close>

definition copy_generated_audio :: "generated_audio_raw \<Rightarrow> nat \<Rightarrow> native_error + generated_audio" where
  "copy_generated_audio raw max_samples =
     (case raw_samples raw of
        None \<Rightarrow> Inl (NativeError ''speech synthesis output is invalid'')
      | Some data \<Rightarrow>
          if raw_n raw \<le> 0 \<or> raw_rate raw \<le> 0
          then Inl (NativeError ''speech synthesis output is invalid'')
          else if nat (raw_n raw) > max_samples
          then Inl (NativeError ''speech synthesis output exceeds its limit'')
          else
            let xs = take (nat (raw_n raw)) data
            in if list_ex (\<lambda>x. \<not> is_finite x) xs
               then Inl (NativeError ''speech synthesis output is invalid'')
               else Inr \<lparr>ga_rate = nat (raw_rate raw), ga_samples = xs\<rparr>)"

definition generate ::
  "'n native_lib \<Rightarrow> ptr \<Rightarrow> ustr \<Rightarrow> f32 \<Rightarrow> nat \<Rightarrow> ('n, generated_audio) native_action"
where
  "generate lib t str speed max_samples =
     (if str_trim str = [] \<or> str_len str > 16384 \<or> \<not> is_finite speed \<or> \<not> in_range (1 / 2) 2 speed
         \<or> max_samples = 0
      then fail (NativeError ''speech synthesis input is invalid'')
      else if 0 \<in> set str then fail (NativeError ''speech synthesis input is invalid'')
      else
        bind_st (lock_gate lib t) (\<lambda>_.
        bind_st (invoke (nl_generate_tts lib t str 0 speed) (Generated t)) (\<lambda>result.
          if result = 0 then fail (NativeError ''speech synthesis failed'')
          else
            bind_st (invoke (\<lambda>n. (nl_generated_audio lib result n, n)) (\<lambda>_. ReadAudio result)) (\<lambda>raw.
            bind_st (invoke_unit (nl_destroy_audio lib result) (DestroyedAudio result)) (\<lambda>_.
              lift_res (copy_generated_audio raw max_samples))))))"

section \<open>Owners\<close>

text \<open>
  The values a program holds: clones of \<open>OnlineRecognizer\<close>, streams (each with a clone of its
  recognizer), synthesizers. The program acts by the wrapper's operations and by dropping values;
  the recognizer is destroyed with the last reference to it.
\<close>

record owners =
  ow_recognizers :: "ptr list"
  ow_streams :: "online_stream list"
  ow_synthesizers :: "ptr list"

datatype command =
  CmdRecognizer string string nat
| CmdClone nat
| CmdDropRecognizer nat
| CmdStream nat
| CmdAccept nat "f32 list"
| CmdText nat
| CmdFinish nat
| CmdDropStream nat
| CmdTts string string string nat
| CmdGenerate nat ustr f32 nat
| CmdDropTts nat

definition remove_at :: "nat \<Rightarrow> 'a list \<Rightarrow> 'a list" where
  "remove_at i xs = take i xs @ drop (Suc i) xs"

text \<open>The drop of \<open>RecognizerInner\<close>, when no reference is left among \<open>o\<close>.\<close>

definition referenced :: "owners \<Rightarrow> ptr \<Rightarrow> bool" where
  "referenced h r \<longleftrightarrow> r \<in> set (ow_recognizers h) \<union> os_recognizer ` set (ow_streams h)"

definition release_recognizer :: "'n native_lib \<Rightarrow> owners \<Rightarrow> ptr \<Rightarrow> ('n, unit) native_action" where
  "release_recognizer lib h r =
     (if referenced h r then ret () else invoke_unit (nl_destroy_online lib r) (DestroyedOnline r))"

definition drop_stream :: "'n native_lib \<Rightarrow> owners \<Rightarrow> online_stream \<Rightarrow> ('n, unit) native_action" where
  "drop_stream lib h s =
     bind_st (invoke_unit (nl_destroy_stream lib (os_pointer s)) (DestroyedStream (os_pointer s))) (\<lambda>_.
       release_recognizer lib h (os_recognizer s))"

text \<open>A value returned is owned; an operation on a value that is not held cannot be written.\<close>

definition keep :: "owners \<Rightarrow> ('a \<Rightarrow> owners) \<Rightarrow> (native_error + 'a) \<times> 'n native \<Rightarrow> owners \<times> 'n native" where
  "keep h f x = (case x of (Inl e, w) \<Rightarrow> (h, w) | (Inr a, w) \<Rightarrow> (f a, w))"

fun run_command :: "'n native_lib \<Rightarrow> command \<Rightarrow> owners \<times> 'n native \<Rightarrow> owners \<times> 'n native" where
  "run_command lib (CmdRecognizer model tokens n) (h, w) =
     keep h (\<lambda>r. h\<lparr>ow_recognizers := ow_recognizers h @ [r]\<rparr>) (create_nemo_recognizer lib model tokens n w)"
| "run_command lib (CmdClone i) (h, w) =
     (if i < length (ow_recognizers h)
      then (h\<lparr>ow_recognizers := ow_recognizers h @ [ow_recognizers h ! i]\<rparr>, w) else (h, w))"
| "run_command lib (CmdDropRecognizer i) (h, w) =
     (if i < length (ow_recognizers h) then
        let h' = h\<lparr>ow_recognizers := remove_at i (ow_recognizers h)\<rparr>
        in (h', snd (release_recognizer lib h' (ow_recognizers h ! i) w))
      else (h, w))"
| "run_command lib (CmdStream i) (h, w) =
     (if i < length (ow_recognizers h)
      then keep h (\<lambda>s. h\<lparr>ow_streams := ow_streams h @ [s]\<rparr>) (create_stream lib (ow_recognizers h ! i) w)
      else (h, w))"
| "run_command lib (CmdAccept i xs) (h, w) =
     (if i < length (ow_streams h) then (h, snd (stream_accept lib (ow_streams h ! i) xs w)) else (h, w))"
| "run_command lib (CmdText i) (h, w) =
     (if i < length (ow_streams h) then (h, snd (stream_text lib (ow_streams h ! i) w)) else (h, w))"
| "run_command lib (CmdFinish i) (h, w) =
     (if i < length (ow_streams h) then
        (case stream_finish lib (ow_streams h ! i, w) of
           (_, s, w) \<Rightarrow> (h\<lparr>ow_streams := (ow_streams h)[i := s]\<rparr>, w))
      else (h, w))"
| "run_command lib (CmdDropStream i) (h, w) =
     (if i < length (ow_streams h) then
        let h' = h\<lparr>ow_streams := remove_at i (ow_streams h)\<rparr>
        in (h', snd (drop_stream lib h' (ow_streams h ! i) w))
      else (h, w))"
| "run_command lib (CmdTts model tokens data n) (h, w) =
     keep h (\<lambda>t. h\<lparr>ow_synthesizers := ow_synthesizers h @ [t]\<rparr>) (create_vits_tts lib model tokens data n w)"
| "run_command lib (CmdGenerate i str speed n) (h, w) =
     (if i < length (ow_synthesizers h)
      then (h, snd (generate lib (ow_synthesizers h ! i) str speed n w)) else (h, w))"
| "run_command lib (CmdDropTts i) (h, w) =
     (if i < length (ow_synthesizers h) then
        (h\<lparr>ow_synthesizers := remove_at i (ow_synthesizers h)\<rparr>,
         snd (invoke_unit (nl_destroy_tts lib (ow_synthesizers h ! i))
           (DestroyedTts (ow_synthesizers h ! i)) w))
      else (h, w))"

fun run_program :: "'n native_lib \<Rightarrow> command list \<Rightarrow> owners \<times> 'n native \<Rightarrow> owners \<times> 'n native" where
  "run_program lib [] x = x"
| "run_program lib (c # cs) x = run_program lib cs (run_command lib c x)"

definition no_owners :: owners where
  "no_owners = \<lparr>ow_recognizers = [], ow_streams = [], ow_synthesizers = []\<rparr>"

end
