(* ===== verification/Sherpa_Protocol.thy ===== *)
theory Sherpa_Protocol
  imports Sherpa
begin

text \<open>
  How the wrapper of \<open>crates/impossible-voice-sherpa-sys/src/lib.rs\<close> may use the native library: an
  automaton over the recorded calls that knows which native objects are alive, and the proof that no
  program over the wrapper's values leaves it, whatever the library answers.
\<close>

section \<open>The contract of the native library\<close>

text \<open>A stream belongs to a recognizer; it may have been told that its input is finished.\<close>

record live =
  lv_online :: "ptr set"
  lv_streams :: "(ptr \<times> ptr) set"
  lv_finished :: "ptr set"
  lv_results :: "ptr set"
  lv_tts :: "ptr set"
  lv_audio :: "ptr set"

definition nothing_live :: live where
  "nothing_live = \<lparr>lv_online = {}, lv_streams = {}, lv_finished = {}, lv_results = {}, lv_tts = {},
     lv_audio = {}\<rparr>"

text \<open>What the caller may do.\<close>

fun permitted :: "live \<Rightarrow> native_call \<Rightarrow> bool" where
  "permitted L (CreatedOnline p) \<longleftrightarrow> True"
| "permitted L (DestroyedOnline r) \<longleftrightarrow> r \<in> lv_online L \<and> r \<notin> snd ` lv_streams L"
| "permitted L (CreatedStream r p) \<longleftrightarrow> r \<in> lv_online L"
| "permitted L (DestroyedStream s) \<longleftrightarrow> s \<in> fst ` lv_streams L"
| "permitted L (AcceptedWaveform s rate xs n) \<longleftrightarrow> s \<in> fst ` lv_streams L \<and> s \<notin> lv_finished L
     \<and> rate = 16000 \<and> xs \<noteq> [] \<and> n = int (length xs) \<and> n \<le> i32_max \<and> list_all is_finite xs"
| "permitted L (AskedReady r s) \<longleftrightarrow> r \<in> lv_online L \<and> (s, r) \<in> lv_streams L"
| "permitted L (Decoded r s) \<longleftrightarrow> r \<in> lv_online L \<and> (s, r) \<in> lv_streams L"
| "permitted L (FinishedInput s) \<longleftrightarrow> s \<in> fst ` lv_streams L \<and> s \<notin> lv_finished L"
| "permitted L (GotResult r s q) \<longleftrightarrow> r \<in> lv_online L \<and> (s, r) \<in> lv_streams L"
| "permitted L (ReadText q) \<longleftrightarrow> q \<in> lv_results L"
| "permitted L (DestroyedResult q) \<longleftrightarrow> q \<in> lv_results L"
| "permitted L (CreatedTts p) \<longleftrightarrow> True"
| "permitted L (DestroyedTts t) \<longleftrightarrow> t \<in> lv_tts L"
| "permitted L (Generated t a) \<longleftrightarrow> t \<in> lv_tts L"
| "permitted L (ReadAudio a) \<longleftrightarrow> a \<in> lv_audio L"
| "permitted L (DestroyedAudio a) \<longleftrightarrow> a \<in> lv_audio L"

text \<open>What the library promises: an object it returns is not one that is alive.\<close>

fun fresh :: "live \<Rightarrow> native_call \<Rightarrow> bool" where
  "fresh L (CreatedOnline p) \<longleftrightarrow> p \<notin> lv_online L"
| "fresh L (CreatedStream r p) \<longleftrightarrow> p \<notin> fst ` lv_streams L"
| "fresh L (GotResult r s q) \<longleftrightarrow> q \<notin> lv_results L"
| "fresh L (CreatedTts p) \<longleftrightarrow> p \<notin> lv_tts L"
| "fresh L (Generated t a) \<longleftrightarrow> a \<notin> lv_audio L"
| "fresh L _ \<longleftrightarrow> True"

fun live_after :: "live \<Rightarrow> native_call \<Rightarrow> live" where
  "live_after L (CreatedOnline p) = (if p = 0 then L else L\<lparr>lv_online := insert p (lv_online L)\<rparr>)"
| "live_after L (DestroyedOnline r) = L\<lparr>lv_online := lv_online L - {r}\<rparr>"
| "live_after L (CreatedStream r p) =
     (if p = 0 then L else L\<lparr>lv_streams := insert (p, r) (lv_streams L)\<rparr>)"
| "live_after L (DestroyedStream s) =
     L\<lparr>lv_streams := {x \<in> lv_streams L. fst x \<noteq> s}, lv_finished := lv_finished L - {s}\<rparr>"
| "live_after L (FinishedInput s) = L\<lparr>lv_finished := insert s (lv_finished L)\<rparr>"
| "live_after L (GotResult r s q) = (if q = 0 then L else L\<lparr>lv_results := insert q (lv_results L)\<rparr>)"
| "live_after L (DestroyedResult q) = L\<lparr>lv_results := lv_results L - {q}\<rparr>"
| "live_after L (CreatedTts p) = (if p = 0 then L else L\<lparr>lv_tts := insert p (lv_tts L)\<rparr>)"
| "live_after L (DestroyedTts t) = L\<lparr>lv_tts := lv_tts L - {t}\<rparr>"
| "live_after L (Generated t a) = (if a = 0 then L else L\<lparr>lv_audio := insert a (lv_audio L)\<rparr>)"
| "live_after L (DestroyedAudio a) = L\<lparr>lv_audio := lv_audio L - {a}\<rparr>"
| "live_after L _ = L"

text \<open>Every call is permitted, as long as the library kept its promise before it.\<close>

fun safe_trace :: "live \<Rightarrow> native_call list \<Rightarrow> bool" where
  "safe_trace L [] \<longleftrightarrow> True"
| "safe_trace L (c # cs) \<longleftrightarrow> permitted L c \<and> (fresh L c \<longrightarrow> safe_trace (live_after L c) cs)"

fun fresh_trace :: "live \<Rightarrow> native_call list \<Rightarrow> bool" where
  "fresh_trace L [] \<longleftrightarrow> True"
| "fresh_trace L (c # cs) \<longleftrightarrow> fresh L c \<and> fresh_trace (live_after L c) cs"

definition live_afters :: "live \<Rightarrow> native_call list \<Rightarrow> live" where
  "live_afters L cs = foldl live_after L cs"

lemma trace_append:
  "safe_trace L (cs @ ds) \<longleftrightarrow> safe_trace L cs \<and> (fresh_trace L cs \<longrightarrow> safe_trace (live_afters L cs) ds)"
  "fresh_trace L (cs @ ds) \<longleftrightarrow> fresh_trace L cs \<and> fresh_trace (live_afters L cs) ds"
  by (induction cs arbitrary: L) (auto simp: live_afters_def)

lemma live_afters_append: "live_afters L (cs @ ds) = live_afters (live_afters L cs) ds"
  by (simp add: live_afters_def)

section \<open>Preconditions\<close>

text \<open>Actions only add to the record of calls.\<close>

definition appends :: "('n, 'a) native_action \<Rightarrow> bool" where
  "appends m \<longleftrightarrow> (\<forall>w. \<exists>cs. nt_calls (snd (m w)) = nt_calls w @ cs)"

named_theorems appending \<open>actions that only add calls\<close>

lemma appends_basic [appending]:
  "appends (ret a)" "appends (fail e)" "appends (lift_res r)" "appends (lock_gate lib p)"
  by (simp_all add: appends_def lock_gate_def)

lemma appends_invoke [appending]: "appends (invoke f c)" "appends (invoke_unit g d)"
  by (simp_all add: appends_def invoke_unit_def invoke_def split: prod.split)

lemma appends_bind [appending]:
  assumes "appends m" and "\<And>a. appends (f a)"
  shows "appends (bind_st m f)"
  unfolding appends_def
proof
  fix w
  obtain r w1 where m: "m w = (r, w1)" by fastforce
  with assms(1) obtain cs where cs: "nt_calls w1 = nt_calls w @ cs" unfolding appends_def by (metis snd_conv)
  show "\<exists>cs. nt_calls (snd (bind_st m f w)) = nt_calls w @ cs"
  proof (cases r)
    case (Inl e)
    with m cs show ?thesis by auto
  next
    case (Inr a)
    with m have "bind_st m f w = f a w1" by simp
    moreover obtain ds where "nt_calls (snd (f a w1)) = nt_calls w1 @ ds"
      using assms(2) [of a] unfolding appends_def by blast
    ultimately show ?thesis using cs by simp
  qed
qed

lemma appends_if [appending]: "appends m \<Longrightarrow> appends m' \<Longrightarrow> appends (if b then m else m')"
  by simp

text \<open>
  From the live objects \<open>L\<close> the action makes only permitted calls, and ends with a result and live
  objects in \<open>Q\<close> if the library kept its promise.
\<close>

definition calls :: "live \<Rightarrow> ('n, 'a) native_action \<Rightarrow> (native_error + 'a \<Rightarrow> live \<Rightarrow> bool) \<Rightarrow> bool" where
  "calls L m Q \<longleftrightarrow> (\<forall>w. \<exists>cs. nt_calls (snd (m w)) = nt_calls w @ cs \<and> safe_trace L cs
     \<and> (fresh_trace L cs \<longrightarrow> Q (fst (m w)) (live_afters L cs)))"

lemma callsD:
  assumes "calls L m Q" and "m w = (r, w')"
  shows "\<exists>cs. nt_calls w' = nt_calls w @ cs \<and> safe_trace L cs \<and> (fresh_trace L cs \<longrightarrow> Q r (live_afters L cs))"
  using spec [OF assms(1) [unfolded calls_def], of w] assms(2) by simp

lemma calls_basic:
  "Q (Inr a) L \<Longrightarrow> calls L (ret a) Q" "Q (Inl e) L \<Longrightarrow> calls L (fail e) Q"
  "Q r L \<Longrightarrow> calls L (lift_res r) Q"
  by (auto simp: calls_def live_afters_def)

lemma calls_invoke:
  assumes "\<And>a. permitted L (c a)" and "\<And>a. fresh L (c a) \<Longrightarrow> Q (Inr a) (live_after L (c a))"
  shows "calls L (invoke f c) Q"
  unfolding calls_def invoke_def
  by (auto simp: assms live_afters_def split: prod.split)

lemma calls_invoke_unit:
  "permitted L c \<Longrightarrow> (fresh L c \<Longrightarrow> Q (Inr ()) (live_after L c)) \<Longrightarrow> calls L (invoke_unit f c) Q"
  unfolding invoke_unit_def by (rule calls_invoke) simp_all

lemma calls_bind:
  assumes m: "calls L m (\<lambda>r M. case r of Inl e \<Rightarrow> Q (Inl e) M | Inr a \<Rightarrow> calls M (f a) Q)"
    and f: "\<And>a. appends (f a)"
  shows "calls L (bind_st m f) Q"
  unfolding calls_def
proof
  fix w
  obtain r w1 where mw: "m w = (r, w1)" by fastforce
  from callsD [OF m mw] obtain cs where cs: "nt_calls w1 = nt_calls w @ cs" "safe_trace L cs"
    "fresh_trace L cs \<longrightarrow> (case r of Inl e \<Rightarrow> Q (Inl e) (live_afters L cs) | Inr a \<Rightarrow> calls (live_afters L cs) (f a) Q)"
    by blast
  show "\<exists>cs. nt_calls (snd (bind_st m f w)) = nt_calls w @ cs \<and> safe_trace L cs
      \<and> (fresh_trace L cs \<longrightarrow> Q (fst (bind_st m f w)) (live_afters L cs))"
  proof (cases r)
    case (Inl e)
    with mw cs show ?thesis by auto
  next
    case (Inr a)
    show ?thesis
    proof (cases "fresh_trace L cs")
      case True
      with cs(3) Inr have "calls (live_afters L cs) (f a) Q" by simp
      then obtain ds where "nt_calls (snd (f a w1)) = nt_calls w1 @ ds" "safe_trace (live_afters L cs) ds"
        "fresh_trace (live_afters L cs) ds \<longrightarrow> Q (fst (f a w1)) (live_afters (live_afters L cs) ds)"
        using callsD [OF _ surjective_pairing, of "live_afters L cs" "f a" Q w1] by blast
      with mw Inr cs True show ?thesis
        by (intro exI [of _ "cs @ ds"]) (simp add: trace_append live_afters_append)
    next
      case False
      from f [of a] obtain ds where "nt_calls (snd (f a w1)) = nt_calls w1 @ ds"
        unfolding appends_def by blast
      with mw Inr cs False show ?thesis
        by (intro exI [of _ "cs @ ds"]) (simp add: trace_append)
    qed
  qed
qed

lemma calls_if: "(b \<Longrightarrow> calls L m Q) \<Longrightarrow> (\<not> b \<Longrightarrow> calls L m' Q) \<Longrightarrow> calls L (if b then m else m') Q"
  by simp

lemma calls_mono:
  assumes "calls L m P" and "\<And>r M. P r M \<Longrightarrow> Q r M"
  shows "calls L m Q"
  using assms unfolding calls_def by blast

lemma calls_lock: "(\<And>r. Q r L) \<Longrightarrow> calls L (lock_gate lib p) Q"
  by (simp add: lock_gate_def calls_basic)

section \<open>The operations\<close>

lemma appends_decode [appending]: "appends (decode_steps lib s k)" "appends (decode_available lib s)"
proof -
  show "appends (decode_steps lib s k)" for k
  proof (induction k)
    case 0
    show ?case unfolding decode_steps.simps by (rule appending)
  next
    case (Suc k)
    then show ?case unfolding decode_steps.simps by (intro appending)
  qed
  then show "appends (decode_available lib s)" unfolding decode_available_def by (intro appending)
qed

lemma appends_operations [appending]:
  "appends (create_nemo_recognizer lib a b n)" "appends (create_vits_tts lib a b c n)"
  "appends (create_stream lib r)" "appends (stream_accept lib s xs)" "appends (stream_text lib s)"
  "appends (generate lib t str speed n)" "appends (release_recognizer lib h r)"
  unfolding create_nemo_recognizer_def create_vits_tts_def create_stream_def stream_accept_def
    stream_text_def generate_def release_recognizer_def
  by (intro appending)+

lemma appends_compound [appending]: "appends (finish_body lib s)" "appends (drop_stream lib h s)"
  unfolding finish_body_def drop_stream_def by (intro appending)+

text \<open>What an operation on a live stream leaves.\<close>

definition stream_live :: "live \<Rightarrow> online_stream \<Rightarrow> bool" where
  "stream_live L s \<longleftrightarrow> os_recognizer s \<in> lv_online L \<and> (os_pointer s, os_recognizer s) \<in> lv_streams L
     \<and> lv_results L = {} \<and> (os_finished s \<longleftrightarrow> os_pointer s \<in> lv_finished L)"

lemma stream_live_pointer: "stream_live L s \<Longrightarrow> os_pointer s \<in> fst ` lv_streams L"
  by (auto simp: stream_live_def image_iff intro: bexI [of _ "(os_pointer s, os_recognizer s)"])

lemma calls_decode_steps:
  "stream_live L s \<Longrightarrow> calls L (decode_steps lib s k) (\<lambda>r M. M = L)"
proof (induction k)
  case 0
  show ?case unfolding decode_steps.simps by (rule calls_basic) simp
next
  case (Suc k)
  show ?case unfolding decode_steps.simps
    using Suc by (intro calls_bind calls_invoke calls_invoke_unit appending)
      (auto simp: stream_live_def intro!: calls_if calls_basic calls_bind calls_invoke_unit appending
        simp del: action_simps)
qed

lemma calls_decode_available: "stream_live L s \<Longrightarrow> calls L (decode_available lib s) (\<lambda>r M. M = L)"
  unfolding decode_available_def
  by (intro calls_bind calls_lock appending) (simp add: calls_decode_steps split: sum.split)

lemma calls_accept: "stream_live L s \<Longrightarrow> calls L (stream_accept lib s xs) (\<lambda>r M. M = L)"
  using stream_live_pointer [of L s] unfolding stream_accept_def
  by (intro calls_if calls_basic calls_bind calls_invoke_unit appending)
    (auto simp: stream_live_def list_ex_iff list_all_iff calls_decode_available)

lemma results_restored: "lv_results L = {} \<Longrightarrow> L\<lparr>lv_results := {}\<rparr> = L"
  and audio_restored: "lv_audio L = {} \<Longrightarrow> L\<lparr>lv_audio := {}\<rparr> = L"
  by (cases L; simp)+

lemma calls_text:
  assumes "stream_live L s"
  shows "calls L (stream_text lib s) (\<lambda>r M. M = L)"
proof -
  have live: "os_recognizer s \<in> lv_online L" "(os_pointer s, os_recognizer s) \<in> lv_streams L" "lv_results L = {}"
    using assms by (simp_all add: stream_live_def)
  show ?thesis
    unfolding stream_text_def
    by (intro calls_bind calls_lock appending)
      (auto simp: live results_restored split: sum.split
        intro!: calls_bind calls_if calls_invoke calls_invoke_unit calls_basic appending simp del: action_simps)
qed

lemma calls_finish_body:
  assumes "stream_live L s" and "\<not> os_finished s"
  shows "calls L (finish_body lib (s\<lparr>os_finished := True\<rparr>))
    (\<lambda>r M. M = L\<lparr>lv_finished := insert (os_pointer s) (lv_finished L)\<rparr>)"
proof -
  let ?s = "s\<lparr>os_finished := True\<rparr>" and ?L = "L\<lparr>lv_finished := insert (os_pointer s) (lv_finished L)\<rparr>"
  have p: "os_pointer s \<in> fst ` lv_streams L" "os_pointer s \<notin> lv_finished L"
    using stream_live_pointer [OF assms(1)] assms by (simp_all add: stream_live_def)
  have live: "stream_live ?L ?s" using assms by (simp add: stream_live_def)
  have "calls ?L (bind_st (decode_available lib ?s) (\<lambda>_. stream_text lib ?s)) (\<lambda>r M. M = ?L)"
    by (intro calls_bind appending calls_mono [OF calls_decode_available [OF live]])
      (simp add: calls_text [OF live] split: sum.split)
  with p show ?thesis
    unfolding finish_body_def by (intro calls_bind calls_invoke_unit appending) simp_all
qed

lemma calls_generate:
  assumes "t \<in> lv_tts L" and "lv_audio L = {}"
  shows "calls L (generate lib t str speed n) (\<lambda>r M. M = L)"
  unfolding generate_def
  by (intro calls_if calls_basic calls_bind calls_lock appending)
    (auto simp: assms audio_restored split: sum.split
      intro!: calls_bind calls_if calls_invoke calls_invoke_unit calls_basic appending simp del: action_simps)

lemma calls_create_nemo:
  "calls L (create_nemo_recognizer lib model tokens n) (\<lambda>r M. case r of Inl _ \<Rightarrow> M = L
     | Inr p \<Rightarrow> p \<noteq> 0 \<and> M = L\<lparr>lv_online := insert p (lv_online L)\<rparr>)"
  unfolding create_nemo_recognizer_def
  by (intro calls_if calls_basic calls_bind appending)
    (auto split: sum.split intro!: calls_bind calls_if calls_invoke calls_basic appending simp del: action_simps)

lemma calls_create_vits:
  "calls L (create_vits_tts lib model tokens data n) (\<lambda>r M. case r of Inl _ \<Rightarrow> M = L
     | Inr p \<Rightarrow> p \<noteq> 0 \<and> p \<notin> lv_tts L \<and> M = L\<lparr>lv_tts := insert p (lv_tts L)\<rparr>)"
  unfolding create_vits_tts_def
  by (intro calls_if calls_basic calls_bind appending)
    (auto split: sum.split intro!: calls_bind calls_if calls_invoke calls_basic appending simp del: action_simps)

lemma in_fst: "p \<in> fst ` S \<longleftrightarrow> (\<exists>q. (p, q) \<in> S)"
  by force

lemma calls_create_stream:
  "rec \<in> lv_online L \<Longrightarrow> calls L (create_stream lib rec) (\<lambda>r M. case r of Inl _ \<Rightarrow> M = L
     | Inr s \<Rightarrow> os_recognizer s = rec \<and> \<not> os_finished s \<and> os_pointer s \<notin> fst ` lv_streams L
         \<and> M = L\<lparr>lv_streams := insert (os_pointer s, rec) (lv_streams L)\<rparr>)"
  unfolding create_stream_def
  by (intro calls_bind calls_lock appending)
    (auto simp: in_fst split: sum.split intro!: calls_bind calls_if calls_invoke calls_basic appending simp del: action_simps)

section \<open>Ownership\<close>

text \<open>
  The live native objects are exactly those the program holds: the recognizers it or its streams
  refer to, its streams with their recognizers, its synthesizers. No result outlives a call.
\<close>

definition owned :: "owners \<Rightarrow> live \<Rightarrow> bool" where
  "owned h L \<longleftrightarrow> lv_online L = {r. referenced h r}
     \<and> lv_streams L = (\<lambda>s. (os_pointer s, os_recognizer s)) ` set (ow_streams h)
     \<and> distinct (map os_pointer (ow_streams h))
     \<and> lv_finished L = os_pointer ` {s \<in> set (ow_streams h). os_finished s}
     \<and> lv_tts L = set (ow_synthesizers h) \<and> distinct (ow_synthesizers h)
     \<and> lv_results L = {} \<and> lv_audio L = {}"

lemma owned_stream:
  assumes "owned h L" and "s \<in> set (ow_streams h)"
  shows "stream_live L s"
  using assms inj_on_eq_iff [of os_pointer "set (ow_streams h)" s]
  by (auto simp: owned_def stream_live_def referenced_def distinct_map image_iff)

lemma set_remove_at:
  "i < length xs \<Longrightarrow> set xs = insert (xs ! i) (set (remove_at i xs))"
  "set (remove_at i xs) \<subseteq> set xs"
  "distinct xs \<Longrightarrow> i < length xs \<Longrightarrow> set (remove_at i xs) = set xs - {xs ! i}"
  "distinct xs \<Longrightarrow> distinct (remove_at i xs)"
proof -
  have split: "xs = take i xs @ xs ! i # drop (Suc i) xs" if "i < length xs" using id_take_nth_drop that .
  show "set xs = insert (xs ! i) (set (remove_at i xs))" if "i < length xs"
    by (subst (1) split [OF that]) (auto simp: remove_at_def)
  show "set (remove_at i xs) \<subseteq> set xs"
    using set_take_subset [of i xs] set_drop_subset [of "Suc i" xs] by (auto simp: remove_at_def)
  have d: "distinct (take i xs @ xs ! i # drop (Suc i) xs)" if "distinct xs" "i < length xs"
    using that split by metis
  show "set (remove_at i xs) = set xs - {xs ! i}" if "distinct xs" "i < length xs"
    using d [OF that] by (subst (2) split [OF that(2)]) (auto simp: remove_at_def)
  show "distinct (remove_at i xs)" if "distinct xs"
  proof (cases "i < length xs")
    case True
    from d [OF that True] show ?thesis by (simp add: remove_at_def)
  next
    case False
    with that show ?thesis by (simp add: remove_at_def)
  qed
qed

lemma map_remove_at: "map f (remove_at i xs) = remove_at i (map f xs)"
  by (simp add: remove_at_def take_map drop_map)

text \<open>Every command keeps ownership in step with the library.\<close>

definition command_safe :: "live \<Rightarrow> 'n native \<Rightarrow> owners \<times> 'n native \<Rightarrow> bool" where
  "command_safe L w x \<longleftrightarrow> (\<exists>cs. nt_calls (snd x) = nt_calls w @ cs \<and> safe_trace L cs
     \<and> (fresh_trace L cs \<longrightarrow> owned (fst x) (live_afters L cs)))"

lemma command_same: "owned h L \<Longrightarrow> command_safe L w (h, w)"
  by (auto simp: command_safe_def live_afters_def)

lemma command_action:
  assumes "calls L m (\<lambda>r M. owned h M)"
  shows "command_safe L w (h, snd (m w))"
  using callsD [OF assms surjective_pairing] by (simp add: command_safe_def)

lemma command_keep:
  assumes "calls L m (\<lambda>r M. owned (case r of Inl _ \<Rightarrow> h | Inr a \<Rightarrow> f a) M)"
  shows "command_safe L w (keep h f (m w))"
proof -
  obtain r w' where m: "m w = (r, w')" by fastforce
  from callsD [OF assms m] m show ?thesis by (cases r) (simp_all add: command_safe_def keep_def)
qed

lemma release_safe:
  assumes "owned h (L\<lparr>lv_online := {r. referenced h r}\<rparr>)"
    and "lv_online L = insert rec {r. referenced h r}"
  shows "calls L (release_recognizer lib h rec) (\<lambda>r M. owned h M)"
proof (cases "referenced h rec")
  case True
  then have "L\<lparr>lv_online := {r. referenced h r}\<rparr> = L" using assms(2) by (cases L) auto
  with assms(1) True show ?thesis by (simp add: release_recognizer_def calls_basic)
next
  case False
  then have "lv_online L - {rec} = {r. referenced h r}" using assms(2) by auto
  moreover have "rec \<notin> snd ` lv_streams L"
    using assms(1) False by (auto simp: owned_def referenced_def)
  ultimately show ?thesis
    using assms False by (simp add: release_recognizer_def calls_invoke_unit)
qed

lemma owned_finish:
  assumes "owned h L" and i: "i < length (ow_streams h)" and "\<not> os_finished (ow_streams h ! i)"
  shows "owned (h\<lparr>ow_streams := (ow_streams h)[i := (ow_streams h ! i)\<lparr>os_finished := True\<rparr>]\<rparr>)
    (L\<lparr>lv_finished := insert (os_pointer (ow_streams h ! i)) (lv_finished L)\<rparr>)"
proof -
  let ?xs = "ow_streams h" and ?s = "(ow_streams h ! i)\<lparr>os_finished := True\<rparr>"
  have d: "distinct (map os_pointer ?xs)" using assms(1) by (simp add: owned_def)
  have p: "map os_pointer (?xs[i := ?s]) = map os_pointer ?xs" "map os_recognizer (?xs[i := ?s]) = map os_recognizer ?xs"
    using i by (simp_all add: map_update list_update_same_conv)
  have set: "set (?xs[i := ?s]) = insert ?s (set ?xs - {?xs ! i})"
    using d i by (simp add: set_update_distinct distinct_map)
  have "os_pointer ` {s \<in> set (?xs[i := ?s]). os_finished s}
      = insert (os_pointer (?xs ! i)) (os_pointer ` {s \<in> set ?xs. os_finished s})"
  proof -
    have "{s \<in> set (?xs[i := ?s]). os_finished s} = insert ?s {s \<in> set ?xs. os_finished s}"
      unfolding set using assms(3) by auto
    then show ?thesis by simp
  qed
  moreover have "(\<lambda>s. (os_pointer s, os_recognizer s)) ` set (?xs[i := ?s])
      = (\<lambda>s. (os_pointer s, os_recognizer s)) ` set ?xs"
    unfolding set using nth_mem [OF i] by (auto simp: image_iff)
  moreover have "os_recognizer ` set (?xs[i := ?s]) = os_recognizer ` set ?xs"
    using arg_cong [OF p(2), of set] by simp
  ultimately show ?thesis
    using assms(1) d unfolding owned_def referenced_def by (simp add: p del: map_update)
qed

lemma owned_drop:
  assumes "owned h L" and i: "i < length (ow_streams h)"
  defines "s \<equiv> ow_streams h ! i"
  defines "h' \<equiv> h\<lparr>ow_streams := remove_at i (ow_streams h)\<rparr>"
  defines "L' \<equiv> L\<lparr>lv_streams := {x \<in> lv_streams L. fst x \<noteq> os_pointer s}, lv_finished := lv_finished L - {os_pointer s}\<rparr>"
  shows "owned h' (L'\<lparr>lv_online := {r. referenced h' r}\<rparr>)"
    and "lv_online L' = insert (os_recognizer s) {r. referenced h' r}"
proof -
  let ?xs = "ow_streams h"
  have d: "distinct (map os_pointer ?xs)" using assms(1) by (simp add: owned_def)
  then have dx: "distinct ?xs" "inj_on os_pointer (set ?xs)" by (simp_all add: distinct_map)
  have s: "s \<in> set ?xs" using i by (simp add: s_def)
  have same: "os_pointer x = os_pointer s \<longleftrightarrow> x = s" if "x \<in> set ?xs" for x
    using inj_on_eq_iff [OF dx(2) that s] .
  have set: "set (remove_at i ?xs) = set ?xs - {s}" using set_remove_at(3) [OF dx(1) i] by (simp add: s_def)
  have "distinct (map os_pointer (remove_at i ?xs))" using set_remove_at(4) [OF d] by (simp add: map_remove_at)
  then show "owned h' (L'\<lparr>lv_online := {r. referenced h' r}\<rparr>)"
    using assms(1) same unfolding owned_def h'_def L'_def by (auto simp: set)
  show "lv_online L' = insert (os_recognizer s) {r. referenced h' r}"
    using assms(1) s unfolding owned_def h'_def L'_def referenced_def by (auto simp: set)
qed

lemma run_command_safe:
  assumes "owned h L"
  shows "command_safe L w (run_command lib c (h, w))"
proof (cases c)
  case (CmdRecognizer model tokens n)
  have "calls L (create_nemo_recognizer lib model tokens n)
      (\<lambda>r M. owned (case r of Inl _ \<Rightarrow> h | Inr p \<Rightarrow> h\<lparr>ow_recognizers := ow_recognizers h @ [p]\<rparr>) M)"
    by (rule calls_mono [OF calls_create_nemo]) (use assms in \<open>auto simp: owned_def referenced_def split: sum.splits\<close>)
  from command_keep [OF this, of w] show ?thesis by (simp add: CmdRecognizer)
next
  case (CmdClone i)
  have "owned (h\<lparr>ow_recognizers := ow_recognizers h @ [ow_recognizers h ! i]\<rparr>) L" if "i < length (ow_recognizers h)"
    using assms nth_mem [OF that] by (auto simp: owned_def referenced_def)
  from command_same [OF this, of w] command_same [OF assms, of w] show ?thesis by (simp add: CmdClone)
next
  case (CmdDropRecognizer i)
  show ?thesis
  proof (cases "i < length (ow_recognizers h)")
    case True
    let ?h = "h\<lparr>ow_recognizers := remove_at i (ow_recognizers h)\<rparr>" and ?r = "ow_recognizers h ! i"
    have on: "lv_online L = insert ?r {r. referenced ?h r}"
      using assms set_remove_at(1) [OF True] by (auto simp: owned_def referenced_def)
    have "owned ?h (L\<lparr>lv_online := {r. referenced ?h r}\<rparr>)" using assms by (simp add: owned_def)
    with command_action [OF release_safe [OF _ on]] True show ?thesis by (simp add: CmdDropRecognizer Let_def)
  qed (use command_same [OF assms] in \<open>simp add: CmdDropRecognizer\<close>)
next
  case (CmdStream i)
  show ?thesis
  proof (cases "i < length (ow_recognizers h)")
    case True
    let ?r = "ow_recognizers h ! i"
    have r: "?r \<in> lv_online L" using assms nth_mem [OF True] by (simp add: owned_def referenced_def)
    have "calls L (create_stream lib ?r)
        (\<lambda>r M. owned (case r of Inl _ \<Rightarrow> h | Inr s \<Rightarrow> h\<lparr>ow_streams := ow_streams h @ [s]\<rparr>) M)"
    proof (rule calls_mono [OF calls_create_stream [OF r]])
      fix x :: "native_error + online_stream" and M
      assume x: "case x of Inl _ \<Rightarrow> M = L
        | Inr s \<Rightarrow> os_recognizer s = ?r \<and> \<not> os_finished s \<and> os_pointer s \<notin> fst ` lv_streams L
            \<and> M = L\<lparr>lv_streams := insert (os_pointer s, ?r) (lv_streams L)\<rparr>"
      have "referenced (h\<lparr>ow_streams := ow_streams h @ [s]\<rparr>) = referenced h" if "os_recognizer s = ?r" for s
        using nth_mem [OF True] that by (auto simp: referenced_def fun_eq_iff)
      with x assms show "owned (case x of Inl _ \<Rightarrow> h | Inr s \<Rightarrow> h\<lparr>ow_streams := ow_streams h @ [s]\<rparr>) M"
        by (cases x) (auto simp: owned_def image_image)
    qed
    from command_keep [OF this, of w] True show ?thesis by (simp add: CmdStream)
  qed (use command_same [OF assms] in \<open>simp add: CmdStream\<close>)
next
  case (CmdAccept i xs)
  have "calls L (stream_accept lib (ow_streams h ! i) xs) (\<lambda>r M. owned h M)" if "i < length (ow_streams h)"
    by (rule calls_mono [OF calls_accept [OF owned_stream [OF assms nth_mem [OF that]]]]) (use assms in simp)
  from command_action [OF this, of w] command_same [OF assms, of w] show ?thesis by (simp add: CmdAccept)
next
  case (CmdText i)
  have "calls L (stream_text lib (ow_streams h ! i)) (\<lambda>r M. owned h M)" if "i < length (ow_streams h)"
    by (rule calls_mono [OF calls_text [OF owned_stream [OF assms nth_mem [OF that]]]]) (use assms in simp)
  from command_action [OF this, of w] command_same [OF assms, of w] show ?thesis by (simp add: CmdText)
next
  case (CmdTts model tokens data n)
  have "calls L (create_vits_tts lib model tokens data n)
      (\<lambda>r M. owned (case r of Inl _ \<Rightarrow> h | Inr p \<Rightarrow> h\<lparr>ow_synthesizers := ow_synthesizers h @ [p]\<rparr>) M)"
    by (rule calls_mono [OF calls_create_vits]) (use assms in \<open>auto simp: owned_def referenced_def split: sum.splits\<close>)
  from command_keep [OF this, of w] show ?thesis by (simp add: CmdTts)
next
  case (CmdGenerate i str speed n)
  have "calls L (generate lib (ow_synthesizers h ! i) str speed n) (\<lambda>r M. owned h M)"
    if "i < length (ow_synthesizers h)"
    by (rule calls_mono [OF calls_generate]) (use assms nth_mem [OF that] in \<open>simp_all add: owned_def\<close>)
  from command_action [OF this, of w] command_same [OF assms, of w] show ?thesis by (simp add: CmdGenerate)
next
  case (CmdDropTts i)
  show ?thesis
  proof (cases "i < length (ow_synthesizers h)")
    case True
    have "calls L (invoke_unit f (DestroyedTts (ow_synthesizers h ! i)))
        (\<lambda>r M. owned (h\<lparr>ow_synthesizers := remove_at i (ow_synthesizers h)\<rparr>) M)" for f :: "'a \<Rightarrow> 'a"
      by (rule calls_invoke_unit)
        (use assms nth_mem [OF True] True in \<open>simp_all add: owned_def referenced_def set_remove_at(3,4)\<close>)
    from command_action [OF this, of w] True show ?thesis by (simp add: CmdDropTts)
  qed (use command_same [OF assms] in \<open>simp add: CmdDropTts\<close>)
next
  case (CmdFinish i)
  show ?thesis
  proof (cases "i < length (ow_streams h)")
    case True
    let ?s = "ow_streams h ! i"
    note live = owned_stream [OF assms nth_mem [OF True]]
    show ?thesis
    proof (cases "os_finished ?s")
      case True
      with command_same [OF assms] show ?thesis by (simp add: CmdFinish stream_finish_def)
    next
      case False
      let ?s' = "?s\<lparr>os_finished := True\<rparr>"
      have "calls L (finish_body lib ?s') (\<lambda>r M. owned (h\<lparr>ow_streams := (ow_streams h)[i := ?s']\<rparr>) M)"
        by (rule calls_mono [OF calls_finish_body [OF live False]]) (simp add: owned_finish [OF assms True False])
      from command_action [OF this, of w] False True show ?thesis
        by (simp add: CmdFinish stream_finish_def case_prod_beta Let_def)
    qed
  qed (use command_same [OF assms] in \<open>simp add: CmdFinish\<close>)
next
  case (CmdDropStream i)
  show ?thesis
  proof (cases "i < length (ow_streams h)")
    case True
    let ?s = "ow_streams h ! i" and ?h = "h\<lparr>ow_streams := remove_at i (ow_streams h)\<rparr>"
    have "os_pointer ?s \<in> fst ` lv_streams L"
      using stream_live_pointer owned_stream [OF assms nth_mem [OF True]] by blast
    then have "calls L (drop_stream lib ?h ?s) (\<lambda>r M. owned ?h M)"
      unfolding drop_stream_def
      by (intro calls_bind calls_invoke_unit appending)
        (simp_all add: release_safe owned_drop [OF assms True])
    from command_action [OF this, of w] True show ?thesis by (simp add: CmdDropStream Let_def)
  qed (use command_same [OF assms] in \<open>simp add: CmdDropStream\<close>)
qed

lemma appends_spec: "appends m \<Longrightarrow> \<exists>cs. nt_calls (snd (m w)) = nt_calls w @ cs"
  by (simp add: appends_def)

lemma keep_calls: "nt_calls (snd (keep h f x)) = nt_calls (snd x)"
  by (auto simp: keep_def split: prod.split sum.split)

lemma run_command_appends: "\<exists>cs. nt_calls (snd (run_command lib c (h, w))) = nt_calls w @ cs"
proof (cases c)
  case (CmdFinish i)
  have "\<exists>cs. nt_calls (snd (finish_body lib s w)) = nt_calls w @ cs" for s
    by (intro appends_spec appending)
  then show ?thesis by (simp add: CmdFinish stream_finish_def Let_def case_prod_beta)
qed (simp_all add: keep_calls appends_spec appending Let_def)

fun holds_nothing :: "owners \<Rightarrow> bool" where
  "holds_nothing h \<longleftrightarrow> ow_recognizers h = [] \<and> ow_streams h = [] \<and> ow_synthesizers h = []"

lemma run_program_safe:
  assumes "owned h L"
  shows "command_safe L w (run_program lib cs (h, w))"
  using assms
proof (induction cs arbitrary: h w L)
  case Nil
  then show ?case by (simp add: command_same)
next
  case (Cons c cs)
  obtain h1 w1 where c: "run_command lib c (h, w) = (h1, w1)" by fastforce
  from run_command_safe [OF Cons.prems, of w lib c] c obtain ds where ds: "nt_calls w1 = nt_calls w @ ds"
    "safe_trace L ds" "fresh_trace L ds \<longrightarrow> owned h1 (live_afters L ds)"
    by (auto simp: command_safe_def)
  show ?case
  proof (cases "fresh_trace L ds")
    case True
    with Cons.IH [of h1 "live_afters L ds" w1] ds c show ?thesis
      by (fastforce simp: command_safe_def trace_append live_afters_append)
  next
    case False
    have "\<exists>es. nt_calls (snd (run_program lib cs (h1, w1))) = nt_calls w1 @ es"
    proof (induction cs arbitrary: h1 w1)
      case (Cons c cs)
      obtain h2 w2 where "run_command lib c (h1, w1) = (h2, w2)" by fastforce
      with run_command_appends [of lib c h1 w1] Cons.IH [of h2 w2] show ?case by auto
    qed simp
    with False ds c show ?thesis by (auto simp: command_safe_def trace_append)
  qed
qed

section \<open>Properties\<close>

text \<open>
  C8: the native library is used correctly. Whatever a program does with the wrapper's values and
  whatever the library answers, every native call is permitted (no object is used or destroyed
  unless it is alive, no stream outlives its recognizer, nothing is fed to a stream after its end of
  input, audio is finite and of the stated length), as long as the library has not returned an
  object that is already alive; and then the live objects are exactly those the program holds, so
  a program that has dropped all its values has leaked nothing.
\<close>

theorem native_calls_are_safe:
  assumes "run_program lib program (no_owners, w) = (h, w')"
  shows "\<exists>cs. nt_calls w' = nt_calls w @ cs \<and> safe_trace nothing_live cs
    \<and> (fresh_trace nothing_live cs \<longrightarrow> owned h (live_afters nothing_live cs)
         \<and> (holds_nothing h \<longrightarrow> live_afters nothing_live cs = nothing_live))"
proof -
  have "owned no_owners nothing_live"
    by (simp add: owned_def no_owners_def nothing_live_def referenced_def)
  from run_program_safe [OF this, of w lib program] assms obtain cs where
    cs: "nt_calls w' = nt_calls w @ cs" "safe_trace nothing_live cs"
      "fresh_trace nothing_live cs \<longrightarrow> owned h (live_afters nothing_live cs)"
    by (auto simp: command_safe_def)
  have "owned h L \<Longrightarrow> holds_nothing h \<Longrightarrow> L = nothing_live" for L
    by (cases L) (simp add: owned_def nothing_live_def referenced_def)
  with cs show ?thesis by blast
qed

text \<open>A library that hands out increasing pointers and hears nothing.\<close>

definition silent_lib :: "nat native_lib" where
  "silent_lib = \<lparr>nl_is_file = (\<lambda>_. True), nl_exists = (\<lambda>_. True), nl_opens = (\<lambda>_. True),
     nl_symbol = (\<lambda>_. True), nl_version = Some expected_version, nl_poisoned = (\<lambda>_. False),
     nl_create_online = (\<lambda>_ n. (n + 1, n + 1)), nl_destroy_online = (\<lambda>_ n. n),
     nl_create_stream = (\<lambda>_ n. (n + 1, n + 1)), nl_destroy_stream = (\<lambda>_ n. n),
     nl_accept_waveform = (\<lambda>_ _ _ _ n. n), nl_is_ready = (\<lambda>_ _ n. (0, n)), nl_decode = (\<lambda>_ _ n. n),
     nl_input_finished = (\<lambda>_ n. n), nl_get_result = (\<lambda>_ _ n. (n + 1, n + 1)),
     nl_result_text = (\<lambda>_ _. Some []), nl_destroy_result = (\<lambda>_ n. n),
     nl_create_tts = (\<lambda>_ n. (n + 1, n + 1)), nl_destroy_tts = (\<lambda>_ n. n),
     nl_generate_tts = (\<lambda>_ _ _ _ n. (n + 1, n + 1)),
     nl_generated_audio = (\<lambda>_ _. \<lparr>raw_samples = Some [Fin 0], raw_n = 1, raw_rate = 22050\<rparr>),
     nl_destroy_audio = (\<lambda>_ n. n)\<rparr>"

definition listen_once :: "command list" where
  "listen_once = [CmdRecognizer ''m'' ''t'' 2, CmdStream 0, CmdDropRecognizer 0, CmdAccept 0 [Fin 0],
     CmdFinish 0, CmdDropStream 0]"

lemma decode_available_silent:
  "decode_available silent_lib s w =
     (Inr (), w\<lparr>nt_calls := nt_calls w @ [AskedReady (os_recognizer s) (os_pointer s)]\<rparr>)"
proof -
  have "decode_steps silent_lib s (Suc k) w =
      (Inr (), w\<lparr>nt_calls := nt_calls w @ [AskedReady (os_recognizer s) (os_pointer s)]\<rparr>)" for k
    by (cases w) (simp add: invoke_def silent_lib_def bind_st_def)
  moreover obtain k where k: "max_decode_steps = Suc k"
    by (cases max_decode_steps) (simp_all add: max_decode_steps_def)
  moreover have "lock_gate silent_lib r = ret ()" for r by (simp add: lock_gate_def silent_lib_def)
  ultimately show ?thesis unfolding decode_available_def k by (simp del: decode_steps.simps)
qed

lemma listen_once_calls:
  "run_program silent_lib listen_once (no_owners, \<lparr>nt_state = 0, nt_calls = []\<rparr>) =
     (no_owners, \<lparr>nt_state = 3, nt_calls =
        [CreatedOnline 1, CreatedStream 1 2, AcceptedWaveform 2 16000 [Fin 0] 1, AskedReady 1 2,
         FinishedInput 2, AskedReady 1 2, GotResult 1 2 3, ReadText 3, DestroyedResult 3,
         DestroyedStream 2, DestroyedOnline 1]\<rparr>)"
  by (simp add: listen_once_def no_owners_def keep_def remove_at_def create_nemo_recognizer_def
      path_to_cstring_def utf8_def create_stream_def lock_gate_def invoke_def invoke_unit_def
      release_recognizer_def referenced_def drop_stream_def stream_accept_def stream_finish_def
      finish_body_def stream_text_def decode_available_silent i32_max_def read_owned_string_def
      bind_st_def silent_lib_def [THEN arg_cong [where f = nl_create_online]]
      silent_lib_def [THEN arg_cong [where f = nl_create_stream]]
      silent_lib_def [THEN arg_cong [where f = nl_destroy_stream]]
      silent_lib_def [THEN arg_cong [where f = nl_destroy_online]]
      silent_lib_def [THEN arg_cong [where f = nl_accept_waveform]]
      silent_lib_def [THEN arg_cong [where f = nl_poisoned]]
      silent_lib_def [THEN arg_cong [where f = nl_input_finished]]
      silent_lib_def [THEN arg_cong [where f = nl_get_result]]
      silent_lib_def [THEN arg_cong [where f = nl_result_text]]
      silent_lib_def [THEN arg_cong [where f = nl_destroy_result]])

theorem native_calls_are_safe_witness:
  "live_afters nothing_live
     [CreatedOnline 1, CreatedStream 1 2, AcceptedWaveform 2 16000 [Fin 0] 1, AskedReady 1 2,
      FinishedInput 2, AskedReady 1 2, GotResult 1 2 3, ReadText 3, DestroyedResult 3,
      DestroyedStream 2, DestroyedOnline 1] = nothing_live"
  using native_calls_are_safe [OF listen_once_calls]
  by (simp add: nothing_live_def) (simp add: no_owners_def)

section \<open>What leaves the wrapper\<close>

definition decodes :: "native_call list \<Rightarrow> nat" where
  "decodes cs = length (filter (\<lambda>c. case c of Decoded _ _ \<Rightarrow> True | _ \<Rightarrow> False) cs)"

text \<open>An action that decodes at most \<open>k\<close> times.\<close>

definition decodes_at_most :: "nat \<Rightarrow> ('n, 'a) native_action \<Rightarrow> bool" where
  "decodes_at_most k m \<longleftrightarrow> (\<forall>w. \<exists>cs. nt_calls (snd (m w)) = nt_calls w @ cs \<and> decodes cs \<le> k)"

named_theorems decoding \<open>bounds on decoding\<close>

lemma decodes_basic [decoding]:
  "decodes_at_most k (ret a)" "decodes_at_most k (fail e)" "decodes_at_most k (lift_res r)"
  "decodes_at_most k (lock_gate lib p)"
  by (simp_all add: decodes_at_most_def decodes_def lock_gate_def)

lemma decodes_if [decoding]:
  "decodes_at_most k m \<Longrightarrow> decodes_at_most k m' \<Longrightarrow> decodes_at_most k (if b then m else m')"
  by simp

lemma decodes_invoke:
  assumes "\<And>a. decodes [c a] \<le> k"
  shows "decodes_at_most k (invoke f c)"
  using assms by (simp add: decodes_at_most_def invoke_def split: prod.split)

lemma decodes_bind:
  assumes "decodes_at_most j m" and "\<And>a. decodes_at_most k (f a)"
  shows "decodes_at_most (j + k) (bind_st m f)"
  unfolding decodes_at_most_def
proof
  fix w
  obtain r w1 where m: "m w = (r, w1)" by fastforce
  from spec [OF assms(1) [unfolded decodes_at_most_def], of w] m obtain cs where
    cs: "nt_calls w1 = nt_calls w @ cs" "decodes cs \<le> j" by auto
  show "\<exists>cs. nt_calls (snd (bind_st m f w)) = nt_calls w @ cs \<and> decodes cs \<le> j + k"
  proof (cases r)
    case (Inl e)
    with m cs show ?thesis by auto
  next
    case (Inr a)
    from spec [OF assms(2) [of a, unfolded decodes_at_most_def], of w1] obtain ds where
      "nt_calls (snd (f a w1)) = nt_calls w1 @ ds" "decodes ds \<le> k" by auto
    with m Inr cs show ?thesis by (intro exI [of _ "cs @ ds"]) (simp add: decodes_def)
  qed
qed

lemma decodes_bind_none [decoding]:
  "decodes_at_most 0 m \<Longrightarrow> (\<And>a. decodes_at_most k (f a)) \<Longrightarrow> decodes_at_most k (bind_st m f)"
  using decodes_bind [of 0 m k f] by simp

lemma decodes_calls [decoding]:
  "decodes_at_most 0 (invoke g (GotResult a b))" "decodes_at_most 0 (invoke g' (\<lambda>_. ReadText q))"
  "decodes_at_most 0 (invoke_unit h (DestroyedResult q))" "decodes_at_most 0 (invoke_unit h (FinishedInput p))"
  "decodes_at_most 0 (invoke_unit h (AcceptedWaveform p rate xs n))"
  by (simp_all add: invoke_unit_def decodes_invoke decodes_def)

lemma decodes_steps: "decodes_at_most k (decode_steps lib s k)"
proof (induction k)
  case 0
  show ?case unfolding decode_steps.simps by (rule decoding)
next
  case (Suc k)
  have "decodes_at_most 1 (invoke_unit h (Decoded a b))" for h :: "'a \<Rightarrow> 'a" and a b
    by (simp add: invoke_unit_def decodes_invoke decodes_def)
  note d = decodes_bind [OF this, of k "\<lambda>_. decode_steps lib s k"]
  show ?case unfolding decode_steps.simps
    by (rule decodes_bind_none [OF decodes_invoke decodes_if [OF decodes_basic(1)]])
      (use d Suc in \<open>simp_all add: decodes_def\<close>)
qed

lemma decodes_operations:
  "decodes_at_most max_decode_steps (stream_accept lib s xs)"
  "decodes_at_most max_decode_steps (finish_body lib s)"
proof -
  have d: "decodes_at_most max_decode_steps (decode_available lib s)"
    unfolding decode_available_def by (intro decoding decodes_steps)
  then show "decodes_at_most max_decode_steps (stream_accept lib s xs)"
    unfolding stream_accept_def by (intro decoding)
  have "decodes_at_most 0 (stream_text lib s)"
    unfolding stream_text_def by (intro decoding)
  note t = decodes_bind [OF d this]
  show "decodes_at_most max_decode_steps (finish_body lib s)"
    unfolding finish_body_def by (rule decodes_bind_none [OF decodes_calls(4)]) (use t in simp)
qed

lemma copied_audio: "copy_generated_audio raw n = Inr a \<Longrightarrow>
    list_all is_finite (ga_samples a) \<and> length (ga_samples a) \<le> n \<and> 0 < ga_rate a"
  by (auto simp: copy_generated_audio_def Let_def list_ex_iff list_all_iff split: option.splits if_splits)

lemma owned_string: "read_owned_string p = Inr t \<Longrightarrow> utf8 t"
  by (auto simp: read_owned_string_def split: option.splits if_splits)

lemma text_utf8: "stream_text lib s w = (Inr words, w') \<Longrightarrow> utf8 words"
  by (auto simp: stream_text_def bind_st_Inr_iff split: if_splits dest: owned_string)

text \<open>
  C40: what leaves the wrapper is validated. Whatever the library returns, synthesized audio has a
  positive rate and at most the requested number of samples, all finite, and a text is valid UTF-8; an
  operation on a stream decodes at most 100000 times; after \<open>finish\<close> the stream is marked
  finished even if it failed, and then neither \<open>accept\<close> nor \<open>finish\<close> reaches
  the library.
\<close>

theorem native_values_validated:
  "(case fst (generate lib t str speed n w) of Inl e \<Rightarrow> True
      | Inr audio \<Rightarrow> list_all is_finite (ga_samples audio) \<and> length (ga_samples audio) \<le> n \<and> 0 < ga_rate audio)
   \<and> (case stream_finish lib (s, w) of (r, s', w') \<Rightarrow>
        (case r of Inl e \<Rightarrow> True | Inr words \<Rightarrow> utf8 words) \<and> os_finished s'
        \<and> (\<exists>cs. nt_calls w' = nt_calls w @ cs \<and> decodes cs \<le> max_decode_steps)
        \<and> (\<exists>e. stream_finish lib (s', w') = (Inl e, s', w'))
        \<and> (\<exists>e. stream_accept lib s' xs w' = (Inl e, w')))
   \<and> (case stream_text lib s w of (r, w') \<Rightarrow> (case r of Inl e \<Rightarrow> True | Inr words \<Rightarrow> utf8 words))
   \<and> (\<exists>cs. nt_calls (snd (stream_accept lib s xs w)) = nt_calls w @ cs \<and> decodes cs \<le> max_decode_steps)"
proof (intro conjI)
  show "case fst (generate lib t str speed n w) of Inl e \<Rightarrow> True
      | Inr audio \<Rightarrow> list_all is_finite (ga_samples audio) \<and> length (ga_samples audio) \<le> n \<and> 0 < ga_rate audio"
  proof (cases "generate lib t str speed n w")
    case (Pair r w')
    then have "r = Inr audio \<Longrightarrow> \<exists>raw. copy_generated_audio raw n = Inr audio" for audio
      by (auto simp: generate_def bind_st_Inr_iff split: if_splits)
    with Pair copied_audio show ?thesis by (cases r) auto
  qed
  have "finish_body lib s' w = (Inr words, w') \<Longrightarrow> utf8 words" for s' words w'
    by (auto simp: finish_body_def bind_st_Inr_iff dest: text_utf8)
  moreover have "\<exists>cs. nt_calls (snd (finish_body lib s' w)) = nt_calls w @ cs \<and> decodes cs \<le> max_decode_steps" for s'
    using decodes_operations(2) [of lib s'] by (simp add: decodes_at_most_def)
  moreover have "decodes [] = 0" by (simp add: decodes_def)
  ultimately show "case stream_finish lib (s, w) of (r, s', w') \<Rightarrow>
        (case r of Inl e \<Rightarrow> True | Inr words \<Rightarrow> utf8 words) \<and> os_finished s'
        \<and> (\<exists>cs. nt_calls w' = nt_calls w @ cs \<and> decodes cs \<le> max_decode_steps)
        \<and> (\<exists>e. stream_finish lib (s', w') = (Inl e, s', w'))
        \<and> (\<exists>e. stream_accept lib s' xs w' = (Inl e, w'))"
    by (cases "finish_body lib (s\<lparr>os_finished := True\<rparr>) w"; cases "os_finished s")
      (auto simp: stream_finish_def stream_accept_def Let_def split: sum.split; metis snd_conv)+
  show "case stream_text lib s w of (r, w') \<Rightarrow> (case r of Inl e \<Rightarrow> True | Inr words \<Rightarrow> utf8 words)"
    using text_utf8 [of lib s w] by (auto split: prod.split sum.split)
  show "\<exists>cs. nt_calls (snd (stream_accept lib s xs w)) = nt_calls w @ cs \<and> decodes cs \<le> max_decode_steps"
    using decodes_operations(1) [of lib s xs] by (simp add: decodes_at_most_def)
qed

end
