(* ===== verification/Sherpa_Threads.thy ===== *)
theory Sherpa_Threads
  imports Sherpa_Protocol
begin

text \<open>
  The native wrapper under threads: the operations of \<open>Sherpa\<close> again, as scripts of native
  calls and of acquisitions and releases of the mutex beside each native object, so that the operations
  of any number of threads interleave between two calls. A script run alone is the operation of
  \<open>Sherpa\<close>. Proved: what the mutexes serialize, that they never deadlock, and that every
  operation ends.
\<close>

section \<open>Scripts\<close>

text \<open>The mutexes named \<open>gate\<close> in \<open>RecognizerInner\<close> and \<open>OfflineTts\<close>.\<close>

datatype mutex = OfRecognizer ptr | OfSynthesizer ptr

datatype ('n, 'a) script =
  Finished "native_error + 'a"
| Acquire mutex "('n, 'a) script"
| Release mutex "('n, 'a) script"
| Invoke "'n \<Rightarrow> native_call \<times> 'n \<times> ('n, 'a) script"

primrec bind_script ::
  "('n, 'a) script \<Rightarrow> (native_error + 'a \<Rightarrow> ('n, 'b) script) \<Rightarrow> ('n, 'b) script"
where
  "bind_script (Finished r) f = f r"
| "bind_script (Acquire m s) f = Acquire m (bind_script s f)"
| "bind_script (Release m s) f = Release m (bind_script s f)"
| "bind_script (Invoke k) f = Invoke (map_prod id (map_prod id (\<lambda>s. bind_script s f)) \<circ> k)"

definition then_script ::
  "('n, 'a) script \<Rightarrow> ('a \<Rightarrow> ('n, 'b) script) \<Rightarrow> ('n, 'b) script"
where
  "then_script s f = bind_script s (\<lambda>r. case r of Inl e \<Rightarrow> Finished (Inl e) | Inr a \<Rightarrow> f a)"

definition call_script :: "('n \<Rightarrow> 'a \<times> 'n) \<Rightarrow> ('a \<Rightarrow> native_call) \<Rightarrow> ('n, 'a) script" where
  "call_script f c = Invoke (\<lambda>n. case f n of (a, n) \<Rightarrow> (c a, n, Finished (Inr a)))"

definition call_unit :: "('n \<Rightarrow> 'n) \<Rightarrow> native_call \<Rightarrow> ('n, unit) script" where
  "call_unit f c = call_script (\<lambda>n. ((), f n)) (\<lambda>_. c)"

text \<open>\<open>let _guard = lock(..)?\<close>: the guard lives to the end of the body.\<close>

definition mutex_ptr :: "mutex \<Rightarrow> ptr" where
  "mutex_ptr m = (case m of OfRecognizer p \<Rightarrow> p | OfSynthesizer p \<Rightarrow> p)"

definition guarded :: "'n native_lib \<Rightarrow> mutex \<Rightarrow> ('n, 'a) script \<Rightarrow> ('n, 'a) script" where
  "guarded lib m body =
     (if nl_poisoned lib (mutex_ptr m)
      then Finished (Inl (NativeError ''native engine lock is unavailable''))
      else Acquire m (bind_script body (\<lambda>r. Release m (Finished r))))"

section \<open>The operations\<close>

definition create_nemo_recognizer_script ::
  "'n native_lib \<Rightarrow> string \<Rightarrow> string \<Rightarrow> nat \<Rightarrow> ('n, ptr) script"
where
  "create_nemo_recognizer_script lib model tokens num_threads =
     (if num_threads = 0 \<or> num_threads > 32
      then Finished (Inl (NativeError ''native thread count is invalid''))
      else
        then_script (Finished (path_to_cstring model)) (\<lambda>model.
        then_script (Finished (path_to_cstring tokens)) (\<lambda>tokens.
        then_script (call_script (nl_create_online lib (nemo_config model tokens num_threads)) CreatedOnline)
          (\<lambda>pointer.
            if pointer = 0 then Finished (Inl (NativeError ''speech recognizer initialization failed''))
            else Finished (Inr pointer)))))"

definition create_vits_tts_script ::
  "'n native_lib \<Rightarrow> string \<Rightarrow> string \<Rightarrow> string \<Rightarrow> nat \<Rightarrow> ('n, ptr) script"
where
  "create_vits_tts_script lib model tokens data_dir num_threads =
     (if num_threads = 0 \<or> num_threads > 32
      then Finished (Inl (NativeError ''native thread count is invalid''))
      else
        then_script (Finished (path_to_cstring model)) (\<lambda>model.
        then_script (Finished (path_to_cstring tokens)) (\<lambda>tokens.
        then_script (Finished (path_to_cstring data_dir)) (\<lambda>data_dir.
        then_script (call_script (nl_create_tts lib (vits_config model tokens data_dir num_threads)) CreatedTts)
          (\<lambda>pointer.
            if pointer = 0 then Finished (Inl (NativeError ''speech synthesizer initialization failed''))
            else Finished (Inr pointer))))))"

definition create_stream_script :: "'n native_lib \<Rightarrow> ptr \<Rightarrow> ('n, online_stream) script" where
  "create_stream_script lib r =
     guarded lib (OfRecognizer r)
       (then_script (call_script (nl_create_stream lib r) (CreatedStream r)) (\<lambda>pointer.
         if pointer = 0 then Finished (Inl (NativeError ''speech stream initialization failed''))
         else Finished (Inr \<lparr>os_recognizer = r, os_pointer = pointer, os_finished = False\<rparr>)))"

fun decode_steps_script :: "'n native_lib \<Rightarrow> online_stream \<Rightarrow> nat \<Rightarrow> ('n, unit) script" where
  "decode_steps_script lib s 0 = Finished (Inl (NativeError ''speech decoder exceeded its work bound''))"
| "decode_steps_script lib s (Suc k) =
     then_script (call_script (nl_is_ready lib (os_recognizer s) (os_pointer s))
       (\<lambda>_. AskedReady (os_recognizer s) (os_pointer s))) (\<lambda>ready.
       if ready = 0 then Finished (Inr ())
       else
         then_script (call_unit (nl_decode lib (os_recognizer s) (os_pointer s))
           (Decoded (os_recognizer s) (os_pointer s))) (\<lambda>_.
           decode_steps_script lib s k))"

definition decode_available_script :: "'n native_lib \<Rightarrow> online_stream \<Rightarrow> ('n, unit) script" where
  "decode_available_script lib s =
     guarded lib (OfRecognizer (os_recognizer s)) (decode_steps_script lib s max_decode_steps)"

definition accept_script :: "'n native_lib \<Rightarrow> online_stream \<Rightarrow> f32 list \<Rightarrow> ('n, unit) script" where
  "accept_script lib s xs =
     (if os_finished s \<or> xs = [] \<or> int (length xs) > i32_max \<or> list_ex (\<lambda>x. \<not> is_finite x) xs
      then Finished (Inl (NativeError ''speech stream input is invalid''))
      else
        then_script (call_unit (nl_accept_waveform lib (os_pointer s) 16000 xs (int (length xs)))
          (AcceptedWaveform (os_pointer s) 16000 xs (int (length xs)))) (\<lambda>_.
          decode_available_script lib s))"

definition text_script :: "'n native_lib \<Rightarrow> online_stream \<Rightarrow> ('n, string) script" where
  "text_script lib s =
     guarded lib (OfRecognizer (os_recognizer s))
       (then_script (call_script (nl_get_result lib (os_recognizer s) (os_pointer s))
         (GotResult (os_recognizer s) (os_pointer s))) (\<lambda>result.
         if result = 0 then Finished (Inl (NativeError ''speech recognition result is unavailable''))
         else
           then_script (call_script (\<lambda>n. (nl_result_text lib result n, n)) (\<lambda>_. ReadText result)) (\<lambda>bytes.
           then_script (call_unit (nl_destroy_result lib result) (DestroyedResult result)) (\<lambda>_.
             Finished (read_owned_string bytes)))))"

definition finish_script :: "'n native_lib \<Rightarrow> online_stream \<Rightarrow> ('n, string) script" where
  "finish_script lib s =
     (if os_finished s then Finished (Inl (NativeError ''speech stream is already finished''))
      else
        then_script (call_unit (nl_input_finished lib (os_pointer s)) (FinishedInput (os_pointer s))) (\<lambda>_.
        then_script (decode_available_script lib (s\<lparr>os_finished := True\<rparr>)) (\<lambda>_.
          text_script lib (s\<lparr>os_finished := True\<rparr>))))"

definition generate_script ::
  "'n native_lib \<Rightarrow> ptr \<Rightarrow> ustr \<Rightarrow> f32 \<Rightarrow> nat \<Rightarrow> ('n, generated_audio) script"
where
  "generate_script lib t str speed max_samples =
     (if str_trim str = [] \<or> str_len str > 16384 \<or> \<not> is_finite speed \<or> \<not> in_range (1 / 2) 2 speed
         \<or> max_samples = 0
      then Finished (Inl (NativeError ''speech synthesis input is invalid''))
      else if 0 \<in> set str then Finished (Inl (NativeError ''speech synthesis input is invalid''))
      else
        guarded lib (OfSynthesizer t)
          (then_script (call_script (nl_generate_tts lib t str 0 speed) (Generated t)) (\<lambda>result.
            if result = 0 then Finished (Inl (NativeError ''speech synthesis failed''))
            else
              then_script (call_script (\<lambda>n. (nl_generated_audio lib result n, n)) (\<lambda>_. ReadAudio result)) (\<lambda>raw.
              then_script (call_unit (nl_destroy_audio lib result) (DestroyedAudio result)) (\<lambda>_.
                Finished (copy_generated_audio raw max_samples))))))"

text \<open>The drops of a stream, of the last handle of a recognizer and of a synthesizer take no mutex.\<close>

definition drop_stream_script :: "'n native_lib \<Rightarrow> online_stream \<Rightarrow> ('n, unit) script" where
  "drop_stream_script lib s = call_unit (nl_destroy_stream lib (os_pointer s)) (DestroyedStream (os_pointer s))"

definition drop_recognizer_script :: "'n native_lib \<Rightarrow> ptr \<Rightarrow> ('n, unit) script" where
  "drop_recognizer_script lib r = call_unit (nl_destroy_online lib r) (DestroyedOnline r)"

definition drop_tts_script :: "'n native_lib \<Rightarrow> ptr \<Rightarrow> ('n, unit) script" where
  "drop_tts_script lib t = call_unit (nl_destroy_tts lib t) (DestroyedTts t)"

section \<open>A script run alone\<close>

primrec run_script :: "('n, 'a) script \<Rightarrow> ('n, 'a) native_action" where
  "run_script (Finished r) = (\<lambda>w. (r, w))"
| "run_script (Acquire m s) = run_script s"
| "run_script (Release m s) = run_script s"
| "run_script (Invoke k) = (\<lambda>w.
     case map_prod id (map_prod id run_script) (k (nt_state w)) of
       (c, n, m) \<Rightarrow> m \<lparr>nt_state = n, nt_calls = nt_calls w @ [c]\<rparr>)"

text \<open>Induction with the answers of the library in the open.\<close>

lemma script_induct [case_names Finished Acquire Release Invoke, induct type: script]:
  assumes "\<And>r. P (Finished r)" and "\<And>m s. P s \<Longrightarrow> P (Acquire m s)" and "\<And>m s. P s \<Longrightarrow> P (Release m s)"
    and "\<And>k. (\<And>n c n' s. k n = (c, n', s) \<Longrightarrow> P s) \<Longrightarrow> P (Invoke k)"
  shows "P (s :: ('n, 'a) script)"
proof (induction s rule: script.induct)
  case (Invoke k)
  show ?case
  proof (rule assms(4))
    fix n c n' s assume "k n = (c, n', s)"
    then have "(c, n', s) \<in> range k" by (metis rangeI)
    with Invoke [of "(c, n', s)" "(n', s)" s] show "P s" by simp
  qed
qed (fact assms)+

lemma run_bind: "run_script (bind_script s f) w = (case run_script s w of (r, w) \<Rightarrow> run_script (f r) w)"
proof (induction s arbitrary: w)
  case (Invoke k)
  obtain c n s where "k (nt_state w) = (c, n, s)" by (metis surj_pair)
  with Invoke.IH [OF this] show ?case by simp
qed simp_all

lemma run_then: "run_script (then_script s f) = bind_st (run_script s) (\<lambda>a. run_script (f a))"
  by (rule ext) (simp add: then_script_def run_bind bind_st_def split: prod.split sum.split)

lemma run_call: "run_script (call_script f c) = invoke f c" "run_script (call_unit g d) = invoke_unit g d"
  by (rule ext, simp add: call_script_def call_unit_def invoke_def invoke_unit_def split: prod.split)+

lemma run_guarded:
  "run_script (guarded lib m body) = bind_st (lock_gate lib (mutex_ptr m)) (\<lambda>_. run_script body)"
  by (rule ext) (simp add: guarded_def lock_gate_def run_bind fail_def ret_def bind_st_def split: prod.split)

lemma run_finished: "run_script (Finished r) = lift_res r"
  "lift_res (Inr a) = ret a" "lift_res (Inl e) = fail e"
  by (rule ext, simp add: ret_def fail_def lift_res_def)+

lemmas run_script_ops = run_then run_call run_guarded run_finished mutex_ptr_def mutex.case if_distrib [of run_script]

lemma run_decode_steps: "run_script (decode_steps_script lib s k) = decode_steps lib s k"
  by (induction k) (simp_all add: run_script_ops del: run_script.simps cong: if_cong)

lemma run_decode_available: "run_script (decode_available_script lib s) = decode_available lib s"
  by (simp add: decode_available_script_def decode_available_def run_script_ops run_decode_steps)

lemma run_text: "run_script (text_script lib s) = stream_text lib s"
  by (simp add: text_script_def stream_text_def run_script_ops del: run_script.simps cong: if_cong)

lemma run_create:
  "run_script (create_nemo_recognizer_script lib a b n) = create_nemo_recognizer lib a b n"
  "run_script (create_vits_tts_script lib a b c n) = create_vits_tts lib a b c n"
  by (simp_all add: create_nemo_recognizer_script_def create_nemo_recognizer_def
      create_vits_tts_script_def create_vits_tts_def run_script_ops del: run_script.simps cong: if_cong)

lemma run_operations:
  "run_script (create_stream_script lib r) = create_stream lib r"
  "run_script (accept_script lib s xs) = stream_accept lib s xs"
  "run_script (generate_script lib t str speed n) = generate lib t str speed n"
  by (simp_all add: create_stream_script_def create_stream_def accept_script_def stream_accept_def
      generate_script_def generate_def run_script_ops run_decode_available
      del: run_script.simps cong: if_cong)

lemma run_finish:
  "stream_finish lib (s, w) =
     (case run_script (finish_script lib s) w of (r, w) \<Rightarrow> (r, s\<lparr>os_finished := True\<rparr>, w))"
proof (cases "os_finished s")
  case True
  then have "s\<lparr>os_finished := True\<rparr> = s" by simp
  with True show ?thesis by (simp add: stream_finish_def finish_script_def)
next
  case False
  then have "run_script (finish_script lib s) = finish_body lib (s\<lparr>os_finished := True\<rparr>)"
    by (simp add: finish_script_def finish_body_def run_script_ops run_decode_available run_text
        del: run_script.simps)
  with False show ?thesis by (simp add: stream_finish_def Let_def)
qed

section \<open>Which calls need which mutex\<close>

text \<open>
  \<open>under m c\<close>: the call \<open>c\<close> may be made by a thread that holds
  \<open>m\<close> (or none). Creating a stream, asking, decoding and getting a result need the
  recognizer's mutex, generating the synthesizer's; reading and destroying a result or audio need one of
  them.
\<close>

fun gate_of :: "native_call \<Rightarrow> mutex option" where
  "gate_of (CreatedStream r s) = Some (OfRecognizer r)"
| "gate_of (AskedReady r s) = Some (OfRecognizer r)"
| "gate_of (Decoded r s) = Some (OfRecognizer r)"
| "gate_of (GotResult r s q) = Some (OfRecognizer r)"
| "gate_of (Generated t a) = Some (OfSynthesizer t)"
| "gate_of _ = None"

fun owns_value :: "native_call \<Rightarrow> bool" where
  "owns_value (ReadText q) = True" | "owns_value (DestroyedResult q) = True"
| "owns_value (ReadAudio a) = True" | "owns_value (DestroyedAudio a) = True"
| "owns_value _ = False"

definition under :: "mutex option \<Rightarrow> native_call \<Rightarrow> bool" where
  "under h c \<longleftrightarrow> (case gate_of c of Some m \<Rightarrow> h = Some m | None \<Rightarrow> owns_value c \<longrightarrow> h \<noteq> None)"

text \<open>A script that holds \<open>h\<close>, one mutex at most, and makes each call under what it needs.\<close>

primrec disciplined :: "('n, 'a) script \<Rightarrow> mutex option \<Rightarrow> bool" where
  "disciplined (Finished r) h \<longleftrightarrow> h = None"
| "disciplined (Acquire m s) h \<longleftrightarrow> h = None \<and> disciplined s (Some m)"
| "disciplined (Release m s) h \<longleftrightarrow> h = Some m \<and> disciplined s None"
| "disciplined (Invoke k) h \<longleftrightarrow>
     (\<forall>n. case map_prod id (map_prod id disciplined) (k n) of (c, n', d) \<Rightarrow> under h c \<and> d h)"

text \<open>How many steps a script takes at most.\<close>

primrec ends_within :: "('n, 'a) script \<Rightarrow> nat \<Rightarrow> bool" where
  "ends_within (Finished r) n \<longleftrightarrow> True"
| "ends_within (Acquire m s) n \<longleftrightarrow> 0 < n \<and> ends_within s (n - 1)"
| "ends_within (Release m s) n \<longleftrightarrow> 0 < n \<and> ends_within s (n - 1)"
| "ends_within (Invoke k) n \<longleftrightarrow>
     0 < n \<and> (\<forall>x. case map_prod id (map_prod id ends_within) (k x) of (c, n', e) \<Rightarrow> e (n - 1))"

text \<open>
  \<open>body h b s\<close>: the script runs under \<open>h\<close> throughout, takes and releases
  nothing, and ends within \<open>b\<close>.
\<close>

primrec body :: "('n, 'a) script \<Rightarrow> mutex option \<Rightarrow> nat \<Rightarrow> bool" where
  "body (Finished r) h n \<longleftrightarrow> True"
| "body (Acquire m s) h n \<longleftrightarrow> False"
| "body (Release m s) h n \<longleftrightarrow> False"
| "body (Invoke k) h n \<longleftrightarrow> 0 < n \<and>
     (\<forall>x. case map_prod id (map_prod id body) (k x) of (c, n', d) \<Rightarrow> under h c \<and> d h (n - 1))"

lemma case_answer:
  "(case map_prod id (map_prod id f) y of (c, n', d) \<Rightarrow> Q c d) \<longleftrightarrow> (\<forall>c n' s. y = (c, n', s) \<longrightarrow> Q c (f s))"
  by (cases y) auto

lemma invoke_simps:
  "disciplined (Invoke k) h \<longleftrightarrow> (\<forall>x c n' s. k x = (c, n', s) \<longrightarrow> under h c \<and> disciplined s h)"
  "ends_within (Invoke k) n \<longleftrightarrow> 0 < n \<and> (\<forall>x c n' s. k x = (c, n', s) \<longrightarrow> ends_within s (n - 1))"
  "body (Invoke k) h n \<longleftrightarrow> 0 < n \<and> (\<forall>x c n' s. k x = (c, n', s) \<longrightarrow> under h c \<and> body s h (n - 1))"
  unfolding disciplined.simps ends_within.simps body.simps case_answer by blast+

declare disciplined.simps(4) [simp del] ends_within.simps(4) [simp del] body.simps(4) [simp del]
declare invoke_simps [simp]

lemma ends_within_mono: "ends_within s a \<Longrightarrow> a \<le> b \<Longrightarrow> ends_within s b"
proof (induction s arbitrary: a b)
  case (Invoke k)
  then have "ends_within s (b - 1)" if "k x = (c, n', s)" for x c n' s
    using that Invoke.IH [OF that, of "a - 1" "b - 1"] by simp
  with Invoke.prems show ?case by simp
next
  case (Acquire m s)
  from Acquire.IH [of "a - 1" "b - 1"] Acquire.prems show ?case by simp
next
  case (Release m s)
  from Release.IH [of "a - 1" "b - 1"] Release.prems show ?case by simp
qed simp

lemma body_mono: "body s h a \<Longrightarrow> a \<le> b \<Longrightarrow> body s h b"
proof (induction s arbitrary: a b)
  case (Invoke k)
  then have "body s h (b - 1)" if "k x = (c, n', s)" for x c n' s
    using that Invoke.IH [OF that, of "a - 1" "b - 1"] by simp
  with Invoke.prems show ?case by simp
qed simp_all

lemma answered_bind:
  "map_prod id (map_prod id (\<lambda>s. bind_script s f)) y = (c, n', s) \<longleftrightarrow>
     (\<exists>t. y = (c, n', t) \<and> s = bind_script t f)"
  by (cases y) auto

text \<open>A body followed by another, by the release of its mutex, or by nothing.\<close>

lemma body_bind:
  "body s h a \<Longrightarrow> (\<And>r. body (f r) h b) \<Longrightarrow> body (bind_script s f) h (a + b)"
proof (induction s arbitrary: a)
  case (Finished r)
  then show ?case by (simp add: body_mono [where a = b])
next
  case (Invoke k)
  have "body (bind_script t f) h (a + b - 1)" if "k x = (c, n', t)" for x c n' t
    using Invoke.IH [OF that, of "a - 1"] Invoke.prems that by simp
  with Invoke.prems show ?case by (auto simp: answered_bind)
qed simp_all

lemma body_disciplined:
  "body s h a \<Longrightarrow> (\<And>r. disciplined (f r) h) \<Longrightarrow> disciplined (bind_script s f) h"
proof (induction s arbitrary: a)
  case (Invoke k)
  have "disciplined (bind_script t f) h" if "k x = (c, n', t)" for x c n' t
    using Invoke.IH [OF that, of "a - 1"] Invoke.prems that by simp
  with Invoke.prems show ?case by (auto simp: answered_bind)
qed simp_all

lemma ends_within_bind:
  "ends_within s a \<Longrightarrow> (\<And>r. ends_within (f r) b) \<Longrightarrow> ends_within (bind_script s f) (a + b)"
proof (induction s arbitrary: a)
  case (Finished r)
  then show ?case by (simp add: ends_within_mono [where a = b])
next
  case (Invoke k)
  have "ends_within (bind_script t f) (a + b - 1)" if "k x = (c, n', t)" for x c n' t
    using Invoke.IH [OF that, of "a - 1"] Invoke.prems that by simp
  with Invoke.prems show ?case by (auto simp: answered_bind)
next
  case (Acquire m s)
  from Acquire.IH [of "a - 1"] Acquire.prems show ?case by simp
next
  case (Release m s)
  from Release.IH [of "a - 1"] Release.prems show ?case by simp
qed

lemma disciplined_bind:
  "disciplined s h \<Longrightarrow> (\<And>r. disciplined (f r) None) \<Longrightarrow> disciplined (bind_script s f) h"
proof (induction s arbitrary: h)
  case (Invoke k)
  have "disciplined (bind_script t f) h" if "k x = (c, n', t)" for x c n' t
    using Invoke.IH [OF that, of h] Invoke.prems that by simp
  with Invoke.prems show ?case by (auto simp: answered_bind)
qed simp_all

lemma body_ends: "body s h a \<Longrightarrow> ends_within s a"
proof (induction s arbitrary: a)
  case (Invoke k)
  have "ends_within t (a - 1)" if "k x = (c, n', t)" for x c n' t
    using Invoke.IH [OF that, of "a - 1"] Invoke.prems that by simp
  with Invoke.prems show ?case by simp
qed simp_all

definition proper :: "('n, 'a) script \<Rightarrow> nat \<Rightarrow> bool" where
  "proper s n \<longleftrightarrow> disciplined s None \<and> ends_within s n"

named_theorems scripting \<open>bodies and proper scripts\<close>

lemma body_then [scripting]:
  "body s h a \<Longrightarrow> (\<And>x. body (f x) h b) \<Longrightarrow> body (then_script s f) h (a + b)"
  unfolding then_script_def by (rule body_bind) (simp_all split: sum.split)

lemma body_call [scripting]:
  "(\<And>a. under h (c a)) \<Longrightarrow> body (call_script f c) h 1" "under h d \<Longrightarrow> body (call_unit g d) h 1"
  by (auto simp: call_script_def call_unit_def split: prod.splits)

lemma proper_finished [scripting]: "proper (Finished r) 0"
  by (simp add: proper_def)

lemma proper_then [scripting]:
  assumes "proper s a" and "\<And>x. proper (f x) b"
  shows "proper (then_script s f) (a + b)"
  using assms unfolding proper_def then_script_def
  by (auto intro!: disciplined_bind ends_within_bind split: sum.split)

lemma proper_body: "body s None a \<Longrightarrow> proper s a"
proof -
  assume body: "body s None a"
  then have "disciplined s None"
  proof (induction s arbitrary: a)
    case (Invoke k)
    have "disciplined t None" if "k x = (c, n', t)" for x c n' t
      using Invoke.IH [OF that, of "a - 1"] Invoke.prems that by simp
    with Invoke.prems show ?case by simp
  qed simp_all
  with body_ends [OF body] show ?thesis by (simp add: proper_def)
qed

lemma proper_guarded [scripting]:
  assumes "body s (Some m) a"
  shows "proper (guarded lib m s) (a + 2)"
proof -
  have "disciplined (bind_script s (\<lambda>r. Release m (Finished r))) (Some m)"
    by (rule body_disciplined [OF assms]) simp
  moreover have "ends_within (bind_script s (\<lambda>r. Release m (Finished r))) (a + 1)"
    by (rule ends_within_bind [OF body_ends [OF assms]]) simp
  ultimately show ?thesis by (simp add: proper_def guarded_def)
qed

section \<open>Every operation is proper\<close>

lemma body_if [scripting]: "body s h n \<Longrightarrow> body t h n \<Longrightarrow> body (if b then s else t) h n"
  by simp

lemma body_finished [scripting]: "body (Finished r) h n"
  by simp

lemma under_simps [simp]:
  "under (Some (OfRecognizer r)) (CreatedStream r a)" "under (Some (OfRecognizer r)) (AskedReady r p)"
  "under (Some (OfRecognizer r)) (Decoded r p)" "under (Some (OfRecognizer r)) (GotResult r p a)"
  "under (Some m) (ReadText a)" "under (Some m) (DestroyedResult a)" "under (Some m) (ReadAudio a)"
  "under (Some m) (DestroyedAudio a)" "under (Some (OfSynthesizer t)) (Generated t a)"
  "under h (AcceptedWaveform p rate xs n)" "under h (FinishedInput p)" "under h (DestroyedStream p)"
  "under h (CreatedOnline r)" "under h (CreatedTts t)" "under h (DestroyedOnline r)" "under h (DestroyedTts t)"
  by (simp_all add: under_def)

lemma body_decode_steps:
  "body (decode_steps_script lib s k) (Some (OfRecognizer (os_recognizer s))) (2 * k)"
proof (induction k)
  case (Suc k)
  have "body (then_script (call_unit (nl_decode lib (os_recognizer s) (os_pointer s))
      (Decoded (os_recognizer s) (os_pointer s))) (\<lambda>_. decode_steps_script lib s k))
    (Some (OfRecognizer (os_recognizer s))) (1 + 2 * k)"
    by (rule body_then, rule body_call) (simp_all add: Suc)
  note inner = this
  have "body (decode_steps_script lib s (Suc k)) (Some (OfRecognizer (os_recognizer s))) (1 + (1 + 2 * k))"
    unfolding decode_steps_script.simps
    by (rule body_then, rule body_call, simp, rule body_if, rule body_finished, rule inner)
  then show ?case by simp
qed simp

lemma proper_decode_available: "proper (decode_available_script lib s) (2 * max_decode_steps + 2)"
  unfolding decode_available_script_def by (rule proper_guarded, rule body_decode_steps)

lemma proper_mono: "proper s a \<Longrightarrow> a \<le> b \<Longrightarrow> proper s b"
  by (auto simp: proper_def intro: ends_within_mono)

lemma proper_text: "proper (text_script lib s) 5"
proof -
  have "proper (text_script lib s) (1 + (1 + (1 + 0)) + 2)"
    unfolding text_script_def by (intro scripting) simp_all
  then show ?thesis by (simp add: numeral_eq_Suc)
qed

lemma proper_finished_any: "proper (Finished r) n"
  by (simp add: proper_def)

definition operation_bound :: nat where "operation_bound = 2 * max_decode_steps + 8"

lemma proper_create:
  "proper (create_nemo_recognizer_script lib a b k) operation_bound"
  "proper (create_vits_tts_script lib a b c k) operation_bound"
proof -
  have call: "proper (then_script (call_script f CreatedOnline) (\<lambda>p. if p = 0 then Finished (Inl e) else Finished (Inr p))) (1 + 0)"
    "proper (then_script (call_script f CreatedTts) (\<lambda>p. if p = 0 then Finished (Inl e) else Finished (Inr p))) (1 + 0)" for f e
    by (rule proper_body, rule body_then, rule body_call, simp, simp)+
  have "proper (then_script (Finished (path_to_cstring a)) (\<lambda>a. then_script (Finished (path_to_cstring b)) (\<lambda>b.
      then_script (call_script (nl_create_online lib (nemo_config a b k)) CreatedOnline) (\<lambda>p.
        if p = 0 then Finished (Inl (NativeError ''speech recognizer initialization failed''))
        else Finished (Inr p))))) (0 + (0 + (1 + 0)))"
    by (intro proper_then proper_finished call)
  then show "proper (create_nemo_recognizer_script lib a b k) operation_bound"
    by (auto simp: create_nemo_recognizer_script_def operation_bound_def proper_finished_any elim!: proper_mono)
  have "proper (then_script (Finished (path_to_cstring a)) (\<lambda>a. then_script (Finished (path_to_cstring b)) (\<lambda>b.
      then_script (Finished (path_to_cstring c)) (\<lambda>c.
      then_script (call_script (nl_create_tts lib (vits_config a b c k)) CreatedTts) (\<lambda>p.
        if p = 0 then Finished (Inl (NativeError ''speech synthesizer initialization failed''))
        else Finished (Inr p)))))) (0 + (0 + (0 + (1 + 0))))"
    by (intro proper_then proper_finished call)
  then show "proper (create_vits_tts_script lib a b c k) operation_bound"
    by (auto simp: create_vits_tts_script_def operation_bound_def proper_finished_any elim!: proper_mono)
qed

lemma proper_operations:
  "proper (create_stream_script lib r) operation_bound"
  "proper (accept_script lib st xs) operation_bound"
  "proper (text_script lib st) operation_bound"
  "proper (finish_script lib st) operation_bound"
  "proper (generate_script lib t str speed n) operation_bound"
  "proper (drop_stream_script lib st) operation_bound"
  "proper (drop_recognizer_script lib r) operation_bound"
  "proper (drop_tts_script lib t) operation_bound"
proof -
  have "proper (create_stream_script lib r) (1 + 0 + 2)"
    unfolding create_stream_script_def by (intro scripting) simp_all
  then show "proper (create_stream_script lib r) operation_bound"
    by (rule proper_mono) (simp add: operation_bound_def)
  have one: "proper (call_unit f c) 1" if "under None c" for f :: "'a \<Rightarrow> 'a" and c
    by (rule proper_body, rule body_call) (rule that)
  show "proper (accept_script lib st xs) operation_bound"
  proof -
    have "proper (then_script (call_unit (nl_accept_waveform lib (os_pointer st) 16000 xs (int (length xs)))
        (AcceptedWaveform (os_pointer st) 16000 xs (int (length xs)))) (\<lambda>_. decode_available_script lib st))
      (1 + (2 * max_decode_steps + 2))"
      by (rule proper_then, rule one, simp, rule proper_decode_available)
    then show ?thesis
      by (auto simp: accept_script_def operation_bound_def proper_finished_any elim: proper_mono)
  qed
  show "proper (text_script lib st) operation_bound"
    by (rule proper_mono [OF proper_text]) (simp add: operation_bound_def)
  show "proper (finish_script lib st) operation_bound"
  proof -
    have "proper (then_script (call_unit (nl_input_finished lib (os_pointer st)) (FinishedInput (os_pointer st))) (\<lambda>_.
        then_script (decode_available_script lib (st\<lparr>os_finished := True\<rparr>)) (\<lambda>_.
          text_script lib (st\<lparr>os_finished := True\<rparr>))))
      (1 + (2 * max_decode_steps + 2 + 5))"
      by (rule proper_then, rule one, simp, rule proper_then, rule proper_decode_available, rule proper_text)
    then show ?thesis
      by (auto simp: finish_script_def operation_bound_def proper_finished_any elim: proper_mono)
  qed
  have "proper (guarded lib (OfSynthesizer t)
          (then_script (call_script (nl_generate_tts lib t str 0 speed) (Generated t)) (\<lambda>result.
            if result = 0 then Finished (Inl (NativeError ''speech synthesis failed''))
            else
              then_script (call_script (\<lambda>n. (nl_generated_audio lib result n, n)) (\<lambda>_. ReadAudio result)) (\<lambda>raw.
              then_script (call_unit (nl_destroy_audio lib result) (DestroyedAudio result)) (\<lambda>_.
                Finished (copy_generated_audio raw n)))))) (1 + (1 + (1 + 0)) + 2)"
    by (intro scripting) simp_all
  then show "proper (generate_script lib t str speed n) operation_bound"
    by (auto simp: generate_script_def operation_bound_def proper_finished_any elim!: proper_mono)
  show "proper (drop_stream_script lib st) operation_bound" "proper (drop_recognizer_script lib r) operation_bound"
    "proper (drop_tts_script lib t) operation_bound"
    unfolding drop_stream_script_def drop_recognizer_script_def drop_tts_script_def
    by (rule proper_mono [OF one], simp, simp add: operation_bound_def)+
qed

section \<open>Threads\<close>

definition forget :: "('n, 'a) script \<Rightarrow> ('n, unit) script" where
  "forget s = bind_script s (\<lambda>r. Finished (map_ok (\<lambda>_. ()) r))"

lemma proper_forget: "proper s n \<Longrightarrow> proper (forget s) n"
  unfolding proper_def forget_def
proof
  assume s: "disciplined s None \<and> ends_within s n"
  then show "disciplined (bind_script s (\<lambda>r. Finished (map_ok (\<lambda>_. ()) r))) None"
    by (intro disciplined_bind) simp_all
  have "ends_within (bind_script s (\<lambda>r. Finished (map_ok (\<lambda>_. ()) r))) (n + 0)"
    using s by (intro ends_within_bind) simp_all
  then show "ends_within (bind_script s (\<lambda>r. Finished (map_ok (\<lambda>_. ()) r))) n" by simp
qed

inductive wrapper_operation :: "'n native_lib \<Rightarrow> ('n, unit) script \<Rightarrow> bool" for lib where
  "wrapper_operation lib (forget (create_nemo_recognizer_script lib a b k))"
| "wrapper_operation lib (forget (create_vits_tts_script lib a b c k))"
| "wrapper_operation lib (forget (create_stream_script lib r))"
| "wrapper_operation lib (forget (accept_script lib st xs))"
| "wrapper_operation lib (forget (text_script lib st))"
| "wrapper_operation lib (forget (finish_script lib st))"
| "wrapper_operation lib (forget (generate_script lib t str speed n))"
| "wrapper_operation lib (forget (drop_stream_script lib st))"
| "wrapper_operation lib (forget (drop_recognizer_script lib r))"
| "wrapper_operation lib (forget (drop_tts_script lib t))"

lemma wrapper_operation_proper: "wrapper_operation lib s \<Longrightarrow> proper s operation_bound"
  by (induction rule: wrapper_operation.induct) (intro proper_forget proper_create proper_operations)+

text \<open>What happened, and in which thread.\<close>

datatype event = Acquired mutex | Released mutex | Called native_call

record 'n threads =
  th_state :: 'n
  th_log :: "(nat \<times> event) list"
  th_holder :: "mutex \<Rightarrow> nat option"
  th_scripts :: "('n, unit) script list"

definition threads_start :: "'n \<Rightarrow> 'n threads" where
  "threads_start n = \<lparr>th_state = n, th_log = [], th_holder = \<lambda>_. None, th_scripts = []\<rparr>"

text \<open>One step of the thread \<open>i\<close>; a mutex is acquired when it is free.\<close>

inductive run_step :: "'n threads \<Rightarrow> 'n threads \<Rightarrow> bool" where
  acquire: "i < length (th_scripts T) \<Longrightarrow> th_scripts T ! i = Acquire m s \<Longrightarrow> th_holder T m = None \<Longrightarrow>
    run_step T (T\<lparr>th_log := th_log T @ [(i, Acquired m)], th_holder := (th_holder T)(m := Some i),
      th_scripts := (th_scripts T)[i := s]\<rparr>)"
| release: "i < length (th_scripts T) \<Longrightarrow> th_scripts T ! i = Release m s \<Longrightarrow>
    run_step T (T\<lparr>th_log := th_log T @ [(i, Released m)], th_holder := (th_holder T)(m := None),
      th_scripts := (th_scripts T)[i := s]\<rparr>)"
| invoke: "i < length (th_scripts T) \<Longrightarrow> th_scripts T ! i = Invoke k \<Longrightarrow> k (th_state T) = (c, n, s) \<Longrightarrow>
    run_step T (T\<lparr>th_state := n, th_log := th_log T @ [(i, Called c)],
      th_scripts := (th_scripts T)[i := s]\<rparr>)"

text \<open>A thread may also begin an operation at any time.\<close>

inductive thread_step :: "'n native_lib \<Rightarrow> 'n threads \<Rightarrow> 'n threads \<Rightarrow> bool" for lib where
  run: "run_step T U \<Longrightarrow> thread_step lib T U"
| start: "wrapper_operation lib s \<Longrightarrow> thread_step lib T (T\<lparr>th_scripts := th_scripts T @ [s]\<rparr>)"

section \<open>What the mutexes serialize\<close>

text \<open>
  A log is serialized by \<open>m\<close> when the calls that need \<open>m\<close> are made only by the
  thread that acquired \<open>m\<close> last and has not released it, and nobody acquires it meanwhile.
\<close>

fun holder_after :: "mutex \<Rightarrow> nat option \<Rightarrow> (nat \<times> event) list \<Rightarrow> nat option" where
  "holder_after m h [] = h"
| "holder_after m h ((i, Acquired q) # es) = holder_after m (if q = m then Some i else h) es"
| "holder_after m h ((i, Released q) # es) = holder_after m (if q = m then None else h) es"
| "holder_after m h ((i, Called c) # es) = holder_after m h es"

fun serialized :: "mutex \<Rightarrow> nat option \<Rightarrow> (nat \<times> event) list \<Rightarrow> bool" where
  "serialized m h [] \<longleftrightarrow> True"
| "serialized m h ((i, Acquired q) # es) \<longleftrightarrow>
     (if q = m then h = None \<and> serialized m (Some i) es else serialized m h es)"
| "serialized m h ((i, Released q) # es) \<longleftrightarrow>
     (if q = m then h = Some i \<and> serialized m None es else serialized m h es)"
| "serialized m h ((i, Called c) # es) \<longleftrightarrow> (gate_of c = Some m \<longrightarrow> h = Some i) \<and> serialized m h es"

lemma serialized_append:
  "serialized m h (es @ fs) \<longleftrightarrow> serialized m h es \<and> serialized m (holder_after m h es) fs"
  "holder_after m h (es @ fs) = holder_after m (holder_after m h es) fs"
  by (induction m h es rule: holder_after.induct) auto

definition held :: "'n threads \<Rightarrow> nat \<Rightarrow> mutex option \<Rightarrow> bool" where
  "held T i h \<longleftrightarrow> disciplined (th_scripts T ! i) h \<and> (\<forall>m. th_holder T m = Some i \<longleftrightarrow> h = Some m)"

definition threads_inv :: "'n threads \<Rightarrow> bool" where
  "threads_inv T \<longleftrightarrow>
     (\<forall>i < length (th_scripts T). (\<exists>h. held T i h) \<and> ends_within (th_scripts T ! i) operation_bound)
     \<and> (\<forall>m i. th_holder T m = Some i \<longrightarrow> i < length (th_scripts T))
     \<and> (\<forall>m. holder_after m None (th_log T) = th_holder T m \<and> serialized m None (th_log T))"

text \<open>Thread \<open>i\<close> goes on with \<open>s\<close>; the others are as they were.\<close>

lemma threads_inv_update:
  assumes inv: "threads_inv T" and i: "i < length (th_scripts T)"
    and scripts: "th_scripts U = (th_scripts T)[i := s]" and log: "th_log U = th_log T @ [(i, e)]"
    and others: "\<And>m j. j \<noteq> i \<Longrightarrow> th_holder U m = Some j \<longleftrightarrow> th_holder T m = Some j"
    and own: "disciplined s h" "\<And>m. th_holder U m = Some i \<longleftrightarrow> h = Some m"
    and bound: "ends_within s operation_bound"
    and logged: "\<And>m. holder_after m (th_holder T m) [(i, e)] = th_holder U m
      \<and> serialized m (th_holder T m) [(i, e)]"
  shows "threads_inv U"
proof -
  have "\<exists>h. held U j h" "ends_within (th_scripts U ! j) operation_bound" if j: "j < length (th_scripts T)" for j
  proof -
    show "\<exists>h. held U j h"
    proof (cases "j = i")
      case True
      with scripts i own show ?thesis by (intro exI [of _ h]) (simp add: held_def)
    next
      case False
      moreover obtain h where "held T j h" using inv j by (auto simp: threads_inv_def)
      ultimately show ?thesis using scripts others by (auto simp: held_def)
    qed
    show "ends_within (th_scripts U ! j) operation_bound"
      using inv j scripts bound by (cases "j = i") (auto simp: threads_inv_def)
  qed
  moreover have "j < length (th_scripts T)" if "th_holder U m = Some j" for m j
    using that others [of j m] i inv by (cases "j = i") (auto simp: threads_inv_def)
  moreover have "holder_after m None (th_log U) = th_holder U m \<and> serialized m None (th_log U)" for m
    using logged [of m] inv by (simp add: log serialized_append threads_inv_def)
  ultimately show ?thesis using scripts by (simp add: threads_inv_def)
qed

lemma run_step_inv:
  assumes inv: "threads_inv T" and step: "run_step T U"
  shows "threads_inv U"
  using step
proof cases
  case (acquire i m s)
  then obtain h where h: "held T i h" "ends_within (th_scripts T ! i) operation_bound"
    using inv by (auto simp: threads_inv_def)
  then have "h = None" "disciplined s (Some m)" "ends_within s operation_bound"
    using acquire by (auto simp: held_def elim: ends_within_mono)
  with acquire h show ?thesis
    by (intro threads_inv_update [OF inv, of i U s "Acquired m" "Some m"]) (auto simp: held_def)
next
  case (release i m s)
  then obtain h where h: "held T i h" "ends_within (th_scripts T ! i) operation_bound"
    using inv by (auto simp: threads_inv_def)
  then have "h = Some m" "disciplined s None" "ends_within s operation_bound"
    using release by (auto simp: held_def elim: ends_within_mono)
  moreover have "th_holder T m \<noteq> Some j" if "j \<noteq> i" for j
    using h(1) \<open>h = Some m\<close> that unfolding held_def by (metis option.inject)
  ultimately show ?thesis
    using release h
    by (intro threads_inv_update [OF inv, of i U s "Released m" None]) (auto simp: held_def)
next
  case (invoke i k c n s)
  then obtain h where h: "held T i h" "ends_within (th_scripts T ! i) operation_bound"
    using inv by (auto simp: threads_inv_def)
  then have "under h c" "disciplined s h" "ends_within s (operation_bound - 1)"
    using invoke by (auto simp: held_def)
  moreover from this(3) have "ends_within s operation_bound" by (rule ends_within_mono) simp
  moreover from \<open>under h c\<close> have "h = Some m" if "gate_of c = Some m" for m
    using that by (simp add: under_def)
  ultimately show ?thesis
    using invoke h by (intro threads_inv_update [OF inv, of i U s "Called c" h]) (auto simp: held_def)
qed

lemma start_inv:
  assumes inv: "threads_inv T" and "wrapper_operation lib s"
  shows "threads_inv (T\<lparr>th_scripts := th_scripts T @ [s]\<rparr>)"
proof -
  let ?n = "length (th_scripts T)"
  have new: "disciplined s None" "ends_within s operation_bound"
    using wrapper_operation_proper [OF assms(2)] by (simp_all add: proper_def)
  have none: "th_holder T m \<noteq> Some ?n" for m using inv by (auto simp: threads_inv_def)
  have "\<exists>h. held (T\<lparr>th_scripts := th_scripts T @ [s]\<rparr>) i h" if "i < Suc ?n" for i
  proof (cases "i = ?n")
    case True
    with new none show ?thesis by (intro exI [of _ None]) (simp add: held_def)
  next
    case False
    with that have "i < ?n" by simp
    with inv show ?thesis by (auto simp: held_def threads_inv_def nth_append)
  qed
  with inv new show ?thesis by (auto simp: threads_inv_def nth_append less_Suc_eq)
qed

lemma threads_start_inv: "threads_inv (threads_start n)"
  by (simp add: threads_inv_def threads_start_def)

interpretation threads: step_invariant "\<lambda>T. \<exists>n. T = threads_start n" "thread_step lib" threads_inv
  for lib
  by unfold_locales (auto elim!: thread_step.cases intro: threads_start_inv run_step_inv start_inv)

section \<open>Every thread goes on\<close>

lemma disciplined_unique: "disciplined s h \<Longrightarrow> disciplined s h' \<Longrightarrow> h = h'"
proof (induction s arbitrary: h h')
  case (Invoke k)
  obtain c n s where k: "k undefined = (c, n, s)" by (metis surj_pair)
  from Invoke.IH [OF k] Invoke.prems k show ?case by simp
qed auto

definition all_finished :: "'n threads \<Rightarrow> bool" where
  "all_finished T \<longleftrightarrow> (\<forall>s\<in>set (th_scripts T). \<exists>r. s = Finished r)"

text \<open>A thread that waits holds nothing, so the holder of a mutex can always step.\<close>

lemma holder_steps:
  assumes inv: "threads_inv T" and "th_holder T m = Some i"
  shows "\<exists>U. run_step T U"
proof -
  have i: "i < length (th_scripts T)" using assms by (auto simp: threads_inv_def)
  with inv obtain h where h: "held T i h" by (auto simp: threads_inv_def)
  with assms(2) have "disciplined (th_scripts T ! i) (Some m)" by (auto simp: held_def)
  then show ?thesis
  proof (cases "th_scripts T ! i")
    case (Invoke k)
    obtain c n s where "k (th_state T) = (c, n, s)" by (metis surj_pair)
    from run_step.invoke [OF i Invoke this] show ?thesis by blast
  qed (auto intro: run_step.release [OF i])
qed

lemma not_finished_steps:
  assumes inv: "threads_inv T" and "\<not> all_finished T"
  shows "\<exists>U. run_step T U"
proof -
  obtain i where i: "i < length (th_scripts T)" and unfinished: "\<nexists>r. th_scripts T ! i = Finished r"
    using assms(2) by (auto simp: all_finished_def in_set_conv_nth)
  show ?thesis
  proof (cases "th_scripts T ! i")
    case (Acquire m s)
    show ?thesis
    proof (cases "th_holder T m")
      case None
      from run_step.acquire [OF i Acquire this] show ?thesis by blast
    next
      case (Some j)
      with inv show ?thesis by (rule holder_steps)
    qed
  next
    case (Invoke k)
    obtain c n s where "k (th_state T) = (c, n, s)" by (metis surj_pair)
    from run_step.invoke [OF i Invoke this] show ?thesis by blast
  qed (use unfinished in \<open>auto intro: run_step.release [OF i]\<close>)
qed

text \<open>What the threads may still do, at most.\<close>

definition remaining :: "'n threads \<Rightarrow> nat list \<Rightarrow> bool" where
  "remaining T ns \<longleftrightarrow> list_all2 ends_within (th_scripts T) ns"

lemma remaining_start: "threads_inv T \<Longrightarrow> remaining T (replicate (length (th_scripts T)) operation_bound)"
  by (auto simp: remaining_def list_all2_conv_all_nth threads_inv_def)

lemma run_step_moves:
  assumes "run_step T U"
  shows "\<exists>i s. i < length (th_scripts T) \<and> th_scripts U = (th_scripts T)[i := s]
    \<and> (\<forall>n. ends_within (th_scripts T ! i) n \<longrightarrow> 0 < n \<and> ends_within s (n - 1))"
  using assms by cases (auto intro!: exI)

lemma run_step_remaining:
  assumes "run_step T U" and "remaining T ns"
  shows "\<exists>ms. remaining U ms \<and> sum_list ns = Suc (sum_list ms)"
proof -
  obtain i s where i: "i < length (th_scripts T)" and U: "th_scripts U = (th_scripts T)[i := s]"
    and down: "\<And>n. ends_within (th_scripts T ! i) n \<Longrightarrow> 0 < n \<and> ends_within s (n - 1)"
    using run_step_moves [OF assms(1)] by blast
  have len: "length ns = length (th_scripts T)" and "ends_within (th_scripts T ! i) (ns ! i)"
    using assms(2) i by (simp_all add: remaining_def list_all2_conv_all_nth)
  with down have n: "0 < ns ! i" "ends_within s (ns ! i - 1)" by blast+
  have "remaining U (ns[i := ns ! i - 1])"
    using assms(2) n(2) unfolding remaining_def U by (rule list_all2_update_cong)
  moreover have "sum_list ns = Suc (sum_list (ns[i := ns ! i - 1]))"
    using n(1) i len elem_le_sum_list [of i ns] by (simp add: sum_list_update)
  ultimately show ?thesis by blast
qed

lemma run_steps_bounded: "(run_step ^^ k) T U \<Longrightarrow> remaining T ns \<Longrightarrow> k \<le> sum_list ns"
proof (induction k arbitrary: T ns)
  case (Suc k)
  then obtain V where "run_step T V" "(run_step ^^ k) V U" by (metis relpowp_Suc_D2)
  with Suc show ?case using run_step_remaining by fastforce
qed simp

section \<open>Running threads\<close>

definition turn :: "'n threads \<Rightarrow> nat \<Rightarrow> 'n threads option" where
  "turn T i =
     (if i < length (th_scripts T) then
        (case th_scripts T ! i of
           Finished r \<Rightarrow> None
         | Acquire m s \<Rightarrow>
             (case th_holder T m of
                Some j \<Rightarrow> None
              | None \<Rightarrow> Some (T\<lparr>th_log := th_log T @ [(i, Acquired m)],
                  th_holder := (th_holder T)(m := Some i), th_scripts := (th_scripts T)[i := s]\<rparr>))
         | Release m s \<Rightarrow> Some (T\<lparr>th_log := th_log T @ [(i, Released m)],
             th_holder := (th_holder T)(m := None), th_scripts := (th_scripts T)[i := s]\<rparr>)
         | Invoke k \<Rightarrow>
             (case k (th_state T) of
                (c, n, s) \<Rightarrow> Some (T\<lparr>th_state := n, th_log := th_log T @ [(i, Called c)],
                  th_scripts := (th_scripts T)[i := s]\<rparr>)))
      else None)"

lemma turn_run_step: "turn T i = Some U \<Longrightarrow> run_step T U"
  unfolding turn_def
  by (auto split: if_splits script.splits option.splits prod.splits
      intro: run_step.acquire run_step.release run_step.invoke)

fun turns :: "'n threads \<Rightarrow> nat list \<Rightarrow> 'n threads option" where
  "turns T [] = Some T"
| "turns T (i # is) = (case turn T i of None \<Rightarrow> None | Some U \<Rightarrow> turns U is)"

lemma turns_run: "turns T is = Some U \<Longrightarrow> (run_step ^^ length is) T U"
proof (induction "is" arbitrary: T)
  case (Cons i js)
  then obtain V where "turn T i = Some V" "turns V js = Some U" by (auto split: option.splits)
  with Cons.IH have "run_step T V" "(run_step ^^ length js) V U" by (auto intro: turn_run_step)
  then have "(run_step ^^ Suc (length js)) T U" by (rule relpowp_Suc_I2)
  then show ?case by simp
qed simp

lemma run_steps_thread: "(run_step ^^ k) T U \<Longrightarrow> (thread_step lib)\<^sup>*\<^sup>* T U"
  by (rule rtranclp_mono [THEN predicate2D, OF _ relpowp_imp_rtranclp]) (auto intro: thread_step.run)

definition starting :: "'n threads \<Rightarrow> ('n, unit) script list \<Rightarrow> 'n threads" where
  "starting T ss = T\<lparr>th_scripts := th_scripts T @ ss\<rparr>"

lemma starting_steps: "list_all (wrapper_operation lib) ss \<Longrightarrow> (thread_step lib)\<^sup>*\<^sup>* T (starting T ss)"
proof (induction ss arbitrary: T)
  case (Cons s ss)
  then have "thread_step lib T (starting T [s])"
    unfolding starting_def by (auto intro: thread_step.start)
  moreover have "(thread_step lib)\<^sup>*\<^sup>* (starting T [s]) (starting (starting T [s]) ss)"
    using Cons by simp
  moreover have "starting (starting T [s]) ss = starting T (s # ss)" by (simp add: starting_def)
  ultimately show ?case by (metis converse_rtranclp_into_rtranclp)
qed (simp add: starting_def)

lemma turns_reachable:
  assumes "list_all (wrapper_operation lib) ss" and "turns (starting (threads_start n) ss) is = Some U"
  shows "(thread_step lib)\<^sup>*\<^sup>* (threads_start n) U"
  using starting_steps [OF assms(1)] run_steps_thread [OF turns_run [OF assms(2)]] by (rule rtranclp_trans)

section \<open>The properties\<close>

text \<open>
  C9: Whatever operations any number of threads run, and however their native calls interleave, each
  mutex serializes the calls that need it: a stream is created, asked, decoded or read only by the
  thread that acquired the mutex of its recognizer last and still holds it, text is synthesized only
  by the thread that holds the mutex of the synthesizer, and a mutex is acquired only when it is free
  and released only by its holder.
\<close>

theorem wrapper_calls_serialized:
  assumes "(thread_step lib)\<^sup>*\<^sup>* (threads_start n) T"
  shows "serialized m None (th_log T)"
proof -
  have "threads_inv T" by (rule threads.reachable_inv [OF _ assms]) blast
  then show ?thesis by (simp add: threads_inv_def)
qed

definition two_creators :: "(nat, unit) script list" where
  "two_creators = replicate 2 (forget (create_stream_script silent_lib 7))"

definition two_created :: "(nat \<times> event) list" where
  "two_created =
     [(0, Acquired (OfRecognizer 7)), (0, Called (CreatedStream 7 1)), (0, Released (OfRecognizer 7)),
      (1, Acquired (OfRecognizer 7)), (1, Called (CreatedStream 7 2)), (1, Released (OfRecognizer 7))]"

lemma two_creators_operations: "list_all (wrapper_operation silent_lib) two_creators"
  by (simp add: two_creators_def numeral_2_eq_2 wrapper_operation.intros)

lemmas script_defs = create_stream_script_def text_script_def accept_script_def guarded_def
  then_script_def call_script_def call_unit_def forget_def mutex_ptr_def

lemma two_creators_run:
  "\<exists>T. turns (starting (threads_start 0) two_creators) [0, 0, 0, 1, 1, 1] = Some T
    \<and> th_log T = two_created \<and> all_finished T"
  by (simp add: two_creators_def two_created_def starting_def threads_start_def script_defs turn_def
      all_finished_def silent_lib_def numeral_2_eq_2)

theorem wrapper_calls_serialized_witness:
  "serialized (OfRecognizer 7) None two_created"
proof -
  obtain T where T: "turns (starting (threads_start 0) two_creators) [0, 0, 0, 1, 1, 1] = Some T"
    "th_log T = two_created" using two_creators_run by blast
  from wrapper_calls_serialized [OF turns_reachable [OF two_creators_operations T(1)]] T(2)
  show ?thesis by simp
qed

text \<open>
  C10: The mutexes never deadlock and every operation ends: from every reachable state the threads
  take at most \<open>operation_bound\<close> steps each, and they stop only when every operation has returned.
\<close>

theorem wrapper_threads_finish:
  assumes "(thread_step lib)\<^sup>*\<^sup>* (threads_start n) T" and "(run_step ^^ k) T U"
  shows "k \<le> length (th_scripts T) * operation_bound \<and> ((\<nexists>V. run_step U V) \<longleftrightarrow> all_finished U)"
proof
  have inv: "threads_inv T" by (rule threads.reachable_inv [OF _ assms(1)]) blast
  from run_steps_bounded [OF assms(2) remaining_start [OF inv]]
  show "k \<le> length (th_scripts T) * operation_bound" by (simp add: sum_list_replicate)
  have "threads_inv U" by (rule threads.steps_inv [OF run_steps_thread [OF assms(2)] inv])
  then have "\<not> all_finished U \<Longrightarrow> \<exists>V. run_step U V" by (rule not_finished_steps)
  moreover have "\<not> run_step U V" if "all_finished U" for V
  proof
    have finished: "\<exists>r. th_scripts U ! i = Finished r" if "i < length (th_scripts U)" for i
      using \<open>all_finished U\<close> that by (simp add: all_finished_def)
    assume "run_step U V"
    then show False by cases (auto dest: finished)
  qed
  ultimately show "(\<nexists>V. run_step U V) \<longleftrightarrow> all_finished U" by blast
qed

theorem wrapper_threads_finish_witness:
  "\<exists>T. (run_step ^^ 6) (starting (threads_start 0) two_creators) T \<and> (\<nexists>V. run_step T V)"
proof -
  let ?S = "starting (threads_start 0) two_creators"
  obtain T where T: "turns ?S [0, 0, 0, 1, 1, 1] = Some T" "all_finished T" using two_creators_run by blast
  have "length [0 :: nat, 0, 0, 1, 1, 1] = 6" by simp
  with turns_run [OF T(1)] have "(run_step ^^ 6) ?S T" by (simp only:)
  moreover from wrapper_threads_finish [OF starting_steps [OF two_creators_operations] this] T(2)
  have "\<nexists>V. run_step T V" by blast
  ultimately show ?thesis by blast
qed

text \<open>
  An operation whose steps are not interleaved with others is the operation of the wrapper as one
  action: it returns the same result, leaves the library in the same state and makes the same calls.
\<close>

theorem scripts_refine_operations:
  "run_script (create_nemo_recognizer_script lib a b k) = create_nemo_recognizer lib a b k
   \<and> run_script (create_vits_tts_script lib a b c k) = create_vits_tts lib a b c k
   \<and> run_script (create_stream_script lib r) = create_stream lib r
   \<and> run_script (accept_script lib s xs) = stream_accept lib s xs
   \<and> run_script (text_script lib s) = stream_text lib s
   \<and> (\<lambda>w. case run_script (finish_script lib s) w of (r, w) \<Rightarrow> (r, s\<lparr>os_finished := True\<rparr>, w))
       = (\<lambda>w. stream_finish lib (s, w))
   \<and> run_script (generate_script lib t str speed n) = generate lib t str speed n
   \<and> bind_st (run_script (drop_stream_script lib s)) (\<lambda>_. release_recognizer lib h (os_recognizer s))
       = drop_stream lib h s
   \<and> (if referenced h r then ret () else run_script (drop_recognizer_script lib r))
       = release_recognizer lib h r
   \<and> run_script (drop_tts_script lib t) = invoke_unit (nl_destroy_tts lib t) (DestroyedTts t)"
  by (simp add: run_create run_operations run_text run_finish drop_stream_script_def
      drop_recognizer_script_def drop_tts_script_def drop_stream_def release_recognizer_def run_call
      del: run_script.simps)

text \<open>
  Not every call is serialized: while one thread holds the mutex of a recognizer to read the text
  of a stream, another may hand samples to a second stream of the same recognizer.
\<close>

theorem accept_not_serialized:
  fixes s s' :: online_stream
  assumes "\<not> nl_poisoned lib (os_recognizer s)" and "\<not> os_finished s'" and "xs \<noteq> []"
    and "int (length xs) \<le> i32_max" and "list_all is_finite xs"
  shows "\<exists>T. (thread_step lib)\<^sup>*\<^sup>* (threads_start n) T
    \<and> th_holder T (OfRecognizer (os_recognizer s)) = Some 0
    \<and> th_log T = [(0, Acquired (OfRecognizer (os_recognizer s))),
        (1, Called (AcceptedWaveform (os_pointer s') 16000 xs (int (length xs))))]"
proof -
  let ?ss = "[forget (text_script lib s), forget (accept_script lib s' xs)]"
  have ops: "list_all (wrapper_operation lib) ?ss" by (simp add: wrapper_operation.intros)
  have "\<not> (os_finished s' \<or> xs = [] \<or> int (length xs) > i32_max \<or> list_ex (\<lambda>x. \<not> is_finite x) xs)"
    using assms by (auto simp: list_ex_iff list_all_iff)
  then have "\<exists>T. turns (starting (threads_start n) ?ss) [0, 1] = Some T
    \<and> th_holder T (OfRecognizer (os_recognizer s)) = Some 0
    \<and> th_log T = [(0, Acquired (OfRecognizer (os_recognizer s))),
        (1, Called (AcceptedWaveform (os_pointer s') 16000 xs (int (length xs))))]"
    using assms(1) by (simp add: starting_def threads_start_def script_defs turn_def)
  with turns_reachable [OF ops] show ?thesis by blast
qed

theorem accept_not_serialized_witness:
  "\<exists>T. (thread_step silent_lib)\<^sup>*\<^sup>* (threads_start 3) T \<and> th_holder T (OfRecognizer 1) = Some 0
    \<and> th_log T = [(0, Acquired (OfRecognizer 1)), (1, Called (AcceptedWaveform 3 16000 [Fin 0] 1))]"
  using accept_not_serialized [of silent_lib "\<lparr>os_recognizer = 1, os_pointer = 2, os_finished = False\<rparr>"
      "\<lparr>os_recognizer = 1, os_pointer = 3, os_finished = False\<rparr>" "[Fin 0]" 3]
  by (simp add: silent_lib_def i32_max_def)

end
