(* ===== verification/Engines.thy ===== *)
theory Engines
  imports Artifact_Status Sherpa_Protocol Stt
begin

text \<open>
  \<open>VoiceEngines::load\<close> and \<open>inspect\<close> of
  \<open>crates/impossible-voice-server/src/engines.rs\<close>: from a verified profile to loaded
  engines, and the read-only inspection that reports how far loading would come. Both work on the disk
  of the artifact store and the native library.
\<close>

section \<open>Loading\<close>

datatype engine_load_error = EngineLoadError string

text \<open>\<open>ee_client\<close> says whether the HTTP client inside \<open>ArtifactStore::new\<close> can be built.\<close>

record 'n engine_env =
  ee_artifacts :: artifact_env
  ee_native :: "'n native_lib"
  ee_client :: bool

type_synonym ('n, 'a) engine_action = "(disk \<times> 'n native, engine_load_error, 'a) action"

definition with_disk :: "(artifact_error \<Rightarrow> engine_load_error) \<Rightarrow> (disk, artifact_error, 'a) action \<Rightarrow>
    ('n, 'a) engine_action"
where
  "with_disk e m s = (case s of (d, w) \<Rightarrow> case m d of (r, d) \<Rightarrow> (map_err e r, d, w))"

definition with_native :: "(native_error \<Rightarrow> engine_load_error) \<Rightarrow> ('n, 'a) native_action \<Rightarrow>
    ('n, 'a) engine_action"
where
  "with_native e m s = (case s of (d, w) \<Rightarrow> case m w of (r, w) \<Rightarrow> (map_err e r, d, w))"

text \<open>The values held are dropped when the action fails.\<close>

definition drop_on_error :: "('n native \<Rightarrow> 'n native) \<Rightarrow> ('n, 'a) engine_action \<Rightarrow> ('n, 'a) engine_action" where
  "drop_on_error f m s = (case m s of (Inl e, d, w) \<Rightarrow> (Inl e, d, f w) | x \<Rightarrow> x)"

text \<open>A path as the text given to the native library.\<close>

definition path_string :: "path \<Rightarrow> string" where
  "path_string p = concat (map (\<lambda>n. CHR ''/'' # n) p)"

definition store_new :: "'n engine_env \<Rightarrow> engine_load_error + unit" where
  "store_new env =
     (if ee_client env then Inr ()
      else Inl (EngineLoadError ''artifact inspection initialization failed''))"

definition destroy_recognizer :: "'n native_lib \<Rightarrow> ptr \<Rightarrow> 'n native \<Rightarrow> 'n native" where
  "destroy_recognizer lib r w = snd (invoke_unit (nl_destroy_online lib r) (DestroyedOnline r) w)"

definition destroy_synthesizer :: "'n native_lib \<Rightarrow> ptr \<Rightarrow> 'n native \<Rightarrow> 'n native" where
  "destroy_synthesizer lib t w = snd (invoke_unit (nl_destroy_tts lib t) (DestroyedTts t) w)"

definition load_recognizer :: "'n native_lib \<Rightarrow> verified_profile \<Rightarrow> ('n, ptr) native_action" where
  "load_recognizer lib profile =
     create_nemo_recognizer lib (path_string (vp_stt_model profile)) (path_string (vp_stt_tokens profile)) 2"

definition load_synthesizer :: "'n native_lib \<Rightarrow> verified_profile \<Rightarrow> ('n, ptr) native_action" where
  "load_synthesizer lib profile =
     create_vits_tts lib (path_string (vp_tts_model profile)) (path_string (vp_tts_tokens profile))
       (path_string (vp_tts_data_dir profile)) 2"

record voice_engines =
  ve_recognizer :: ptr
  ve_stt :: stt_engine
  ve_stt_limiter :: limiter
  ve_synthesizer :: ptr
  ve_tts :: tts_limits
  ve_tts_limiter :: limiter

definition engines_load ::
  "'n engine_env \<Rightarrow> path \<Rightarrow> nat \<Rightarrow> ('n, voice_engines) engine_action"
where
  "engines_load env base max_concurrent =
     (let lib = ee_native env in
      if max_concurrent = 0 then fail (EngineLoadError ''engine concurrency is invalid'')
      else
        bind_st (lift_res (store_new env)) (\<lambda>_.
        bind_st (with_disk (\<lambda>_. EngineLoadError ''voice artifacts are not verified'')
          (verified_profile_of (ee_artifacts env) base)) (\<lambda>profile.
        bind_st (lift_res (map_err (\<lambda>_. EngineLoadError ''native voice runtime is not loadable'')
          (runtime_load lib (path_string (vp_runtime profile))))) (\<lambda>_.
        bind_st (with_native (\<lambda>_. EngineLoadError ''speech recognition model is not loadable'')
          (load_recognizer lib profile)) (\<lambda>recognizer.
        bind_st (drop_on_error (destroy_recognizer lib recognizer)
          (with_native (\<lambda>_. EngineLoadError ''speech synthesis model is not loadable'')
            (load_synthesizer lib profile))) (\<lambda>synthesizer.
        bind_st (drop_on_error (\<lambda>w. destroy_synthesizer lib synthesizer (destroy_recognizer lib recognizer w))
          (lift_res (map_err (\<lambda>_. EngineLoadError ''speech recognition policy is invalid'')
            (stt_with_backend (stt_limits_default\<lparr>sl_max_concurrent := max_concurrent\<rparr>) vad_config_default))))
          (\<lambda>(stt, stt_limiter).
        bind_st (drop_on_error (\<lambda>w. destroy_recognizer lib recognizer (destroy_synthesizer lib synthesizer w))
          (lift_res (map_err (\<lambda>_. EngineLoadError ''speech synthesis policy is invalid'')
            (tts_with_backend (tts_limits_default\<lparr>tl_max_concurrent := max_concurrent\<rparr>)))))
          (\<lambda>(tts, tts_limiter).
          ret \<lparr>ve_recognizer = recognizer, ve_stt = stt, ve_stt_limiter = stt_limiter,
               ve_synthesizer = synthesizer, ve_tts = tts, ve_tts_limiter = tts_limiter\<rparr>))))))))"

section \<open>Inspection\<close>

record engine_inspection =
  ei_status :: string
  ei_artifacts :: setup_report
  ei_native_runtime :: string
  ei_speech_to_text :: string
  ei_text_to_speech :: string
  ei_downloads_attempted :: bool

definition ei_is_ready :: "engine_inspection \<Rightarrow> bool" where
  "ei_is_ready i \<longleftrightarrow> ei_status i = ''ready''"

definition not_loadable :: "setup_report \<Rightarrow> string \<Rightarrow> string \<Rightarrow> string \<Rightarrow> engine_inspection" where
  "not_loadable artifacts native_runtime speech_to_text text_to_speech =
     \<lparr>ei_status = ''not-ready'', ei_artifacts = artifacts, ei_native_runtime = native_runtime,
      ei_speech_to_text = speech_to_text, ei_text_to_speech = text_to_speech,
      ei_downloads_attempted = False\<rparr>"

text \<open>The outcome of an action as a value; a native object made for the test is dropped at once.\<close>

definition attempt :: "('s, 'e, 'a) action \<Rightarrow> ('s, 'f, 'e + 'a) action" where
  "attempt m s = (case m s of (r, s) \<Rightarrow> (Inr r, s))"


definition recognizer_loads :: "'n native_lib \<Rightarrow> verified_profile \<Rightarrow> ('n, bool) engine_action" where
  "recognizer_loads lib profile s =
     (case s of (d, w) \<Rightarrow> case load_recognizer lib profile w of
        (Inl e, w) \<Rightarrow> (Inr False, d, w)
      | (Inr r, w) \<Rightarrow> (Inr True, d, destroy_recognizer lib r w))"

definition synthesizer_loads :: "'n native_lib \<Rightarrow> verified_profile \<Rightarrow> ('n, bool) engine_action" where
  "synthesizer_loads lib profile s =
     (case s of (d, w) \<Rightarrow> case load_synthesizer lib profile w of
        (Inl e, w) \<Rightarrow> (Inr False, d, w)
      | (Inr t, w) \<Rightarrow> (Inr True, d, destroy_synthesizer lib t w))"

definition inspect :: "'n engine_env \<Rightarrow> path \<Rightarrow> ('n, engine_inspection) engine_action" where
  "inspect env base =
     (let lib = ee_native env in
      bind_st (lift_res (store_new env)) (\<lambda>_.
      bind_st (with_disk (\<lambda>_. EngineLoadError ''artifact status is unavailable'')
        (store_status (ee_artifacts env) base)) (\<lambda>artifacts.
        if rp_status artifacts \<noteq> ''ready''
        then ret (not_loadable artifacts ''not-checked'' ''not-checked'' ''not-checked'')
        else
          bind_st (attempt (with_disk (\<lambda>_. EngineLoadError [])
            (verified_profile_of (ee_artifacts env) base))) (\<lambda>profile.
          case profile of
            Inl _ \<Rightarrow> ret (not_loadable artifacts ''not-loadable'' ''not-checked'' ''not-checked'')
          | Inr profile \<Rightarrow>
              if \<not> is_ok (runtime_load lib (path_string (vp_runtime profile)))
              then ret (not_loadable artifacts ''not-loadable'' ''not-checked'' ''not-checked'')
              else
                bind_st (recognizer_loads lib profile) (\<lambda>recognizer.
                  if \<not> recognizer
                  then ret (not_loadable artifacts ''loadable'' ''not-loadable'' ''not-checked'')
                  else
                    bind_st (synthesizer_loads lib profile) (\<lambda>synthesizer.
                      if \<not> synthesizer
                      then ret (not_loadable artifacts ''loadable'' ''loadable'' ''not-loadable'')
                      else
                        ret \<lparr>ei_status = ''ready'', ei_artifacts = artifacts,
                             ei_native_runtime = ''loadable'', ei_speech_to_text = ''loadable'',
                             ei_text_to_speech = ''loadable'', ei_downloads_attempted = False\<rparr>))))))"

section \<open>Loading and inspection agree\<close>

text \<open>
  What both demand of the disk and the library: a verified profile, a loadable runtime, a recognizer,
  and a synthesizer. They differ in one thing: \<open>load\<close> makes the synthesizer beside the recognizer,
  \<open>inspect\<close> after it has destroyed the one it made for its test.
\<close>

definition engines_make :: "'n engine_env \<Rightarrow> path \<Rightarrow> disk \<Rightarrow> 'n native \<Rightarrow> bool \<Rightarrow> bool" where
  "engines_make env base d w beside \<longleftrightarrow>
     (let lib = ee_native env in
      case verified_profile_of (ee_artifacts env) base d of
        (Inl e, _) \<Rightarrow> False
      | (Inr p, _) \<Rightarrow>
          ee_client env \<and> is_ok (runtime_load lib (path_string (vp_runtime p)))
          \<and> (case load_recognizer lib p w of
               (Inl e, _) \<Rightarrow> False
             | (Inr r, w1) \<Rightarrow>
                 is_ok (fst (load_synthesizer lib p (if beside then w1 else destroy_recognizer lib r w1)))))"

lemma policies_accepted:
  assumes "0 < n"
  shows "\<exists>stt l. stt_with_backend (stt_limits_default\<lparr>sl_max_concurrent := n\<rparr>) vad_config_default = Inr (stt, l)"
    and "\<exists>tts l. tts_with_backend (tts_limits_default\<lparr>tl_max_concurrent := n\<rparr>) = Inr (tts, l)"
  using assms vad_default_accepted
  by (simp_all add: stt_with_backend_def stt_limits_default_def engine_sample_rate_def tts_with_backend_def
      tts_limits_default_def)

lemma load_verified:
  assumes "verified_profile_of (ee_artifacts env) base d = (Inr p, d)" and "0 < n"
  shows "(\<exists>v s'. engines_load env base n (d, w) = (Inr v, s')) \<longleftrightarrow> engines_make env base d w True"
proof -
  let ?lib = "ee_native env"
  obtain stt l tts m where ok: "stt_with_backend (stt_limits_default\<lparr>sl_max_concurrent := n\<rparr>) vad_config_default = Inr (stt, l)"
    "tts_with_backend (tts_limits_default\<lparr>tl_max_concurrent := n\<rparr>) = Inr (tts, m)"
    using policies_accepted [OF assms(2)] by blast
  obtain r w1 where r: "load_recognizer ?lib p w = (r, w1)" by fastforce
  obtain t w2 where t: "load_synthesizer ?lib p w1 = (t, w2)" by fastforce
  show ?thesis
    using assms ok r t
    by (cases "ee_client env"; cases "runtime_load ?lib (path_string (vp_runtime p))"; cases r; cases t)
      (simp_all add: engines_load_def engines_make_def store_new_def with_disk_def with_native_def
        drop_on_error_def bind_st_def Let_def)
qed

lemma load_unverified:
  assumes "\<nexists>p. verified_profile_of (ee_artifacts env) base d = (Inr p, d)" and "tree (dk_entries d)" and "dk_faults d = []"
  shows "\<nexists>v s'. engines_load env base n (d, w) = (Inr v, s')"
proof -
  obtain r d' where v: "verified_profile_of (ee_artifacts env) base d = (r, d')" by fastforce
  then have "d' = d" using steadyD [OF steady_inspection(2) v assms(3)] by simp
  with v assms(1) obtain e where "verified_profile_of (ee_artifacts env) base d = (Inl e, d)" by (cases r) auto
  then show ?thesis by (simp add: engines_load_def with_disk_def store_new_def bind_st_def Let_def)
qed

lemma inspect_verified:
  assumes "store_status (ee_artifacts env) base d = (Inr report, d)" and "rp_status report = ''ready''"
    and "verified_profile_of (ee_artifacts env) base d = (Inr p, d)"
  shows "(\<exists>i s'. inspect env base (d, w) = (Inr i, s') \<and> ei_is_ready i) \<longleftrightarrow> engines_make env base d w False"
proof -
  let ?lib = "ee_native env"
  obtain r w1 where r: "load_recognizer ?lib p w = (r, w1)" by fastforce
  show ?thesis
  proof (cases r)
    case (Inl e)
    with assms r show ?thesis
      by (cases "ee_client env"; cases "runtime_load ?lib (path_string (vp_runtime p))")
        (simp_all add: inspect_def engines_make_def store_new_def with_disk_def attempt_def recognizer_loads_def
          not_loadable_def ei_is_ready_def bind_st_def Let_def)
  next
    case (Inr rec)
    obtain t w2 where t: "load_synthesizer ?lib p (destroy_recognizer ?lib rec w1) = (t, w2)" by fastforce
    with assms r Inr show ?thesis
      by (cases "ee_client env"; cases "runtime_load ?lib (path_string (vp_runtime p))"; cases t)
        (simp_all add: inspect_def engines_make_def store_new_def with_disk_def attempt_def recognizer_loads_def
          synthesizer_loads_def not_loadable_def ei_is_ready_def bind_st_def Let_def)
  qed
qed

lemma inspect_unready:
  assumes "\<nexists>report. store_status (ee_artifacts env) base d = (Inr report, d) \<and> rp_status report = ''ready''"
    and "dk_faults d = []"
  shows "\<nexists>i s'. inspect env base (d, w) = (Inr i, s') \<and> ei_is_ready i"
proof -
  obtain r d' where v: "store_status (ee_artifacts env) base d = (r, d')" by fastforce
  then have "d' = d" using steadyD [OF steady_inspection(1) v assms(2)] by simp
  with v assms(1) show ?thesis
    by (cases r) (auto simp: inspect_def with_disk_def store_new_def bind_st_def Let_def not_loadable_def ei_is_ready_def)
qed

text \<open>
  What loading and inspection report, on a disk that does not fail and whatever the library does.
\<close>

lemma load_and_inspect_iff:
  assumes "tree (dk_entries d)" and "dk_faults d = []"
  shows "0 < n \<Longrightarrow> (\<exists>v s'. engines_load env base n (d, w) = (Inr v, s')) \<longleftrightarrow> engines_make env base d w True"
    and "(\<exists>i s'. inspect env base (d, w) = (Inr i, s') \<and> ei_is_ready i) \<longleftrightarrow> engines_make env base d w False"
proof -
  note iff = ready_iff_verified [OF assms, of "ee_artifacts env" base]
  have none: "\<not> engines_make env base d w b" if "\<nexists>p. verified_profile_of (ee_artifacts env) base d = (Inr p, d)" for b
  proof -
    obtain r d' where v: "verified_profile_of (ee_artifacts env) base d = (r, d')" by fastforce
    then have "d' = d" using steadyD [OF steady_inspection(2) v assms(2)] by simp
    with v that show ?thesis by (cases r) (simp_all add: engines_make_def)
  qed
  show "0 < n \<Longrightarrow> (\<exists>v s'. engines_load env base n (d, w) = (Inr v, s')) \<longleftrightarrow> engines_make env base d w True"
  proof (cases "\<exists>p. verified_profile_of (ee_artifacts env) base d = (Inr p, d)")
    case True
    assume "0 < n"
    from True obtain p where "verified_profile_of (ee_artifacts env) base d = (Inr p, d)" ..
    from load_verified [OF this \<open>0 < n\<close>, of w] show ?thesis .
  next
    case False
    from load_unverified [OF False assms, of n w] none [OF False, of True] show ?thesis by simp
  qed
  show "(\<exists>i s'. inspect env base (d, w) = (Inr i, s') \<and> ei_is_ready i) \<longleftrightarrow> engines_make env base d w False"
  proof (cases "\<exists>p. verified_profile_of (ee_artifacts env) base d = (Inr p, d)")
    case True
    then obtain p where p: "verified_profile_of (ee_artifacts env) base d = (Inr p, d)" ..
    with iff obtain report where "store_status (ee_artifacts env) base d = (Inr report, d)" "rp_status report = ''ready''"
      by blast
    from inspect_verified [OF this p, of w] show ?thesis .
  next
    case False
    with iff have "\<nexists>report. store_status (ee_artifacts env) base d = (Inr report, d) \<and> rp_status report = ''ready''"
      by blast
    from inspect_unready [OF this assms(2), of w] none [OF False, of False] show ?thesis by simp
  qed
qed

section \<open>The demonstration store loads\<close>

definition demo_engine_env :: "nat engine_env" where
  "demo_engine_env = \<lparr>ee_artifacts = demo_env, ee_native = silent_lib, ee_client = True\<rparr>"

lemma demo_verified_profile:
  "verified_profile_of demo_env [''b''] (st_disk demo_store)
     = (Inr \<lparr>vp_runtime = [''b'', ''objects'', ''r-0000000000000000''],
             vp_stt = [''b'', ''objects'', ''s-0000000000000000''],
             vp_tts = [''b'', ''objects'', ''t-0000000000000000'']\<rparr>, st_disk demo_store)"
proof -
  have "ar_kind (demo_spec n k) = k" for n k by (simp add: demo_spec_def)
  then show ?thesis
    by (simp add: verified_profile_of_def demo_profile verified_kind_path_def find_kind_def ok_or_def
        demo_names demo_verifies del: append.simps) (simp add: numeral_nat)
qed

lemma demo_native:
  fixes w :: "nat native"
  shows "is_ok (runtime_load silent_lib (path_string [''b'', ''objects'', ''r-0000000000000000'']))"
    and "vp_stt p = [''b'', ''objects'', ''s-0000000000000000''] \<Longrightarrow> is_ok (fst (load_recognizer silent_lib p w))"
    and "vp_tts p = [''b'', ''objects'', ''t-0000000000000000''] \<Longrightarrow> is_ok (fst (load_synthesizer silent_lib p w))"
proof -
  have "is_ok (runtime_load silent_lib root)" for root
    by (simp add: runtime_load_def api_load_def read_owned_string_def is_ok_def load_library_def
        load_symbol_def api_symbols_def dependency_names_def expected_version_def utf8_def silent_lib_def)
  then show "is_ok (runtime_load silent_lib (path_string [''b'', ''objects'', ''r-0000000000000000'']))" .
  show "is_ok (fst (load_recognizer silent_lib p w))" if "vp_stt p = [''b'', ''objects'', ''s-0000000000000000'']"
    using that
    by (simp add: load_recognizer_def vp_stt_model_def vp_stt_tokens_def path_string_def create_nemo_recognizer_def
        path_to_cstring_def utf8_def bind_st_def invoke_def is_ok_def silent_lib_def)
  show "is_ok (fst (load_synthesizer silent_lib p w))" if "vp_tts p = [''b'', ''objects'', ''t-0000000000000000'']"
    using that
    by (simp add: load_synthesizer_def vp_tts_model_def vp_tts_tokens_def vp_tts_data_dir_def path_string_def
        create_vits_tts_def path_to_cstring_def utf8_def bind_st_def invoke_def is_ok_def silent_lib_def)
qed

lemma demo_engines_load:
  "(\<exists>v s'. engines_load demo_engine_env [''b''] 4 (st_disk demo_store, \<lparr>nt_state = 0, nt_calls = []\<rparr>) = (Inr v, s'))
   \<and> (\<exists>i s'. inspect demo_engine_env [''b''] (st_disk demo_store, \<lparr>nt_state = 0, nt_calls = []\<rparr>) = (Inr i, s')
        \<and> ei_is_ready i)"
proof -
  have env: "ee_artifacts demo_engine_env = demo_env" "ee_native demo_engine_env = silent_lib" "ee_client demo_engine_env"
    by (simp_all add: demo_engine_env_def)
  have make: "engines_make demo_engine_env [''b''] (st_disk demo_store) w b" for w :: "nat native" and b
  proof -
    let ?p = "\<lparr>vp_runtime = [''b'', ''objects'', ''r-0000000000000000''],
             vp_stt = [''b'', ''objects'', ''s-0000000000000000''],
             vp_tts = [''b'', ''objects'', ''t-0000000000000000'']\<rparr>"
    obtain r w1 where r: "load_recognizer silent_lib ?p w = (Inr r, w1)"
      using demo_native(2) [of ?p w] by (cases "load_recognizer silent_lib ?p w") (auto simp: is_ok_iff)
    have "is_ok (fst (load_synthesizer silent_lib ?p (if b then w1 else destroy_recognizer silent_lib r w1)))"
      by (rule demo_native(3)) simp
    with r demo_native(1) show ?thesis by (simp add: engines_make_def env demo_verified_profile Let_def)
  qed
  have steady: "tree (dk_entries (st_disk demo_store))" "dk_faults (st_disk demo_store) = []"
    using demo_tree by (simp_all add: demo_store_def)
  show ?thesis
    using load_and_inspect_iff(1) [OF steady, of 4 demo_engine_env "[''b'']" "\<lparr>nt_state = 0, nt_calls = []\<rparr>"]
      load_and_inspect_iff(2) [OF steady, of demo_engine_env "[''b'']" "\<lparr>nt_state = 0, nt_calls = []\<rparr>"]
      make by simp
qed

end
