(* ===== verification/Native.thy ===== *)
theory Native
  imports Engines Grpc
begin

text \<open>
  The engines on the native library: \<open>NativeBackend\<close> and \<open>NativeStream\<close> of
  \<open>crates/impossible-voice-stt/src/lib.rs\<close>, \<open>NativeBackend\<close> of
  \<open>crates/impossible-voice-tts/src/lib.rs\<close>, and the backend that a loaded
  \<open>VoiceEngines\<close> is. The world of the engines is the clock with the cancellation, read by
  \<open>look\<close>, beside the native state and its record of calls. Proved: streaming and batch
  transcription hand the library the same samples, and with a library that cooperates a session ends
  with its transcript.
\<close>

section \<open>The native backends\<close>

text \<open>Every error of the wrapper becomes the one error of the engine.\<close>

definition on_native :: "'e \<Rightarrow> ('n, 'a) native_action \<Rightarrow> ('v \<times> 'n native, 'e, 'a) action" where
  "on_native e m x = (case x of (v, w) \<Rightarrow> case m w of (r, w) \<Rightarrow> (map_err (\<lambda>_. e) r, v, w))"

definition look_at :: "('v \<Rightarrow> (bool \<times> nat) \<times> 'v) \<Rightarrow> 'v \<times> 'n native \<Rightarrow> (bool \<times> nat) \<times> 'v \<times> 'n native" where
  "look_at look x = (case x of (v, w) \<Rightarrow> case look v of (seen, v) \<Rightarrow> (seen, v, w))"

definition native_stream :: "'n native_lib \<Rightarrow> ptr \<Rightarrow> ('v \<times> 'n native, stt_error, online_stream) action" where
  "native_stream lib r = on_native SttEngine (create_stream lib r)"

definition native_accept ::
  "'n native_lib \<Rightarrow> online_stream \<Rightarrow> f32 list \<Rightarrow> 'v \<times> 'n native \<Rightarrow>
    (stt_error + unit) \<times> online_stream \<times> 'v \<times> 'n native"
where
  "native_accept lib s xs x = (case on_native SttEngine (stream_accept lib s xs) x of (r, x) \<Rightarrow> (r, s, x))"

definition native_interim ::
  "'n native_lib \<Rightarrow> online_stream \<Rightarrow> ('v \<times> 'n native, stt_error, string) action"
where
  "native_interim lib s = on_native SttEngine (stream_text lib s)"

definition native_finish ::
  "'n native_lib \<Rightarrow> online_stream \<Rightarrow> 'v \<times> 'n native \<Rightarrow>
    (stt_error + string) \<times> online_stream \<times> 'v \<times> 'n native"
where
  "native_finish lib s x =
     (case x of (v, w) \<Rightarrow>
        case stream_finish lib (s, w) of (r, s, w) \<Rightarrow> (map_err (\<lambda>_. SttEngine) r, s, v, w))"

text \<open>
  The drop of \<open>OnlineStream\<close>; its clone of the recognizer is never the last, the backend
  has another.
\<close>

definition native_drop :: "'n native_lib \<Rightarrow> online_stream \<Rightarrow> 'v \<times> 'n native \<Rightarrow> 'v \<times> 'n native" where
  "native_drop lib s x =
     (case x of (v, w) \<Rightarrow>
        (v, snd (invoke_unit (nl_destroy_stream lib (os_pointer s)) (DestroyedStream (os_pointer s)) w)))"

definition native_stt_env ::
  "'n native_lib \<Rightarrow> ptr \<Rightarrow> ('v \<Rightarrow> (bool \<times> nat) \<times> 'v) \<Rightarrow> (online_stream, 'v \<times> 'n native) stt_env"
where
  "native_stt_env lib r look =
     \<lparr>env_check = look_at look, env_stream = native_stream lib r, env_accept = native_accept lib,
      env_interim = native_interim lib, env_finish = native_finish lib, env_drop = native_drop lib\<rparr>"

definition native_generate ::
  "'n native_lib \<Rightarrow> ptr \<Rightarrow> ustr \<Rightarrow> f32 \<Rightarrow> nat \<Rightarrow> ('v \<times> 'n native, tts_error, generated_audio) action"
where
  "native_generate lib t str speed max_samples = on_native TtsEngine (generate lib t str speed max_samples)"

definition native_tts_env ::
  "'n native_lib \<Rightarrow> ptr \<Rightarrow> ('v \<Rightarrow> (bool \<times> nat) \<times> 'v) \<Rightarrow> ('v \<times> 'n native) tts_env"
where
  "native_tts_env lib t look = \<lparr>tenv_check = look_at look, tenv_generate = native_generate lib t\<rparr>"

text \<open>What the transports see of loaded engines.\<close>

definition loaded_backend ::
  "'n native_lib \<Rightarrow> ('v \<Rightarrow> (bool \<times> nat) \<times> 'v) \<Rightarrow> voice_engines \<Rightarrow>
    ((online_stream, 'v \<times> 'n native) session, ('v \<times> 'n native) engines_state) voice_backend"
where
  "loaded_backend lib look e =
     engines_backend (native_stt_env lib (ve_recognizer e) look) (ve_stt e)
       (native_tts_env lib (ve_synthesizer e) look) (ve_tts e)"

definition loaded_state :: "voice_engines \<Rightarrow> 'v \<times> 'n native \<Rightarrow> ('v \<times> 'n native) engines_state" where
  "loaded_state e x = \<lparr>es_stt = ve_stt_limiter e, es_tts = ve_tts_limiter e, es_world = x\<rparr>"

section \<open>The samples that reach the library\<close>

fun accepted :: "native_call list \<Rightarrow> f32 list" where
  "accepted [] = []"
| "accepted (AcceptedWaveform p rate xs n # cs) = xs @ accepted cs"
| "accepted (c # cs) = accepted cs"

lemma accepted_append [simp]: "accepted (cs @ ds) = accepted cs @ accepted ds"
  by (induction cs rule: accepted.induct) simp_all

text \<open>Actions that hand over no samples.\<close>

definition quiet :: "('n, 'a) native_action \<Rightarrow> bool" where
  "quiet m \<longleftrightarrow> (\<forall>w. accepted (nt_calls (snd (m w))) = accepted (nt_calls w))"

named_theorems quieting \<open>actions that hand over no samples\<close>

lemma quietD: "quiet m \<Longrightarrow> m w = (r, w') \<Longrightarrow> accepted (nt_calls w') = accepted (nt_calls w)"
  by (metis quiet_def snd_conv)

lemma quiet_basic [quieting]:
  "quiet (ret a)" "quiet (fail e)" "quiet (lift_res r)" "quiet (lock_gate lib p)"
  by (simp_all add: quiet_def lock_gate_def)

lemma quiet_invoke: "(\<And>a. accepted [c a] = []) \<Longrightarrow> quiet (invoke f c)"
  by (simp add: quiet_def invoke_def split: prod.split)

lemma quiet_calls [quieting]:
  "quiet (invoke f1 (CreatedStream r))" "quiet (invoke f2 (\<lambda>_. AskedReady r p))"
  "quiet (invoke_unit g1 (Decoded r p))" "quiet (invoke f3 (GotResult r p))"
  "quiet (invoke f4 (\<lambda>_. ReadText q))" "quiet (invoke_unit g2 (DestroyedResult q))"
  "quiet (invoke_unit g3 (FinishedInput p))"
  by (simp_all add: invoke_unit_def quiet_invoke)

lemma quiet_bind [quieting]:
  assumes "quiet m" and "\<And>a. quiet (f a)"
  shows "quiet (bind_st m f)"
  unfolding quiet_def
proof
  fix w
  obtain r w1 where m: "m w = (r, w1)" by fastforce
  note q = quietD [OF assms(1) m]
  show "accepted (nt_calls (snd (bind_st m f w))) = accepted (nt_calls w)"
  proof (cases r)
    case (Inr a)
    obtain r2 w2 where f: "f a w1 = (r2, w2)" by fastforce
    from quietD [OF assms(2) f] m Inr f q show ?thesis by simp
  qed (use m q in simp)
qed

lemma quiet_if [quieting]: "quiet m \<Longrightarrow> quiet m' \<Longrightarrow> quiet (if b then m else m')"
  by simp

lemma quiet_decode_steps [quieting]: "quiet (decode_steps lib s k)"
proof (induction k)
  case 0
  show ?case unfolding decode_steps.simps by (rule quieting)
next
  case (Suc k)
  then show ?case unfolding decode_steps.simps by (intro quieting)
qed

lemma quiet_operations [quieting]:
  "quiet (create_stream lib r)" "quiet (decode_available lib s)" "quiet (stream_text lib s)"
  unfolding create_stream_def decode_available_def stream_text_def by (intro quieting)+

lemma quiet_finish [quieting]: "quiet (finish_body lib s)"
  unfolding finish_body_def by (intro quieting)

lemma accept_hands_over:
  assumes "stream_accept lib s xs w = (Inr u, w')"
  shows "accepted (nt_calls w') = accepted (nt_calls w) @ xs"
proof -
  let ?w1 = "\<lparr>nt_state = nl_accept_waveform lib (os_pointer s) 16000 xs (int (length xs)) (nt_state w),
    nt_calls = nt_calls w @ [AcceptedWaveform (os_pointer s) 16000 xs (int (length xs))]\<rparr>"
  from assms have "decode_available lib s ?w1 = (Inr u, w')"
    by (auto simp: stream_accept_def invoke_unit_def invoke_def split: if_splits)
  from quietD [OF quiet_operations(2) this] show ?thesis by simp
qed

definition handed_over :: "'v \<times> 'n native \<Rightarrow> f32 list" where
  "handed_over x = accepted (nt_calls (snd x))"

lemma on_native_quiet: "quiet m \<Longrightarrow> on_native e m x = (r, y) \<Longrightarrow> handed_over y = handed_over x"
  by (auto simp: on_native_def handed_over_def split: prod.splits dest: quietD)

lemma native_recording:
  fixes look :: "'v \<Rightarrow> (bool \<times> nat) \<times> 'v" and lib :: "'n native_lib"
  shows "recording (native_stt_env lib r look) handed_over"
  unfolding recording_def native_stt_env_def stt_env.simps
proof (intro conjI allI impI)
  fix x :: "'v \<times> 'n native"
  show "handed_over (snd (look_at look x)) = handed_over x"
    by (simp add: look_at_def handed_over_def split: prod.split)
  show "handed_over (snd (native_stream lib r x)) = handed_over x"
    unfolding native_stream_def by (metis on_native_quiet quiet_operations(1) prod.collapse)
  show "handed_over (snd (native_interim lib s x)) = handed_over x" for s
    unfolding native_interim_def by (metis on_native_quiet quiet_operations(3) prod.collapse)
  show "handed_over (snd (snd (native_finish lib s x))) = handed_over x" for s
  proof (cases x)
    case (Pair v w)
    obtain q w' where "finish_body lib (s\<lparr>os_finished := True\<rparr>) w = (q, w')" by fastforce
    with quietD [OF quiet_finish this] Pair show ?thesis
      by (simp add: native_finish_def stream_finish_def Let_def handed_over_def)
  qed
  show "handed_over (native_drop lib s x) = handed_over x" for s
    by (cases x) (simp add: native_drop_def handed_over_def invoke_unit_def invoke_def)
  show "handed_over y = handed_over x @ xs" if "native_accept lib s xs x = (Inr u, s', y)" for s xs u s' y
    using that accept_hands_over [of lib s xs "snd x"]
    by (cases x) (auto simp: native_accept_def on_native_def handed_over_def res_simps split: prod.splits)
qed

section \<open>A library that cooperates\<close>

text \<open>
  What the engines rely on: the mutex is not poisoned, streams and results can be made, texts are
  UTF-8, and a stream has fewer decodings left than the work bound, each of which makes them fewer.
\<close>

definition lib_cooperates :: "'n native_lib \<Rightarrow> ptr \<Rightarrow> (ptr \<Rightarrow> 'n \<Rightarrow> nat) \<Rightarrow> bool" where
  "lib_cooperates lib r pending \<longleftrightarrow>
     \<not> nl_poisoned lib r
     \<and> (\<forall>n. fst (nl_create_stream lib r n) \<noteq> 0)
     \<and> (\<forall>p n. pending p n < max_decode_steps)
     \<and> (\<forall>p n. fst (nl_is_ready lib r p n) \<noteq> 0 \<longrightarrow>
          pending p (nl_decode lib r p (snd (nl_is_ready lib r p n))) < pending p n)
     \<and> (\<forall>p n. fst (nl_get_result lib r p n) \<noteq> 0)
     \<and> (\<forall>q n. \<exists>t. nl_result_text lib q n = Some t \<and> utf8 t)"

lemma decode_steps_total:
  assumes "lib_cooperates lib r pending" and "os_recognizer s = r"
  shows "pending (os_pointer s) (nt_state w) < k \<Longrightarrow> \<exists>w'. decode_steps lib s k w = (Inr (), w')"
proof (induction k arbitrary: w)
  case (Suc k)
  obtain ready n where n: "nl_is_ready lib r (os_pointer s) (nt_state w) = (ready, n)" by fastforce
  show ?case
  proof (cases "ready = 0")
    case True
    with n assms(2) show ?thesis by (simp add: invoke_def)
  next
    case False
    with n assms(1) have "pending (os_pointer s) (nl_decode lib r (os_pointer s) n)
        < pending (os_pointer s) (nt_state w)"
      unfolding lib_cooperates_def by (metis fst_conv snd_conv)
    with Suc.prems have "pending (os_pointer s) (nl_decode lib r (os_pointer s) n) < k" by simp
    with Suc.IH [of "\<lparr>nt_state = nl_decode lib r (os_pointer s) n, nt_calls = nt_calls w
        @ [AskedReady r (os_pointer s)] @ [Decoded r (os_pointer s)]\<rparr>"] n False assms(2)
    show ?thesis by (simp add: invoke_def invoke_unit_def)
  qed
qed simp

lemma lock_gate_free: "\<not> nl_poisoned lib r \<Longrightarrow> lock_gate lib r = ret ()"
  by (simp add: lock_gate_def)

lemma decode_available_total:
  assumes "lib_cooperates lib r pending" and "os_recognizer s = r"
  shows "\<exists>w'. decode_available lib s w = (Inr (), w')"
proof -
  have "pending (os_pointer s) (nt_state w) < max_decode_steps" and "\<not> nl_poisoned lib r"
    using assms(1) by (simp_all add: lib_cooperates_def)
  with decode_steps_total [OF assms] assms(2) show ?thesis
    by (simp add: decode_available_def lock_gate_free)
qed

lemma stream_text_total:
  assumes "lib_cooperates lib r pending" and "os_recognizer s = r"
  shows "\<exists>t w'. stream_text lib s w = (Inr t, w')"
proof -
  obtain q n where q: "nl_get_result lib r (os_pointer s) (nt_state w) = (q, n)" by fastforce
  with assms have "q \<noteq> 0" "\<not> nl_poisoned lib r"
    unfolding lib_cooperates_def by (metis fst_conv)+
  moreover obtain t where "nl_result_text lib q n = Some t" "utf8 t"
    using assms unfolding lib_cooperates_def by blast
  ultimately show ?thesis
    using assms(2) q
    by (simp add: stream_text_def lock_gate_free invoke_def invoke_unit_def read_owned_string_def)
qed

lemma stream_accept_total:
  assumes "lib_cooperates lib r pending" and "os_recognizer s = r" and "\<not> os_finished s" and "frame_ok xs"
  shows "\<exists>w'. stream_accept lib s xs w = (Inr (), w')"
proof -
  have "\<not> (os_finished s \<or> xs = [] \<or> int (length xs) > i32_max \<or> list_ex (\<lambda>x. \<not> is_finite x) xs)"
    using assms(3,4) by (auto simp: frame_ok_def vad_frame_samples_def i32_max_def list_ex_iff)
  with decode_available_total [OF assms(1,2)] show ?thesis
    by (simp add: stream_accept_def invoke_unit_def invoke_def)
qed

lemma stream_finish_total:
  assumes "lib_cooperates lib r pending" and "os_recognizer s = r" and "\<not> os_finished s"
  shows "\<exists>t s' w'. stream_finish lib (s, w) = (Inr t, s', w')"
proof -
  let ?s = "s\<lparr>os_finished := True\<rparr>"
  have r: "os_recognizer ?s = r" using assms(2) by simp
  obtain w1 where "decode_available lib ?s \<lparr>nt_state = nl_input_finished lib (os_pointer s) (nt_state w),
      nt_calls = nt_calls w @ [FinishedInput (os_pointer s)]\<rparr> = (Inr (), w1)"
    using decode_available_total [OF assms(1) r] by blast
  moreover obtain t w2 where "stream_text lib ?s w1 = (Inr t, w2)"
    using stream_text_total [OF assms(1) r] by blast
  ultimately show ?thesis
    using assms(3) by (simp add: stream_finish_def Let_def finish_body_def invoke_unit_def invoke_def)
qed

text \<open>No look at the request finds it cancelled or overdue.\<close>

definition not_stopped :: "('v \<Rightarrow> (bool \<times> nat) \<times> 'v) \<Rightarrow> request_context \<Rightarrow> bool" where
  "not_stopped look context \<longleftrightarrow>
     (\<forall>v. \<not> fst (fst (look v)) \<and> remaining (snd (fst (look v))) context \<noteq> Some 0)"

definition usable :: "ptr \<Rightarrow> online_stream \<Rightarrow> bool" where
  "usable r s \<longleftrightarrow> os_recognizer s = r \<and> \<not> os_finished s"

lemma native_total:
  fixes look :: "'v \<Rightarrow> (bool \<times> nat) \<times> 'v" and lib :: "'n native_lib"
  assumes "lib_cooperates lib r pending" and "not_stopped look context"
  shows "env_total (native_stt_env lib r look) context (usable r)"
  unfolding env_total_def
proof (intro conjI allI impI)
  fix x :: "'v \<times> 'n native"
  obtain v w where x: "x = (v, w)" by fastforce
  show "\<exists>y. stt_ensure_active (native_stt_env lib r look) context x = (Inr (), y)"
  proof -
    obtain c n v' where look: "look v = ((c, n), v')" by (metis surj_pair)
    with spec [OF assms(2) [unfolded not_stopped_def], of v] show ?thesis
      by (simp add: x stt_ensure_active_def native_stt_env_def look_at_def)
  qed
  show "\<exists>st y. env_stream (native_stt_env lib r look) x = (Inr st, y) \<and> usable r st"
  proof -
    obtain p n where "nl_create_stream lib r (nt_state w) = (p, n)" by fastforce
    moreover from this assms(1) have "p \<noteq> 0" "\<not> nl_poisoned lib r"
      unfolding lib_cooperates_def by (metis fst_conv)+
    ultimately show ?thesis
      by (simp add: x native_stt_env_def native_stream_def on_native_def create_stream_def
          lock_gate_free invoke_def usable_def)
  qed
  fix s :: online_stream
  show "\<exists>st' y. env_accept (native_stt_env lib r look) s xs x = (Inr (), st', y) \<and> usable r st'"
    if "usable r s \<and> frame_ok xs" for xs
    using that stream_accept_total [OF assms(1), of s xs w]
    by (auto simp: x native_stt_env_def native_accept_def on_native_def usable_def)
  assume s: "usable r s"
  then show "\<exists>t y. env_interim (native_stt_env lib r look) s x = (Inr t, y)"
    using stream_text_total [OF assms(1), of s w]
    by (auto simp: x native_stt_env_def native_interim_def on_native_def usable_def)
  show "\<exists>t st' y. env_finish (native_stt_env lib r look) s x = (Inr t, st', y)"
    using s stream_finish_total [OF assms(1), of s w]
    by (auto simp: x native_stt_env_def native_finish_def usable_def)
qed

section \<open>The texts that come back\<close>

text \<open>Whatever the recognizer's streams return as a text has the property \<open>P\<close>.\<close>

definition env_texts :: "('st, 'w) stt_env \<Rightarrow> (string \<Rightarrow> bool) \<Rightarrow> bool" where
  "env_texts env P \<longleftrightarrow>
     (\<forall>st w t w'. env_interim env st w = (Inr t, w') \<longrightarrow> P t)
     \<and> (\<forall>st w t st' w'. env_finish env st w = (Inr t, st', w') \<longrightarrow> P t)"

definition kept_text :: "(string \<Rightarrow> bool) \<Rightarrow> ('st, 'w) session \<Rightarrow> bool" where
  "kept_text P s \<longleftrightarrow> (\<forall>t. ss_last_final s = Some t \<longrightarrow> P t)"

lemma texts_ops:
  "session_check env s = (r1, t) \<Longrightarrow> ss_last_final t = ss_last_final s"
  "session_accept env xs s = (r2, t) \<Longrightarrow> ss_last_final t = ss_last_final s"
  "session_vad f s = (r3, t) \<Longrightarrow> ss_last_final t = ss_last_final s"
  "session_new_stream env s = (r4, t) \<Longrightarrow> ss_last_final t = ss_last_final s"
  "session_decode bytes s = (r5, t) \<Longrightarrow> ss_last_final t = ss_last_final s"
  "session_resample ys s = (r6, t) \<Longrightarrow> ss_last_final t = ss_last_final s"
  "drain_frames s = (r7, t) \<Longrightarrow> ss_last_final t = ss_last_final s"
  by (auto simp: session_check_def session_accept_def session_vad_def session_new_stream_def
      session_decode_def session_resample_def drain_frames_def Let_def split: prod.splits sum.splits)

lemma texts_interim:
  "env_texts env P \<Longrightarrow> session_interim env s = (Inr words, t) \<Longrightarrow> P words \<and> ss_last_final t = ss_last_final s"
  by (auto simp: session_interim_def env_texts_def split: prod.splits)

lemma texts_finish:
  assumes "env_texts env P" and "session_finish_stream env s = (Inr words, t)"
  shows "P words \<and> ss_last_final t = ss_last_final s"
proof -
  obtain r st w where f: "env_finish env (ss_stream s) (ss_world s) = (r, st, w)" by (metis surj_pair)
  with assms(2) have "env_finish env (ss_stream s) (ss_world s) = (Inr words, st, w)"
    and t: "t = s\<lparr>ss_stream := st, ss_world := w\<rparr>"
    by (simp_all add: session_finish_stream_def)
  with assms(1) have "P words" unfolding env_texts_def by blast
  with t show ?thesis by simp
qed

lemma texts_push_frame:
  assumes e: "env_texts env P" and "kept_text P s" and "push_frame env f s = (Inr us, t)"
  shows "list_all (\<lambda>u. P (tr_text u)) us \<and> kept_text P t"
  using assms(2,3) unfolding push_frame_def
  by (auto simp: res_simps kept_text_def split: if_splits
      dest!: texts_ops texts_interim [OF e] texts_finish [OF e])

lemma texts_push_frames:
  assumes e: "env_texts env P"
  shows "kept_text P s \<Longrightarrow> push_frames env fs s = (Inr us, t) \<Longrightarrow>
    list_all (\<lambda>u. P (tr_text u)) us \<and> kept_text P t"
proof (induction fs arbitrary: s us)
  case (Cons f fs)
  then obtain us1 u us2 where 1: "push_frame env f s = (Inr us1, u)"
    and 2: "push_frames env fs u = (Inr us2, t)" "us = us1 @ us2"
    by (auto simp: res_simps)
  from texts_push_frame [OF e Cons.prems(1) 1] Cons.IH [OF _ 2(1)] 2(2) show ?case by simp
qed simp

lemma push_pcm16_frames:
  assumes "push_pcm16 env bytes s = (Inr us, t)"
  shows "(us = [] \<and> ss_last_final t = ss_last_final s)
    \<or> (\<exists>frames s4 s5. push_frames env frames s4 = (Inr us, s5) \<and> ss_last_final s4 = ss_last_final s
        \<and> ss_last_final t = ss_last_final s5)"
proof -
  from assms obtain s1 s2 out where
    1: "session_check env s = (Inr (), s1)" "session_decode bytes s1 = (Inr out, s2)"
    and rest: "(if out = [] then ret []
          else
            bind_st (session_resample out) (\<lambda>converted.
            bind_st (update_st (\<lambda>s. s\<lparr>ss_residual := ss_residual s @ converted\<rparr>)) (\<lambda>_.
            bind_st drain_frames (\<lambda>frames.
            bind_st (push_frames env frames) (\<lambda>updates.
            bind_st (session_check env) (\<lambda>_. ret updates)))))) s2 = (Inr us, t)"
    by (auto simp: push_pcm16_def res_simps split: if_splits)
  have s2: "ss_last_final s2 = ss_last_final s" using 1 by (simp add: texts_ops)
  show ?thesis
  proof (cases "out = []")
    case True
    with rest s2 show ?thesis by simp
  next
    case False
    with rest obtain conv s3 frames s4 s5 where
      3: "session_resample out s2 = (Inr conv, s3)"
      and 4: "drain_frames (s3\<lparr>ss_residual := ss_residual s3 @ conv\<rparr>) = (Inr frames, s4)"
      and 5: "push_frames env frames s4 = (Inr us, s5)"
      and 6: "session_check env s5 = (Inr (), t)"
      by (auto simp: res_simps)
    from texts_ops(6) [OF 3] texts_ops(7) [OF 4] texts_ops(1) [OF 6] s2 5 show ?thesis by auto
  qed
qed

lemma texts_push_pcm16:
  assumes e: "env_texts env P" and "kept_text P s" and "push_pcm16 env bytes s = (Inr us, t)"
  shows "list_all (\<lambda>u. P (tr_text u)) us \<and> kept_text P t"
proof -
  from push_pcm16_frames [OF assms(3)] consider
    "us = []" "ss_last_final t = ss_last_final s"
  | frames s4 s5 where "push_frames env frames s4 = (Inr us, s5)" "ss_last_final s4 = ss_last_final s"
      "ss_last_final t = ss_last_final s5" by blast
  then show ?thesis
  proof cases
    case 1
    with assms(2) show ?thesis by (simp add: kept_text_def)
  next
    case 2
    from assms(2) 2(2) have "kept_text P s4" by (simp add: kept_text_def)
    from texts_push_frames [OF e this 2(1)] 2(3) show ?thesis by (simp add: kept_text_def)
  qed
qed

lemma texts_push_all:
  assumes e: "env_texts env P"
  shows "kept_text P s \<Longrightarrow> push_all env fs s = (Inr us, t) \<Longrightarrow>
    list_all (\<lambda>u. P (tr_text u)) us \<and> kept_text P t"
proof (induction fs arbitrary: s us)
  case (Cons f fs)
  then obtain us1 u us2 where 1: "push_pcm16 env f s = (Inr us1, u)"
    and 2: "push_all env fs u = (Inr us2, t)" "us = us1 @ us2"
    by (auto simp: res_simps)
  from texts_push_pcm16 [OF e Cons.prems(1) 1] Cons.IH [OF _ 2(1)] 2(2) show ?case by simp
qed simp

lemma texts_residual: "finish_residual env s = (Inr u, t) \<Longrightarrow> ss_last_final t = ss_last_final s"
  by (auto simp: finish_residual_def res_simps split: if_splits dest!: texts_ops)

lemma texts_session_finish:
  assumes e: "env_texts env P" and "kept_text P s" and "session_finish env s = (Inr u, t)"
  shows "P (tr_text u)"
  using assms(2,3) unfolding session_finish_def finish_text_def
  by (auto simp: res_simps kept_text_def split: if_splits
      dest!: texts_ops(1) texts_residual texts_finish [OF e])

lemma texts_run_session:
  assumes e: "env_texts env P" and "kept_text P s" and "run_session env fs s = (Inr (us, t), u)"
  shows "list_all (\<lambda>u. P (tr_text u)) (us @ [t])"
proof -
  from assms(3) obtain s1 where 1: "push_all env fs s = (Inr us, s1)" and 2: "session_finish env s1 = (Inr t, u)"
    by (auto simp: run_session_def res_simps)
  from texts_push_all [OF e assms(2) 1] texts_session_finish [OF e _ 2] show ?thesis by simp
qed

lemma start_stream_kept: "start_stream env engine source context x = (Inr s, y) \<Longrightarrow> kept_text P s"
  by (auto simp: start_stream_def kept_text_def split: prod.splits sum.splits)

lemma finish_utf8: "stream_finish lib (s, w) = (Inr words, s', w') \<Longrightarrow> utf8 words"
  by (auto simp: stream_finish_def Let_def finish_body_def bind_st_Inr_iff split: if_splits prod.splits
      dest: text_utf8)

lemma native_texts:
  fixes look :: "'v \<Rightarrow> (bool \<times> nat) \<times> 'v" and lib :: "'n native_lib"
  shows "env_texts (native_stt_env lib r look) utf8"
  unfolding env_texts_def native_stt_env_def stt_env.simps
  by (auto simp: native_interim_def native_finish_def on_native_def res_simps
      split: prod.splits dest: text_utf8 finish_utf8)

lemma transcribe_Inr:
  assumes "stt_transcribe env engine audio context (l, w) = (Inr words, l', w')"
  obtains w1 where "stt_ensure_active env context w = (Inr (), w1)"
    and "transcribe_body env engine audio context w1 = (Inr words, w')"
  using assms by (auto simp: stt_transcribe_def split: prod.splits sum.splits)

lemma recorded_transcribe:
  assumes r: "recording env fed" and "stt_transcribe env engine audio context (l, w) = (Inr words, l', w')"
  shows "\<exists>b. resample audio engine_sample_rate = Inr b \<and> fed w' = fed w @ pcm_samples b"
proof -
  from transcribe_Inr [OF assms(2)] obtain w0 where 0: "stt_ensure_active env context w = (Inr (), w0)"
    and body: "transcribe_body env engine audio context w0 = (Inr words, w')" .
  from transcribe_body_Inr [OF body] obtain b st w1 st' w5 where b: "resample audio engine_sample_rate = Inr b"
    and 1: "env_stream env w0 = (Inr st, w1)"
    and t: "transcribe_stream env (pcm_samples b) context (st, w1) = (Inr words, st', w5)"
    and w': "w' = env_drop env st' w5" .
  from transcribe_stream_Inr [OF t] obtain st1 w2 w3 w4 where
    2: "env_accept env st (pcm_samples b) w1 = (Inr (), st1, w2)" "stt_ensure_active env context w2 = (Inr (), w3)"
      "env_finish env st1 w3 = (Inr words, st', w4)" "stt_ensure_active env context w4 = (Inr (), w5)" .
  have "fed w2 = fed w1 @ pcm_samples b" "fed w4 = fed w3" "fed w' = fed w5"
    using r 2(1,3) w' unfolding recording_def by (metis snd_conv)+
  then show ?thesis
    using b recording_world(1) [OF r 0] recording_world(2) [OF r 1] recording_world(1) [OF r 2(2)]
      recording_world(1) [OF r 2(4)] by simp
qed

lemma transcribe_text:
  assumes "env_texts env P" and "stt_transcribe env engine audio context (l, w) = (Inr words, l', w')"
  shows "P words"
proof -
  from transcribe_Inr [OF assms(2)] obtain w0 where
    body: "transcribe_body env engine audio context w0 = (Inr words, w')" .
  from transcribe_body_Inr [OF body] obtain xs st w1 st' w5 where
    t: "transcribe_stream env xs context (st, w1) = (Inr words, st', w5)" .
  from transcribe_stream_Inr [OF t] obtain st1 w3 w4 where "env_finish env st1 w3 = (Inr words, st', w4)" .
  with assms(1) show ?thesis unfolding env_texts_def by blast
qed

section \<open>Properties\<close>

text \<open>
  C1: On the native library streaming is batch. When a session over PCM16 frames ends with a
  transcript, the samples its \<open>AcceptedWaveform\<close> calls handed to the library, whatever frames and
  utterances they came in, are the whole recording resampled to 16 kHz; transcribing the recording at
  once hands over the same samples; and every transcript delivered is valid UTF-8.
\<close>

theorem native_transcriptions_agree:
  fixes look :: "'v \<Rightarrow> (bool \<times> nat) \<times> 'v" and lib :: "'n native_lib"
  assumes "stream_bounded (sl_audio (se_limits engine))" and "nt_calls w = []"
    and "start_stream (native_stt_env lib r look) engine source context (l, v, w) = (Inr s, l', x)"
    and "run_session (native_stt_env lib r look) frames s = (Inr (us, t), u)"
  shows "\<exists>a b. from_pcm16_le (concat frames) source (sl_audio (se_limits engine)) = Inr a
    \<and> resample a engine_sample_rate = Inr b \<and> pcm_rate b = 16000
    \<and> accepted (nt_calls (snd (ss_world u))) = pcm_samples b
    \<and> list_all (\<lambda>u. utf8 (tr_text u)) (us @ [t])
    \<and> (\<forall>l2 v2 w2 c words l3 v3 w3. nt_calls w2 = []
        \<and> stt_transcribe (native_stt_env lib r look) engine a c (l2, v2, w2) = (Inr words, l3, v3, w3)
        \<longrightarrow> accepted (nt_calls w3) = pcm_samples b \<and> utf8 words)"
proof -
  have "handed_over (v, w) = []" using assms(2) by (simp add: handed_over_def)
  from session_feeds_batch [OF native_recording assms(1) this assms(3,4)]
  obtain a where a: "from_pcm16_le (concat frames) source (sl_audio (se_limits engine)) = Inr a"
    "resample a engine_sample_rate
      = Inr \<lparr>pcm_rate = engine_sample_rate, pcm_samples = handed_over (ss_world u)\<rparr>" by blast
  have "accepted (nt_calls w3) = handed_over (ss_world u) \<and> utf8 words"
    if "nt_calls w2 = []"
      "stt_transcribe (native_stt_env lib r look) engine a c (l2, v2, w2) = (Inr words, l3, v3, w3)"
    for l2 v2 w2 c words l3 v3 w3
    using recorded_transcribe [OF native_recording that(2)] that(1) a(2)
      transcribe_text [OF native_texts that(2)] by (simp add: handed_over_def)
  moreover have "list_all (\<lambda>u. utf8 (tr_text u)) (us @ [t])"
    by (rule texts_run_session [OF native_texts start_stream_kept [OF assms(3)] assms(4)])
  ultimately show ?thesis
    using a by (auto simp: handed_over_def engine_sample_rate_def)
qed

text \<open>A look that finds the request live, and the library that recognizes nothing.\<close>

definition live_look :: "unit \<Rightarrow> (bool \<times> nat) \<times> unit" where
  "live_look v = ((False, 0), ())"

lemma silent_facts:
  "lib_cooperates silent_lib r (\<lambda>_ _. 0)" "not_stopped live_look echo_context"
  by (simp_all add: lib_cooperates_def silent_lib_def max_decode_steps_def utf8_def not_stopped_def
      live_look_def remaining_def echo_context_def)

lemma native_session_runs:
  fixes look :: "'v \<Rightarrow> (bool \<times> nat) \<times> 'v" and lib :: "'n native_lib"
  assumes "lib_cooperates lib r pending" and "not_stopped look context" and "nt_calls w = []"
    and "stt_with_backend limits vad = Inr (engine, l0)" and "stream_bounded (sl_audio limits)"
    and "lim_active l < lim_maximum l" and "source \<in> set supported_sample_rates"
    and "\<forall>f\<in>set frames. f \<noteq> [] \<and> length f \<le> sl_max_chunk_bytes limits"
    and "frames \<noteq> []" and "even (length (concat frames))"
    and "inc_admissible source (sl_audio limits) (concat frames)"
  shows "\<exists>s l' x us t u. start_stream (native_stt_env lib r look) engine source context (l, v, w) = (Inr s, l', x)
    \<and> run_session (native_stt_env lib r look) frames s = (Inr (us, t), u)"
proof -
  have "handed_over (v, w) = []" using assms(3) by (simp add: handed_over_def)
  from session_total [OF native_total [OF assms(1,2)] native_recording this assms(4-11)]
  show ?thesis by auto
qed

lemma silent_session:
  "\<exists>s l' x us t u. start_stream (native_stt_env silent_lib 7 live_look) echo_engine 16000 echo_context
      (\<lparr>lim_active = 0, lim_maximum = 2\<rparr>, (), \<lparr>nt_state = 0, nt_calls = []\<rparr>) = (Inr s, l', x)
    \<and> run_session (native_stt_env silent_lib 7 live_look) [[0], [64]] s = (Inr (us, t), u)"
  using echo_facts(4,5)
  by (intro native_session_runs [OF silent_facts _ echo_facts(3)])
    (simp_all add: echo_engine_def supported_sample_rates_def stt_limits_default_def)

theorem native_transcriptions_agree_witness:
  "\<exists>a b cs. from_pcm16_le [0, 64] 16000 (sl_audio (se_limits echo_engine)) = Inr a
    \<and> resample a engine_sample_rate = Inr b \<and> accepted cs = pcm_samples b"
proof -
  from silent_session obtain s l' x us t u where
    1: "start_stream (native_stt_env silent_lib 7 live_look) echo_engine 16000 echo_context
      (\<lparr>lim_active = 0, lim_maximum = 2\<rparr>, (), \<lparr>nt_state = 0, nt_calls = []\<rparr>) = (Inr s, l', x)"
    and 2: "run_session (native_stt_env silent_lib 7 live_look) [[0], [64]] s = (Inr (us, t), u)"
    by blast
  from native_transcriptions_agree [OF echo_facts(4) _ 1 2] show ?thesis by auto
qed

text \<open>A session of the engine that ends is a session of the backend without an error.\<close>

lemma engines_frames:
  "run_session env frames t = (Inr (us, x), u) \<Longrightarrow> ss_world t = es_world st \<Longrightarrow>
    session_frames (engines_backend env engine tenv limits) t frames st = (us @ [x], None)"
proof (induction frames arbitrary: t st us)
  case Nil
  then have "session_finish env t = (Inr x, u)" "us = []" "t\<lparr>ss_world := es_world st\<rparr> = t"
    by (auto simp: run_session_def res_simps)
  then show ?case by (simp add: engines_backend_def engines_finish_def)
next
  case (Cons f fs)
  then obtain us1 t1 us2 where 1: "push_pcm16 env f t = (Inr us1, t1)"
    and 2: "run_session env fs t1 = (Inr (us2, x), u)" "us = us1 @ us2"
    by (auto simp: run_session_def res_simps)
  have "t\<lparr>ss_world := es_world st\<rparr> = t" using Cons.prems(2) by simp
  with 1 Cons.IH [OF 2(1), of "st\<lparr>es_world := ss_world t1\<rparr>"] 2(2) show ?case
    by (simp add: engines_backend_def engines_push_def)
qed

lemma engines_session:
  assumes "start_stream env engine source context (es_stt st, es_world st) = (Inr s, l', w')"
    and "run_session env frames s = (Inr (us, x), u)"
  shows "voice_session (engines_backend env engine tenv limits) context source frames st = (us @ [x], None)"
proof -
  have "ss_world s = w'"
    using assms(1) by (auto simp: start_stream_def split: prod.splits sum.splits)
  with engines_frames [OF assms(2), of "st\<lparr>es_stt := l', es_world := w'\<rparr>"] assms(1) show ?thesis
    by (simp add: voice_session_def engines_backend_def engines_start_def)
qed

lemma session_finish_final: "session_finish env s = (Inr t, u) \<Longrightarrow> tr_kind t = Final"
  by (auto simp: session_finish_def res_simps split: if_splits)

lemma run_session_final: "run_session env fs s = (Inr (us, t), u) \<Longrightarrow> tr_kind t = Final"
  by (auto simp: run_session_def res_simps dest: session_finish_final)

lemma drop_on_error_Inr: "drop_on_error f m s = (Inr a, t) \<longleftrightarrow> m s = (Inr a, t)"
  by (auto simp: drop_on_error_def split: prod.splits sum.splits)

lemma engines_load_policy:
  assumes "engines_load env base n x = (Inr e, y)"
  shows "0 < n \<and> stt_with_backend (stt_limits_default\<lparr>sl_max_concurrent := n\<rparr>) vad_config_default
    = Inr (ve_stt e, ve_stt_limiter e)"
proof -
  have "0 < n" using assms by (cases "n = 0") (simp_all add: engines_load_def Let_def fail_def)
  moreover from assms have "stt_with_backend (stt_limits_default\<lparr>sl_max_concurrent := n\<rparr>) vad_config_default
      = Inr (ve_stt e, ve_stt_limiter e)"
    by (auto simp: engines_load_def Let_def res_simps drop_on_error_Inr split: if_splits prod.splits)
  ultimately show ?thesis ..
qed

text \<open>
  C2: From artifacts to transcripts. Engines that were loaded from the artifact store, on a native
  library that cooperates (no poisoned mutex, no failed allocation, UTF-8 texts, fewer decodings
  pending than the work bound of 100000), stream every admissible recording in admissible frames to
  its end while the request is not stopped: the wrapper refuses no frame, no stream is used after it
  has finished, and the session of the backend ends without an error in a final transcript, all its
  texts valid UTF-8.
\<close>

theorem native_session_total:
  assumes "engines_load env base n x = (Inr e, y)"
    and "lib_cooperates (ee_native env) (ve_recognizer e) pending" and "not_stopped look context"
    and "nt_calls w = []" and "source \<in> set supported_sample_rates"
    and "\<forall>f\<in>set frames. f \<noteq> [] \<and> length f \<le> 65536"
    and "frames \<noteq> []" and "even (length (concat frames))"
    and "inc_admissible source audio_limits_default (concat frames)"
  shows "\<exists>us t. voice_session (loaded_backend (ee_native env) look e) context source frames
      (loaded_state e (v, w)) = (us @ [t], None)
    \<and> tr_kind t = Final \<and> list_all (\<lambda>u. utf8 (tr_text u)) (us @ [t])"
proof -
  let ?env = "native_stt_env (ee_native env) (ve_recognizer e) look"
  note policy = engines_load_policy [OF assms(1)]
  then have "ve_stt_limiter e = \<lparr>lim_active = 0, lim_maximum = n\<rparr>"
    by (auto simp: stt_with_backend_def res_simps split: if_splits)
  with policy have "lim_active (ve_stt_limiter e) < lim_maximum (ve_stt_limiter e)" by simp
  then have "\<exists>s l' z us t u. start_stream ?env (ve_stt e) source context (ve_stt_limiter e, v, w) = (Inr s, l', z)
      \<and> run_session ?env frames s = (Inr (us, t), u)"
    using policy assms(5-9) echo_facts(4)
    by (intro native_session_runs [OF assms(2-4), of "stt_limits_default\<lparr>sl_max_concurrent := n\<rparr>"
          vad_config_default "ve_stt e" "ve_stt_limiter e"])
      (simp_all add: stt_limits_default_def echo_engine_def)
  then obtain s l' z us t u where
    1: "start_stream ?env (ve_stt e) source context (ve_stt_limiter e, v, w) = (Inr s, l', z)"
    and 2: "run_session ?env frames s = (Inr (us, t), u)" by blast
  from engines_session [of ?env "ve_stt e" source "context" "loaded_state e (v, w)", OF _ 2] 1
  have "voice_session (loaded_backend (ee_native env) look e) context source frames
      (loaded_state e (v, w)) = (us @ [t], None)"
    by (simp add: loaded_state_def loaded_backend_def)
  moreover have "list_all (\<lambda>u. utf8 (tr_text u)) (us @ [t])"
    by (rule texts_run_session [OF native_texts start_stream_kept [OF 1] 2])
  ultimately show ?thesis using run_session_final [OF 2] by blast
qed

theorem native_session_total_witness:
  "\<exists>e us t. voice_session (loaded_backend silent_lib live_look e) echo_context 16000 [[0], [64]]
      (loaded_state e ((), \<lparr>nt_state = 0, nt_calls = []\<rparr>)) = (us @ [t], None) \<and> tr_kind t = Final"
proof -
  obtain e y where load: "engines_load demo_engine_env [''b''] 4
      (st_disk demo_store, \<lparr>nt_state = 0, nt_calls = []\<rparr>) = (Inr e, y)"
    using demo_engines_load by blast
  have env: "ee_native demo_engine_env = silent_lib" by (simp add: demo_engine_env_def)
  have adm: "inc_admissible 16000 audio_limits_default (concat [[0], [64]])"
    using echo_facts(5) by (simp add: echo_engine_def stt_limits_default_def)
  from native_session_total [OF load, unfolded env, OF silent_facts, of "\<lparr>nt_state = 0, nt_calls = []\<rparr>" 16000
      "[[0], [64]]" "()"] adm
  show ?thesis by (auto simp: supported_sample_rates_def)
qed

end
