(* ===== verification/Stream_Owner.thy ===== *)
theory Stream_Owner
  imports Stt "HOL-Library.Multiset"
begin

text \<open>
  What the engine of \<open>Stt\<close> does with the recognizer streams it opens, as an interface: a world that
  knows its open streams, and the proof that every operation of the engine, error or not, keeps
  exactly the stream of each session open and no other.
\<close>

section \<open>Kept predicates\<close>

text \<open>A predicate of the state that an action keeps, error or not.\<close>

definition keeps :: "('s \<Rightarrow> bool) \<Rightarrow> ('s, 'e, 'a) action \<Rightarrow> bool" where
  "keeps P m \<longleftrightarrow> (\<forall>s. P s \<longrightarrow> P (snd (m s)))"

named_theorems keeping \<open>actions that keep a predicate\<close>

lemma keepsD: "keeps P m \<Longrightarrow> P s \<Longrightarrow> m s = (r, t) \<Longrightarrow> P t"
  by (metis keeps_def snd_conv)

lemma keepsI: "(\<And>s r t. P s \<Longrightarrow> m s = (r, t) \<Longrightarrow> P t) \<Longrightarrow> keeps P m"
  unfolding keeps_def by (metis prod.collapse)

lemma keeps_basic [keeping]: "keeps P (ret a)" "keeps P (fail e)" "keeps P (lift_res r)"
  by (simp_all add: keeps_def)

lemma keeps_bind [keeping]: "keeps P m \<Longrightarrow> (\<And>a. keeps P (f a)) \<Longrightarrow> keeps P (bind_st m f)"
  by (auto simp: keeps_def intro: bind_st_keeps)

lemma keeps_if [keeping]: "keeps P m \<Longrightarrow> keeps P m' \<Longrightarrow> keeps P (if b then m else m')"
  by simp

section \<open>The contract\<close>

text \<open>
  The contract of a world that keeps account of its open streams: \<open>holds M w\<close> says that
  \<open>w\<close> has exactly the streams \<open>M\<close>. Opening adds one, a call leaves the stream
  it is given as it returns it, the drop takes it away.
\<close>

locale stream_owner =
  fixes env :: "('st, 'w) stt_env"
    and holds :: "'st multiset \<Rightarrow> 'w \<Rightarrow> bool"
  assumes check_holds: "holds M w \<Longrightarrow> holds M (snd (env_check env w))"
    and open_holds: "holds M w \<Longrightarrow> env_stream env w = (r, w') \<Longrightarrow>
      holds (case r of Inl e \<Rightarrow> M | Inr st \<Rightarrow> add_mset st M) w'"
    and accept_holds: "holds (add_mset st M) w \<Longrightarrow> env_accept env st xs w = (u, st', w') \<Longrightarrow>
      holds (add_mset st' M) w'"
    and interim_holds: "holds (add_mset st M) w \<Longrightarrow> env_interim env st w = (q, w') \<Longrightarrow>
      holds (add_mset st M) w'"
    and finish_holds: "holds (add_mset st M) w \<Longrightarrow> env_finish env st w = (q, st', w') \<Longrightarrow>
      holds (add_mset st' M) w'"
    and drop_holds: "holds (add_mset st M) w \<Longrightarrow> holds M (env_drop env st w)"
begin

lemma active_holds: "holds M w \<Longrightarrow> stt_ensure_active env context w = (r, w') \<Longrightarrow> holds M w'"
  using check_holds [of M w] by (auto simp: stt_ensure_active_def split: prod.splits)

text \<open>A session holds its stream beside the others, \<open>M\<close>.\<close>

lemma session_calls:
  "keeps (\<lambda>s. holds (add_mset (ss_stream s) M) (ss_world s)) (session_check env)"
  "keeps (\<lambda>s. holds (add_mset (ss_stream s) M) (ss_world s)) (session_accept env xs)"
  "keeps (\<lambda>s. holds (add_mset (ss_stream s) M) (ss_world s)) (session_interim env)"
  "keeps (\<lambda>s. holds (add_mset (ss_stream s) M) (ss_world s)) (session_finish_stream env)"
  by (rule keepsI; auto simp: session_check_def session_accept_def session_interim_def
      session_finish_stream_def split: prod.splits
      intro: active_holds accept_holds interim_holds finish_holds)+

lemma session_new_stream_holds:
  "keeps (\<lambda>s. holds (add_mset (ss_stream s) M) (ss_world s)) (session_new_stream env)"
proof (rule keepsI)
  fix s r t
  assume s: "holds (add_mset (ss_stream s) M) (ss_world s)" and n: "session_new_stream env s = (r, t)"
  obtain q w where o: "env_stream env (ss_world s) = (q, w)" by fastforce
  note opened = open_holds [OF s o]
  show "holds (add_mset (ss_stream t) M) (ss_world t)"
  proof (cases q)
    case (Inl e)
    with n o opened show ?thesis by (auto simp: session_new_stream_def)
  next
    case (Inr st)
    with opened have "holds (add_mset (ss_stream s) (add_mset st M)) w" by (simp add: add_mset_commute)
    from drop_holds [OF this] n o Inr show ?thesis by (auto simp: session_new_stream_def)
  qed
qed

lemma session_local:
  "keeps (\<lambda>s. holds (add_mset (ss_stream s) M) (ss_world s)) (session_vad xs)"
  "keeps (\<lambda>s. holds (add_mset (ss_stream s) M) (ss_world s)) (session_decode bytes)"
  "keeps (\<lambda>s. holds (add_mset (ss_stream s) M) (ss_world s)) (session_resample xs)"
  "keeps (\<lambda>s. holds (add_mset (ss_stream s) M) (ss_world s)) drain_frames"
  by (rule keepsI; auto simp: session_vad_def session_decode_def session_resample_def drain_frames_def
      Let_def split: prod.splits)+

lemma session_updates:
  "(\<And>s. ss_stream (f s) = ss_stream s \<and> ss_world (f s) = ss_world s) \<Longrightarrow>
    keeps (\<lambda>s. holds (add_mset (ss_stream s) M) (ss_world s)) (update_st f)"
  by (simp add: keeps_def)

lemma push_frame_holds:
  "keeps (\<lambda>s. holds (add_mset (ss_stream s) M) (ss_world s)) (push_frame env f)"
  unfolding push_frame_def
  by (intro keeping session_calls session_local session_updates session_new_stream_holds)
    (auto simp: keeps_def)

lemma push_frames_holds:
  "keeps (\<lambda>s. holds (add_mset (ss_stream s) M) (ss_world s)) (push_frames env fs)"
proof (induction fs)
  case Nil
  show ?case by (simp add: keeps_def)
next
  case (Cons f fs)
  then show ?case unfolding push_frames.simps by (intro keeping push_frame_holds)
qed

lemma push_pcm16_holds:
  "keeps (\<lambda>s. holds (add_mset (ss_stream s) M) (ss_world s)) (push_pcm16 env bytes)"
proof (rule keepsI)
  fix s r t
  assume s: "holds (add_mset (ss_stream s) M) (ss_world s)" and p: "push_pcm16 env bytes s = (r, t)"
  have "keeps (\<lambda>s. holds (add_mset (ss_stream s) M) (ss_world s))
      (bind_st (session_check env) (\<lambda>_.
        bind_st (session_decode bytes) (\<lambda>decoded.
          if decoded = [] then ret []
          else
            bind_st (session_resample decoded) (\<lambda>converted.
            bind_st (update_st (\<lambda>s. s\<lparr>ss_residual := ss_residual s @ converted\<rparr>)) (\<lambda>_.
            bind_st drain_frames (\<lambda>frames.
            bind_st (push_frames env frames) (\<lambda>updates.
            bind_st (session_check env) (\<lambda>_. ret updates))))))))"
    by (intro keeping session_calls session_local session_updates push_frames_holds) simp
  from keepsD [OF this s] p s show "holds (add_mset (ss_stream t) M) (ss_world t)"
    by (auto simp: push_pcm16_def split: if_splits)
qed

lemma session_finish_holds:
  "keeps (\<lambda>s. holds (add_mset (ss_stream s) M) (ss_world s)) (session_finish env)"
proof (rule keepsI)
  fix s r t
  assume s: "holds (add_mset (ss_stream s) M) (ss_world s)" and p: "session_finish env s = (r, t)"
  have residual: "keeps (\<lambda>s. holds (add_mset (ss_stream s) M) (ss_world s)) (finish_residual env)"
  proof (rule keepsI)
    fix s r t
    assume s: "holds (add_mset (ss_stream s) M) (ss_world s)" and p: "finish_residual env s = (r, t)"
    have "keeps (\<lambda>s. holds (add_mset (ss_stream s) M) (ss_world s)) (\<lambda>s. session_vad (ss_residual s) s)"
      using session_local(1) by (simp add: keeps_def)
    then have "keeps (\<lambda>s. holds (add_mset (ss_stream s) M) (ss_world s))
      (bind_st (session_accept env xs) (\<lambda>_.
        bind_st (update_st (ss_has_audio_update (\<lambda>_. True))) (\<lambda>_.
        bind_st (\<lambda>s. session_vad (ss_residual s) s) (\<lambda>_.
          update_st (ss_residual_update (\<lambda>_. []))))))" for xs
      by (intro keeping session_calls session_updates) simp_all
    from keepsD [OF this s] p s show "holds (add_mset (ss_stream t) M) (ss_world t)"
      by (auto simp: finish_residual_def split: if_splits)
  qed
  have words: "keeps (\<lambda>s. holds (add_mset (ss_stream s) M) (ss_world s)) (finish_text env)"
    using session_calls(4) by (simp add: keeps_def finish_text_def)
  have decoded: "keeps (\<lambda>s. holds (add_mset (ss_stream s) M) (ss_world s))
      (\<lambda>s. (map_err (\<lambda>_. SttAudio) (incremental_finish (ss_decoder s)), s))"
    by (simp add: keeps_def)
  have "keeps (\<lambda>s. holds (add_mset (ss_stream s) M) (ss_world s))
     (bind_st (session_check env) (\<lambda>_.
        bind_st (\<lambda>s. (map_err (\<lambda>_. SttAudio) (incremental_finish (ss_decoder s)), s)) (\<lambda>_.
        bind_st (finish_residual env) (\<lambda>_.
        bind_st (update_st (ss_finished_update (\<lambda>_. True))) (\<lambda>_.
        bind_st (finish_text env) (\<lambda>words.
        bind_st (session_check env) (\<lambda>_.
          ret \<lparr>tr_kind = Final, tr_text = words\<rparr>)))))))"
    by (intro keeping session_calls session_updates residual words decoded) simp
  from keepsD [OF this s] p s show "holds (add_mset (ss_stream t) M) (ss_world t)"
    by (auto simp: session_finish_def split: if_splits)
qed

lemma start_stream_holds:
  assumes "holds M w" and "start_stream env engine source context (l, w) = (r, l', w')"
  shows "case r of Inl e \<Rightarrow> holds M w' | Inr s \<Rightarrow> holds (add_mset (ss_stream s) M) w'"
proof -
  obtain a w1 where c: "stt_ensure_active env context w = (a, w1)" by fastforce
  note h1 = active_holds [OF assms(1) c]
  obtain q w2 where o: "env_stream env w1 = (q, w2)" by fastforce
  note h2 = open_holds [OF h1 o]
  show ?thesis
    using assms(2) c o h1 h2
    by (auto simp: start_stream_def dest: drop_holds split: sum.splits prod.splits)
qed

lemma transcribe_stream_holds:
  "keeps (\<lambda>(st, w). holds (add_mset st M) w) (transcribe_stream env xs context)"
proof -
  have check: "keeps (\<lambda>(st, w). holds (add_mset st M) w) (stream_check env context)"
    by (rule keepsI) (auto simp: stream_check_def split: prod.splits dest: active_holds)
  have accept: "keeps (\<lambda>(st, w). holds (add_mset st M) w) (\<lambda>(st, w). env_accept env st xs w)"
    by (rule keepsI) (auto dest: accept_holds)
  have finish: "keeps (\<lambda>(st, w). holds (add_mset st M) w) (\<lambda>(st, w). env_finish env st w)"
    by (rule keepsI) (auto dest: finish_holds)
  show ?thesis unfolding transcribe_stream_def by (intro keeping check accept finish)
qed

lemma stt_transcribe_holds:
  assumes "holds M w" and "stt_transcribe env engine audio context (l, w) = (r, l', w')"
  shows "holds M w'"
proof -
  have body: "keeps (holds M) (transcribe_body env engine audio context)"
    unfolding transcribe_body_def
  proof (rule keeps_bind, rule keeps_basic, rule keeps_bind, rule keeps_basic, rule keepsI)
    fix converted w r w'
    assume w: "holds M w"
      and t: "bind_st (env_stream env) (\<lambda>stream w.
        case transcribe_stream env (pcm_samples converted) context (stream, w) of
          (r, stream, w) \<Rightarrow> (r, env_drop env stream w)) w = (r, w')"
    obtain q w1 where o: "env_stream env w = (q, w1)" by fastforce
    note opened = open_holds [OF w o]
    show "holds M w'"
    proof (cases q)
      case (Inl e)
      with t o opened show ?thesis by simp
    next
      case (Inr st)
      obtain u st' w2 where u: "transcribe_stream env (pcm_samples converted) context (st, w1) = (u, st', w2)"
        by (metis surj_pair)
      from keepsD [OF transcribe_stream_holds _ u] opened Inr have "holds (add_mset st' M) w2" by simp
      from drop_holds [OF this] t o Inr u show ?thesis by simp
    qed
  qed
  obtain a w1 where c: "stt_ensure_active env context w = (a, w1)" by fastforce
  note h1 = active_holds [OF assms(1) c]
  with assms(2) c keepsD [OF body h1] show ?thesis
    by (auto simp: stt_transcribe_def split: sum.splits prod.splits)
qed

end

end
