(* ===== verification/Native_Use.thy ===== *)
theory Native_Use
  imports Native Stream_Owner
begin

text \<open>
  How the backend of loaded engines uses the native library: whatever is called on it is a program of
  the wrapper of \<open>Sherpa\<close>, by the interface of \<open>Stream_Owner\<close> on the model's
  own recognizer streams, so that no native object is misused or leaked. \<open>backend_call\<close> has
  the calls of the trait \<open>VoiceBackend\<close> of
  \<open>crates/impossible-voice-server/src/voice_api.rs\<close> and the drop of a session.
\<close>

section \<open>Calls of the backend\<close>

text \<open>What a transport may call, on the sessions it has: the methods of \<open>VoiceBackend\<close> and the drop of a session.\<close>

datatype backend_call =
  CallTranscribe mono_pcm request_context
| CallSynthesize ustr f32 request_context
| CallStart nat request_context
| CallPush nat "u8 list"
| CallFinish nat
| CallDrop nat

fun run_call :: "('t, 'w) voice_backend \<Rightarrow> backend_call \<Rightarrow> 't list \<times> 'w \<Rightarrow> 't list \<times> 'w" where
  "run_call b (CallTranscribe audio context) (ts, w) = (ts, snd (vb_transcribe b audio context w))"
| "run_call b (CallSynthesize str speed context) (ts, w) = (ts, snd (vb_synthesize b str speed context w))"
| "run_call b (CallStart rate context) (ts, w) =
     (case vb_start b rate context w of (Inl e, w) \<Rightarrow> (ts, w) | (Inr t, w) \<Rightarrow> (ts @ [t], w))"
| "run_call b (CallPush i bytes) (ts, w) =
     (if i < length ts then (case vb_push b (ts ! i) bytes w of (r, t, w) \<Rightarrow> (ts[i := t], w)) else (ts, w))"
| "run_call b (CallFinish i) (ts, w) =
     (if i < length ts then (remove_at i ts, snd (vb_finish b (ts ! i) w)) else (ts, w))"
| "run_call b (CallDrop i) (ts, w) =
     (if i < length ts then (remove_at i ts, vb_drop b (ts ! i) w) else (ts, w))"

definition run_calls :: "('t, 'w) voice_backend \<Rightarrow> backend_call list \<Rightarrow> 't list \<times> 'w \<Rightarrow> 't list \<times> 'w" where
  "run_calls b cs x = foldl (\<lambda>x c. run_call b c x) x cs"

text \<open>
  \<open>programmed lib r t w0 M x\<close>: the native world of \<open>x\<close> is one that a program
  of the wrapper makes of \<open>w0\<close>, holding the recognizer \<open>r\<close>, the synthesizer
  \<open>t\<close> and the streams \<open>M\<close>.
\<close>

definition engine_owners :: "ptr \<Rightarrow> ptr \<Rightarrow> online_stream list \<Rightarrow> owners" where
  "engine_owners r t ss = \<lparr>ow_recognizers = [r], ow_streams = ss, ow_synthesizers = [t]\<rparr>"

definition programmed ::
  "'n native_lib \<Rightarrow> ptr \<Rightarrow> ptr \<Rightarrow> 'n native \<Rightarrow> online_stream multiset \<Rightarrow> 'v \<times> 'n native \<Rightarrow> bool"
where
  "programmed lib r t w0 M x \<longleftrightarrow>
     (\<exists>cs ss. run_program lib cs (engine_owners r t [], w0) = (engine_owners r t ss, snd x)
        \<and> mset ss = M \<and> (\<forall>s\<in>set ss. os_recognizer s = r))"

lemma run_program_append: "run_program lib (cs @ ds) x = run_program lib ds (run_program lib cs x)"
  by (induction cs arbitrary: x) simp_all

lemma programmed_step:
  assumes "programmed lib r t w0 M (v, w)"
    and "\<And>ss. mset ss = M \<Longrightarrow> (\<forall>s\<in>set ss. os_recognizer s = r) \<Longrightarrow>
      \<exists>c ss'. run_command lib c (engine_owners r t ss, w) = (engine_owners r t ss', w')
        \<and> mset ss' = M' \<and> (\<forall>s\<in>set ss'. os_recognizer s = r)"
  shows "programmed lib r t w0 M' (v', w')"
proof -
  from assms(1) obtain cs ss where 1: "run_program lib cs (engine_owners r t [], w0) = (engine_owners r t ss, w)"
    and ss: "mset ss = M" "\<forall>s\<in>set ss. os_recognizer s = r" by (auto simp: programmed_def)
  from assms(2) [OF ss] obtain c ss' where
    2: "run_command lib c (engine_owners r t ss, w) = (engine_owners r t ss', w')"
    and ss': "mset ss' = M'" "\<forall>s\<in>set ss'. os_recognizer s = r" by blast
  have "run_program lib (cs @ [c]) (engine_owners r t [], w0) = (engine_owners r t ss', w')"
    by (simp add: run_program_append 1 2)
  with ss' show ?thesis by (auto simp: programmed_def)
qed

lemma stream_index:
  assumes "mset ss = add_mset s M"
  obtains i where "i < length ss" and "ss ! i = s" and "mset (remove_at i ss) = M"
    and "\<And>u. mset (ss[i := u]) = add_mset u M"
proof -
  have "s \<in> set ss" using assms by (metis set_mset_mset union_single_eq_member)
  then obtain i where i: "i < length ss" "ss ! i = s" by (auto simp: in_set_conv_nth)
  have "mset ss = add_mset s (mset (remove_at i ss))"
    using i by (subst id_take_nth_drop [OF i(1)]) (simp add: remove_at_def)
  with assms have "mset (remove_at i ss) = M" by simp
  moreover have "mset (ss[i := u]) = add_mset u M" for u using i assms by (simp add: mset_update)
  ultimately show thesis using i that by blast
qed

lemma programmed_native: "programmed lib r t w0 M (v, w) \<Longrightarrow> programmed lib r t w0 M (v', w)"
  by (simp add: programmed_def)

lemma create_stream_recognizer: "create_stream lib r w = (Inr s, w') \<Longrightarrow> os_recognizer s = r"
  by (auto simp: create_stream_def bind_st_Inr_iff split: if_splits)

lemma finish_recognizer: "stream_finish lib (s, w) = (q, s', w') \<Longrightarrow> os_recognizer s' = os_recognizer s"
  by (auto simp: stream_finish_def Let_def split: if_splits prod.splits)

lemma engine_owners_simps [simp]:
  "ow_recognizers (engine_owners r t ss) = [r]" "ow_streams (engine_owners r t ss) = ss"
  "ow_synthesizers (engine_owners r t ss) = [t]"
  "(engine_owners r t ss)\<lparr>ow_streams := ss'\<rparr> = engine_owners r t ss'"
  by (simp_all add: engine_owners_def)

lemma programmed_open:
  assumes "programmed lib r t w0 M (v, w)" and "create_stream lib r w = (q, w')"
  shows "programmed lib r t w0 (case q of Inl e \<Rightarrow> M | Inr s \<Rightarrow> add_mset s M) (v, w')"
proof (rule programmed_step [OF assms(1)])
  fix ss :: "online_stream list"
  assume ss: "mset ss = M" "\<forall>s\<in>set ss. os_recognizer s = r"
  show "\<exists>c ss'. run_command lib c (engine_owners r t ss, w) = (engine_owners r t ss', w')
      \<and> mset ss' = (case q of Inl e \<Rightarrow> M | Inr s \<Rightarrow> add_mset s M) \<and> (\<forall>s\<in>set ss'. os_recognizer s = r)"
  proof (cases q)
    case (Inl e)
    with assms(2) ss show ?thesis
      by (intro exI [of _ "CmdStream 0"] exI [of _ ss]) (simp add: keep_def)
  next
    case (Inr s)
    with assms(2) ss create_stream_recognizer [of lib r w s w'] show ?thesis
      by (intro exI [of _ "CmdStream 0"] exI [of _ "ss @ [s]"]) (simp add: keep_def)
  qed
qed

lemma update_same: "xs ! i = x \<Longrightarrow> xs[i := x] = xs"
  by auto

text \<open>A command on one of the streams, which leaves \<open>s'\<close> in its place.\<close>

lemma programmed_at:
  assumes "programmed lib r t w0 (add_mset s M) (v, w)" and "os_recognizer s = r \<Longrightarrow> os_recognizer s' = r"
    and "\<And>i ss. i < length ss \<Longrightarrow> ss ! i = s \<Longrightarrow>
      run_command lib (f i) (engine_owners r t ss, w) = (engine_owners r t (ss[i := s']), w')"
  shows "programmed lib r t w0 (add_mset s' M) (v', w')"
proof (rule programmed_step [OF assms(1)])
  fix ss
  assume ss: "mset ss = add_mset s M" "\<forall>s\<in>set ss. os_recognizer s = r"
  from stream_index [OF ss(1)] obtain i where i: "i < length ss" "ss ! i = s"
    "\<And>u. mset (ss[i := u]) = add_mset u M" by blast
  have "os_recognizer s' = r" using assms(2) ss(2) nth_mem [OF i(1)] i(2) by blast
  with ss(2) have "\<forall>s\<in>set (ss[i := s']). os_recognizer s = r"
    by (auto dest!: subsetD [OF set_update_subset_insert])
  with assms(3) [OF i(1,2)] i(3)
  show "\<exists>c ss'. run_command lib c (engine_owners r t ss, w) = (engine_owners r t ss', w')
      \<and> mset ss' = add_mset s' M \<and> (\<forall>s\<in>set ss'. os_recognizer s = r)" by blast
qed

lemma programmed_drop:
  assumes "programmed lib r t w0 (add_mset s M) (v, w)"
  shows "programmed lib r t w0 M (native_drop lib s (v, w))"
proof -
  define w' where "w' = snd (invoke_unit (nl_destroy_stream lib (os_pointer s)) (DestroyedStream (os_pointer s)) w)"
  have "programmed lib r t w0 M (v, w')"
  proof (rule programmed_step [OF assms])
    fix ss
    assume ss: "mset ss = add_mset s M" "\<forall>s\<in>set ss. os_recognizer s = r"
    from stream_index [OF ss(1)] obtain i where i: "i < length ss" "ss ! i = s" "mset (remove_at i ss) = M"
      by blast
    have "os_recognizer s = r" using ss(2) nth_mem [OF i(1)] i(2) by blast
    then have "run_command lib (CmdDropStream i) (engine_owners r t ss, w)
        = (engine_owners r t (remove_at i ss), w')"
      using i by (simp add: drop_stream_def release_recognizer_def referenced_def w'_def bind_st_def
          invoke_unit_def invoke_def)
    moreover have "\<forall>s\<in>set (remove_at i ss). os_recognizer s = r" using ss(2) set_remove_at(2) [of i ss] by blast
    ultimately show "\<exists>c ss'. run_command lib c (engine_owners r t ss, w) = (engine_owners r t ss', w')
      \<and> mset ss' = M \<and> (\<forall>s\<in>set ss'. os_recognizer s = r)" using i(3) by blast
  qed
  then show ?thesis by (simp add: native_drop_def w'_def)
qed

interpretation native: stream_owner "native_stt_env lib r look" "programmed lib r t w0"
  for lib :: "'n native_lib" and r t and look :: "'v \<Rightarrow> (bool \<times> nat) \<times> 'v" and w0
proof (unfold_locales, unfold native_stt_env_def stt_env.simps)
  fix M and x x' :: "'v \<times> 'n native" and s s' :: online_stream
  obtain v w where x: "x = (v, w)" by fastforce
  show "programmed lib r t w0 M (snd (look_at look x))" if "programmed lib r t w0 M x"
    using that by (auto simp: x look_at_def split: prod.split intro: programmed_native)
  show "programmed lib r t w0 (case q of Inl e \<Rightarrow> M | Inr s \<Rightarrow> add_mset s M) x'"
    if "programmed lib r t w0 M x" "native_stream lib r x = (q, x')" for q
  proof -
    obtain p w' where c: "create_stream lib r w = (p, w')" by fastforce
    with that(2) have "q = map_err (\<lambda>_. SttEngine) p" "x' = (v, w')"
      by (simp_all add: x native_stream_def on_native_def)
    with programmed_open [OF that(1) [unfolded x] c] show ?thesis by (cases p) simp_all
  qed
  show "programmed lib r t w0 (add_mset s' M) x'"
    if "programmed lib r t w0 (add_mset s M) x" "native_accept lib s xs x = (u, s', x')" for xs u
  proof -
    from that(2) have "s' = s" "x' = (v, snd (stream_accept lib s xs w))"
      by (auto simp: x native_accept_def on_native_def split: prod.splits)
    with programmed_at [OF that(1) [unfolded x], of s "\<lambda>i. CmdAccept i xs" "snd (stream_accept lib s xs w)" v]
    show ?thesis by (simp add: update_same)
  qed
  show "programmed lib r t w0 (add_mset s M) x'"
    if "programmed lib r t w0 (add_mset s M) x" "native_interim lib s x = (q, x')" for q
  proof -
    from that(2) have "x' = (v, snd (stream_text lib s w))"
      by (auto simp: x native_interim_def on_native_def split: prod.splits)
    with programmed_at [OF that(1) [unfolded x], of s "\<lambda>i. CmdText i" "snd (stream_text lib s w)" v]
    show ?thesis by (simp add: update_same)
  qed
  show "programmed lib r t w0 (add_mset s' M) x'"
    if "programmed lib r t w0 (add_mset s M) x" "native_finish lib s x = (q, s', x')" for q
  proof -
    obtain p u w' where f: "stream_finish lib (s, w) = (p, u, w')" by (metis surj_pair)
    with that(2) have "s' = u" "x' = (v, w')" by (simp_all add: x native_finish_def)
    with programmed_at [OF that(1) [unfolded x], of u "\<lambda>i. CmdFinish i" w' v] finish_recognizer [OF f] f
    show ?thesis by simp
  qed
  show "programmed lib r t w0 M (native_drop lib s x)" if "programmed lib r t w0 (add_mset s M) x"
    using programmed_drop that by (simp add: x)
qed

lemma programmed_synthesize:
  assumes "programmed lib r t w0 M x"
    and "tts_synthesize (native_tts_env lib t look) limits str speed context (l, x) = (q, l', x')"
  shows "programmed lib r t w0 M x'"
proof -
  have look: "keeps (programmed lib r t w0 M) (tts_ensure_active (native_tts_env lib t look) context)"
    by (rule keepsI) (auto simp: tts_ensure_active_def native_tts_env_def look_at_def
      split: prod.splits intro: programmed_native)
  have generate: "keeps (programmed lib r t w0 M) (native_generate lib t str speed n)" for n
  proof (rule keepsI)
    fix x q x'
    assume x: "programmed lib r t w0 M x" and g: "native_generate lib t str speed n x = (q, x')"
    obtain v w where vw: "x = (v, w)" by fastforce
    with g have x': "x' = (v, snd (generate lib t str speed n w))"
      by (auto simp: native_generate_def on_native_def split: prod.splits)
    have "programmed lib r t w0 M (v, snd (generate lib t str speed n w))"
      by (rule programmed_step [OF x [unfolded vw]], intro exI [of _ "CmdGenerate 0 str speed n"] exI) simp
    with x' show "programmed lib r t w0 M x'" by simp
  qed
  have body: "keeps (programmed lib r t w0 M) (synthesize_body (native_tts_env lib t look) limits str speed context)"
    unfolding synthesize_body_def by (intro keeping look) (simp add: native_tts_env_def generate)
  obtain a x1 where c: "tts_ensure_active (native_tts_env lib t look) context x = (a, x1)" by (metis surj_pair)
  note h1 = keepsD [OF look assms(1) c]
  show ?thesis
    using assms c h1 keepsD [OF body h1]
    by (auto simp: tts_synthesize_def split: if_splits sum.splits prod.splits)
qed

lemma mset_map_at:
  assumes "i < length ts"
  shows "image_mset f (mset ts) = add_mset (f (ts ! i)) (image_mset f (mset (remove_at i ts)))"
    and "image_mset f (mset (ts[i := u])) = add_mset (f u) (image_mset f (mset (remove_at i ts)))"
proof -
  have split: "mset ts = add_mset (ts ! i) (mset (remove_at i ts))"
    using assms by (subst id_take_nth_drop [OF assms]) (simp add: remove_at_def)
  then show "image_mset f (mset ts) = add_mset (f (ts ! i)) (image_mset f (mset (remove_at i ts)))" by simp
  show "image_mset f (mset (ts[i := u])) = add_mset (f u) (image_mset f (mset (remove_at i ts)))"
    using assms split by (simp add: mset_update)
qed

lemma run_call_programmed:
  fixes look :: "'v \<Rightarrow> (bool \<times> nat) \<times> 'v" and lib :: "'n native_lib"
  assumes p: "programmed lib (ve_recognizer e) (ve_synthesizer e) w0 (mset (map ss_stream ts)) (es_world st)"
    and run: "run_call (loaded_backend lib look e) c (ts, st) = (ts', st')"
  shows "programmed lib (ve_recognizer e) (ve_synthesizer e) w0 (mset (map ss_stream ts')) (es_world st')"
proof (cases c)
  case (CallTranscribe audio "context")
  with run native.stt_transcribe_holds [OF p] show ?thesis
    by (auto simp: loaded_backend_def engines_backend_def engines_transcribe_def split: prod.splits)
next
  case (CallSynthesize str speed "context")
  with run programmed_synthesize [OF p] show ?thesis
    by (auto simp: loaded_backend_def engines_backend_def engines_synthesize_def split: prod.splits)
next
  case (CallStart rate "context")
  obtain r l' x where s: "start_stream (native_stt_env lib (ve_recognizer e) look) (ve_stt e) rate context
      (es_stt st, es_world st) = (r, l', x)" by (metis surj_pair)
  from native.start_stream_holds [OF p s] CallStart run s show ?thesis
    by (cases r) (auto simp: loaded_backend_def engines_backend_def engines_start_def)
next
  case (CallPush i bytes)
  show ?thesis
  proof (cases "i < length ts")
    case True
    let ?t = "(ts ! i)\<lparr>ss_world := es_world st\<rparr>"
    obtain r t' where q: "push_pcm16 (native_stt_env lib (ve_recognizer e) look) bytes ?t = (r, t')" by fastforce
    have "keeps (\<lambda>s. programmed lib (ve_recognizer e) (ve_synthesizer e) w0
        (add_mset (ss_stream s) (mset (map ss_stream (remove_at i ts)))) (ss_world s))
      (push_pcm16 (native_stt_env lib (ve_recognizer e) look) bytes)" by (rule native.push_pcm16_holds)
    from keepsD [OF this _ q] p
    have "programmed lib (ve_recognizer e) (ve_synthesizer e) w0
        (add_mset (ss_stream t') (mset (map ss_stream (remove_at i ts)))) (ss_world t')"
      by (simp add: mset_map_at(1) [OF True])
    with CallPush run True q show ?thesis
      by (auto simp: loaded_backend_def engines_backend_def engines_push_def mset_map_at(2) [OF True])
  next
    case False
    with CallPush run p show ?thesis by simp
  qed
next
  case (CallFinish i)
  show ?thesis
  proof (cases "i < length ts")
    case True
    let ?t = "(ts ! i)\<lparr>ss_world := es_world st\<rparr>"
    obtain r t' where q: "session_finish (native_stt_env lib (ve_recognizer e) look) ?t = (r, t')" by fastforce
    have "keeps (\<lambda>s. programmed lib (ve_recognizer e) (ve_synthesizer e) w0
        (add_mset (ss_stream s) (mset (map ss_stream (remove_at i ts)))) (ss_world s))
      (session_finish (native_stt_env lib (ve_recognizer e) look))" by (rule native.session_finish_holds)
    from keepsD [OF this _ q] p
    have "programmed lib (ve_recognizer e) (ve_synthesizer e) w0
        (add_mset (ss_stream t') (mset (map ss_stream (remove_at i ts)))) (ss_world t')"
      by (simp add: mset_map_at(1) [OF True])
    from native.drop_holds [OF this, of look] CallFinish run True q show ?thesis
      by (auto simp: loaded_backend_def engines_backend_def engines_finish_def engines_drop_def)
  next
    case False
    with CallFinish run p show ?thesis by simp
  qed
next
  case (CallDrop i)
  show ?thesis
  proof (cases "i < length ts")
    case True
    from p have "programmed lib (ve_recognizer e) (ve_synthesizer e) w0
        (add_mset (ss_stream (ts ! i)) (mset (map ss_stream (remove_at i ts)))) (es_world st)"
      by (simp add: mset_map_at(1) [OF True])
    from native.drop_holds [OF this, of look] CallDrop run True show ?thesis
      by (auto simp: loaded_backend_def engines_backend_def engines_drop_def)
  next
    case False
    with CallDrop run p show ?thesis by simp
  qed
qed

lemma run_calls_programmed:
  fixes look :: "'v \<Rightarrow> (bool \<times> nat) \<times> 'v" and lib :: "'n native_lib"
  shows "programmed lib (ve_recognizer e) (ve_synthesizer e) w0 (mset (map ss_stream ts)) (es_world st) \<Longrightarrow>
    run_calls (loaded_backend lib look e) cs (ts, st) = (ts', st') \<Longrightarrow>
    programmed lib (ve_recognizer e) (ve_synthesizer e) w0 (mset (map ss_stream ts')) (es_world st')"
proof (induction cs arbitrary: ts st)
  case (Cons c cs)
  obtain ts1 st1 where c: "run_call (loaded_backend lib look e) c (ts, st) = (ts1, st1)" by fastforce
  from Cons.IH [OF run_call_programmed [OF Cons.prems(1) c]] Cons.prems(2) c show ?case
    by (simp add: run_calls_def)
qed (simp add: run_calls_def)

text \<open>What is alive in the library when the engines have been loaded.\<close>

definition engine_live :: "voice_engines \<Rightarrow> live" where
  "engine_live e = nothing_live\<lparr>lv_online := {ve_recognizer e}, lv_tts := {ve_synthesizer e}\<rparr>"

lemma engine_live_owned: "owned (engine_owners (ve_recognizer e) (ve_synthesizer e) []) (engine_live e)"
  by (simp add: owned_def engine_live_def nothing_live_def referenced_def engine_owners_def)

lemma engine_live_only: "owned (engine_owners (ve_recognizer e) (ve_synthesizer e) []) L \<Longrightarrow> L = engine_live e"
  by (cases L) (simp add: owned_def engine_live_def nothing_live_def referenced_def engine_owners_def)

section \<open>The property\<close>

text \<open>
  C3: Whatever the transports call on the backend of loaded engines, in whatever order and whatever
  fails (transcriptions, syntheses, any number of sessions started, fed, finished or dropped), is a
  program of the wrapper: every native call is permitted, as long as the library has not returned
  an object that is alive; the native streams alive are exactly those of the sessions that are still
  held, one each; and when no session is left, nothing is alive but the recognizer and the
  synthesizer.
\<close>

theorem backend_uses_library_safely:
  fixes look :: "'v \<Rightarrow> (bool \<times> nat) \<times> 'v" and lib :: "'n native_lib"
  assumes "run_calls (loaded_backend lib look e) uses ([], loaded_state e (v, w)) = (ts, st)"
  shows "\<exists>cs ss. nt_calls (snd (es_world st)) = nt_calls w @ cs \<and> safe_trace (engine_live e) cs
    \<and> mset ss = mset (map ss_stream ts)
    \<and> (fresh_trace (engine_live e) cs \<longrightarrow>
        owned (engine_owners (ve_recognizer e) (ve_synthesizer e) ss) (live_afters (engine_live e) cs)
        \<and> (ts = [] \<longrightarrow> live_afters (engine_live e) cs = engine_live e))"
proof -
  have "programmed lib (ve_recognizer e) (ve_synthesizer e) w (mset (map ss_stream [])) (v, w)"
    by (auto simp: programmed_def intro: exI [of _ "[]"])
  with run_calls_programmed [OF _ assms]
  have "programmed lib (ve_recognizer e) (ve_synthesizer e) w (mset (map ss_stream ts)) (es_world st)"
    by (simp add: loaded_state_def)
  then obtain program ss where p: "run_program lib program (engine_owners (ve_recognizer e) (ve_synthesizer e) [], w)
      = (engine_owners (ve_recognizer e) (ve_synthesizer e) ss, snd (es_world st))"
    and ss: "mset ss = mset (map ss_stream ts)" by (auto simp: programmed_def)
  from run_program_safe [OF engine_live_owned [of e], of w lib program] p obtain cs where
    "nt_calls (snd (es_world st)) = nt_calls w @ cs" "safe_trace (engine_live e) cs"
    "fresh_trace (engine_live e) cs \<longrightarrow>
      owned (engine_owners (ve_recognizer e) (ve_synthesizer e) ss) (live_afters (engine_live e) cs)"
    by (auto simp: command_safe_def)
  with ss engine_live_only show ?thesis by fastforce
qed

definition silent_engines :: voice_engines where
  "silent_engines = \<lparr>ve_recognizer = 1, ve_stt = echo_engine, ve_stt_limiter = \<lparr>lim_active = 0, lim_maximum = 2\<rparr>,
     ve_synthesizer = 2, ve_tts = tts_limits_default, ve_tts_limiter = \<lparr>lim_active = 0, lim_maximum = 2\<rparr>\<rparr>"

lemma silent_start:
  "\<exists>s l'. start_stream (native_stt_env silent_lib 1 live_look) echo_engine 16000 echo_context
      (\<lparr>lim_active = 0, lim_maximum = 2\<rparr>, (), \<lparr>nt_state = 2, nt_calls = []\<rparr>)
      = (Inr s, l', (), \<lparr>nt_state = 3, nt_calls = [CreatedStream 1 3]\<rparr>) \<and> os_pointer (ss_stream s) = 3"
proof -
  have "create_stream silent_lib 1 \<lparr>nt_state = 2, nt_calls = []\<rparr>
      = (Inr \<lparr>os_recognizer = 1, os_pointer = 3, os_finished = False\<rparr>, \<lparr>nt_state = 3, nt_calls = [CreatedStream 1 3]\<rparr>)"
    by (simp add: create_stream_def lock_gate_def invoke_def silent_lib_def)
  then show ?thesis
    using vad_default_accepted
    by (simp add: start_stream_def stt_ensure_active_def native_stt_env_def look_at_def live_look_def
        echo_context_def remaining_def stt_acquire_def limiter_acquire_free native_stream_def on_native_def
        incremental_new_def streaming_resampler_new_def validate_rate_def supported_sample_rates_def
        engine_sample_rate_def echo_engine_def)
qed

lemma silent_uses:
  "\<exists>st. run_calls (loaded_backend silent_lib live_look silent_engines) [CallStart 16000 echo_context, CallDrop 0]
      ([], loaded_state silent_engines ((), \<lparr>nt_state = 2, nt_calls = []\<rparr>)) = ([], st)
    \<and> nt_calls (snd (es_world st)) = [CreatedStream 1 3, DestroyedStream 3]"
  using silent_start
  by (auto simp: run_calls_def loaded_backend_def loaded_state_def engines_backend_def engines_start_def
      engines_drop_def silent_engines_def remove_at_def native_stt_env_def [THEN arg_cong [where f = env_drop]]
      native_drop_def invoke_unit_def invoke_def)

theorem backend_uses_library_safely_witness:
  "safe_trace (engine_live silent_engines) [CreatedStream 1 3, DestroyedStream 3]
   \<and> live_afters (engine_live silent_engines) [CreatedStream 1 3, DestroyedStream 3] = engine_live silent_engines"
proof -
  obtain st where 1: "run_calls (loaded_backend silent_lib live_look silent_engines)
      [CallStart 16000 echo_context, CallDrop 0]
      ([], loaded_state silent_engines ((), \<lparr>nt_state = 2, nt_calls = []\<rparr>)) = ([], st)"
    and 2: "nt_calls (snd (es_world st)) = [CreatedStream 1 3, DestroyedStream 3]"
    using silent_uses by blast
  have "fresh_trace (engine_live silent_engines) [CreatedStream 1 3, DestroyedStream 3]"
    by (simp add: engine_live_def nothing_live_def)
  with backend_uses_library_safely [OF 1] 2 show ?thesis by fastforce
qed

end
