(* ===== verification/Server.thy ===== *)
theory Server
  imports Policy "HOL-Library.Sublist"
begin

text \<open>
  The assembled server of \<open>crates/impossible-voice-server/src/lib.rs\<close> apart from its
  admission policy: the workload seam, readiness, the control-plane handlers with their counter,
  routing, and the layer that gives framework failures a public JSON form. Routing is axum's: a known
  path with a method without a handler is answered 405 with an empty body, and a handler for
  \<open>GET\<close> serves \<open>HEAD\<close> too, whose response loses its body at the end. The voice
  routes of a loaded backend are a function of the request.
\<close>

section \<open>Workloads and assembly\<close>

text \<open>\<open>PlaceholderWorkload\<close>, and \<open>VoiceEngineWorkload\<close> with or without a backend.\<close>

datatype workload = Placeholder | VoiceEngine bool

fun component_name :: "workload \<Rightarrow> string" where
  "component_name Placeholder = ''placeholder''"
| "component_name (VoiceEngine loaded) = ''voice_engines''"

record http_request =
  hq_method :: string
  hq_path :: string

record app_state =
  ap_health :: health_registry
  ap_control_requests :: nat

definition set_ready :: "string \<Rightarrow> bool \<Rightarrow> health_registry \<Rightarrow> health_registry" where
  "set_ready component b h = snd (set_component_ready component b h)"

definition empty_response :: "nat \<Rightarrow> response" where
  "empty_response status =
     \<lparr>re_status = status, re_content_type = None, re_request_id = None, re_body = OtherBody []\<rparr>"

text \<open>\<open>axum::routing::get\<close>: the handler runs for \<open>GET\<close> and \<open>HEAD\<close>.\<close>

definition gets :: "http_request \<Rightarrow> bool" where
  "gets q \<longleftrightarrow> hq_method q \<in> {''GET'', ''HEAD''}"

definition get_route :: "http_request \<Rightarrow> response \<Rightarrow> response" where
  "get_route q r = (if gets q then r else empty_response 405)"

definition strip_head :: "http_request \<Rightarrow> response \<Rightarrow> response" where
  "strip_head q r = (if hq_method q = ''HEAD'' then r\<lparr>re_body := OtherBody []\<rparr> else r)"

text \<open>The routes a workload installs; setting the readiness is part of installing them.\<close>

fun workload_ready :: "workload \<Rightarrow> bool" where
  "workload_ready Placeholder = False"
| "workload_ready (VoiceEngine loaded) = loaded"

fun workload_route ::
  "(http_request \<Rightarrow> response option) \<Rightarrow> workload \<Rightarrow> http_request \<Rightarrow> response option"
where
  "workload_route voice Placeholder q =
     (if hq_path q = ''/workload''
      then Some (get_route q (public_error 501 ''not_implemented''
        ''replace PlaceholderWorkload with a service implementation''))
      else None)"
| "workload_route voice (VoiceEngine loaded) q =
     (if loaded then voice q
      else if hq_path q = ''/workload''
      then Some (get_route q (public_error 503 ''engine_unavailable''
        ''local voice engines are unavailable''))
      else None)"

definition app_new :: "workload \<Rightarrow> app_state" where
  "app_new w =
     (let health = register_component (component_name w) health_new;
          health = set_ready (component_name w) (workload_ready w) health
      in \<lparr>ap_health = set_process Running health, ap_control_requests = 0\<rparr>)"

section \<open>The control plane\<close>

definition increment :: "app_state \<Rightarrow> app_state" where
  "increment a = a\<lparr>ap_control_requests := (ap_control_requests a + 1) mod 2 ^ 64\<rparr>"

definition metric_name :: string where
  "metric_name = ''impossible_voice_control_requests_total''"

definition render :: "nat \<Rightarrow> string" where
  "render n =
     ''# HELP '' @ metric_name @ '' Control-plane HTTP requests.'' @ [CHR 0x0A]
     @ ''# TYPE '' @ metric_name @ '' counter'' @ [CHR 0x0A]
     @ metric_name @ '' '' @ decimal n @ [CHR 0x0A]"

definition json_response :: "nat \<Rightarrow> json \<Rightarrow> response" where
  "json_response status body =
     \<lparr>re_status = status, re_content_type = Some ''application/json'', re_request_id = None,
      re_body = JsonBody body\<rparr>"

abbreviation ready_now :: "app_state \<Rightarrow> bool" where
  "ready_now a \<equiv> hs_ready (health_snapshot (ap_health a))"

definition handle_root :: "app_state \<Rightarrow> response" where
  "handle_root a = json_response 200 (JObj [(''name'', JStr ''impossible-voice''), (''status'', JStr ''ok'')])"

definition handle_version :: "string \<Rightarrow> app_state \<Rightarrow> response" where
  "handle_version version a =
     json_response 200 (JObj [(''name'', JStr ''impossible-voice''), (''version'', JStr version)])"

definition handle_capabilities :: "app_state \<Rightarrow> response" where
  "handle_capabilities a =
     (let ready = JBool (ready_now a) in
      json_response 200 (JObj
        [(''ready'', ready), (''speech_to_text'', ready), (''text_to_speech'', ready),
         (''realtime_websocket'', ready), (''grpc'', ready), (''mcp'', ready),
         (''offline_after_setup'', JBool True)]))"

definition model_entries :: "json list" where
  "model_entries =
     [JObj [(''id'', JStr ''impossible-voice-stt''), (''object'', JStr ''model''),
            (''owned_by'', JStr ''local''), (''status'', JStr ''ready'')],
      JObj [(''id'', JStr ''impossible-voice-tts''), (''object'', JStr ''model''),
            (''owned_by'', JStr ''local''), (''voice'', JStr ''kristin''), (''status'', JStr ''ready'')]]"

definition handle_models :: "app_state \<Rightarrow> response" where
  "handle_models a =
     json_response 200 (JObj
       [(''object'', JStr ''list''), (''ready'', JBool (ready_now a)),
        (''data'', JArr (if ready_now a then model_entries else []))])"

text \<open>\<open>HealthBody\<close>: the reason is left out when there is none.\<close>

definition health_body :: "string \<Rightarrow> string option \<Rightarrow> json" where
  "health_body status reason =
     JObj ((''status'', JStr status) # (case reason of None \<Rightarrow> [] | Some r \<Rightarrow> [(''reason'', JStr r)]))"

definition handle_live :: "app_state \<Rightarrow> response" where
  "handle_live a =
     (let live = hs_live (health_snapshot (ap_health a)) in
      json_response (if live then 200 else 503)
        (health_body (if live then ''live'' else ''stopped'') None))"

definition handle_ready :: "app_state \<Rightarrow> response" where
  "handle_ready a =
     (let snapshot = health_snapshot (ap_health a) in
      json_response (if hs_ready snapshot then 200 else 503)
        (health_body (if hs_ready snapshot then ''ready'' else ''not_ready'')
          (map_option readiness_reason_str (hs_reason snapshot))))"

definition handle_metrics :: "app_state \<Rightarrow> response" where
  "handle_metrics a =
     \<lparr>re_status = 200, re_content_type = Some ''text/plain; version=0.0.4'', re_request_id = None,
      re_body = OtherBody (map of_char (render (ap_control_requests a)))\<rparr>"

definition control_handler :: "string \<Rightarrow> string \<Rightarrow> (app_state \<Rightarrow> response) option" where
  "control_handler version p = map_of
     [(''/'', handle_root), (''/health/live'', handle_live), (''/health/ready'', handle_ready),
      (''/metrics'', handle_metrics), (''/version'', handle_version version),
      (''/v1/capabilities'', handle_capabilities), (''/v1/models'', handle_models)] p"

section \<open>Routing and failures\<close>

definition not_found :: response where
  "not_found = public_error 404 ''invalid_request'' ''the requested path does not exist''"

definition is_json :: "response \<Rightarrow> bool" where
  "is_json r = (case re_content_type r of None \<Rightarrow> False | Some t \<Rightarrow> prefix ''application/json'' t)"

definition normalize_public_failures :: "response \<Rightarrow> response" where
  "normalize_public_failures r =
     (if is_json r then r
      else
        let normalized =
              (if re_status r = 400 \<or> re_status r = 422
               then Some (public_error 400 ''invalid_request'' ''the request could not be decoded'')
               else if re_status r = 415
               then Some (public_error 415 ''invalid_request'' ''the request media type is unsupported'')
               else if re_status r = 405
               then Some (public_error 405 ''invalid_request'' ''the request method is not supported'')
               else if re_status r = 413
               then Some (public_error 413 ''invalid_request''
                 ''the request body exceeds the configured limit'')
               else None)
        in case normalized of
             None \<Rightarrow> r
           | Some n \<Rightarrow> n\<lparr>re_request_id := re_request_id r\<rparr>)"

text \<open>One request through the router and the outermost layer.\<close>

definition serve_request ::
  "string \<Rightarrow> (http_request \<Rightarrow> response option) \<Rightarrow> workload \<Rightarrow> http_request \<Rightarrow> app_state \<Rightarrow>
    response \<times> app_state"
where
  "serve_request version voice w q a =
     (case control_handler version (hq_path q) of
        Some handler \<Rightarrow>
          if gets q
          then let a = increment a in (strip_head q (normalize_public_failures (handler a)), a)
          else (normalize_public_failures (empty_response 405), a)
      | None \<Rightarrow>
          (strip_head q (normalize_public_failures
             (case workload_route voice w q of None \<Rightarrow> not_found | Some r \<Rightarrow> r)), a))"

fun serve_requests ::
  "string \<Rightarrow> (http_request \<Rightarrow> response option) \<Rightarrow> workload \<Rightarrow> http_request list \<Rightarrow> app_state \<Rightarrow>
    response list \<times> app_state"
where
  "serve_requests version voice w [] a = ([], a)"
| "serve_requests version voice w (q # qs) a =
     (case serve_request version voice w q a of
        (r, a) \<Rightarrow> case serve_requests version voice w qs a of (rs, a) \<Rightarrow> (r # rs, a))"

section \<open>Facts\<close>

definition control_request :: "http_request \<Rightarrow> bool" where
  "control_request q \<longleftrightarrow> control_handler [] (hq_path q) \<noteq> None \<and> gets q"

lemma control_handler_None: "control_handler version p = None \<longleftrightarrow> control_handler [] p = None"
  by (simp add: control_handler_def)

lemma serve_request_state:
  "snd (serve_request version voice w q a) = (if control_request q then increment a else a)"
  using control_handler_None [of version "hq_path q"]
  by (auto simp: serve_request_def control_request_def Let_def split: option.split)

lemma serve_requests_state:
  "snd (serve_requests version voice w qs a)
    = a\<lparr>ap_control_requests := (ap_control_requests a + length (filter control_request qs)) mod 2 ^ 64\<rparr>"
  if "ap_control_requests a < 2 ^ 64"
  using that
proof (induction qs arbitrary: a)
  case Nil
  then show ?case by simp
next
  case (Cons q qs)
  obtain r b where b: "serve_request version voice w q a = (r, b)" by fastforce
  with serve_request_state [of version voice w q a] have "b = (if control_request q then increment a else a)"
    by simp
  moreover from this Cons.prems have "ap_control_requests b < 2 ^ 64" by (simp add: increment_def)
  moreover have "(Suc c mod 2 ^ 64 + k) mod 2 ^ 64 = Suc (c + k) mod 2 ^ 64" for c k :: nat
    by (simp add: mod_add_left_eq)
  ultimately show ?case
    using Cons.IH [of b] b by (auto simp: increment_def case_prod_beta)
qed

lemma app_new_health:
  "health_snapshot (set_process p (ap_health (app_new w))) =
     \<lparr>hs_live = (p \<noteq> ProcStopped), hs_ready = (p = Running \<and> workload_ready w),
      hs_reason = (if p \<noteq> Running then Some ProcessNotRunning
        else if workload_ready w then None else Some ComponentUnavailable)\<rparr>"
  by (simp add: app_new_def health_snapshot_def set_process_def set_ready_def set_component_ready_def
      register_component_def health_new_def Let_def)

section \<open>Properties\<close>

text \<open>
  A probe: \<open>HEAD\<close> on a control path gets what \<open>GET\<close> gets, without the body,
  and counts the same.
\<close>

lemma head_like_get:
  assumes "control_handler version path = Some handler"
  shows "serve_request version voice w \<lparr>hq_method = ''HEAD'', hq_path = path\<rparr> a
    = map_prod (\<lambda>r. r\<lparr>re_body := OtherBody []\<rparr>) id
        (serve_request version voice w \<lparr>hq_method = ''GET'', hq_path = path\<rparr> a)"
  using assms by (simp add: serve_request_def gets_def strip_head_def Let_def)

lemma control_answer:
  assumes "control_handler version path = Some handler" and "\<And>a. re_status (handler a) \<in> {200, 503}"
    and "gets q" and "hq_path q = path"
  shows "serve_request version voice w q a = (strip_head q (handler (increment a)), increment a)"
proof -
  have "normalize_public_failures (handler (increment a)) = handler (increment a)"
    using assms(2) [of "increment a"] by (auto simp: normalize_public_failures_def)
  with assms show ?thesis by (simp add: serve_request_def Let_def)
qed

lemma control_answers:
  assumes "gets q"
  shows "hq_path q = ''/health/live'' \<Longrightarrow> fst (serve_request version voice w q a) = strip_head q (handle_live (increment a))"
    "hq_path q = ''/health/ready'' \<Longrightarrow> fst (serve_request version voice w q a) = strip_head q (handle_ready (increment a))"
    "hq_path q = ''/v1/models'' \<Longrightarrow> fst (serve_request version voice w q a) = strip_head q (handle_models (increment a))"
    "hq_path q = ''/v1/capabilities'' \<Longrightarrow>
       fst (serve_request version voice w q a) = strip_head q (handle_capabilities (increment a))"
    "hq_path q = ''/metrics'' \<Longrightarrow> fst (serve_request version voice w q a) = strip_head q (handle_metrics (increment a))"
proof -
  have st: "re_status (handle_live c) \<in> {200, 503}" "re_status (handle_ready c) \<in> {200, 503}"
    "re_status (handle_models c) \<in> {200, 503}" "re_status (handle_capabilities c) \<in> {200, 503}"
    "re_status (handle_metrics c) \<in> {200, 503}" for c
    by (simp_all add: handle_live_def handle_ready_def handle_models_def handle_capabilities_def
        handle_metrics_def json_response_def Let_def)
  have paths: "control_handler version ''/health/live'' = Some handle_live"
    "control_handler version ''/health/ready'' = Some handle_ready"
    "control_handler version ''/v1/models'' = Some handle_models"
    "control_handler version ''/v1/capabilities'' = Some handle_capabilities"
    "control_handler version ''/metrics'' = Some handle_metrics"
    by (simp_all add: control_handler_def)
  show "hq_path q = ''/health/live'' \<Longrightarrow> fst (serve_request version voice w q a) = strip_head q (handle_live (increment a))"
    using control_answer [OF paths(1) st(1) assms] by simp
  show "hq_path q = ''/health/ready'' \<Longrightarrow> fst (serve_request version voice w q a) = strip_head q (handle_ready (increment a))"
    using control_answer [OF paths(2) st(2) assms] by simp
  show "hq_path q = ''/v1/models'' \<Longrightarrow> fst (serve_request version voice w q a) = strip_head q (handle_models (increment a))"
    using control_answer [OF paths(3) st(3) assms] by simp
  show "hq_path q = ''/v1/capabilities'' \<Longrightarrow>
      fst (serve_request version voice w q a) = strip_head q (handle_capabilities (increment a))"
    using control_answer [OF paths(4) st(4) assms] by simp
  show "hq_path q = ''/metrics'' \<Longrightarrow> fst (serve_request version voice w q a) = strip_head q (handle_metrics (increment a))"
    using control_answer [OF paths(5) st(5) assms] by simp
qed

text \<open>
  C31: the control plane tells the truth. After any requests at all, whatever their methods and paths, a
  \<open>GET\<close> is answered so: live until the process stops; ready, with capabilities and models
  to match, exactly while the process runs and the workload installed itself as ready; and the metrics
  count the control-plane requests answered, \<open>GET\<close> and \<open>HEAD\<close> alike, modulo
  \<open>2 ^ 64\<close>, this one included, and no other request. A \<open>HEAD\<close> on these paths
  is answered with the same status and counted the same, without a body.
\<close>

theorem control_plane_consistent:
  "let a = snd (serve_requests version voice w qs (app_new w));
       b = a\<lparr>ap_health := set_process p (ap_health a)\<rparr>;
       up = (p = Running \<and> workload_ready w);
       answer = (\<lambda>method path. fst (serve_request version voice w \<lparr>hq_method = method, hq_path = path\<rparr> b))
   in length (fst (serve_requests version voice w qs (app_new w))) = length qs
    \<and> re_status (answer ''GET'' ''/health/live'') = (if p = ProcStopped then 503 else 200)
    \<and> re_status (answer ''GET'' ''/health/ready'') = (if up then 200 else 503)
    \<and> re_body (answer ''GET'' ''/v1/models'') = JsonBody (JObj [(''object'', JStr ''list''), (''ready'', JBool up),
        (''data'', JArr (if up then model_entries else []))])
    \<and> (\<exists>rest. re_body (answer ''GET'' ''/v1/capabilities'') = JsonBody (JObj ((''ready'', JBool up) # rest))
        \<and> list_all (\<lambda>(k, v). v = JBool (if k = ''offline_after_setup'' then True else up)) rest)
    \<and> answer ''GET'' ''/metrics''
        = \<lparr>re_status = 200, re_content_type = Some ''text/plain; version=0.0.4'', re_request_id = None,
           re_body = OtherBody (map of_char (render
             ((length (filter control_request qs) + 1) mod 2 ^ 64)))\<rparr>
    \<and> list_all (\<lambda>path. answer ''HEAD'' path = (answer ''GET'' path)\<lparr>re_body := OtherBody []\<rparr>
          \<and> control_request \<lparr>hq_method = ''HEAD'', hq_path = path\<rparr>)
        [''/'', ''/health/live'', ''/health/ready'', ''/metrics'', ''/version'', ''/v1/capabilities'', ''/v1/models'']"
proof -
  define a where "a = snd (serve_requests version voice w qs (app_new w))"
  have zero: "ap_control_requests (app_new w) = 0" by (simp add: app_new_def Let_def)
  have a: "a = (app_new w)\<lparr>ap_control_requests := length (filter control_request qs) mod 2 ^ 64\<rparr>"
    using serve_requests_state [of "app_new w" version voice w qs] by (simp add: a_def zero)
  have len: "length (fst (serve_requests version voice w qs x)) = length qs" for x
    by (induction qs arbitrary: x) (simp_all add: case_prod_beta)
  have g: "gets \<lparr>hq_method = ''GET'', hq_path = path\<rparr>" "strip_head \<lparr>hq_method = ''GET'', hq_path = path\<rparr> r = r"
    for path r by (simp_all add: gets_def strip_head_def)
  have head: "list_all (\<lambda>path. fst (serve_request version voice w \<lparr>hq_method = ''HEAD'', hq_path = path\<rparr> c)
          = (fst (serve_request version voice w \<lparr>hq_method = ''GET'', hq_path = path\<rparr> c))\<lparr>re_body := OtherBody []\<rparr>
          \<and> control_request \<lparr>hq_method = ''HEAD'', hq_path = path\<rparr>)
        [''/'', ''/health/live'', ''/health/ready'', ''/metrics'', ''/version'', ''/v1/capabilities'', ''/v1/models'']" for c
  proof -
    have "fst (serve_request version voice w \<lparr>hq_method = ''HEAD'', hq_path = path\<rparr> c)
        = (fst (serve_request version voice w \<lparr>hq_method = ''GET'', hq_path = path\<rparr> c))\<lparr>re_body := OtherBody []\<rparr>"
      if "control_handler version path \<noteq> None" for path
      using that head_like_get [of version path] by auto
    then show ?thesis by (simp add: control_handler_def control_request_def gets_def)
  qed
  show ?thesis
    unfolding a_def [symmetric] Let_def
    by (intro conjI head)
      (auto simp: len control_answers [OF g(1)] g(2) a handle_live_def handle_ready_def handle_models_def
        handle_capabilities_def app_new_health json_response_def increment_def mod_Suc_eq handle_metrics_def
        Let_def)
qed

text \<open>
  Framework failures become public ones. Whatever a route answered, the outermost layer leaves a
  JSON response alone, gives every other response with a rejection status a JSON error body with a
  code, keeps the request identifier and every other response, and is idempotent; so a client
  never sees a bare 400, 405, 413, 415 or 422.
\<close>

theorem public_failures_normalized:
  "let n = normalize_public_failures r
   in re_request_id n = re_request_id r \<and> normalize_public_failures n = n
    \<and> (if \<not> is_json r \<and> re_status r \<in> {400, 405, 413, 415, 422}
       then is_json n \<and> re_status n = (if re_status r = 422 then 400 else re_status r)
         \<and> (\<exists>message. re_body n = ErrorBody ''invalid_request'' message)
       else n = r)"
proof -
  have "is_json (public_error s c m)" "is_json (public_error s c m\<lparr>re_request_id := i\<rparr>)" for s c m i
    by (simp_all add: is_json_def public_error_def)
  then show ?thesis
    by (simp add: normalize_public_failures_def Let_def) (simp add: public_error_def)
qed

end
