(* ===== verification/Serving.thy ===== *)
theory Serving
  imports Server
begin

text \<open>
  \<open>TemplateServer::serve\<close> and \<open>poll_workload_shutdown\<close> of
  \<open>crates/impossible-voice-server/src/lib.rs\<close>, with \<open>ShutdownGate::drain\<close>
  inlined: the shutdown of the server as a thread of sections between awaits and locks, interleaved with
  every request of the host and with time. When the HTTP server ends by itself, when the shutdown is
  requested and when the workload's cleanup completes is up to the environment. Proved: what holds in
  each phase, hence what the result of \<open>serve\<close> says, and that the shutdown ends within its
  bound.
\<close>

section \<open>The thread\<close>

datatype io_error = TimedOut string | ServerError string

definition drain_timeout :: io_error where
  "drain_timeout = TimedOut ''HTTP drain exceeded its configured bound''"

definition cleanup_timeout :: io_error where
  "cleanup_timeout = TimedOut ''workload shutdown exceeded its configured bound''"

text \<open>Why the gate is stopped at once: the HTTP server has ended, the drain or the HTTP server timed out.\<close>

datatype stop_reason = ServerEnded "io_error + unit" | DrainTimedOut nat | HttpForced nat

text \<open>
  Where \<open>serve\<close> stands. The first number is its deadline; \<open>AwaitDrain\<close> has the
  deadline of \<open>drain\<close> too. The cleanup carries whether HTTP was forced, and the result of
  the HTTP server.
\<close>

datatype serve_phase =
  Serving
| BeginDrain nat
| PublishDrain nat
| AwaitDrain nat nat
| StopNow stop_reason
| PublishStop stop_reason
| AwaitHttp nat drain_outcome
| BeginCleanup nat bool "io_error + unit"
| AwaitCleanup nat bool "io_error + unit"
| Returned "io_error + unit"

record server =
  sv_host :: host
  sv_health :: health_registry
  sv_http_shutdown :: cancellation_token
  sv_force :: cancellation_token
  sv_phase :: serve_phase

abbreviation sv_gate :: "server \<Rightarrow> gate" where
  "sv_gate s \<equiv> po_gate (ho_policy (sv_host s))"

definition set_gate :: "gate \<Rightarrow> server \<Rightarrow> server" where
  "set_gate g s = s\<lparr>sv_host := (sv_host s)\<lparr>ho_policy := (ho_policy (sv_host s))\<lparr>po_gate := g\<rparr>\<rparr>\<rparr>"

definition process :: "process_state \<Rightarrow> server \<Rightarrow> server" where
  "process p s = s\<lparr>sv_health := set_process p (sv_health s)\<rparr>"

definition shutdown_deadline :: "server \<Rightarrow> nat" where
  "shutdown_deadline s = ho_now (sv_host s) + shutdown_timeout (po_limits (ho_policy (sv_host s)))"

definition server_new :: "workload \<Rightarrow> server_limits \<Rightarrow> server" where
  "server_new w limits =
     \<lparr>sv_host = \<lparr>ho_policy = policy_new limits, ho_now = 0, ho_tasks = {#}\<rparr>,
      sv_health = ap_health (app_new w), sv_http_shutdown = token_new, sv_force = token_new,
      sv_phase = Serving\<rparr>"

section \<open>Sections\<close>

definition server_ended :: "io_error + unit \<Rightarrow> server \<Rightarrow> server" where
  "server_ended result s = process ProcDraining s\<lparr>sv_phase := StopNow (ServerEnded result)\<rparr>"

definition shutdown_requested :: "server \<Rightarrow> server" where
  "shutdown_requested s =
     (process ProcDraining s)\<lparr>sv_http_shutdown := snd (token_cancel (sv_http_shutdown s)),
        sv_phase := BeginDrain (shutdown_deadline s)\<rparr>"

definition begin_drain :: "nat \<Rightarrow> server \<Rightarrow> server" where
  "begin_drain deadline s =
     (case begin_drain_locked (sv_gate s) of
        (None, _, g) \<Rightarrow> (set_gate g s)\<lparr>sv_phase := AwaitDrain deadline (shutdown_deadline s)\<rparr>
      | (Some outcome, publish, g) \<Rightarrow>
          (set_gate g s)\<lparr>sv_phase := (if publish then PublishDrain deadline else AwaitHttp deadline outcome)\<rparr>)"

definition publish_drain :: "nat \<Rightarrow> server \<Rightarrow> server" where
  "publish_drain deadline s =
     (set_gate (cancel_stopped (sv_gate s)) s)\<lparr>sv_phase := AwaitHttp deadline Graceful\<rparr>"

definition drain_stopped :: "nat \<Rightarrow> server \<Rightarrow> server" where
  "drain_stopped deadline s = s\<lparr>sv_phase := AwaitHttp deadline (terminal_outcome (sv_gate s))\<rparr>"

definition stop_section :: "stop_reason \<Rightarrow> server \<Rightarrow> server" where
  "stop_section why s = (set_gate (stop_now_locked (sv_gate s)) s)\<lparr>sv_phase := PublishStop why\<rparr>"

definition publish_stop :: "stop_reason \<Rightarrow> server \<Rightarrow> server" where
  "publish_stop why s =
     (set_gate (cancel_stopped (sv_gate s)) s)\<lparr>sv_phase :=
        (case why of
           ServerEnded result \<Rightarrow> BeginCleanup (shutdown_deadline s) False result
         | DrainTimedOut deadline \<Rightarrow> AwaitHttp deadline Forced
         | HttpForced deadline \<Rightarrow> BeginCleanup deadline True (Inr ()))\<rparr>"

text \<open>The HTTP server has ended in time; its own result is not looked at.\<close>

definition http_ended :: "nat \<Rightarrow> drain_outcome \<Rightarrow> server \<Rightarrow> server" where
  "http_ended deadline outcome s =
     s\<lparr>sv_phase := (if outcome = Forced then StopNow (HttpForced deadline)
                    else BeginCleanup deadline False (Inr ()))\<rparr>"

definition serve_result :: "bool \<Rightarrow> bool \<Rightarrow> io_error + unit \<Rightarrow> io_error + unit" where
  "serve_result forced completed result =
     (if forced then Inl drain_timeout else if \<not> completed then Inl cleanup_timeout else result)"

definition finish_cleanup :: "bool \<Rightarrow> bool \<Rightarrow> io_error + unit \<Rightarrow> server \<Rightarrow> server" where
  "finish_cleanup forced completed result s =
     (process ProcStopped s)\<lparr>sv_force := (if completed then sv_force s else snd (token_cancel (sv_force s))),
        sv_phase := Returned (serve_result forced completed result)\<rparr>"

text \<open>The first poll of the workload's cleanup, with its fresh force token.\<close>

definition begin_cleanup :: "nat \<Rightarrow> bool \<Rightarrow> io_error + unit \<Rightarrow> bool \<Rightarrow> server \<Rightarrow> server" where
  "begin_cleanup deadline forced result completed s =
     (let s = s\<lparr>sv_force := (if forced then snd (token_cancel token_new) else token_new)\<rparr>
      in if completed then finish_cleanup forced True result s
         else if deadline \<le> ho_now (sv_host s) then finish_cleanup forced False result s
         else s\<lparr>sv_phase := AwaitCleanup deadline forced result\<rparr>)"

section \<open>Steps\<close>

text \<open>One section of the thread at an instant.\<close>

inductive serve_step :: "server \<Rightarrow> server \<Rightarrow> bool" where
  ended: "sv_phase s = Serving \<Longrightarrow> serve_step s (server_ended result s)"
| requested: "sv_phase s = Serving \<Longrightarrow> serve_step s (shutdown_requested s)"
| begin_drain: "sv_phase s = BeginDrain d \<Longrightarrow> serve_step s (begin_drain d s)"
| publish_drain: "sv_phase s = PublishDrain d \<Longrightarrow> serve_step s (publish_drain d s)"
| drained: "sv_phase s = AwaitDrain d e \<Longrightarrow> stop_published (sv_gate s) \<Longrightarrow> serve_step s (drain_stopped d s)"
| drain_timeout: "sv_phase s = AwaitDrain d e \<Longrightarrow> \<not> stop_published (sv_gate s) \<Longrightarrow>
    e \<le> ho_now (sv_host s) \<Longrightarrow> serve_step s (s\<lparr>sv_phase := StopNow (DrainTimedOut d)\<rparr>)"
| stop_section: "sv_phase s = StopNow why \<Longrightarrow> serve_step s (stop_section why s)"
| publish_stop: "sv_phase s = PublishStop why \<Longrightarrow> serve_step s (publish_stop why s)"
| http_ended: "sv_phase s = AwaitHttp d outcome \<Longrightarrow> serve_step s (http_ended d outcome s)"
| http_timeout: "sv_phase s = AwaitHttp d outcome \<Longrightarrow> d \<le> ho_now (sv_host s) \<Longrightarrow>
    serve_step s (s\<lparr>sv_phase := StopNow (HttpForced d)\<rparr>)"
| begin_cleanup: "sv_phase s = BeginCleanup d forced result \<Longrightarrow>
    serve_step s (begin_cleanup d forced result completed s)"
| cleaned: "sv_phase s = AwaitCleanup d forced result \<Longrightarrow>
    serve_step s (finish_cleanup forced True result s)"
| cleanup_timeout: "sv_phase s = AwaitCleanup d forced result \<Longrightarrow> d \<le> ho_now (sv_host s) \<Longrightarrow>
    serve_step s (finish_cleanup forced False result s)"

text \<open>What the requests and the clock do; only \<open>serve\<close> itself drains and stops the gate.\<close>

inductive request_step :: "host \<Rightarrow> host \<Rightarrow> bool" where
  arrive: "policy_enter p = (Inr (), q) \<Longrightarrow>
    request_step \<lparr>ho_policy = p, ho_now = n, ho_tasks = T\<rparr> \<lparr>ho_policy = q, ho_now = n, ho_tasks = add_mset Entered T\<rparr>"
| refuse: "policy_enter p = (Inl r, q) \<Longrightarrow>
    request_step \<lparr>ho_policy = p, ho_now = n, ho_tasks = T\<rparr> \<lparr>ho_policy = q, ho_now = n, ho_tasks = add_mset (Answered (Some r)) T\<rparr>"
| move: "task_step n (p, t) (q, u) \<Longrightarrow>
    request_step \<lparr>ho_policy = p, ho_now = n, ho_tasks = add_mset t T\<rparr> \<lparr>ho_policy = q, ho_now = n, ho_tasks = add_mset u T\<rparr>"
| tick: "n \<le> m \<Longrightarrow>
    request_step \<lparr>ho_policy = p, ho_now = n, ho_tasks = T\<rparr> \<lparr>ho_policy = p, ho_now = m, ho_tasks = T\<rparr>"

inductive server_step :: "server \<Rightarrow> server \<Rightarrow> bool" where
  serve: "serve_step s t \<Longrightarrow> server_step s t"
| request: "request_step (sv_host s) h \<Longrightarrow> server_step s (s\<lparr>sv_host := h\<rparr>)"

inductive_cases serve_stepE: "serve_step s t"

section \<open>The host under the server\<close>

lemma request_step_host: "request_step h h' \<Longrightarrow> host_step h h'"
  by (induction rule: request_step.induct) (auto intro: host_step.intros)

lemma set_gate_host: "sv_host (set_gate g s) = (sv_host s)\<lparr>ho_policy := (ho_policy (sv_host s))\<lparr>po_gate := g\<rparr>\<rparr>"
  by (simp add: set_gate_def)

lemma host_gate_steps:
  "begin_drain_locked (po_gate (ho_policy h)) = (r, b, g) \<Longrightarrow> host_step h (h\<lparr>ho_policy := (ho_policy h)\<lparr>po_gate := g\<rparr>\<rparr>)"
  "host_step h (h\<lparr>ho_policy := (ho_policy h)\<lparr>po_gate := stop_now_locked (po_gate (ho_policy h))\<rparr>\<rparr>)"
  "gate_phase (po_gate (ho_policy h)) = Stopped outcome \<Longrightarrow>
     host_step h (h\<lparr>ho_policy := (ho_policy h)\<lparr>po_gate := cancel_stopped (po_gate (ho_policy h))\<rparr>\<rparr>)"
  by (cases h; simp add: host_step.drain host_step.stop host_step.stopped)+

section \<open>What holds in each phase\<close>

fun phase_process :: "serve_phase \<Rightarrow> process_state" where
  "phase_process Serving = Running"
| "phase_process (Returned r) = ProcStopped"
| "phase_process _ = ProcDraining"

text \<open>
  The gate's phase, whether its stop is published, and the two tokens, in each phase of \<open>serve\<close>:
  \<open>requested\<close> says the HTTP server was told to shut down.
\<close>

fun phase_holds :: "serve_phase \<Rightarrow> gate_phase \<Rightarrow> bool \<Rightarrow> bool \<Rightarrow> bool \<Rightarrow> bool" where
  "phase_holds Serving g published requested force \<longleftrightarrow> g = Accepting \<and> \<not> requested"
| "phase_holds (BeginDrain d) g published requested force \<longleftrightarrow> g = Accepting \<and> requested"
| "phase_holds (PublishDrain d) g published requested force \<longleftrightarrow> g = Stopped Graceful \<and> requested"
| "phase_holds (AwaitDrain d e) g published requested force \<longleftrightarrow>
     g \<in> {Draining, Stopped Graceful} \<and> requested"
| "phase_holds (StopNow why) g published requested force \<longleftrightarrow>
     (case why of
        ServerEnded r \<Rightarrow> g = Accepting \<and> \<not> requested
      | DrainTimedOut d \<Rightarrow> requested
      | HttpForced d \<Rightarrow> requested \<and> g \<in> range Stopped \<and> published)"
| "phase_holds (PublishStop why) g published requested force \<longleftrightarrow>
     g \<in> range Stopped \<and> (case why of ServerEnded r \<Rightarrow> \<not> requested | _ \<Rightarrow> requested)"
| "phase_holds (AwaitHttp d outcome) g published requested force \<longleftrightarrow>
     g \<in> range Stopped \<and> published \<and> requested \<and> (outcome = Graceful \<longrightarrow> g = Stopped Graceful)"
| "phase_holds (BeginCleanup d forced result) g published requested force \<longleftrightarrow>
     g \<in> range Stopped \<and> published
     \<and> (if requested then result = Inr () \<and> (\<not> forced \<longrightarrow> g = Stopped Graceful) else \<not> forced)"
| "phase_holds (AwaitCleanup d forced result) g published requested force \<longleftrightarrow>
     g \<in> range Stopped \<and> published \<and> force = forced
     \<and> (if requested then result = Inr () \<and> (\<not> forced \<longrightarrow> g = Stopped Graceful) else \<not> forced)"
| "phase_holds (Returned result) g published requested force \<longleftrightarrow>
     g \<in> range Stopped \<and> published
     \<and> (requested \<longrightarrow> result \<in> {Inr (), Inl drain_timeout, Inl cleanup_timeout}
         \<and> (force \<longleftrightarrow> result \<noteq> Inr ()) \<and> (result = Inr () \<longrightarrow> g = Stopped Graceful))
     \<and> (\<not> requested \<and> force \<longrightarrow> result = Inl cleanup_timeout)"

abbreviation phase_ok :: "server \<Rightarrow> bool" where
  "phase_ok s \<equiv> phase_holds (sv_phase s) (gate_phase (sv_gate s)) (stop_published (sv_gate s))
     (token_cancelled (sv_http_shutdown s)) (token_cancelled (sv_force s))"

fun phase_deadlines :: "serve_phase \<Rightarrow> nat set" where
  "phase_deadlines (BeginDrain d) = {d}" | "phase_deadlines (PublishDrain d) = {d}"
| "phase_deadlines (AwaitDrain d e) = {d, e}" | "phase_deadlines (AwaitHttp d outcome) = {d}"
| "phase_deadlines (StopNow (DrainTimedOut d)) = {d}" | "phase_deadlines (StopNow (HttpForced d)) = {d}"
| "phase_deadlines (PublishStop (DrainTimedOut d)) = {d}"
| "phase_deadlines (PublishStop (HttpForced d)) = {d}"
| "phase_deadlines (BeginCleanup d forced result) = {d}"
| "phase_deadlines (AwaitCleanup d forced result) = {d}"
| "phase_deadlines _ = {}"

abbreviation deadlines_ok :: "server \<Rightarrow> bool" where
  "deadlines_ok s \<equiv> (\<forall>d\<in>phase_deadlines (sv_phase s). d \<le> shutdown_deadline s)"

definition server_inv :: "workload \<Rightarrow> server_limits \<Rightarrow> server \<Rightarrow> bool" where
  "server_inv w limits s \<longleftrightarrow>
     host_inv limits (sv_host s)
     \<and> sv_health s = set_process (phase_process (sv_phase s)) (ap_health (app_new w))
     \<and> phase_ok s \<and> deadlines_ok s"

section \<open>Every step keeps it\<close>

lemma set_process_set_process [simp]: "set_process p (set_process q h) = set_process p h"
  by (simp add: set_process_def)

lemma server_new_inv: "server_inv w limits (server_new w limits)"
proof -
  have "host_inv limits (sv_host (server_new w limits))"
    by (rule host_start_inv) (simp add: host_start_def server_new_def)
  moreover have "set_process Running (ap_health (app_new w)) = ap_health (app_new w)"
    by (simp add: app_new_def Let_def)
  ultimately show ?thesis
    by (simp add: server_inv_def) (simp add: server_new_def policy_new_def gate_new_def token_new_def)
qed

text \<open>The requests never end a drain but by leaving, and never reopen or close the gate.\<close>

lemma request_step_keeps:
  assumes "request_step h h'"
  shows "gate_phase (po_gate (ho_policy h')) = gate_phase (po_gate (ho_policy h))
      \<or> gate_phase (po_gate (ho_policy h)) = Draining \<and> gate_phase (po_gate (ho_policy h')) = Stopped Graceful"
    and "stop_published (po_gate (ho_policy h)) \<Longrightarrow> stop_published (po_gate (ho_policy h'))"
    and "ho_now h \<le> ho_now h'" and "po_limits (ho_policy h') = po_limits (ho_policy h)"
proof -
  have context_gate: "po_gate q = po_gate p" if "policy_context n p = (Inl r, q)" for n p r q
  proof -
    from policy_context_Inl [OF that] obtain ids where "q = p\<lparr>po_ids := ids\<rparr>" by blast
    then show ?thesis by simp
  qed
  have task: "gate_phase (po_gate q) = gate_phase (po_gate p)
      \<or> gate_phase (po_gate p) = Draining \<and> gate_phase (po_gate q) = Stopped Graceful"
    if "task_step n (p, t) (q, u)" for n p t q u
    using that
    by (cases rule: task_step.cases)
      (auto simp: policy_simps drop_guard_True drop_guard_False dest!: policy_context_Inr context_gate)
  show "gate_phase (po_gate (ho_policy h')) = gate_phase (po_gate (ho_policy h))
      \<or> gate_phase (po_gate (ho_policy h)) = Draining \<and> gate_phase (po_gate (ho_policy h')) = Stopped Graceful"
    using assms by cases (auto simp: policy_simps dest: task try_enter_gate(2))
  show "stop_published (po_gate (ho_policy h)) \<Longrightarrow> stop_published (po_gate (ho_policy h'))"
    using host_step_settles [OF request_step_host [OF assms]] by (simp add: settling_def)
  show "ho_now h \<le> ho_now h'" using assms by cases auto
  show "po_limits (ho_policy h') = po_limits (ho_policy h)"
    using assms by cases (auto simp: policy_simps dest: task_step_accounts(1))
qed

lemma phase_holds_mono:
  assumes "phase_holds ph g published requested force"
    and "g' = g \<or> g = Draining \<and> g' = Stopped Graceful" and "published \<longrightarrow> published'"
  shows "phase_holds ph g' published' requested force"
  using assms by (cases ph) (auto split: stop_reason.splits if_splits)

lemma request_step_server_inv:
  assumes inv: "server_inv w limits s" and step: "request_step (sv_host s) h"
  shows "server_inv w limits (s\<lparr>sv_host := h\<rparr>)"
proof -
  note keeps = request_step_keeps [OF step]
  have "host_inv limits h" using host_step_inv request_step_host [OF step] inv by (auto simp: server_inv_def)
  moreover have "phase_ok (s\<lparr>sv_host := h\<rparr>)"
  proof -
    have "phase_ok s" using inv by (simp add: server_inv_def)
    from phase_holds_mono [OF this keeps(1)] keeps(2) show ?thesis by simp
  qed
  moreover have "shutdown_deadline s \<le> shutdown_deadline (s\<lparr>sv_host := h\<rparr>)"
    using keeps(3,4) by (simp add: shutdown_deadline_def)
  ultimately show ?thesis using inv by (auto simp: server_inv_def intro: order_trans)
qed

lemma serve_step_host:
  assumes "serve_step s t" and "phase_ok s"
  shows "sv_host t = sv_host s \<or> host_step (sv_host s) (sv_host t)"
  using assms(1)
proof cases
  case (begin_drain d)
  obtain r b g where g: "begin_drain_locked (sv_gate s) = (r, b, g)" by (cases "begin_drain_locked (sv_gate s)")
  with begin_drain host_gate_steps(1) [OF g] show ?thesis
    by (simp add: begin_drain_def set_gate_host split: option.split)
next
  case (publish_drain d)
  with assms(2) have "gate_phase (sv_gate s) = Stopped Graceful" by simp
  from host_gate_steps(3) [OF this] publish_drain(1) show ?thesis
    by (simp add: publish_drain_def set_gate_host)
next
  case (stop_section why)
  with host_gate_steps(2) show ?thesis by (simp add: stop_section_def set_gate_host)
next
  case (publish_stop why)
  with assms(2) obtain r where "gate_phase (sv_gate s) = Stopped r" by auto
  from host_gate_steps(3) [OF this] publish_stop(1) show ?thesis
    by (simp add: publish_stop_def set_gate_host)
qed (simp_all add: server_ended_def shutdown_requested_def drain_stopped_def http_ended_def
      begin_cleanup_def finish_cleanup_def process_def Let_def)

lemma serve_step_server_inv:
  assumes inv: "server_inv w limits s" and step: "serve_step s t"
  shows "server_inv w limits t"
proof -
  have ok: "phase_ok s" and dl: "deadlines_ok s" and h: "sv_health s = set_process (phase_process (sv_phase s)) (ap_health (app_new w))"
    using inv by (simp_all add: server_inv_def)
  have "host_inv limits (sv_host t)"
    using serve_step_host [OF step ok] host_step_inv inv by (auto simp: server_inv_def)
  moreover have "sv_health t = set_process (phase_process (sv_phase t)) (ap_health (app_new w))
      \<and> phase_ok t \<and> deadlines_ok t"
    using step
  proof cases
    case (begin_drain d)
    then show ?thesis
      using ok dl h
      by (cases "gate_active (sv_gate s)")
       (auto simp: begin_drain_def begin_drain_locked_def set_gate_def process_def shutdown_deadline_def Let_def)
  next
    case (publish_drain d)
    then show ?thesis
      using ok dl h by (auto simp: publish_drain_def set_gate_def shutdown_deadline_def)
  next
    case (stop_section why)
    then show ?thesis
      using ok dl h
      by (cases why; cases "gate_phase (sv_gate s)")
        (auto simp: stop_section_def set_gate_def shutdown_deadline_def stop_now_phase)
  next
    case (publish_stop why)
    then show ?thesis
      using ok dl h by (cases why) (auto simp: publish_stop_def set_gate_def shutdown_deadline_def)
  next
    case (drained d e)
    then show ?thesis
      using ok dl h inv
      by (auto simp: drain_stopped_def terminal_outcome_def shutdown_deadline_def server_inv_def host_inv_def
          gate_settled_def stopped_def)
  next
    case (http_ended d outcome)
    then show ?thesis
      using ok dl h by (cases outcome) (auto simp: http_ended_def shutdown_deadline_def)
  qed (use ok dl h in \<open>auto simp: server_ended_def shutdown_requested_def
      begin_cleanup_def finish_cleanup_def process_def shutdown_deadline_def serve_result_def
      token_cancel_def token_new_def drain_timeout_def cleanup_timeout_def Let_def split: if_splits\<close>)
  ultimately show ?thesis by (simp add: server_inv_def)
qed

interpretation server: step_invariant "\<lambda>s. s = server_new w limits" server_step "server_inv w limits"
  for w limits
  by unfold_locales
    (auto simp: server_new_inv elim!: server_step.cases intro: serve_step_server_inv request_step_server_inv)

section \<open>The shutdown ends\<close>

fun reason_rank :: "stop_reason \<Rightarrow> nat" where
  "reason_rank (DrainTimedOut d) = 3" | "reason_rank _ = 0"

text \<open>How many sections \<open>serve\<close> still has at most.\<close>

fun serve_rank :: "serve_phase \<Rightarrow> nat" where
  "serve_rank Serving = 10" | "serve_rank (BeginDrain d) = 9" | "serve_rank (AwaitDrain d e) = 8"
| "serve_rank (StopNow why) = 4 + reason_rank why" | "serve_rank (PublishStop why) = 3 + reason_rank why"
| "serve_rank (PublishDrain d) = 6" | "serve_rank (AwaitHttp d outcome) = 5"
| "serve_rank (BeginCleanup d forced result) = 2" | "serve_rank (AwaitCleanup d forced result) = 1"
| "serve_rank (Returned result) = 0"

lemma serve_step_rank: "serve_step s t \<Longrightarrow> serve_rank (sv_phase t) < serve_rank (sv_phase s)"
  by (cases rule: serve_step.cases)
    (auto simp: server_ended_def shutdown_requested_def begin_drain_def publish_drain_def drain_stopped_def
      stop_section_def publish_stop_def http_ended_def begin_cleanup_def finish_cleanup_def process_def
      Let_def split: option.splits prod.splits stop_reason.splits)

text \<open>
  \<open>serve\<close> left to itself: its own sections and its timers. The HTTP server never ends, the
  cleanup never completes, no request moves, and nobody but the clock does anything else.
\<close>

definition wait :: "nat \<Rightarrow> server \<Rightarrow> server" where
  "wait n s = s\<lparr>sv_host := (sv_host s)\<lparr>ho_now := n\<rparr>\<rparr>"

inductive own_section :: "server \<Rightarrow> server \<Rightarrow> bool" where
  begin_drain: "sv_phase s = BeginDrain d \<Longrightarrow> own_section s (begin_drain d s)"
| publish_drain: "sv_phase s = PublishDrain d \<Longrightarrow> own_section s (publish_drain d s)"
| drained: "sv_phase s = AwaitDrain d e \<Longrightarrow> stop_published (sv_gate s) \<Longrightarrow> own_section s (drain_stopped d s)"
| drain_timeout: "sv_phase s = AwaitDrain d e \<Longrightarrow> \<not> stop_published (sv_gate s) \<Longrightarrow>
    e \<le> ho_now (sv_host s) \<Longrightarrow> own_section s (s\<lparr>sv_phase := StopNow (DrainTimedOut d)\<rparr>)"
| stop_section: "sv_phase s = StopNow why \<Longrightarrow> own_section s (stop_section why s)"
| publish_stop: "sv_phase s = PublishStop why \<Longrightarrow> own_section s (publish_stop why s)"
| http_timeout: "sv_phase s = AwaitHttp d outcome \<Longrightarrow> d \<le> ho_now (sv_host s) \<Longrightarrow>
    own_section s (s\<lparr>sv_phase := StopNow (HttpForced d)\<rparr>)"
| begin_cleanup: "sv_phase s = BeginCleanup d forced result \<Longrightarrow>
    own_section s (begin_cleanup d forced result False s)"
| cleanup_timeout: "sv_phase s = AwaitCleanup d forced result \<Longrightarrow> d \<le> ho_now (sv_host s) \<Longrightarrow>
    own_section s (finish_cleanup forced False result s)"

lemma own_section_serve: "own_section s t \<Longrightarrow> serve_step s t"
  by (induction rule: own_section.induct) (blast intro: serve_step.intros)+

inductive own_step :: "server \<Rightarrow> server \<Rightarrow> bool" where
  own: "own_section s t \<Longrightarrow> own_step s t"
| wait: "ho_now (sv_host s) \<le> n \<Longrightarrow> own_step s (wait n s)"

lemma own_step_server_step: "own_step s t \<Longrightarrow> server_step s t"
proof (induction rule: own_step.induct)
  case (wait s n)
  have "request_step (sv_host s) ((sv_host s)\<lparr>ho_now := n\<rparr>)"
    using request_step.tick [OF wait] by (cases "sv_host s") simp
  then show ?case by (simp add: wait_def server_step.request)
qed (rule server_step.serve [OF own_section_serve])

text \<open>Once the deadlines have passed, \<open>serve\<close> never waits for anyone else.\<close>

lemma own_enabled:
  assumes "\<forall>d\<in>phase_deadlines (sv_phase s). d \<le> ho_now (sv_host s)" and "\<forall>r. sv_phase s \<noteq> Returned r"
    and "sv_phase s \<noteq> Serving"
  shows "\<exists>t. own_section s t"
proof (cases "sv_phase s")
  case (AwaitDrain d e)
  with assms(1) own_section.drained [OF AwaitDrain] own_section.drain_timeout [OF AwaitDrain] show ?thesis by auto
next
  case (AwaitHttp d outcome)
  with assms(1) own_section.http_timeout [OF AwaitHttp] show ?thesis by auto
next
  case (AwaitCleanup d forced result)
  with assms(1) own_section.cleanup_timeout [OF AwaitCleanup] show ?thesis by auto
qed (use assms(2,3) in \<open>blast intro: own_section.intros\<close>)+

text \<open>
  All deadlines, set or still to be set, are met by \<open>b\<close>: only the first section after
  \<open>Serving\<close> and the cleanup after a server that ended by itself set one, and there the
  clock need not move.
\<close>

fun sets_deadline :: "serve_phase \<Rightarrow> bool" where
  "sets_deadline Serving = True" | "sets_deadline (BeginDrain d) = True"
| "sets_deadline (StopNow (ServerEnded r)) = True" | "sets_deadline (PublishStop (ServerEnded r)) = True"
| "sets_deadline _ = False"

definition due :: "nat \<Rightarrow> server \<Rightarrow> bool" where
  "due b s \<longleftrightarrow> ho_now (sv_host s) \<le> b \<and> (\<forall>d\<in>phase_deadlines (sv_phase s). d \<le> b)
     \<and> (sets_deadline (sv_phase s) \<longrightarrow> shutdown_deadline s \<le> b)"

lemma serve_step_due:
  assumes step: "serve_step s t" and due: "due b s"
  shows "due b t"
  using step
proof cases
  case (begin_drain d)
  then show ?thesis
    using due by (auto simp: begin_drain_def set_gate_def due_def shutdown_deadline_def split: option.split prod.split)
next
  case (publish_stop why)
  then show ?thesis
    using due by (cases why) (simp_all add: publish_stop_def set_gate_def due_def shutdown_deadline_def)
next
  case (stop_section why)
  then show ?thesis
    using due by (cases why) (simp_all add: stop_section_def set_gate_def due_def shutdown_deadline_def)
qed (use due in \<open>simp_all add: server_ended_def shutdown_requested_def publish_drain_def drain_stopped_def
      http_ended_def begin_cleanup_def finish_cleanup_def process_def set_gate_def due_def
      shutdown_deadline_def Let_def\<close>)

lemma own_section_left: "own_section s t \<Longrightarrow> sv_phase t \<noteq> Serving"
  by (cases rule: own_section.cases)
    (auto simp: begin_drain_def publish_drain_def drain_stopped_def stop_section_def publish_stop_def
      begin_cleanup_def finish_cleanup_def process_def Let_def
      split: option.splits prod.splits stop_reason.splits if_splits)

lemma own_progress:
  assumes "due b s" and "\<forall>r. sv_phase s \<noteq> Returned r" and "sv_phase s \<noteq> Serving"
  shows "\<exists>t. own_step\<^sup>*\<^sup>* s t \<and> due b t \<and> sv_phase t \<noteq> Serving \<and> serve_rank (sv_phase t) < serve_rank (sv_phase s)"
proof (cases "sets_deadline (sv_phase s)")
  case True
  have "\<exists>t. own_section s t"
    by (cases "sv_phase s") (use True assms(3) in \<open>auto intro: own_section.intros\<close>)
  then obtain t where "own_section s t" ..
  with serve_step_due [OF own_section_serve assms(1)] serve_step_rank [OF own_section_serve] own_section_left
  show ?thesis by (blast intro: own_step.own)
next
  case False
  have w: "due b (wait b s)" "sv_phase (wait b s) = sv_phase s" "own_step s (wait b s)"
    using assms(1) False own_step.wait by (auto simp: due_def wait_def)
  obtain t where "own_section (wait b s) t"
    using own_enabled [of "wait b s"] w assms(2,3) by (auto simp: due_def wait_def)
  with w serve_step_due [OF own_section_serve, of "wait b s" t b]
    serve_step_rank [OF own_section_serve, of "wait b s" t] own_section_left [of "wait b s" t]
  show ?thesis by (metis own_step.own converse_rtranclp_into_rtranclp r_into_rtranclp)
qed

lemma own_returns:
  "due b s \<Longrightarrow> sv_phase s \<noteq> Serving \<Longrightarrow>
     \<exists>t r. own_step\<^sup>*\<^sup>* s t \<and> sv_phase t = Returned r \<and> ho_now (sv_host t) \<le> b"
proof (induction "serve_rank (sv_phase s)" arbitrary: s rule: less_induct)
  case less
  show ?case
  proof (cases "\<exists>r. sv_phase s = Returned r")
    case True
    with less.prems show ?thesis by (auto simp: due_def)
  next
    case False
    with own_progress [OF less.prems(1) _ less.prems(2)] obtain t where t: "own_step\<^sup>*\<^sup>* s t" "due b t"
      "sv_phase t \<noteq> Serving" "serve_rank (sv_phase t) < serve_rank (sv_phase s)" by blast
    from less.hyps [OF t(4,2,3)] t(1) show ?thesis by (meson rtranclp_trans)
  qed
qed

section \<open>Properties\<close>

text \<open>
  C25: what \<open>serve\<close> promises. In every reachable state of the server, whatever the requests
  do: it is reported ready only until its shutdown begins, and live until \<open>serve\<close> returns.
  Once it has returned the stop is published and no request is let in. If the shutdown had been
  requested, the result is success or one of the two time-outs, and success means that no request is
  left in the policy; the workload's cleanup was told to hurry exactly when the result is a time-out.
\<close>

theorem serve_outcome:
  assumes "server_step\<^sup>*\<^sup>* (server_new w limits) s"
  shows "hs_ready (health_snapshot (sv_health s)) = (sv_phase s = Serving \<and> workload_ready w)
    \<and> hs_live (health_snapshot (sv_health s)) = (\<forall>r. sv_phase s \<noteq> Returned r)
    \<and> (sv_phase s = Serving \<longrightarrow> gate_phase (sv_gate s) = Accepting)
    \<and> (\<forall>r. sv_phase s = Returned r \<longrightarrow>
          stop_published (sv_gate s)
          \<and> policy_enter (ho_policy (sv_host s)) = (Inl error_cancelled, ho_policy (sv_host s))
          \<and> (token_cancelled (sv_http_shutdown s) \<longrightarrow>
               r \<in> {Inr (), Inl drain_timeout, Inl cleanup_timeout}
               \<and> (r = Inr () \<longrightarrow> total_of holds_guard (ho_tasks (sv_host s)) = 0)
               \<and> (token_cancelled (sv_force s) \<longleftrightarrow> r \<noteq> Inr ())))"
proof -
  have inv: "server_inv w limits s" using server.reachable_inv [OF refl assms] .
  then have h: "host_inv limits (sv_host s)" and ok: "phase_ok s"
    and health: "sv_health s = set_process (phase_process (sv_phase s)) (ap_health (app_new w))"
    by (simp_all add: server_inv_def)
  have process: "phase_process (sv_phase s) = Running \<longleftrightarrow> sv_phase s = Serving"
    "phase_process (sv_phase s) = ProcStopped \<longleftrightarrow> (\<exists>r. sv_phase s = Returned r)"
    by (cases "sv_phase s"; simp)+
  have refused: "policy_enter (ho_policy (sv_host s)) = (Inl error_cancelled, ho_policy (sv_host s))"
    if "gate_phase (sv_gate s) \<in> range Stopped"
    using that by (auto simp: policy_enter_def try_enter_def)
  have empty: "total_of holds_guard (ho_tasks (sv_host s)) = 0" if "gate_phase (sv_gate s) = Stopped Graceful"
    using that h by (simp add: host_inv_def gate_settled_def)
  show ?thesis
    unfolding health app_new_health
    using ok refused empty process by (auto simp: drain_timeout_def cleanup_timeout_def)
qed

text \<open>
  C28: the shutdown ends in time. From every reachable state in which it has begun, \<open>serve\<close> returns
  within \<open>shutdown_timeout\<close> from that moment by its own sections and timers alone: the HTTP server
  never ends, the cleanup never completes and no request moves. Wherever they have brought it, once
  the deadlines it set have passed it has returned or has another section to run; these are sections
  of \<open>serve\<close>; and every section lowers its rank, so there are at most nine.
\<close>

theorem serve_returns:
  assumes "server_step\<^sup>*\<^sup>* (server_new w limits) s" and "sv_phase s \<noteq> Serving"
  shows "(\<exists>t r. own_step\<^sup>*\<^sup>* s t \<and> sv_phase t = Returned r
        \<and> ho_now (sv_host t) \<le> ho_now (sv_host s) + shutdown_timeout limits)
    \<and> (\<forall>t. own_step\<^sup>*\<^sup>* s t \<and> (\<forall>d\<in>phase_deadlines (sv_phase t). d \<le> ho_now (sv_host t))
        \<longrightarrow> (\<exists>r. sv_phase t = Returned r) \<or> (\<exists>u. own_section t u))
    \<and> (\<forall>u v. own_section u v \<longrightarrow> serve_step u v)
    \<and> serve_rank (sv_phase s) \<le> 9
    \<and> (\<forall>u v. serve_step u v \<longrightarrow> serve_rank (sv_phase v) < serve_rank (sv_phase u))"
proof -
  have inv: "server_inv w limits s" using server.reachable_inv [OF refl assms(1)] .
  then have now: "shutdown_deadline s = ho_now (sv_host s) + shutdown_timeout limits"
    by (simp add: server_inv_def host_inv_def shutdown_deadline_def)
  have "due (shutdown_deadline s) s"
    using inv by (simp add: due_def server_inv_def) (simp add: shutdown_deadline_def)
  from own_returns [OF this assms(2)] have "\<exists>t r. own_step\<^sup>*\<^sup>* s t \<and> sv_phase t = Returned r
      \<and> ho_now (sv_host t) \<le> ho_now (sv_host s) + shutdown_timeout limits"
    by (simp add: now)
  moreover have left: "sv_phase t \<noteq> Serving" if "own_step\<^sup>*\<^sup>* s t" for t
    using that assms(2)
    by (induction rule: rtranclp_induct) (auto elim!: own_step.cases dest: own_section_left simp: wait_def)
  moreover have "serve_rank (sv_phase s) \<le> 9"
  proof -
    have "reason_rank why \<le> 3" for why by (cases why) simp_all
    from this [of "case sv_phase s of StopNow y \<Rightarrow> y | PublishStop y \<Rightarrow> y | _ \<Rightarrow> DrainTimedOut 0"]
    show ?thesis using assms(2) by (cases "sv_phase s") simp_all
  qed
  ultimately show ?thesis using own_enabled own_section_serve serve_step_rank by blast
qed

section \<open>Witnesses\<close>

abbreviation idle_server :: server where
  "idle_server \<equiv> server_new Placeholder small_limits"

definition asked_server :: server where
  "asked_server = shutdown_requested idle_server"

definition ended_server :: server where
  "ended_server = begin_cleanup 1000 False (Inr ()) True
     (http_ended 1000 Graceful (publish_drain 1000 (begin_drain 1000 asked_server)))"

lemmas shutdown_run_defs = ended_server_def asked_server_def shutdown_requested_def begin_drain_def
  publish_drain_def http_ended_def begin_cleanup_def finish_cleanup_def serve_result_def set_gate_def
  process_def server_new_def policy_new_def gate_new_def token_new_def begin_drain_locked_def
  shutdown_deadline_def small_limits_def token_cancel_def

lemma asked_reachable: "server_step\<^sup>*\<^sup>* idle_server asked_server"
  unfolding asked_server_def
  by (rule r_into_rtranclp, rule server_step.serve, rule serve_step.requested) (simp add: server_new_def)

lemma ended_reachable: "server_step\<^sup>*\<^sup>* idle_server ended_server"
proof -
  let ?b = "begin_drain 1000 asked_server" and ?c = "publish_drain 1000 (begin_drain 1000 asked_server)"
  have "serve_step asked_server ?b" "serve_step ?b ?c" "serve_step ?c (http_ended 1000 Graceful ?c)"
    "serve_step (http_ended 1000 Graceful ?c) ended_server"
    unfolding ended_server_def
    by (rule serve_step.begin_drain serve_step.publish_drain serve_step.http_ended serve_step.begin_cleanup,
        simp add: shutdown_run_defs)+
  then have "server_step\<^sup>*\<^sup>* asked_server ended_server"
    by (meson converse_rtranclp_into_rtranclp r_into_rtranclp server_step.serve)
  with asked_reachable show ?thesis by (rule rtranclp_trans)
qed

lemma ended_server_simps:
  "sv_phase ended_server = Returned (Inr ())" "token_cancelled (sv_http_shutdown ended_server)"
  by (simp_all add: shutdown_run_defs)

theorem serve_outcome_witness:
  "sv_phase ended_server = Returned (Inr ()) \<and> stop_published (sv_gate ended_server)
   \<and> total_of holds_guard (ho_tasks (sv_host ended_server)) = 0 \<and> \<not> token_cancelled (sv_force ended_server)
   \<and> \<not> hs_live (health_snapshot (sv_health ended_server))"
  using serve_outcome [OF ended_reachable] by (simp add: ended_server_simps)

theorem serve_returns_witness:
  "\<exists>t r. own_step\<^sup>*\<^sup>* asked_server t \<and> sv_phase t = Returned r \<and> ho_now (sv_host t) \<le> 1000"
proof -
  have "sv_phase asked_server \<noteq> Serving" "ho_now (sv_host asked_server) = 0"
    by (simp_all add: asked_server_def shutdown_requested_def process_def server_new_def)
  from serve_returns [OF asked_reachable this(1)] this(2) show ?thesis
    by (simp add: small_limits_def)
qed

end
