(* ===== verification/Program.thy ===== *)
theory Program
  imports Config Engines Serving
begin

text \<open>
  \<open>crates/impossible-voice-server/src/main.rs\<close> with \<open>grpc::serve\<close> of
  \<open>grpc.rs\<close>: the commands, the start of the two servers, and the process from there to its
  exit as threads that share one cancellation token. Parsing the command line is clap's; whether an
  address can be bound, where a configured path lies and when a server ends by itself is up to the
  environment.
\<close>

section \<open>Commands\<close>

datatype main_error =
  ConfigFailed config_error
| EngineFailed engine_load_error
| ArtifactFailed artifact_error
| BindFailed socket_addr
| GrpcFailed
| ServeFailed io_error

record 'n machine =
  mc_config :: config_world
  mc_engines :: "'n engine_env"
  mc_locate :: "os_string \<Rightarrow> path"
  mc_binds :: "socket_addr \<Rightarrow> bool"

type_synonym ('n, 'a) main_action = "(store \<times> 'n native, main_error, 'a) action"

definition on_engines :: "('n, 'a) engine_action \<Rightarrow> ('n, 'a) main_action" where
  "on_engines m s = (case s of (t, w) \<Rightarrow> case m (st_disk t, w) of (r, d, w) \<Rightarrow>
     (map_err EngineFailed r, t\<lparr>st_disk := d\<rparr>, w))"

definition main_config :: "'n machine \<Rightarrow> server_options \<Rightarrow> main_error + runtime_config" where
  "main_config m options = map_err ConfigFailed (Config.resolve (mc_config m) options)"

definition main_doctor ::
  "'n machine \<Rightarrow> server_options \<Rightarrow> ('n, doctor_report \<times> engine_inspection) main_action"
where
  "main_doctor m options =
     bind_st (lift_res (main_config m options)) (\<lambda>config.
     bind_st (on_engines (inspect (mc_engines m) (mc_locate m (rt_artifact_root config)))) (\<lambda>engines.
       ret (doctor_report config, engines)))"

definition main_status :: "'n machine \<Rightarrow> os_string \<Rightarrow> ('n, engine_inspection) main_action" where
  "main_status m p = on_engines (inspect (mc_engines m) (mc_locate m p))"

definition main_setup :: "'n machine \<Rightarrow> os_string \<Rightarrow> bool \<Rightarrow> ('n, setup_report) main_action" where
  "main_setup m p offline =
     bind_st (lift_res (if ee_client (mc_engines m) then Inr ()
       else Inl (ArtifactFailed (ArtifactError ''artifact HTTP client initialization failed'')))) (\<lambda>_ (t, w).
       case store_setup (ee_artifacts (mc_engines m)) (mc_locate m p) offline t of
         (r, t) \<Rightarrow> (map_err ArtifactFailed r, t, w))"

section \<open>The start of the servers\<close>

text \<open>The gRPC server: serving, told to stop with its deadline, or its task has ended.\<close>

datatype grpc_phase = GrpcServing | GrpcStopping nat | GrpcReturned "string + unit"

text \<open>
  \<open>main\<close> waits for \<open>serve\<close>, then for the gRPC server's task. When its block
  has returned, \<open>#[tokio::main]\<close> drops the runtime, which lets every blocking worker that
  is running finish before the process exits.
\<close>

datatype main_phase =
  AwaitServe
| AwaitGrpc "io_error + unit"
| DropRuntime "main_error + unit"
| Exited "main_error + unit"

record program =
  pg_server :: server
  pg_cancellation :: cancellation_token
  pg_grpc :: "grpc_phase option"
  pg_main :: main_phase
  pg_workers :: nat

definition main_bind :: "'n machine \<Rightarrow> socket_addr \<Rightarrow> main_error + unit" where
  "main_bind m a = (if mc_binds m a then Inr () else Inl (BindFailed a))"

text \<open>The engines a failed start drops: \<open>stt\<close>, then \<open>tts\<close>.\<close>

definition drop_engines :: "'n machine \<Rightarrow> voice_engines option \<Rightarrow> 'n native \<Rightarrow> 'n native" where
  "drop_engines m backend w =
     (case backend of
        None \<Rightarrow> w
      | Some e \<Rightarrow> destroy_synthesizer (ee_native (mc_engines m)) (ve_synthesizer e)
          (destroy_recognizer (ee_native (mc_engines m)) (ve_recognizer e) w))"

definition main_listen :: "'n machine \<Rightarrow> runtime_config \<Rightarrow> voice_engines option \<Rightarrow> ('n, unit) main_action" where
  "main_listen m config backend s =
     (case s of (t, w) \<Rightarrow>
        case and_then (main_bind m (rt_bind config)) (\<lambda>_.
          if backend \<noteq> None then main_bind m (rt_grpc_bind config) else Inr ()) of
          Inl e \<Rightarrow> (Inl e, t, drop_engines m backend w)
        | Inr u \<Rightarrow> (Inr u, t, w))"

definition main_serve :: "'n machine \<Rightarrow> server_options \<Rightarrow> ('n, program) main_action" where
  "main_serve m options =
     bind_st (lift_res (main_config m options)) (\<lambda>config.
     bind_st (attempt (on_engines (engines_load (mc_engines m) (mc_locate m (rt_artifact_root config))
       (max_concurrent_requests (rt_limits config))))) (\<lambda>engines.
       let backend = (case engines of Inl _ \<Rightarrow> None | Inr e \<Rightarrow> Some e) in
       bind_st (main_listen m config backend) (\<lambda>_.
         ret \<lparr>pg_server = server_new (VoiceEngine (backend \<noteq> None)) (rt_limits config),
              pg_cancellation = token_new, pg_grpc = (if backend \<noteq> None then Some GrpcServing else None),
              pg_main = AwaitServe, pg_workers = 0\<rparr>)))"

section \<open>The process\<close>

abbreviation pg_now :: "program \<Rightarrow> nat" where
  "pg_now p \<equiv> ho_now (sv_host (pg_server p))"

abbreviation pg_timeout :: "program \<Rightarrow> nat" where
  "pg_timeout p \<equiv> shutdown_timeout (po_limits (ho_policy (sv_host (pg_server p))))"

abbreviation pg_cancelled :: "program \<Rightarrow> bool" where
  "pg_cancelled p \<equiv> token_cancelled (pg_cancellation p)"

definition grpc_timeout :: string where
  "grpc_timeout = ''gRPC shutdown exceeded its configured bound''"

text \<open>\<open>grpc::serve\<close>, told by the token.\<close>

inductive grpc_step :: "bool \<Rightarrow> nat \<Rightarrow> nat \<Rightarrow> grpc_phase \<Rightarrow> grpc_phase \<Rightarrow> bool" for cancelled now limit where
  ended: "grpc_step cancelled now limit GrpcServing (GrpcReturned result)"
| told: "cancelled \<Longrightarrow> grpc_step cancelled now limit GrpcServing (GrpcStopping (now + limit))"
| stopped: "grpc_step cancelled now limit (GrpcStopping d) (GrpcReturned result)"
| timeout: "d \<le> now \<Longrightarrow> grpc_step cancelled now limit (GrpcStopping d) (GrpcReturned (Inl grpc_timeout))"

definition main_served :: "io_error + unit \<Rightarrow> program \<Rightarrow> program" where
  "main_served result p =
     p\<lparr>pg_cancellation := snd (token_cancel (pg_cancellation p)),
       pg_main := (if pg_grpc p = None then DropRuntime (map_err ServeFailed result) else AwaitGrpc result)\<rparr>"

definition main_joined :: "io_error + unit \<Rightarrow> string + unit \<Rightarrow> program \<Rightarrow> program" where
  "main_joined result grpc p =
     p\<lparr>pg_main := DropRuntime (if is_ok grpc then map_err ServeFailed result else Inl GrpcFailed)\<rparr>"

text \<open>The drop of the runtime at the end of \<open>#[tokio::main]\<close>: it waits for the workers, however long.\<close>

definition runtime_dropped :: "program \<Rightarrow> program option" where
  "runtime_dropped p =
     (case pg_main p of
        DropRuntime r \<Rightarrow> if pg_workers p = 0 then Some (p\<lparr>pg_main := Exited r\<rparr>) else None
      | _ \<Rightarrow> None)"

definition runtime_alive :: "program \<Rightarrow> bool" where
  "runtime_alive p \<longleftrightarrow> (case pg_main p of DropRuntime r \<Rightarrow> False | Exited r \<Rightarrow> False | _ \<Rightarrow> True)"

text \<open>
  The process without its clients: the HTTP server ends by itself or is told by the token, \<open>serve\<close>
  goes on from there, the gRPC server and \<open>main\<close> move, time passes.
\<close>

inductive process_step :: "program \<Rightarrow> program \<Rightarrow> bool" where
  http_ended: "sv_phase (pg_server p) = Serving \<Longrightarrow>
    process_step p (p\<lparr>pg_server := server_ended result (pg_server p)\<rparr>)"
| http_told: "sv_phase (pg_server p) = Serving \<Longrightarrow> pg_cancelled p \<Longrightarrow>
    process_step p (p\<lparr>pg_server := shutdown_requested (pg_server p)\<rparr>)"
| http: "sv_phase (pg_server p) \<noteq> Serving \<Longrightarrow> serve_step (pg_server p) s \<Longrightarrow>
    process_step p (p\<lparr>pg_server := s\<rparr>)"
| grpc: "pg_grpc p = Some g \<Longrightarrow> grpc_step (pg_cancelled p) (pg_now p) (pg_timeout p) g h \<Longrightarrow>
    process_step p (p\<lparr>pg_grpc := Some h\<rparr>)"
| served: "pg_main p = AwaitServe \<Longrightarrow> sv_phase (pg_server p) = Returned result \<Longrightarrow>
    process_step p (main_served result p)"
| joined: "pg_main p = AwaitGrpc result \<Longrightarrow> pg_grpc p = Some (GrpcReturned g) \<Longrightarrow>
    process_step p (main_joined result g p)"
| dropped: "runtime_dropped p = Some q \<Longrightarrow> process_step p q"
| wait: "pg_now p \<le> n \<Longrightarrow> process_step p (p\<lparr>pg_server := wait n (pg_server p)\<rparr>)"

text \<open>
  With its clients, the interrupt, and the blocking workers: transcriptions and syntheses that
  handlers start while the runtime lives, and that end in their own time.
\<close>

inductive program_step :: "program \<Rightarrow> program \<Rightarrow> bool" where
  process: "process_step p q \<Longrightarrow> program_step p q"
| interrupt: "program_step p (p\<lparr>pg_cancellation := snd (token_cancel (pg_cancellation p))\<rparr>)"
| request: "request_step (sv_host (pg_server p)) h \<Longrightarrow>
    program_step p (p\<lparr>pg_server := (pg_server p)\<lparr>sv_host := h\<rparr>\<rparr>)"
| worker_started: "runtime_alive p \<Longrightarrow> program_step p (p\<lparr>pg_workers := pg_workers p + 1\<rparr>)"
| worker_ended: "0 < pg_workers p \<Longrightarrow> program_step p (p\<lparr>pg_workers := pg_workers p - 1\<rparr>)"

text \<open>
  The process left to itself: \<open>main\<close>, the sections and timers of \<open>serve\<close>, the
  timer of \<open>grpc::serve\<close> and the token. Neither server ends, no cleanup completes, no
  client moves and no worker ends.
\<close>

inductive own_move :: "program \<Rightarrow> program \<Rightarrow> bool" where
  http_told: "sv_phase (pg_server p) = Serving \<Longrightarrow> pg_cancelled p \<Longrightarrow>
    own_move p (p\<lparr>pg_server := shutdown_requested (pg_server p)\<rparr>)"
| http: "own_section (pg_server p) s \<Longrightarrow> own_move p (p\<lparr>pg_server := s\<rparr>)"
| grpc_told: "pg_grpc p = Some GrpcServing \<Longrightarrow> pg_cancelled p \<Longrightarrow>
    own_move p (p\<lparr>pg_grpc := Some (GrpcStopping (pg_now p + pg_timeout p))\<rparr>)"
| grpc_timeout: "pg_grpc p = Some (GrpcStopping d) \<Longrightarrow> d \<le> pg_now p \<Longrightarrow>
    own_move p (p\<lparr>pg_grpc := Some (GrpcReturned (Inl grpc_timeout))\<rparr>)"
| served: "pg_main p = AwaitServe \<Longrightarrow> sv_phase (pg_server p) = Returned result \<Longrightarrow>
    own_move p (main_served result p)"
| joined: "pg_main p = AwaitGrpc result \<Longrightarrow> pg_grpc p = Some (GrpcReturned g) \<Longrightarrow>
    own_move p (main_joined result g p)"
| dropped: "runtime_dropped p = Some q \<Longrightarrow> own_move p q"
| wait: "pg_now p \<le> n \<Longrightarrow> own_move p (p\<lparr>pg_server := wait n (pg_server p)\<rparr>)"

lemma own_section_begun: "own_section s t \<Longrightarrow> sv_phase s \<noteq> Serving"
  by (cases rule: own_section.cases) auto

lemma own_move_process: "own_move p q \<Longrightarrow> process_step p q"
proof (induction rule: own_move.induct)
  case (http p s)
  then show ?case using process_step.http own_section_serve own_section_begun by blast
next
  case (grpc_told p)
  then show ?case by (intro process_step.grpc) (auto intro: grpc_step.told)
next
  case (grpc_timeout p d)
  then show ?case by (intro process_step.grpc) (auto intro: grpc_step.timeout)
qed (blast intro: process_step.intros)+

inductive_cases grpc_stepE: "grpc_step c n l g h"

section \<open>The start\<close>

definition program_new :: "workload \<Rightarrow> server_limits \<Rightarrow> grpc_phase option \<Rightarrow> program" where
  "program_new w limits grpc =
     \<lparr>pg_server = server_new w limits, pg_cancellation = token_new, pg_grpc = grpc, pg_main = AwaitServe,
      pg_workers = 0\<rparr>"

definition program_start :: "workload \<Rightarrow> server_limits \<Rightarrow> program \<Rightarrow> bool" where
  "program_start w limits p \<longleftrightarrow> p = program_new w limits None \<or> p = program_new w limits (Some GrpcServing)"

lemma main_listen_outcome:
  "main_listen m config backend s = (Inr u, s') \<longleftrightarrow>
     s' = s \<and> mc_binds m (rt_bind config) \<and> (backend \<noteq> None \<longrightarrow> mc_binds m (rt_grpc_bind config))"
  by (auto simp: main_listen_def main_bind_def split: prod.splits)

lemma main_serve_iff:
  assumes loads: "engines_load (mc_engines m) (mc_locate m (rt_artifact_root config))
      (max_concurrent_requests (rt_limits config)) (st_disk t, w) = (r, d, w')"
    and config: "main_config m options = Inr config"
  shows "(\<exists>s'. main_serve m options (t, w) = (Inr p, s')) \<longleftrightarrow>
    p = program_new (VoiceEngine (is_ok r)) (rt_limits config) (if is_ok r then Some GrpcServing else None)
    \<and> mc_binds m (rt_bind config) \<and> (is_ok r \<longrightarrow> mc_binds m (rt_grpc_bind config))"
  using assms
  by (cases r) (auto simp: main_serve_def on_engines_def attempt_def main_listen_outcome program_new_def
      bind_st_Inr_iff lift_res_def ret_def map_err_def)

lemma main_serve_starts:
  assumes "main_serve m options s = (Inr p, s')"
  shows "\<exists>w limits. program_start w limits p"
proof -
  obtain t n where s: "s = (t, n)" by (cases s)
  obtain config where c: "main_config m options = Inr config"
    using assms by (cases "main_config m options") (auto simp: main_serve_def lift_res_def bind_st_def)
  obtain r d n' where "engines_load (mc_engines m) (mc_locate m (rt_artifact_root config))
      (max_concurrent_requests (rt_limits config)) (st_disk t, n) = (r, d, n')" by (metis surj_pair)
  from main_serve_iff [OF this c, of p] assms s show ?thesis
    by (auto simp: program_start_def split: if_splits)
qed

section \<open>What holds of the process\<close>

definition ends_with :: "program \<Rightarrow> main_error + unit \<Rightarrow> bool" where
  "ends_with p r \<longleftrightarrow> (\<exists>x. sv_phase (pg_server p) = Returned x \<and> (r = Inr () \<longrightarrow> x = Inr ()))
     \<and> (r = Inr () \<longrightarrow> (\<forall>g. pg_grpc p = Some g \<longrightarrow> g = GrpcReturned (Inr ())))"

definition main_holds :: "program \<Rightarrow> bool" where
  "main_holds p \<longleftrightarrow>
     (case pg_main p of
        AwaitServe \<Rightarrow> True
      | AwaitGrpc r \<Rightarrow> sv_phase (pg_server p) = Returned r \<and> pg_grpc p \<noteq> None \<and> pg_cancelled p
      | DropRuntime r \<Rightarrow> ends_with p r
      | Exited r \<Rightarrow> ends_with p r \<and> pg_workers p = 0)"

definition program_inv :: "workload \<Rightarrow> server_limits \<Rightarrow> program \<Rightarrow> bool" where
  "program_inv w limits p \<longleftrightarrow>
     server_inv w limits (pg_server p) \<and> main_holds p
     \<and> (\<forall>d. pg_grpc p = Some (GrpcStopping d) \<longrightarrow> pg_cancelled p \<and> d \<le> pg_now p + shutdown_timeout limits)"

lemma server_inv_limits: "server_inv w limits s \<Longrightarrow> po_limits (ho_policy (sv_host s)) = limits"
  by (simp add: server_inv_def host_inv_def)

lemma program_start_inv: "program_start w limits p \<Longrightarrow> program_inv w limits p"
  using server_new_inv [of w limits]
  by (auto simp: program_start_def program_new_def program_inv_def main_holds_def ends_with_def)

text \<open>A step of the HTTP server keeps the rest; \<open>serve\<close> has no step after its return.\<close>

lemma program_inv_server:
  assumes inv: "program_inv w limits p" and s: "server_inv w limits s"
    and now: "pg_now p \<le> ho_now (sv_host s)"
    and phase: "\<forall>r. sv_phase (pg_server p) = Returned r \<longrightarrow> sv_phase s = Returned r"
  shows "program_inv w limits (p\<lparr>pg_server := s\<rparr>)"
proof -
  have "main_holds (p\<lparr>pg_server := s\<rparr>)"
    using inv phase by (auto simp: program_inv_def main_holds_def ends_with_def split: main_phase.splits)
  with inv s now show ?thesis by (auto simp: program_inv_def intro: order_trans)
qed

lemma serve_step_now: "serve_step s t \<Longrightarrow> ho_now (sv_host t) = ho_now (sv_host s)"
  by (cases rule: serve_step.cases)
    (auto simp: server_ended_def shutdown_requested_def begin_drain_def publish_drain_def drain_stopped_def
      stop_section_def publish_stop_def http_ended_def begin_cleanup_def finish_cleanup_def process_def
      set_gate_def Let_def split: option.splits prod.splits)

lemma returned_final: "serve_step s t \<Longrightarrow> sv_phase s \<noteq> Returned r"
  using serve_step_rank by fastforce

lemma program_inv_serve:
  assumes "program_inv w limits p" and "serve_step (pg_server p) s"
  shows "program_inv w limits (p\<lparr>pg_server := s\<rparr>)"
  using program_inv_server [OF assms(1)] serve_step_server_inv [OF _ assms(2)] serve_step_now [OF assms(2)]
    returned_final [OF assms(2)] assms(1)
  by (simp add: program_inv_def)

lemma process_step_inv:
  assumes inv: "program_inv w limits p" and step: "process_step p q"
  shows "program_inv w limits q"
  using step
proof cases
  case (http_ended result)
  with inv program_inv_serve serve_step.ended show ?thesis by blast
next
  case http_told
  with inv program_inv_serve serve_step.requested show ?thesis by blast
next
  case (http s)
  with inv program_inv_serve show ?thesis by blast
next
  case (grpc g h)
  have "pg_timeout p = shutdown_timeout limits"
    using inv server_inv_limits by (auto simp: program_inv_def)
  with inv grpc show ?thesis
    by (auto simp: program_inv_def main_holds_def ends_with_def elim!: grpc_stepE split: main_phase.splits)
next
  case (served result)
  with inv show ?thesis
    by (auto simp: program_inv_def main_holds_def ends_with_def main_served_def token_cancel_def map_err_def split: sum.splits)
next
  case (joined result g)
  with inv show ?thesis
    by (cases g) (auto simp: program_inv_def main_holds_def ends_with_def main_joined_def map_err_def split: sum.splits)
next
  case dropped
  with inv show ?thesis
    by (auto simp: program_inv_def main_holds_def ends_with_def runtime_dropped_def split: main_phase.splits if_splits)
next
  case (wait n)
  have "server_inv w limits (Serving.wait n (pg_server p))"
  proof -
    have "request_step (sv_host (pg_server p)) ((sv_host (pg_server p))\<lparr>ho_now := n\<rparr>)"
      using request_step.tick [OF wait(2)] by (cases "sv_host (pg_server p)") simp
    with request_step_server_inv inv show ?thesis by (simp add: wait_def program_inv_def)
  qed
  with wait inv program_inv_server [of w limits p "Serving.wait n (pg_server p)"] show ?thesis
    by (simp add: wait_def)
qed

lemma program_step_inv:
  assumes inv: "program_inv w limits p" and step: "program_step p q"
  shows "program_inv w limits q"
  using step
proof cases
  case process
  with inv process_step_inv show ?thesis by blast
next
  case interrupt
  with inv show ?thesis
    by (auto simp: program_inv_def main_holds_def ends_with_def token_cancel_def split: main_phase.splits)
next
  case (request h)
  with inv program_inv_server [OF inv request_step_server_inv [OF _ request(2)]] request_step_keeps(3) [OF request(2)]
  show ?thesis by (simp add: program_inv_def)
next
  case worker_started
  with inv show ?thesis
    by (auto simp: program_inv_def main_holds_def ends_with_def runtime_alive_def split: main_phase.splits)
next
  case worker_ended
  with inv show ?thesis
    by (auto simp: program_inv_def main_holds_def ends_with_def split: main_phase.splits)
qed

interpretation program: step_invariant "program_start w limits" program_step "program_inv w limits"
  for w limits
  by unfold_locales (auto intro: program_start_inv program_step_inv)

section \<open>The process ends\<close>

lemma own_step_lifts: "own_step s t \<Longrightarrow> own_move (p\<lparr>pg_server := s\<rparr>) (p\<lparr>pg_server := t\<rparr>)"
proof (induction rule: own_step.induct)
  case (own s t)
  with own_move.http [of "p\<lparr>pg_server := s\<rparr>" t] show ?case by simp
next
  case (wait s n)
  with own_move.wait [of "p\<lparr>pg_server := s\<rparr>" n] show ?case by (simp add: wait_def)
qed

lemma own_steps_lift: "own_step\<^sup>*\<^sup>* s t \<Longrightarrow> own_move\<^sup>*\<^sup>* (p\<lparr>pg_server := s\<rparr>) (p\<lparr>pg_server := t\<rparr>)"
proof (induction rule: rtranclp_induct)
  case (step t u)
  from step(3) own_step_lifts [OF step(2), of p] show ?case by (rule rtranclp.rtrancl_into_rtrancl)
qed simp

lemma serve_returns_within:
  assumes inv: "program_inv w limits p" and "pg_cancelled p \<or> sv_phase (pg_server p) \<noteq> Serving"
  shows "\<exists>s r. own_move\<^sup>*\<^sup>* p (p\<lparr>pg_server := s\<rparr>) \<and> sv_phase s = Returned r
    \<and> ho_now (sv_host s) \<le> pg_now p + shutdown_timeout limits"
proof -
  let ?b = "shutdown_deadline (pg_server p)"
  have b: "?b = pg_now p + shutdown_timeout limits"
    using inv server_inv_limits by (auto simp: program_inv_def shutdown_deadline_def)
  have due: "due ?b (pg_server p)"
    using inv by (simp add: due_def program_inv_def server_inv_def) (simp add: shutdown_deadline_def)
  show ?thesis
  proof (cases "sv_phase (pg_server p) = Serving")
    case True
    let ?s = "shutdown_requested (pg_server p)"
    have "due ?b ?s" using serve_step_due serve_step.requested True due by blast
    moreover have "sv_phase ?s \<noteq> Serving" by (simp add: shutdown_requested_def)
    ultimately obtain t r where t: "own_step\<^sup>*\<^sup>* ?s t" "sv_phase t = Returned r" "ho_now (sv_host t) \<le> ?b"
      using own_returns by blast
    have "own_move p (p\<lparr>pg_server := ?s\<rparr>)" using own_move.http_told True assms(2) by blast
    moreover from own_steps_lift [OF t(1), of p]
    have "own_move\<^sup>*\<^sup>* (p\<lparr>pg_server := ?s\<rparr>) (p\<lparr>pg_server := t\<rparr>)" .
    ultimately show ?thesis using t(2,3) b by (metis converse_rtranclp_into_rtranclp)
  next
    case False
    from own_returns [OF due this] obtain t r where
      t: "own_step\<^sup>*\<^sup>* (pg_server p) t" "sv_phase t = Returned r" "ho_now (sv_host t) \<le> ?b"
      by blast
    from own_steps_lift [OF t(1), of p] have "own_move\<^sup>*\<^sup>* p (p\<lparr>pg_server := t\<rparr>)" by simp
    with t(2,3) b show ?thesis by metis
  qed
qed

text \<open>How long the gRPC server may still need.\<close>

definition grpc_due :: "nat \<Rightarrow> program \<Rightarrow> bool" where
  "grpc_due b p \<longleftrightarrow> pg_now p \<le> b \<and> (pg_grpc p = Some GrpcServing \<longrightarrow> pg_now p + pg_timeout p \<le> b)
     \<and> (\<forall>d. pg_grpc p = Some (GrpcStopping d) \<longrightarrow> d \<le> b)"

lemma grpc_returns:
  assumes "grpc_due b p" and "pg_cancelled p" and "pg_main p = AwaitGrpc r" and "pg_grpc p \<noteq> None"
  shows "\<exists>q. own_move\<^sup>*\<^sup>* p q \<and> \<not> runtime_alive q \<and> pg_now q \<le> b"
proof -
  have returned: ?thesis if "own_move\<^sup>*\<^sup>* p q" "pg_grpc q = Some (GrpcReturned g)" "pg_main q = AwaitGrpc r" "pg_now q \<le> b" for q g
  proof -
    have "own_move q (main_joined r g q)" using own_move.joined that by blast
    moreover have "\<not> runtime_alive (main_joined r g q)"
      "pg_now (main_joined r g q) = pg_now q" by (simp_all add: main_joined_def runtime_alive_def)
    ultimately show ?thesis using that by (metis rtranclp.rtrancl_into_rtrancl)
  qed
  have stopping: ?thesis if p: "own_move\<^sup>*\<^sup>* p q" and q: "pg_grpc q = Some (GrpcStopping d)" "d \<le> b"
    "pg_main q = AwaitGrpc r" "pg_now q \<le> b" for q d
  proof -
    let ?q = "q\<lparr>pg_server := Serving.wait b (pg_server q)\<rparr>"
    have "own_move q ?q" using own_move.wait q(4) by blast
    moreover have "own_move ?q (?q\<lparr>pg_grpc := Some (GrpcReturned (Inl grpc_timeout))\<rparr>)"
      using q by (intro own_move.grpc_timeout) (simp_all add: wait_def)
    ultimately have "own_move\<^sup>*\<^sup>* p (?q\<lparr>pg_grpc := Some (GrpcReturned (Inl grpc_timeout))\<rparr>)"
      using p by (meson rtranclp.rtrancl_into_rtrancl)
    with returned q show ?thesis by (simp add: wait_def)
  qed
  obtain g where g: "pg_grpc p = Some g" using assms(4) by blast
  show ?thesis
  proof (cases g)
    case GrpcServing
    then have "own_move p (p\<lparr>pg_grpc := Some (GrpcStopping (pg_now p + pg_timeout p))\<rparr>)"
      using g assms(2) by (intro own_move.grpc_told) simp_all
    with stopping [OF r_into_rtranclp [of own_move, OF this]] assms(1,3) g GrpcServing show ?thesis
      by (simp add: grpc_due_def)
  next
    case (GrpcStopping d)
    with stopping [of p d] g assms(1,3) show ?thesis by (simp add: grpc_due_def)
  next
    case (GrpcReturned x)
    with returned [of p x] g assms(1,3) show ?thesis by (simp add: grpc_due_def)
  qed
qed

lemma main_exits:
  assumes inv: "program_inv w limits p" and "sv_phase (pg_server p) = Returned r" and due: "grpc_due b p"
  shows "\<exists>q. own_move\<^sup>*\<^sup>* p q \<and> \<not> runtime_alive q \<and> pg_now q \<le> b"
proof (cases "pg_main p")
  case AwaitServe
  let ?q = "main_served r p"
  have step: "own_move p ?q" using own_move.served AwaitServe assms(2) by blast
  show ?thesis
  proof (cases "pg_grpc p")
    case None
    then have "\<not> runtime_alive ?q" "pg_now ?q = pg_now p" by (simp_all add: main_served_def runtime_alive_def)
    with step due show ?thesis unfolding grpc_due_def by (metis r_into_rtranclp)
  next
    case (Some g)
    then have "grpc_due b ?q" "pg_cancelled ?q" "pg_main ?q = AwaitGrpc r" "pg_grpc ?q \<noteq> None"
      using due by (simp_all add: main_served_def grpc_due_def token_cancel_def)
    from grpc_returns [OF this] step show ?thesis by (meson converse_rtranclp_into_rtranclp)
  qed
next
  case (AwaitGrpc x)
  with inv have "pg_cancelled p" "pg_grpc p \<noteq> None" by (simp_all add: program_inv_def main_holds_def ends_with_def)
  with grpc_returns due AwaitGrpc show ?thesis by blast
next
  case (DropRuntime x)
  then have "\<not> runtime_alive p" by (simp add: runtime_alive_def)
  with due show ?thesis unfolding grpc_due_def by blast
next
  case (Exited x)
  then have "\<not> runtime_alive p" by (simp add: runtime_alive_def)
  with due show ?thesis unfolding grpc_due_def by blast
qed

lemma own_moves_inv: "own_move\<^sup>*\<^sup>* p q \<Longrightarrow> program_inv w limits p \<Longrightarrow> program_inv w limits q"
  by (induction rule: rtranclp_induct) (auto intro: process_step_inv own_move_process)

lemma own_moves_workers: "own_move\<^sup>*\<^sup>* p q \<Longrightarrow> pg_workers q = pg_workers p"
proof (induction rule: rtranclp_induct)
  case (step q u)
  from step(2) have "pg_workers u = pg_workers q"
    by (cases rule: own_move.cases)
      (auto simp: main_served_def main_joined_def runtime_dropped_def split: main_phase.splits if_splits)
  with step(3) show ?case by simp
qed simp

lemma main_returns:
  assumes inv: "program_inv w limits p"
    and begun: "pg_cancelled p \<or> sv_phase (pg_server p) \<noteq> Serving"
  shows "\<exists>q. own_move\<^sup>*\<^sup>* p q \<and> \<not> runtime_alive q
    \<and> pg_now q \<le> pg_now p + (if pg_cancelled p then 1 else 2) * shutdown_timeout limits"
proof -
  let ?b = "pg_now p + (if pg_cancelled p then 1 else 2) * shutdown_timeout limits"
  have lim: "pg_timeout q = shutdown_timeout limits" if "program_inv w limits q" for q
    using that server_inv_limits by (auto simp: program_inv_def)
  have reach: ?thesis if q: "own_move\<^sup>*\<^sup>* p q" and told: "pg_cancelled q = pg_cancelled p" "pg_now q = pg_now p"
      "sv_phase (pg_server q) = sv_phase (pg_server p)" "pg_cancelled q \<Longrightarrow> pg_grpc q \<noteq> Some GrpcServing" for q
  proof -
    have iq: "program_inv w limits q" using own_moves_inv [OF q inv] .
    from serve_returns_within [OF iq] begun told obtain s r where
      s: "own_move\<^sup>*\<^sup>* q (q\<lparr>pg_server := s\<rparr>)" "sv_phase s = Returned r"
        "ho_now (sv_host s) \<le> pg_now q + shutdown_timeout limits" by auto
    let ?s = "q\<lparr>pg_server := s\<rparr>"
    have keeps: "program_inv w limits ?s" using own_moves_inv [OF s(1) iq] .
    have "grpc_due ?b ?s"
      using s(3) told iq lim [OF keeps] by (auto simp: grpc_due_def program_inv_def)
    from main_exits [OF keeps _ this] s(2) obtain t where
      t: "own_move\<^sup>*\<^sup>* ?s t" "\<not> runtime_alive t" "pg_now t \<le> ?b" by auto
    have "own_move\<^sup>*\<^sup>* p t" using q s(1) t(1) by (meson rtranclp_trans)
    with t(2,3) show ?thesis by blast
  qed
  show ?thesis
  proof (cases "pg_cancelled p \<and> pg_grpc p = Some GrpcServing")
    case True
    let ?q = "p\<lparr>pg_grpc := Some (GrpcStopping (pg_now p + pg_timeout p))\<rparr>"
    have "own_move p ?q" using True by (intro own_move.grpc_told) simp_all
    from reach [OF r_into_rtranclp [of own_move, OF this]] True show ?thesis by simp
  next
    case False
    with reach [of p] show ?thesis by auto
  qed
qed

text \<open>While a worker runs, the process does not exit.\<close>

lemma exits_without_workers:
  assumes "program_step p q" and "pg_main p = DropRuntime r" and "pg_main q = Exited x"
  shows "pg_workers p = 0"
  using assms(1)
proof cases
  case process
  then show ?thesis
    using assms(2,3)
    by (cases rule: process_step.cases)
      (auto simp: main_served_def main_joined_def runtime_dropped_def split: if_splits)
qed (use assms(2,3) in simp_all)

section \<open>What the start depends on\<close>

lemma config_concurrency:
  "main_config m options = Inr config \<Longrightarrow> 0 < max_concurrent_requests (rt_limits config)"
  by (auto simp: main_config_def Config.resolve_def res_simps resolve_layers_Inr_iff server_limits_new_Inr_iff)

lemma main_doctor_ready:
  "(\<exists>report i s'. main_doctor m options (t, w) = (Inr (report, i), s') \<and> ei_is_ready i) \<longleftrightarrow>
     (\<exists>config. main_config m options = Inr config
       \<and> (\<exists>i s'. inspect (mc_engines m) (mc_locate m (rt_artifact_root config)) (st_disk t, w) = (Inr i, s')
           \<and> ei_is_ready i))"
proof (cases "main_config m options")
  case (Inr config)
  obtain r d n where "inspect (mc_engines m) (mc_locate m (rt_artifact_root config)) (st_disk t, w) = (r, d, n)"
    by (metis surj_pair)
  with Inr show ?thesis
    by (cases r) (simp_all add: main_doctor_def on_engines_def lift_res_def ret_def bind_st_def map_err_def)
qed (auto simp: main_doctor_def lift_res_def bind_st_def)

text \<open>The checks of \<open>load\<close> and \<open>inspect\<close> on the artifact store of a configuration.\<close>

definition main_engines_make :: "'n machine \<Rightarrow> runtime_config \<Rightarrow> store \<Rightarrow> 'n native \<Rightarrow> bool \<Rightarrow> bool" where
  "main_engines_make m config t w beside \<longleftrightarrow>
     engines_make (mc_engines m) (mc_locate m (rt_artifact_root config)) (st_disk t) w beside"

lemma new_server_health:
  "health_snapshot (sv_health (server_new (VoiceEngine b) limits)) =
     \<lparr>hs_live = True, hs_ready = b, hs_reason = (if b then None else Some ComponentUnavailable)\<rparr>"
  using app_new_health [of Running "VoiceEngine b"] by (simp add: server_new_def app_new_def Let_def)

section \<open>Properties\<close>

text \<open>
  C30: what \<open>doctor\<close> and \<open>serve\<close> depend on, with the same options and a disk
  that does not fail. \<open>serve\<close> starts exactly when the configuration resolves, the HTTP
  address can be bound and, if the engines load, the gRPC address too. The server it starts is live, and
  it is ready and has its gRPC server beside it exactly when the artifacts are verified and the library
  makes a recognizer and, beside it, a synthesizer. \<open>doctor\<close> reports ready engines exactly
  when the configuration resolves and all the same holds with the synthesizer made after the recognizer
  of the test was destroyed. So the two can disagree only through an address that cannot be bound, or a
  library whose synthesizer depends on whether the recognizer is still there.
\<close>

theorem doctor_predicts_serve:
  assumes "tree (dk_entries (st_disk t))" and "dk_faults (st_disk t) = []"
  shows "((\<exists>p s'. main_serve m options (t, w) = (Inr p, s'))
        \<longleftrightarrow> (\<exists>config. main_config m options = Inr config \<and> mc_binds m (rt_bind config)
              \<and> (main_engines_make m config t w True \<longrightarrow> mc_binds m (rt_grpc_bind config))))
    \<and> (\<forall>p s' config. main_serve m options (t, w) = (Inr p, s') \<and> main_config m options = Inr config \<longrightarrow>
          hs_live (health_snapshot (sv_health (pg_server p)))
          \<and> hs_ready (health_snapshot (sv_health (pg_server p))) = main_engines_make m config t w True
          \<and> pg_grpc p = (if main_engines_make m config t w True then Some GrpcServing else None))
    \<and> ((\<exists>report i s'. main_doctor m options (t, w) = (Inr (report, i), s') \<and> ei_is_ready i)
        \<longleftrightarrow> (\<exists>config. main_config m options = Inr config \<and> main_engines_make m config t w False))"
proof (cases "main_config m options")
  case (Inl e)
  then have "fst (main_serve m options (t, w)) = Inl e" by (simp add: main_serve_def lift_res_def bind_st_def)
  then have "main_serve m options (t, w) \<noteq> (Inr p, s')" for p s' by force
  with Inl show ?thesis unfolding main_doctor_ready by simp
next
  case (Inr config)
  let ?root = "mc_locate m (rt_artifact_root config)" and ?n = "max_concurrent_requests (rt_limits config)"
  obtain r d n where load: "engines_load (mc_engines m) ?root ?n (st_disk t, w) = (r, d, n)" by (metis surj_pair)
  have make: "is_ok r = main_engines_make m config t w True"
    using load_and_inspect_iff(1) [OF assms config_concurrency [OF Inr], of "mc_engines m" ?root w] load
    by (auto simp: is_ok_iff main_engines_make_def)
  note starts = main_serve_iff [OF load Inr, unfolded make]
  have "(\<exists>p s'. main_serve m options (t, w) = (Inr p, s'))
      \<longleftrightarrow> mc_binds m (rt_bind config) \<and> (main_engines_make m config t w True \<longrightarrow> mc_binds m (rt_grpc_bind config))"
    unfolding starts by simp
  moreover have "hs_live (health_snapshot (sv_health (pg_server p)))
        \<and> hs_ready (health_snapshot (sv_health (pg_server p))) = main_engines_make m config t w True
        \<and> pg_grpc p = (if main_engines_make m config t w True then Some GrpcServing else None)"
    if "main_serve m options (t, w) = (Inr p, s')" for p s'
    using starts [of p] that by (auto simp: program_new_def new_server_health)
  moreover note load_and_inspect_iff(2) [OF assms, of "mc_engines m" ?root w]
  ultimately show ?thesis
    unfolding main_doctor_ready by (simp add: Inr main_engines_make_def)
qed

text \<open>
  C29: how the process ends, and that a clean exit is true. Once it was interrupted, \<open>main\<close>
  returns within \<open>shutdown_timeout\<close>, and within twice that when the HTTP server ended by
  itself, by its own moves, the sections of \<open>serve\<close> and the timers alone: neither server
  ends, no cleanup completes and no client moves. The process is not over then: it drops the runtime,
  which waits for the blocking workers still running, without a bound. It exits by its own moves when
  none is left, and never before: no exited process has a worker, and while one runs no move of the
  process exits. When it has exited with success the HTTP server and the gRPC server have both ended
  well, and if the shutdown was requested no request is left in the policy.
\<close>

theorem process_ends:
  assumes "main_serve m options s = (Inr p0, s')" and "program_step\<^sup>*\<^sup>* p0 p"
  shows "(pg_cancelled p \<or> sv_phase (pg_server p) \<noteq> Serving \<longrightarrow>
      (\<exists>q. own_move\<^sup>*\<^sup>* p q \<and> \<not> runtime_alive q \<and> pg_workers q = pg_workers p
        \<and> pg_now q \<le> pg_now p + (if pg_cancelled p then 1 else 2) * pg_timeout p))
    \<and> (\<forall>q r. pg_main p = DropRuntime r \<and> program_step p q \<and> pg_main q = Exited r \<longrightarrow> pg_workers p = 0)
    \<and> (\<forall>r. pg_main p = DropRuntime r \<and> pg_workers p = 0 \<longrightarrow> own_move p (p\<lparr>pg_main := Exited r\<rparr>))
    \<and> (\<forall>r. pg_main p = Exited r \<longrightarrow> pg_workers p = 0)
    \<and> (\<forall>u v. own_move u v \<longrightarrow> process_step u v)
    \<and> (pg_main p = Exited (Inr ()) \<longrightarrow>
        sv_phase (pg_server p) = Returned (Inr ())
        \<and> (\<forall>g. pg_grpc p = Some g \<longrightarrow> g = GrpcReturned (Inr ()))
        \<and> (token_cancelled (sv_http_shutdown (pg_server p)) \<longrightarrow>
             total_of holds_guard (ho_tasks (sv_host (pg_server p))) = 0))"
proof (intro conjI)
  obtain w limits where "program_start w limits p0" using main_serve_starts [OF assms(1)] by blast
  then have inv: "program_inv w limits p" using program.reachable_inv assms(2) by blast
  then have srv: "server_inv w limits (pg_server p)" and main: "main_holds p" by (simp_all add: program_inv_def)
  show "pg_cancelled p \<or> sv_phase (pg_server p) \<noteq> Serving \<longrightarrow>
      (\<exists>q. own_move\<^sup>*\<^sup>* p q \<and> \<not> runtime_alive q \<and> pg_workers q = pg_workers p
        \<and> pg_now q \<le> pg_now p + (if pg_cancelled p then 1 else 2) * pg_timeout p)"
    using main_returns [OF inv] server_inv_limits [OF srv] own_moves_workers by metis
  show "\<forall>q r. pg_main p = DropRuntime r \<and> program_step p q \<and> pg_main q = Exited r \<longrightarrow> pg_workers p = 0"
    using exits_without_workers by blast
  show "\<forall>r. pg_main p = DropRuntime r \<and> pg_workers p = 0 \<longrightarrow> own_move p (p\<lparr>pg_main := Exited r\<rparr>)"
    by (auto intro: own_move.dropped simp: runtime_dropped_def)
  show "\<forall>r. pg_main p = Exited r \<longrightarrow> pg_workers p = 0" using main by (auto simp: main_holds_def)
  show "\<forall>u v. own_move u v \<longrightarrow> process_step u v" using own_move_process by blast
  have "total_of holds_guard (ho_tasks (sv_host (pg_server p))) = 0"
    if "sv_phase (pg_server p) = Returned (Inr ())" "token_cancelled (sv_http_shutdown (pg_server p))"
    using that srv by (auto simp: server_inv_def host_inv_def gate_settled_def)
  then show "pg_main p = Exited (Inr ()) \<longrightarrow>
        sv_phase (pg_server p) = Returned (Inr ())
        \<and> (\<forall>g. pg_grpc p = Some g \<longrightarrow> g = GrpcReturned (Inr ()))
        \<and> (token_cancelled (sv_http_shutdown (pg_server p)) \<longrightarrow>
             total_of holds_guard (ho_tasks (sv_host (pg_server p))) = 0)"
    using main by (auto simp: main_holds_def ends_with_def)
qed

section \<open>Witnesses\<close>

text \<open>The demonstration store, the silent library and a configuration that says where the store is.\<close>

definition demo_machine :: "nat machine" where
  "demo_machine = \<lparr>mc_config = bare_world, mc_engines = demo_engine_env, mc_locate = \<lambda>_. [''b''],
     mc_binds = \<lambda>_. True\<rparr>"

abbreviation demo_start :: "store \<times> nat native" where
  "demo_start \<equiv> (demo_store, \<lparr>nt_state = 0, nt_calls = []\<rparr>)"

lemma demo_machine_simps:
  "mc_engines demo_machine = demo_engine_env" "mc_locate demo_machine p = [''b'']" "mc_binds demo_machine = (\<lambda>_. True)"
  "ee_native demo_engine_env = silent_lib"
  by (simp_all add: demo_machine_def demo_engine_env_def)

lemma demo_disk_steady: "tree (dk_entries (st_disk demo_store))" "dk_faults (st_disk demo_store) = []"
  using demo_tree by (simp_all add: demo_store_def)

lemma demo_config: "is_ok (main_config demo_machine queue_options)"
  using bare_resolves(3) by (auto simp: main_config_def demo_machine_def map_err_def)

theorem doctor_predicts_serve_witness:
  "\<exists>p s'. main_serve demo_machine queue_options demo_start = (Inr p, s')
     \<and> hs_live (health_snapshot (sv_health (pg_server p)))"
proof -
  obtain config where c: "main_config demo_machine queue_options = Inr config"
    using demo_config by (auto simp: is_ok_iff)
  note d = doctor_predicts_serve [OF demo_disk_steady, of demo_machine queue_options]
  from d c obtain p s' where p: "main_serve demo_machine queue_options demo_start = (Inr p, s')"
    unfolding demo_machine_simps by metis
  with d c show ?thesis by metis
qed

text \<open>The process started above, interrupted at once.\<close>

theorem process_ends_witness:
  "\<exists>p q. main_serve demo_machine queue_options demo_start = (Inr p, snd (main_serve demo_machine queue_options demo_start))
     \<and> own_move\<^sup>*\<^sup>* (p\<lparr>pg_cancellation := \<lparr>token_cancelled = True\<rparr>\<rparr>) q \<and> \<not> runtime_alive q"
proof -
  obtain config where c: "main_config demo_machine queue_options = Inr config"
    using demo_config by (auto simp: is_ok_iff)
  obtain r d n where "engines_load (mc_engines demo_machine) (mc_locate demo_machine (rt_artifact_root config))
      (max_concurrent_requests (rt_limits config)) (st_disk demo_store, \<lparr>nt_state = 0, nt_calls = []\<rparr>) = (r, d, n)"
    by (metis surj_pair)
  note iff = main_serve_iff [OF this c]
  obtain p s' where
    p: "main_serve demo_machine queue_options demo_start = (Inr p, s')" "pg_cancellation p = token_new"
    using iff [THEN iffD2, OF conjI [OF refl]] by (fastforce simp: demo_machine_simps program_new_def)
  let ?q = "p\<lparr>pg_cancellation := \<lparr>token_cancelled = True\<rparr>\<rparr>"
  have "program_step p ?q"
    using program_step.interrupt [of p] p(2) by (simp add: token_cancel_def token_new_def)
  from process_ends [OF p(1) r_into_rtranclp [of program_step, OF this]] p(1) show ?thesis
    by auto
qed

end
