(* ===== verification/Spec2Isabelle.thy ===== *)
theory Spec2Isabelle
  imports Audio_Core Wav Resample Incremental Vad Core Token Shutdown Limiter Stt Tts Voice_Api
    Realtime Realtime_Protocol Realtime_Permits Grpc Grpc_Permits Mcp Transports Config Policy
    Artifact_Status Sherpa_Protocol Sherpa_Threads Engines Native_Use Server Serving Program
begin

text \<open>
  A model of impossible-voice, a local speech server in Rust, with the properties that make it
  correct.

  The program. A host (\<open>server/src/lib.rs\<close>) admits HTTP requests through a gate, two semaphores and
  a deadline, and serves a control plane beside them. Behind it one backend, a recognizer and a
  synthesizer with a concurrency limiter each, is offered by four transports: HTTP and WebSocket
  (\<open>voice_api.rs\<close>), gRPC (\<open>grpc.rs\<close>) and MCP (\<open>mcp.rs\<close>). The engines (\<open>stt\<close>, \<open>tts\<close>) cut, resample and
  bound audio with the \<open>audio\<close> crate and call a native library through \<open>sherpa-sys\<close>, loaded from
  artifacts that the \<open>artifacts\<close> crate downloads, verifies and installs. \<open>Result\<close> is a sum
  everywhere, a \<open>&mut self\<close> method is a state transformer that keeps its effects on error.

  Foundations:

  \<^item> \<open>Prelude\<close>: results, checked fixed-width arithmetic, little-endian bytes, state actions, and the
    interfaces that several components share as locales (step systems with an invariant, decoders
    fed by chunks, pools of permits), each interpreted on the model where it is provided.
  \<^item> \<open>Ieee\<close>: binary floating point as rationals rounded to nearest even; binary32 and binary64 are
    its instances, \<open>f32\<close> adds the infinities and NaN.
  \<^item> \<open>Strings\<close>: the methods of \<open>str\<close> that are used on ASCII text. \<open>Files\<close>: \<open>std::fs\<close> and \<open>std::path\<close> on
    Unix, a tree of entries with links, and faults that the environment decides. A path is the list of
    its names from the root, and joining a \<open>..\<close> to it goes up one level (\<open>descend\<close>).

  Audio, \<open>crates/impossible-voice-audio/src/lib.rs\<close>: \<open>Audio_Core\<close> (limits, \<open>MonoPcm\<close>, PCM16), \<open>Wav\<close>,
  \<open>Resample\<close> (one-shot and streaming), \<open>Incremental\<close> (\<open>IncrementalPcm16\<close>), \<open>Vad\<close> (\<open>EnergyVad\<close>). Proved:
  round trips, the equality of chunked and batch processing (with its errors), totality under rounding, and the
  refinement of a list of chunks and of an automaton.

  Host core, \<open>vendor/impossible-server/crates/impossible-server-core/src\<close>: \<open>Core\<close> (\<open>cancellation.rs\<close>,
  \<open>error.rs\<close>, \<open>health.rs\<close>, \<open>limits.rs\<close>, \<open>request.rs\<close>), \<open>Token\<close> (\<open>cancel\<close> and \<open>cancelled\<close> interleaved at their
  accesses to the flag and to the \<open>Notify\<close>: no wake-up is missed) and \<open>Shutdown\<close> (\<open>shutdown.rs\<close>: one
  function per critical section, threads interleaved at those sections).

  Engines: \<open>Limiter\<close> (the \<open>Limiter\<close> of both crates), \<open>Stt\<close> (\<open>stt/src/lib.rs\<close>: \<open>transcribe\<close> and the
  streaming session), \<open>Tts\<close> (\<open>tts/src/lib.rs\<close>: \<open>synthesize\<close>, transport chunks). The native calls, the
  clock and the cancellation flag are arguments. Proved: what the recognizer is fed, when a result
  may be returned, and that permits come back.

  Transports: \<open>Voice_Api\<close> (HTTP, and the backend that \<open>engines.rs\<close> implements), \<open>Realtime\<close> (the
  WebSocket session as a loop over received messages; a send may fail, or be cut by the session
  timeout and then still reach the peer, which \<open>ws_cut\<close> records; a synthesis that the session leaves
  behind may still run, \<open>we_abandoned\<close>), \<open>Grpc\<close>, \<open>Mcp\<close>.
  \<open>Realtime_Protocol\<close> has the output protocol as an automaton and a weakest-precondition calculus
  for the handlers; \<open>Backend_Permits\<close> is the backend's contract about permits as a locale, on which
  \<open>Realtime_Permits\<close> and \<open>Grpc_Permits\<close> rest; \<open>Transports\<close> compares the four.

  Host, \<open>crates/impossible-voice-server/src/lib.rs\<close>: \<open>Policy\<close> (\<open>enforce_workload_policy\<close>, one function
  per section between awaits, any number of requests interleaved with the clock and the shutdown),
  \<open>Server\<close> (workloads, \<open>with_limits\<close>, the control-plane handlers, routing,
  \<open>normalize_public_failures\<close>), \<open>Serving\<close> (\<open>serve\<close> and \<open>poll_workload_shutdown\<close> as a thread of sections
  over the host of \<open>Policy\<close>). Proved: conservation of permits, guards and identifiers; what can happen
  after the stop; that a graceful end leaves no request; that requests and the shutdown end by
  themselves: \<open>unaided\<close> has the steps of a request that need neither its client nor its handler,
  \<open>own_section\<close> the sections of \<open>serve\<close> that need neither the HTTP server nor the cleanup, and these
  alone bring an overdue request to its answer and \<open>serve\<close> to its return within \<open>shutdown_timeout\<close>.
  Ranks bound both: nine steps of a request (\<open>task_rank\<close>), nine sections of \<open>serve\<close> after the request to
  shut down (\<open>serve_rank\<close>). \<open>Config\<close> is \<open>config.rs\<close>: layers, bounds, doctor.

  Artifacts, \<open>crates/impossible-voice-artifacts/src/lib.rs\<close>: \<open>Artifacts\<close> (manifest and paths),
  \<open>Artifact_Store\<close> (verification and extraction), \<open>Artifact_Setup\<close> (recovery, download, installation,
  \<open>setup\<close>, \<open>status\<close>, \<open>verified_profile\<close>). A download follows at most five redirects, each recorded
  (\<open>max_redirects\<close>). Links are followed 40 deep (\<open>max_links\<close>), as Linux does;
  the walk of the inventory ends because the multiset of entries below the directories still to be
  visited shrinks. \<open>Artifact_Verify\<close>, \<open>Artifact_Extract\<close>, \<open>Artifact_Changes\<close>,
  \<open>Artifact_Guarantees\<close> and \<open>Artifact_Status\<close> hold what follows: a verified object is intact, an
  extraction and a setup stay where they may write, a setup that succeeds is sound. What is
  said of extractions and setups holds on disks without symbolic links (\<open>tree\<close>).

  Native library: \<open>Sherpa_Config\<close> has the C configurations field by field, \<open>Sherpa\<close> is \<open>crates/impossible-voice-sherpa-sys/src/lib.rs\<close>, each call to the library
  recorded, and a program as a sequence of operations on and drops of the wrapper's values;
  \<open>Sherpa_Protocol\<close> is the library's usage protocol (live objects, their order of destruction) and
  the proof that no program breaks it. Decoding is bounded by 100000 steps, as in the code.
  \<open>Sherpa_Threads\<close> has the same operations as scripts of native calls and mutex acquisitions, so that
  any number of threads interleave between two calls: the mutexes serialize what they guard, never
  deadlock, and an operation takes at most \<open>operation_bound\<close> steps (two calls for each of the 100000
  decodings and eight more); a script run alone is the operation of \<open>Sherpa\<close>.
  \<open>Engines\<close> is \<open>load\<close> and \<open>inspect\<close> of \<open>server/src/engines.rs\<close>, over both the disk and the library.
  \<open>Native\<close> puts the engines on the library (\<open>NativeBackend\<close>, \<open>NativeStream\<close>): what the library is
  handed, that only UTF-8 comes back, and that a library that cooperates lets every session end.
  \<open>Stream_Owner\<close> is the interface of a world that keeps account of the open streams, with what \<open>Stt\<close>
  does to them; \<open>Native_Use\<close> interprets it on the library: any use of the backend is a program of the
  wrapper, each session has one live native stream, and none is left behind.

  Process: \<open>Program\<close> is \<open>main.rs\<close> with \<open>grpc::serve\<close>: the four commands, the start of both servers,
  and the process up to its exit as threads that share the cancellation token and the clock, with
  the drop of the runtime, which waits for blocking workers. Proved: what \<open>doctor\<close> and \<open>serve\<close> depend
  on, and hence where they can differ; \<open>main\<close> returns in time by its own moves (\<open>own_move\<close>) after an
  interrupt, the process exits exactly when no worker is left, and a clean exit is true.

  Not modelled: the libraries behind the parameters (SHA-256, bzip2, tar, JSON, TOML, base64, URL
  and multipart parsing, the HTTP client but for its redirects, axum but for its routing of methods, tonic, clap),
  the memory layout of the C structures, the scheduling of the async runtime, the exclusion of other processes
  by the setup lock, aborting the future of \<open>serve\<close> (which drops a drain in progress; its guard is
  part of \<open>Shutdown\<close>), and an instant that overflows, where \<open>serve\<close> panics before the drain starts.
  In \<open>Sherpa_Threads\<close> a poisoned mutex stays poisoned and none becomes so, as no panic is modelled.
  The test kit, the protocol crate's wire types, scripts and packaging carry no logic of their own.
\<close>

end
